(* ===== verification/Zk_Prelude.thy ===== *)
theory Zk_Prelude
  imports Main "HOL-Library.Word" "HOL-Library.Multiset"
begin

text \<open>
  Shared vocabulary of the development: the machine types of the C and C++ sources, the value of
  an execution that may be undefined, C strings, the error codes of
  \<^verbatim>\<open>3party/zookeeper-client-c/include/zookeeper.h\<close>, and the generic lemmas on lists, maps and
  words that the component theories use.
\<close>

unbundle bit_operations_syntax

section \<open>Machine types\<close>

type_synonym byte = "8 word"
type_synonym u32 = "32 word"
type_synonym i32 = "32 word"
type_synonym i64 = "64 word"

text \<open>
  An address: a function pointer or a \<^verbatim>\<open>void*\<close> of the source, of which the code only asks whether
  it is NULL (0) and whether it equals another one.
\<close>

type_synonym addr = nat

abbreviation (input) NULL :: addr where
  "NULL \<equiv> 0"

text \<open>
  The outcome of running a piece of C: undefined behaviour (a read or write through a bad pointer,
  signed overflow, a failed \<^verbatim>\<open>assert\<close>) or a result.
\<close>

datatype 'a exec = UB | Ret 'a

fun bind_exec :: "'a exec \<Rightarrow> ('a \<Rightarrow> 'b exec) \<Rightarrow> 'b exec" where
  "bind_exec UB f = UB"
| "bind_exec (Ret x) f = f x"

named_theorems wf_intros \<open>well-formedness preserved by an operation\<close>
named_theorems abs_simps \<open>effect of an operation on the abstract value of its state\<close>

lemma bind_exec_Ret_iff [simp]:
  "bind_exec m f = Ret y \<longleftrightarrow> (\<exists>x. m = Ret x \<and> f x = Ret y)"
  by (cases m) auto

section \<open>C strings\<close>

text \<open>
  A C string is the characters before its terminating NUL. The model keeps it as a \<^typ>\<open>string\<close>
  without NUL characters; \<^verbatim>\<open>cstr\<close> is what C reads from a run of characters.
\<close>

definition NUL :: char where
  "NUL = CHR 0x00"

definition cstr :: "char list \<Rightarrow> string" where
  "cstr s = takeWhile (\<lambda>c. c \<noteq> NUL) s"

definition is_cstr :: "string \<Rightarrow> bool" where
  "is_cstr s = list_all (\<lambda>c. c \<noteq> NUL) s"

definition bytes_of_string :: "string \<Rightarrow> byte list" where
  "bytes_of_string s = map (\<lambda>c. word_of_nat (of_char c)) s"

definition string_of_bytes :: "byte list \<Rightarrow> string" where
  "string_of_bytes bs = map (\<lambda>b. char_of (unat b)) bs"

lemma cstr_ident [simp]: "is_cstr s \<Longrightarrow> cstr s = s"
  by (simp add: cstr_def is_cstr_def list_all_iff takeWhile_eq_all_conv)

lemma cstr_append_NUL [simp]: "is_cstr s \<Longrightarrow> cstr (s @ NUL # t) = s"
  by (induction s) (auto simp: cstr_def is_cstr_def)

lemma is_cstr_simps [simp]:
  "is_cstr []" "is_cstr (c # s) \<longleftrightarrow> c \<noteq> NUL \<and> is_cstr s"
  "is_cstr (s @ t) \<longleftrightarrow> is_cstr s \<and> is_cstr t"
  by (simp_all add: is_cstr_def)

lemma is_cstr_cstr [simp]: "is_cstr (cstr s)"
  by (auto simp: is_cstr_def cstr_def list_all_iff dest: set_takeWhileD)

lemma of_char_less_256: "of_char c < (256 :: nat)"
  by (cases c) (simp add: of_char_def horner_sum_simps split: if_splits)

lemma char_of_byte [simp]: "char_of (unat (word_of_nat (of_char c) :: byte)) = c"
  by (simp add: unat_of_nat of_char_less_256)

lemma string_of_bytes_of_string [simp]: "string_of_bytes (bytes_of_string s) = s"
  by (simp add: string_of_bytes_def bytes_of_string_def comp_def)

lemma length_bytes_of_string [simp]: "length (bytes_of_string s) = length s"
  by (simp add: bytes_of_string_def)

lemma bytes_of_string_simps [simp]:
  "bytes_of_string [] = []"
  "bytes_of_string (s @ t) = bytes_of_string s @ bytes_of_string t"
  by (simp_all add: bytes_of_string_def)

section \<open>Lists of lists\<close>

lemma mset_concat_update:
  "i < length xs \<Longrightarrow> mset (concat (xs[i := ys])) + mset (xs ! i) = mset (concat xs) + mset ys"
proof (induction xs arbitrary: i)
  case (Cons x xs)
  then show ?case by (cases i) (auto simp: ac_simps)
qed simp

lemma mset_concat_push:
  "i < length xs \<Longrightarrow> mset (concat (xs[i := e # xs ! i])) = add_mset e (mset (concat xs))"
  using mset_concat_update [of i xs "e # xs ! i"] by (simp add: union_iff)

lemma set_concat_conv: "e \<in> set (concat xs) \<longleftrightarrow> (\<exists>i < length xs. e \<in> set (xs ! i))"
  by (simp add: Bex_def) (metis in_set_conv_nth)

lemma mset_eq_distinct_map_of:
  assumes "mset xs = mset ys" "distinct (map fst xs)"
  shows "map_of xs = map_of ys"
proof -
  have "mset (map fst ys) = mset (map fst xs)"
    using assms(1) by (simp add: mset_map)
  then have "distinct (map fst ys)"
    using assms(2) mset_eq_imp_distinct_iff by blast
  moreover have "set xs = set ys"
    using assms(1) by (metis set_mset_mset)
  ultimately show ?thesis
    using assms(2) map_of_inject_set by blast
qed

lemma count_list_distinct: "distinct xs \<Longrightarrow> x \<in> set xs \<Longrightarrow> count_list xs x = 1"
  by (induction xs) (auto simp: count_list_0_iff)

section \<open>Machine integers\<close>

lemma sint_i32_of_int: "- (2 ^ 31) \<le> k \<Longrightarrow> k < 2 ^ 31 \<Longrightarrow> sint (word_of_int k :: i32) = k"
  by (simp only: sint_sbintrunc') (simp add: signed_take_bit_int_eq_self)

lemma sint_i64_of_int: "- (2 ^ 63) \<le> k \<Longrightarrow> k < 2 ^ 63 \<Longrightarrow> sint (word_of_int k :: i64) = k"
  by (simp only: sint_sbintrunc') (simp add: signed_take_bit_int_eq_self)

lemma unat_lt: "unat (w :: 'a :: len word) < 2 ^ LENGTH('a)"
  by (rule unsigned_less)

lemma sint_i32_of_nat: "n < 2 ^ 31 \<Longrightarrow> sint (word_of_nat n :: i32) = int n"
  using sint_i32_of_int [of "int n"] by simp

end
