(* ===== verification/Hashtable.thy ===== *)
theory Hashtable
  imports Zk_Prelude
begin

text \<open>
  The chained hash table of \<^verbatim>\<open>3party/zookeeper-client-c/src/hashtable/hashtable.c\<close> and its iterator
  (\<^verbatim>\<open>hashtable_itr.c\<close>). A chain (\<^verbatim>\<open>struct entry\<close> linked by \<^verbatim>\<open>next\<close>) is a list, head first; the table
  is the list of its chains. Each allocation site has a flag that says whether the allocation
  succeeds there, so every out-of-memory path of the source is a branch of the model. The fallback
  of \<^verbatim>\<open>hashtable_expand\<close> when \<^verbatim>\<open>malloc\<close> fails and \<^verbatim>\<open>realloc\<close> succeeds clears memory through an
  uninitialised pointer (\<^verbatim>\<open>memset(newtable[h->tablelength], ...)\<close>): its outcome is \<^verbatim>\<open>UB\<close>.

  The lemmas show that every operation keeps the table well formed (each entry in the chain its
  hash selects, no key twice, the count right) and refine the operations to a finite map; the
  locale \<^verbatim>\<open>keyed_store\<close> is the interface the watcher tables rely on.
\<close>

section \<open>Data\<close>

record ('k, 'v) entry =
  ek :: 'k
  ev :: 'v
  eh :: u32

record ('k, 'v) hashtable =
  tablelength :: u32
  table :: "('k, 'v) entry list list"
  entrycount :: u32
  loadlimit :: u32
  primeindex :: u32
  hashfn :: "'k \<Rightarrow> u32"
  eqfn :: "'k \<Rightarrow> 'k \<Rightarrow> bool"

definition primes :: "u32 list" where
  "primes = [53, 97, 193, 389, 769, 1543, 3079, 6151, 12289, 24593, 49157, 98317, 196613,
     393241, 786433, 1572869, 3145739, 6291469, 12582917, 25165843, 50331653, 100663319,
     201326611, 402653189, 805306457, 1610612741]"

definition prime_table_length :: u32 where
  "prime_table_length = word_of_nat (length primes)"

text \<open>
  The load limit is \<^verbatim>\<open>(unsigned int) ceil(size * max_load_factor)\<close> in single precision:
  \<^verbatim>\<open>max_load_factor = 0.65\<close> is the float 10905190 / 2^24, and the conversion of \<^verbatim>\<open>size\<close> and the product
  round to 24 significant bits, ties to even.
\<close>

function bit_len :: "int \<Rightarrow> nat" where
  "bit_len n = (if n \<le> 0 then 0 else Suc (bit_len (n div 2)))"
  by pat_completeness auto
termination
  by (relation "measure nat") auto

declare bit_len.simps [simp del]

definition f32_round :: "int \<Rightarrow> int" where
  "f32_round n = (let s = bit_len n - 24; q = n div 2 ^ s; r = n mod 2 ^ s in
     if 2 * r > 2 ^ s \<or> (2 * r = 2 ^ s \<and> odd q) then (q + 1) * 2 ^ s else q * 2 ^ s)"

definition max_load_factor :: int where
  "max_load_factor = 10905190"

definition load_limit :: "u32 \<Rightarrow> u32" where
  "load_limit sz =
     (let p = f32_round (f32_round (uint sz) * max_load_factor)
      in word_of_int ((p + (2 ^ 24 - 1)) div 2 ^ 24))"

section \<open>Operations\<close>

text \<open>The loop that picks the first prime above \<^verbatim>\<open>minsize\<close> (the first prime if there is none).\<close>

fun pick_prime :: "u32 list \<Rightarrow> u32 \<Rightarrow> u32 \<Rightarrow> u32 \<times> u32" where
  "pick_prime [] pindex minsize = (pindex, primes ! 0)"
| "pick_prime (p # ps) pindex minsize =
     (if p > minsize then (pindex, p) else pick_prime ps (pindex + 1) minsize)"

definition create_hashtable ::
  "bool \<Rightarrow> bool \<Rightarrow> u32 \<Rightarrow> ('k \<Rightarrow> u32) \<Rightarrow> ('k \<Rightarrow> 'k \<Rightarrow> bool) \<Rightarrow> ('k, 'v) hashtable option" where
  "create_hashtable head_ok table_ok minsize hashf eqf =
     (if minsize > push_bit 30 1 then None
      else let (pindex, sz) = pick_prime primes 0 minsize in
        if \<not> head_ok then None
        else if \<not> table_ok then None
        else Some \<lparr> tablelength = sz, table = replicate (unat sz) [], entrycount = 0,
                    loadlimit = load_limit sz, primeindex = pindex,
                    hashfn = hashf, eqfn = eqf \<rparr>)"

definition hash_mix :: "u32 \<Rightarrow> u32" where
  "hash_mix i0 =
     (let i1 = i0 + NOT (push_bit 9 i0);
          i2 = i1 XOR (drop_bit 14 i1 OR push_bit 18 i1);
          i3 = i2 + push_bit 4 i2;
          i4 = i3 XOR (drop_bit 10 i3 OR push_bit 22 i3)
      in i4)"

definition hash :: "('k, 'v) hashtable \<Rightarrow> 'k \<Rightarrow> u32" where
  "hash h k = hash_mix (hashfn h k)"

definition indexFor :: "u32 \<Rightarrow> u32 \<Rightarrow> u32" where
  "indexFor tlen hv = hv mod tlen"

fun expand_chain ::
  "u32 \<Rightarrow> ('k, 'v) entry list \<Rightarrow> ('k, 'v) entry list list \<Rightarrow> ('k, 'v) entry list list" where
  "expand_chain newsize [] newtable = newtable"
| "expand_chain newsize (e # es) newtable =
     (let index = unat (indexFor newsize (eh e))
      in expand_chain newsize es (newtable[index := e # newtable ! index]))"

fun expand_chains ::
  "u32 \<Rightarrow> ('k, 'v) entry list list \<Rightarrow> ('k, 'v) entry list list \<Rightarrow> ('k, 'v) entry list list" where
  "expand_chains newsize [] newtable = newtable"
| "expand_chains newsize (c # cs) newtable =
     expand_chains newsize cs (expand_chain newsize c newtable)"

definition hashtable_expand ::
  "bool \<Rightarrow> bool \<Rightarrow> ('k, 'v) hashtable \<Rightarrow> (int \<times> ('k, 'v) hashtable) exec" where
  "hashtable_expand malloc_ok realloc_ok h =
     (if primeindex h = prime_table_length - 1 then Ret (0, h)
      else let pindex = primeindex h + 1; newsize = primes ! unat pindex in
        if malloc_ok then
          Ret (-1, h\<lparr> primeindex := pindex,
                      table := expand_chains newsize (take (unat (tablelength h)) (table h))
                                 (replicate (unat newsize) []),
                      tablelength := newsize, loadlimit := load_limit newsize \<rparr>)
        else if \<not> realloc_ok then Ret (0, h\<lparr> primeindex := pindex - 1 \<rparr>)
        else UB)"

definition hashtable_count :: "('k, 'v) hashtable \<Rightarrow> u32" where
  "hashtable_count h = entrycount h"

definition hashtable_insert ::
  "bool \<Rightarrow> bool \<Rightarrow> bool \<Rightarrow> ('k, 'v) hashtable \<Rightarrow> 'k \<Rightarrow> 'v \<Rightarrow> (int \<times> ('k, 'v) hashtable) exec" where
  "hashtable_insert malloc_ok realloc_ok entry_ok h0 k v =
     (let h1 = h0\<lparr> entrycount := entrycount h0 + 1 \<rparr> in
      bind_exec (if entrycount h1 > loadlimit h1 then hashtable_expand malloc_ok realloc_ok h1
                 else Ret (0, h1))
       (\<lambda>(_, h2).
          if \<not> entry_ok then Ret (0, h2\<lparr> entrycount := entrycount h2 - 1 \<rparr>)
          else let hv = hash h2 k; index = unat (indexFor (tablelength h2) hv);
                   e = \<lparr> ek = k, ev = v, eh = hv \<rparr>
               in Ret (-1, h2\<lparr> table := (table h2)[index := e # table h2 ! index] \<rparr>)))"

fun search_chain :: "u32 \<Rightarrow> ('k \<Rightarrow> 'k \<Rightarrow> bool) \<Rightarrow> 'k \<Rightarrow> ('k, 'v) entry list \<Rightarrow> 'v option" where
  "search_chain hv eq k [] = None"
| "search_chain hv eq k (e # es) =
     (if hv = eh e \<and> eq k (ek e) then Some (ev e) else search_chain hv eq k es)"

definition hashtable_search :: "('k, 'v) hashtable \<Rightarrow> 'k \<Rightarrow> 'v option" where
  "hashtable_search h k =
     (let hv = hash h k in
      search_chain hv (eqfn h) k (table h ! unat (indexFor (tablelength h) hv)))"

fun remove_chain ::
  "u32 \<Rightarrow> ('k \<Rightarrow> 'k \<Rightarrow> bool) \<Rightarrow> 'k \<Rightarrow> ('k, 'v) entry list \<Rightarrow> ('v \<times> ('k, 'v) entry list) option" where
  "remove_chain hv eq k [] = None"
| "remove_chain hv eq k (e # es) =
     (if hv = eh e \<and> eq k (ek e) then Some (ev e, es)
      else map_option (\<lambda>(v, es'). (v, e # es')) (remove_chain hv eq k es))"

definition hashtable_remove :: "('k, 'v) hashtable \<Rightarrow> 'k \<Rightarrow> 'v option \<times> ('k, 'v) hashtable" where
  "hashtable_remove h k =
     (let hv = hash h k; index = unat (indexFor (tablelength h) hv) in
      case remove_chain hv (eqfn h) k (table h ! index) of
        None \<Rightarrow> (None, h)
      | Some (v, es) \<Rightarrow>
          (Some v, h\<lparr> table := (table h)[index := es], entrycount := entrycount h - 1 \<rparr>))"

text \<open>
  The write through the value pointer that \<^verbatim>\<open>hashtable_search\<close> returned: the clients update the
  object a key maps to in place.
\<close>

fun modify_chain ::
  "u32 \<Rightarrow> ('k \<Rightarrow> 'k \<Rightarrow> bool) \<Rightarrow> 'k \<Rightarrow> ('v \<Rightarrow> 'v) \<Rightarrow> ('k, 'v) entry list \<Rightarrow> ('k, 'v) entry list" where
  "modify_chain hv eq k f [] = []"
| "modify_chain hv eq k f (e # es) =
     (if hv = eh e \<and> eq k (ek e) then e\<lparr> ev := f (ev e) \<rparr> # es
      else e # modify_chain hv eq k f es)"

definition hashtable_modify :: "('k, 'v) hashtable \<Rightarrow> 'k \<Rightarrow> ('v \<Rightarrow> 'v) \<Rightarrow> ('k, 'v) hashtable" where
  "hashtable_modify h k f =
     (let hv = hash h k; index = unat (indexFor (tablelength h) hv) in
      h\<lparr> table := (table h)[index := modify_chain hv (eqfn h) k f (table h ! index)] \<rparr>)"

text \<open>\<^verbatim>\<open>hashtable_destroy\<close> returns the keys and the values it frees, in the order it frees them.\<close>

definition hashtable_destroy :: "('k, 'v) hashtable \<Rightarrow> bool \<Rightarrow> 'k list \<times> 'v list" where
  "hashtable_destroy h free_values =
     (let es = concat (take (unat (tablelength h)) (table h)) in
      (map ek es, if free_values then map ev es else []))"

section \<open>The iterator\<close>

text \<open>
  \<^verbatim>\<open>itr_e\<close> and \<^verbatim>\<open>itr_parent\<close> are the entry and parent pointers as positions in the chain at
  \<^verbatim>\<open>itr_index\<close> (\<^verbatim>\<open>None\<close> for NULL). The table itself is passed along.
\<close>

record hashtable_itr =
  itr_index :: nat
  itr_e :: "nat option"
  itr_parent :: "nat option"

fun first_chain :: "('k, 'v) entry list list \<Rightarrow> nat \<Rightarrow> nat option" where
  "first_chain [] i = None"
| "first_chain (c # cs) i = (if c \<noteq> [] then Some i else first_chain cs (Suc i))"

definition hashtable_iterator :: "bool \<Rightarrow> ('k, 'v) hashtable \<Rightarrow> hashtable_itr option" where
  "hashtable_iterator malloc_ok h =
     (if \<not> malloc_ok then None
      else let itr = \<lparr> itr_index = unat (tablelength h), itr_e = None, itr_parent = None \<rparr> in
        if entrycount h = 0 then Some itr
        else case first_chain (take (unat (tablelength h)) (table h)) 0 of
               None \<Rightarrow> Some itr
             | Some i \<Rightarrow> Some (itr\<lparr> itr_e := Some 0, itr_index := i \<rparr>))"

text \<open>The part of \<^verbatim>\<open>hashtable_iterator_advance\<close> that leaves an exhausted chain.\<close>

definition itr_next_chain :: "('k, 'v) hashtable \<Rightarrow> hashtable_itr \<Rightarrow> int \<times> hashtable_itr" where
  "itr_next_chain h itr =
     (let j = Suc (itr_index itr); itr' = itr\<lparr> itr_parent := None, itr_index := j \<rparr> in
      if unat (tablelength h) \<le> j then (0, itr'\<lparr> itr_e := None \<rparr>)
      else case first_chain (drop j (take (unat (tablelength h)) (table h))) j of
             None \<Rightarrow> (0, itr'\<lparr> itr_index := unat (tablelength h), itr_e := None \<rparr>)
           | Some i \<Rightarrow> (-1, itr'\<lparr> itr_index := i, itr_e := Some 0 \<rparr>))"

definition hashtable_iterator_advance ::
  "('k, 'v) hashtable \<Rightarrow> hashtable_itr \<Rightarrow> int \<times> hashtable_itr" where
  "hashtable_iterator_advance h itr =
     (case itr_e itr of
        None \<Rightarrow> (0, itr)
      | Some p \<Rightarrow>
          if Suc p < length (table h ! itr_index itr)
          then (-1, itr\<lparr> itr_parent := Some p, itr_e := Some (Suc p) \<rparr>)
          else itr_next_chain h itr)"

text \<open>
  \<^verbatim>\<open>hashtable_iterator_remove\<close>: when the removed entry has a successor, that successor takes its
  position in the shortened chain and the parent stays the one the removed entry had; with no
  current entry the source dereferences NULL.
\<close>

definition hashtable_iterator_remove ::
  "('k, 'v) hashtable \<Rightarrow> hashtable_itr \<Rightarrow> (int \<times> hashtable_itr \<times> ('k, 'v) hashtable) exec" where
  "hashtable_iterator_remove h itr =
     (case itr_e itr of
        None \<Rightarrow> UB
      | Some p \<Rightarrow>
          let i = itr_index itr; c = table h ! i;
              h' = h\<lparr> table := (table h)[i := take p c @ drop (Suc p) c],
                      entrycount := entrycount h - 1 \<rparr>
          in if Suc p < length c then Ret (-1, itr, h')
             else let (ret, itr') = itr_next_chain h' itr in Ret (ret, itr', h'))"

definition itr_entry :: "('k, 'v) hashtable \<Rightarrow> hashtable_itr \<Rightarrow> ('k, 'v) entry option" where
  "itr_entry h itr = map_option (\<lambda>p. table h ! itr_index itr ! p) (itr_e itr)"

fun search_pos :: "u32 \<Rightarrow> ('k \<Rightarrow> 'k \<Rightarrow> bool) \<Rightarrow> 'k \<Rightarrow> ('k, 'v) entry list \<Rightarrow> nat \<Rightarrow> nat option" where
  "search_pos hv eq k [] p = None"
| "search_pos hv eq k (e # es) p =
     (if hv = eh e \<and> eq k (ek e) then Some p else search_pos hv eq k es (Suc p))"

definition hashtable_iterator_search ::
  "hashtable_itr \<Rightarrow> ('k, 'v) hashtable \<Rightarrow> 'k \<Rightarrow> int \<times> hashtable_itr" where
  "hashtable_iterator_search itr h k =
     (let hv = hash h k; index = unat (indexFor (tablelength h) hv) in
      case search_pos hv (eqfn h) k (table h ! index) 0 of
        None \<Rightarrow> (0, itr)
      | Some p \<Rightarrow> (-1, itr\<lparr> itr_index := index, itr_e := Some p,
                            itr_parent := (if p = 0 then None else Some (p - 1)) \<rparr>))"

section \<open>Well-formedness and the abstract map\<close>

abbreviation entries :: "('k, 'v) hashtable \<Rightarrow> ('k, 'v) entry list" where
  "entries h \<equiv> concat (table h)"

abbreviation slot :: "('k, 'v) hashtable \<Rightarrow> 'k \<Rightarrow> nat" where
  "slot h k \<equiv> unat (indexFor (tablelength h) (hash h k))"

definition ht_shape :: "('k, 'v) hashtable \<Rightarrow> bool" where
  "ht_shape h \<longleftrightarrow>
     unat (primeindex h) < length primes \<and>
     tablelength h = primes ! unat (primeindex h) \<and>
     length (table h) = unat (tablelength h) \<and>
     (\<forall>i < length (table h). \<forall>e \<in> set (table h ! i). eh e = hash h (ek e) \<and> slot h (ek e) = i) \<and>
     distinct (map ek (entries h))"

definition ht_wf :: "('k, 'v) hashtable \<Rightarrow> bool" where
  "ht_wf h \<longleftrightarrow> ht_shape h \<and> unat (entrycount h) = length (entries h)"

text \<open>The equality callback decides equality of keys.\<close>

definition eq_ok :: "('k, 'v) hashtable \<Rightarrow> bool" where
  "eq_ok h \<longleftrightarrow> (\<forall>a b. eqfn h a b \<longleftrightarrow> a = b)"

definition ht_map :: "('k, 'v) hashtable \<Rightarrow> ('k \<rightharpoonup> 'v)" where
  "ht_map h = map_of (map (\<lambda>e. (ek e, ev e)) (entries h))"

definition ht_room :: "('k, 'v) hashtable \<Rightarrow> bool" where
  "ht_room h \<longleftrightarrow> length (entries h) < 2 ^ 32 - 1"

lemma primes_pos: "i < length primes \<Longrightarrow> 0 < unat (primes ! i)"
  by (simp add: primes_def nth_Cons' split: if_splits)

lemma length_primes: "length primes = 26"
  by (simp add: primes_def)

lemma prime_table_length_eq: "prime_table_length = 26"
  by (simp add: prime_table_length_def length_primes)

lemma indexFor_less: "0 < unat n \<Longrightarrow> unat (indexFor n x) < unat n"
  by (simp add: indexFor_def unat_mod)

lemma ht_shape_lengths:
  assumes "ht_shape h"
  shows "0 < unat (tablelength h)" "length (table h) = unat (tablelength h)"
  using assms primes_pos by (auto simp: ht_shape_def)

lemma slot_less: "ht_shape h \<Longrightarrow> slot h k < length (table h)"
  using ht_shape_lengths [of h] indexFor_less by metis

lemma slot_fields [simp]:
  "slot (h\<lparr>table := t\<rparr>) k = slot h k" "slot (h\<lparr>entrycount := n\<rparr>) k = slot h k"
  "hash (h\<lparr>table := t\<rparr>) k = hash h k" "hash (h\<lparr>entrycount := n\<rparr>) k = hash h k"
  "hash (h\<lparr>primeindex := p\<rparr>) k = hash h k" "hash (h\<lparr>tablelength := p\<rparr>) k = hash h k"
  "hash (h\<lparr>loadlimit := p\<rparr>) k = hash h k"
  by (simp_all add: hash_def)

lemma entry_in_slot:
  assumes "ht_shape h" "e \<in> set (entries h)"
  shows "e \<in> set (table h ! slot h (ek e))" "eh e = hash h (ek e)"
  using assms by (auto simp: ht_shape_def set_concat_conv simp del: set_concat)

lemma slot_entry:
  "ht_shape h \<Longrightarrow> e \<in> set (table h ! slot h k) \<Longrightarrow> e \<in> set (entries h)"
  using slot_less [of h k] by (auto simp: set_concat_conv simp del: set_concat)

lemma entries_key_inj:
  assumes "ht_shape h" "e \<in> set (entries h)" "e' \<in> set (entries h)" "ek e = ek e'"
  shows "e = e'"
  using assms by (metis ht_shape_def distinct_map inj_onD)

lemma ht_map_Some:
  assumes "ht_shape h"
  shows "ht_map h k = Some v \<longleftrightarrow> (\<exists>e \<in> set (entries h). ek e = k \<and> ev e = v)"
proof -
  have "map fst (map (\<lambda>e. (ek e, ev e)) (entries h)) = map ek (entries h)"
    by (simp add: comp_def)
  then have "distinct (map fst (map (\<lambda>e. (ek e, ev e)) (entries h)))"
    using assms by (metis ht_shape_def)
  then have "ht_map h k = Some v \<longleftrightarrow> (k, v) \<in> set (map (\<lambda>e. (ek e, ev e)) (entries h))"
    unfolding ht_map_def by (simp only: map_of_eq_Some_iff)
  then show ?thesis by auto
qed

lemma ht_map_None: "ht_map h k = None \<longleftrightarrow> k \<notin> ek ` set (entries h)"
  by (auto simp: ht_map_def map_of_eq_None_iff image_image)

lemma dom_ht_map: "dom (ht_map h) = ek ` set (entries h)"
  using ht_map_None [of h] by (auto simp: dom_def)

lemma search_chain_Some:
  assumes "\<And>a b. eq a b \<longleftrightarrow> a = b" "inj_on ek (set c)" "\<And>e. e \<in> set c \<Longrightarrow> ek e = k \<Longrightarrow> eh e = hv"
  shows "search_chain hv eq k c = Some v \<longleftrightarrow> (\<exists>e \<in> set c. ek e = k \<and> ev e = v)"
  using assms(2,3)
proof (induction c)
  case (Cons e es)
  then show ?case
    by (auto simp: assms(1) inj_on_def)
qed simp

lemma hashtable_search_refines [abs_simps]:
  assumes "ht_shape h" "eq_ok h"
  shows "hashtable_search h k = ht_map h k"
proof -
  have inj: "inj_on ek (set (table h ! slot h k))"
    using entries_key_inj [OF assms(1)] slot_entry [OF assms(1)] by (meson inj_onI)
  have hv: "eh e = hash h k" if "e \<in> set (table h ! slot h k)" "ek e = k" for e
    using that entry_in_slot(2) [OF assms(1) slot_entry [OF assms(1)]] by metis
  have "hashtable_search h k = Some v \<longleftrightarrow> ht_map h k = Some v" for v
  proof -
    have "hashtable_search h k = Some v \<longleftrightarrow> (\<exists>e \<in> set (table h ! slot h k). ek e = k \<and> ev e = v)"
      using search_chain_Some [OF _ inj hv] assms(2)
      by (simp add: hashtable_search_def eq_ok_def Let_def)
    then show ?thesis
      using ht_map_Some [OF assms(1)] slot_entry [OF assms(1)] entry_in_slot(1) [OF assms(1)]
      by metis
  qed
  then show ?thesis
    by (metis not_Some_eq)
qed

section \<open>Creation\<close>

lemma pick_prime_found:
  assumes "pick_prime ps n m = (i, p)" "\<exists>q \<in> set ps. q > m" "unat n + length ps < 2 ^ 32"
  shows "p > m \<and> unat n \<le> unat i \<and> unat i < unat n + length ps \<and> ps ! (unat i - unat n) = p"
  using assms
proof (induction ps arbitrary: n)
  case (Cons q qs)
  show ?case
  proof (cases "q > m")
    case True
    then show ?thesis using Cons.prems by auto
  next
    case False
    have n1: "unat (n + 1) = Suc (unat n)"
      using Cons.prems(3) by (simp add: unat_word_ariths)
    have "p > m \<and> Suc (unat n) \<le> unat i \<and> unat i < Suc (unat n) + length qs \<and>
        qs ! (unat i - Suc (unat n)) = p"
      using Cons.IH [of "n + 1"] Cons.prems False n1 by auto
    then show ?thesis
      by (auto simp: nth_Cons' Suc_diff_Suc)
  qed
qed simp

lemma create_hashtable_spec:
  assumes "create_hashtable hok tok minsize hf ef = Some h"
  shows "ht_wf h" "minsize < tablelength h" "ht_map h = Map.empty" "hashfn h = hf" "eqfn h = ef"
    "entries h = []"
proof -
  obtain i p where ip: "pick_prime primes 0 minsize = (i, p)"
    by fastforce
  have le: "\<not> minsize > push_bit 30 1"
    using assms by (simp add: create_hashtable_def split: if_splits)
  have "1610612741 \<in> set primes" "(1610612741 :: u32) > minsize"
    using le by (auto simp: primes_def push_bit_eq_mult not_less intro: le_less_trans)
  then have p: "p > minsize" "unat i < length primes" "primes ! unat i = p"
    using pick_prime_found [OF ip] by (auto simp: length_primes)
  have h: "h = \<lparr> tablelength = p, table = replicate (unat p) [], entrycount = 0,
                 loadlimit = load_limit p, primeindex = i, hashfn = hf, eqfn = ef \<rparr>"
    using assms by (simp add: create_hashtable_def ip split: if_splits)
  show "ht_wf h" "minsize < tablelength h" "ht_map h = Map.empty" "hashfn h = hf" "eqfn h = ef"
      "entries h = []"
    using p by (simp_all add: h ht_wf_def ht_shape_def ht_map_def)
qed

section \<open>Expansion\<close>

definition chains_ok :: "u32 \<Rightarrow> ('k, 'v) entry list list \<Rightarrow> bool" where
  "chains_ok n t \<longleftrightarrow> length t = unat n \<and>
     (\<forall>i < length t. \<forall>e \<in> set (t ! i). unat (indexFor n (eh e)) = i)"

lemma expand_chain_ok:
  assumes "0 < unat n" "chains_ok n t"
  shows "chains_ok n (expand_chain n c t) \<and>
         mset (concat (expand_chain n c t)) = mset c + mset (concat t)"
  using assms(2)
proof (induction c arbitrary: t)
  case (Cons e es)
  let ?i = "unat (indexFor n (eh e))"
  let ?t = "t[?i := e # t ! ?i]"
  have i: "?i < length t"
    using indexFor_less [OF assms(1)] Cons.prems by (simp add: chains_ok_def)
  have "chains_ok n ?t"
    using Cons.prems i by (auto simp: chains_ok_def nth_list_update)
  then have "chains_ok n (expand_chain n es ?t) \<and>
      mset (concat (expand_chain n es ?t)) = mset es + mset (concat ?t)"
    by (rule Cons.IH)
  then show ?case
    using mset_concat_push [OF i] by (simp add: Let_def)
qed simp

lemma expand_chains_ok:
  assumes "0 < unat n" "chains_ok n t"
  shows "chains_ok n (expand_chains n cs t) \<and>
         mset (concat (expand_chains n cs t)) = mset (concat cs) + mset (concat t)"
  using assms(2)
proof (induction cs arbitrary: t)
  case (Cons c cs)
  then show ?case
    using expand_chain_ok [OF assms(1) Cons.prems, of c] by (simp add: ac_simps)
qed simp

lemma ht_map_mset:
  assumes "ht_shape h" "mset (entries h') = mset (entries h)"
  shows "ht_map h' = ht_map h"
proof -
  have "mset (map (\<lambda>e. (ek e, ev e)) (entries h)) = mset (map (\<lambda>e. (ek e, ev e)) (entries h'))"
    using assms(2) by (simp add: mset_map)
  moreover have "distinct (map fst (map (\<lambda>e. (ek e, ev e)) (entries h)))"
    using assms(1) by (simp add: ht_shape_def comp_def)
  ultimately show ?thesis
    unfolding ht_map_def by (rule mset_eq_distinct_map_of [symmetric])
qed

abbreviation expanded :: "('k, 'v) hashtable \<Rightarrow> ('k, 'v) hashtable" where
  "expanded h \<equiv> (let n = primes ! unat (primeindex h + 1) in
     h\<lparr> primeindex := primeindex h + 1,
        table := expand_chains n (take (unat (tablelength h)) (table h)) (replicate (unat n) []),
        tablelength := n, loadlimit := load_limit n \<rparr>)"

lemma hashtable_expand_cases:
  assumes "hashtable_expand mok rok h = Ret (rc, h')"
  obtains "rc = 0" "h' = h"
  | "rc = -1" "h' = expanded h" "primeindex h \<noteq> prime_table_length - 1"
  using assms by (auto simp: hashtable_expand_def Let_def split: if_splits)

lemma primes_strict_mono: "Suc i < length primes \<Longrightarrow> primes ! i < primes ! Suc i"
proof -
  have "sorted_wrt (<) primes" by (simp add: primes_def)
  then show "Suc i < length primes \<Longrightarrow> primes ! i < primes ! Suc i"
    by (simp add: sorted_wrt_nth_less)
qed

lemma next_prime:
  assumes "ht_shape h" "primeindex h \<noteq> prime_table_length - 1"
  shows "unat (primeindex h + 1) = Suc (unat (primeindex h))" "Suc (unat (primeindex h)) < length primes"
proof -
  have lt: "unat (primeindex h) < 26"
    using assms(1) by (simp add: ht_shape_def length_primes)
  have "unat (primeindex h) \<noteq> 25"
  proof
    assume "unat (primeindex h) = 25"
    then have "primeindex h = 25" by (simp add: word_unat_eq_iff)
    then show False using assms(2) by (simp add: prime_table_length_eq)
  qed
  then show "Suc (unat (primeindex h)) < length primes"
    using lt by (simp add: length_primes)
  show "unat (primeindex h + 1) = Suc (unat (primeindex h))"
    using lt by (simp add: unat_word_ariths)
qed

lemma ht_shape_expanded:
  assumes "ht_shape h" "primeindex h \<noteq> prime_table_length - 1"
  shows "ht_shape (expanded h)" "mset (entries (expanded h)) = mset (entries h)"
    "tablelength h < tablelength (expanded h)"
proof -
  let ?n = "primes ! unat (primeindex h + 1)"
  let ?t = "expand_chains ?n (take (unat (tablelength h)) (table h)) (replicate (unat ?n) [])"
  note np = next_prime [OF assms]
  have n: "0 < unat ?n" using np primes_pos by simp
  have "chains_ok ?n (replicate (unat ?n) [])"
    by (simp add: chains_ok_def)
  note ok = expand_chains_ok [OF n this, of "take (unat (tablelength h)) (table h)"]
  have ms: "mset (concat ?t) = mset (entries h)"
    using ok assms(1) by (simp add: ht_shape_def)
  have hs: "eh e = hash h (ek e)" if "e \<in> set (concat ?t)" for e
    using that ms entry_in_slot(2) [OF assms(1)] by (metis set_mset_mset)
  have "mset (map ek (concat ?t)) = mset (map ek (entries h))"
    using ms by (simp add: mset_map)
  then have "distinct (map ek (concat ?t))"
    using assms(1) mset_eq_imp_distinct_iff unfolding ht_shape_def by blast
  moreover have "\<forall>i < length ?t. \<forall>e \<in> set (?t ! i). eh e = hash h (ek e) \<and>
      unat (indexFor ?n (hash h (ek e))) = i"
    using ok hs unfolding chains_ok_def by (metis set_concat_conv)
  ultimately show "ht_shape (expanded h)"
    using np ok by (simp add: ht_shape_def chains_ok_def Let_def)
  show "mset (entries (expanded h)) = mset (entries h)"
    using ms by (simp add: Let_def)
  show "tablelength h < tablelength (expanded h)"
    using np primes_strict_mono assms(1) by (simp add: Let_def ht_shape_def)
qed

lemma hashtable_expand_spec:
  assumes "hashtable_expand mok rok h = Ret (rc, h')" "ht_shape h"
  shows "ht_shape h'" "mset (entries h') = mset (entries h)" "entrycount h' = entrycount h"
    "hashfn h' = hashfn h" "eqfn h' = eqfn h" "rc \<noteq> 0 \<longrightarrow> tablelength h < tablelength h'"
  using assms(1)
  by (rule hashtable_expand_cases; use assms(2) ht_shape_expanded [OF assms(2)] in \<open>simp add: Let_def\<close>)+

section \<open>Insertion, removal, update in place\<close>

lemma ht_shape_entrycount [simp]: "ht_shape (h\<lparr>entrycount := n\<rparr>) = ht_shape h"
  by (simp add: ht_shape_def)

lemma eq_ok_update [simp]:
  "eq_ok (h\<lparr>table := t\<rparr>) = eq_ok h" "eq_ok (h\<lparr>entrycount := n\<rparr>) = eq_ok h"
  by (simp_all add: eq_ok_def)

lemma ht_shape_replace_chain:
  assumes "ht_shape h" "i < length (table h)"
    "\<And>e. e \<in> set c \<Longrightarrow> eh e = hash h (ek e) \<and> slot h (ek e) = i"
    "distinct (map ek (concat ((table h)[i := c])))"
  shows "ht_shape (h\<lparr>table := (table h)[i := c]\<rparr>)"
  using assms by (auto simp: ht_shape_def nth_list_update)

lemma ht_map_add:
  assumes "ht_shape h1" "mset (entries h1) = add_mset e (mset (entries h2))"
  shows "ht_map h1 = (ht_map h2)(ek e \<mapsto> ev e)" "ek e \<notin> dom (ht_map h2)"
proof -
  have "mset (map (\<lambda>e. (ek e, ev e)) (entries h1)) = mset (map (\<lambda>e. (ek e, ev e)) (e # entries h2))"
    using assms(2) by (simp add: mset_map)
  moreover have "distinct (map fst (map (\<lambda>e. (ek e, ev e)) (entries h1)))"
    using assms(1) by (simp add: ht_shape_def comp_def)
  ultimately have "map_of (map (\<lambda>e. (ek e, ev e)) (entries h1)) = map_of (map (\<lambda>e. (ek e, ev e)) (e # entries h2))"
    by (rule mset_eq_distinct_map_of)
  then show "ht_map h1 = (ht_map h2)(ek e \<mapsto> ev e)" by (simp add: ht_map_def)
  have "mset (map ek (entries h1)) = mset (map ek (e # entries h2))"
    using assms(2) by (simp add: mset_map)
  then have "distinct (map ek (e # entries h2))"
    using assms(1) mset_eq_imp_distinct_iff unfolding ht_shape_def by blast
  then show "ek e \<notin> dom (ht_map h2)" by (auto simp: dom_ht_map)
qed

lemma push_entry:
  assumes "ht_shape h" "k \<notin> dom (ht_map h)"
    and h'_def: "h' = h\<lparr>table := (table h)[slot h k := \<lparr>ek = k, ev = v, eh = hash h k\<rparr> # table h ! slot h k]\<rparr>"
  shows "ht_shape h'" "mset (entries h') = add_mset \<lparr>ek = k, ev = v, eh = hash h k\<rparr> (mset (entries h))"
    "ht_map h' = (ht_map h)(k \<mapsto> v)"
proof -
  let ?e = "\<lparr>ek = k, ev = v, eh = hash h k\<rparr>"
  have i: "slot h k < length (table h)" by (rule slot_less [OF assms(1)])
  show ms: "mset (entries h') = add_mset ?e (mset (entries h))"
    using mset_concat_push [OF i] by (simp add: h'_def)
  then have "mset (map ek (entries h')) = mset (map ek (?e # entries h))"
    by (simp add: mset_map)
  moreover have "distinct (map ek (?e # entries h))"
    using assms(1,2) by (auto simp: ht_shape_def dom_ht_map)
  ultimately have "distinct (map ek (entries h'))"
    using mset_eq_imp_distinct_iff by blast
  then show sh: "ht_shape h'"
    unfolding h'_def using assms(1) i
    by (intro ht_shape_replace_chain) (auto simp: ht_shape_def)
  show "ht_map h' = (ht_map h)(k \<mapsto> v)"
    using ht_map_add [OF sh ms] by simp
qed

text \<open>The body of \<^verbatim>\<open>hashtable_insert\<close> after the count and the table have been adjusted.\<close>

lemma hashtable_insert_unfold:
  "hashtable_insert mok rok eok h k v = Ret (rc, h') \<longleftrightarrow>
   (\<exists>x h2. (if entrycount h + 1 > loadlimit h
            then hashtable_expand mok rok (h\<lparr>entrycount := entrycount h + 1\<rparr>)
            else Ret (0, h\<lparr>entrycount := entrycount h + 1\<rparr>)) = Ret (x, h2) \<and>
     (if \<not> eok then rc = 0 \<and> h' = h2\<lparr>entrycount := entrycount h2 - 1\<rparr>
      else rc = -1 \<and> h' = h2\<lparr>table := (table h2)[slot h2 k :=
             \<lparr>ek = k, ev = v, eh = hash h2 k\<rparr> # table h2 ! slot h2 k]\<rparr>))"
  by (auto simp: hashtable_insert_def Let_def)

lemma hashtable_insert_prepared:
  assumes "(if entrycount h + 1 > loadlimit h
            then hashtable_expand mok rok (h\<lparr>entrycount := entrycount h + 1\<rparr>)
            else Ret (0, h\<lparr>entrycount := entrycount h + 1\<rparr>)) = Ret (x, h2)" "ht_shape h"
  shows "ht_shape h2" "mset (entries h2) = mset (entries h)" "entrycount h2 = entrycount h + 1"
    "hashfn h2 = hashfn h" "eqfn h2 = eqfn h"
  using assms hashtable_expand_spec [of mok rok "h\<lparr>entrycount := entrycount h + 1\<rparr>" x h2]
  by (auto split: if_splits)

lemma hashtable_insert_spec:
  assumes "hashtable_insert mok rok True h k v = Ret (rc, h')" "ht_wf h" "ht_room h"
    "k \<notin> dom (ht_map h)"
  shows "ht_wf h'" "ht_map h' = (ht_map h)(k \<mapsto> v)" "rc = -1" "eqfn h' = eqfn h" "hashfn h' = hashfn h"
    "length (entries h') = Suc (length (entries h))"
proof -
  obtain x h2 where prep: "(if entrycount h + 1 > loadlimit h
            then hashtable_expand mok rok (h\<lparr>entrycount := entrycount h + 1\<rparr>)
            else Ret (0, h\<lparr>entrycount := entrycount h + 1\<rparr>)) = Ret (x, h2)"
    and h': "rc = -1" "h' = h2\<lparr>table := (table h2)[slot h2 k :=
             \<lparr>ek = k, ev = v, eh = hash h2 k\<rparr> # table h2 ! slot h2 k]\<rparr>"
    using assms(1) unfolding hashtable_insert_unfold by auto
  have shape: "ht_shape h" using assms(2) by (simp add: ht_wf_def)
  note p = hashtable_insert_prepared [OF prep shape]
  have map2: "ht_map h2 = ht_map h" by (rule ht_map_mset [OF shape p(2)])
  then have "k \<notin> dom (ht_map h2)" using assms(4) by simp
  note q = push_entry [OF p(1) this h'(2)]
  have len: "length (entries h') = Suc (length (entries h))"
    using q(2) p(2) by (metis size_mset size_add_mset)
  moreover have "unat (entrycount h + 1) = Suc (unat (entrycount h))"
    using assms(2,3) by (simp add: ht_wf_def ht_room_def unat_word_ariths)
  ultimately show "ht_wf h'"
    using q(1) h'(2) p(3) assms(2) by (simp add: ht_wf_def)
  show "ht_map h' = (ht_map h)(k \<mapsto> v)" using q(3) map2 by simp
  show "rc = -1" "eqfn h' = eqfn h" "hashfn h' = hashfn h" "length (entries h') = Suc (length (entries h))"
    using h' p len by simp_all
qed

lemma hashtable_insert_oom:
  assumes "hashtable_insert mok rok False h k v = Ret (rc, h')" "ht_wf h"
  shows "ht_wf h'" "ht_map h' = ht_map h" "rc = 0"
proof -
  obtain x h2 where prep: "(if entrycount h + 1 > loadlimit h
            then hashtable_expand mok rok (h\<lparr>entrycount := entrycount h + 1\<rparr>)
            else Ret (0, h\<lparr>entrycount := entrycount h + 1\<rparr>)) = Ret (x, h2)"
    and h': "rc = 0" "h' = h2\<lparr>entrycount := entrycount h2 - 1\<rparr>"
    using assms(1) unfolding hashtable_insert_unfold by auto
  have shape: "ht_shape h" using assms(2) by (simp add: ht_wf_def)
  note p = hashtable_insert_prepared [OF prep shape]
  have ms: "mset (entries h') = mset (entries h)" using p(2) h'(2) by simp
  then have "length (entries h') = length (entries h)" by (metis size_mset)
  then show "ht_wf h'"
    using h'(2) p(1,3) assms(2) by (simp add: ht_wf_def)
  show "ht_map h' = ht_map h" by (rule ht_map_mset [OF shape ms])
  show "rc = 0" by (rule h'(1))
qed

text \<open>With memory available an insertion always completes.\<close>

lemma hashtable_insert_returns: "\<exists>h'. hashtable_insert True rok True h k v = Ret (-1, h')"
  by (auto simp: hashtable_insert_def hashtable_expand_def Let_def)

text \<open>
  What the walk along a chain finds, for the three loops that share it: \<^verbatim>\<open>hashtable_search\<close>,
  \<^verbatim>\<open>hashtable_remove\<close> and the update through the pointer that the search returned.
\<close>

lemma chain_walk_hit:
  "search_chain hv eq k c = Some v \<Longrightarrow>
   \<exists>xs e ys. c = xs @ e # ys \<and> eh e = hv \<and> eq k (ek e) \<and> ev e = v \<and>
     remove_chain hv eq k c = Some (v, xs @ ys) \<and>
     modify_chain hv eq k f c = xs @ e\<lparr>ev := f (ev e)\<rparr> # ys"
proof (induction c)
  case (Cons a c)
  show ?case
  proof (cases "hv = eh a \<and> eq k (ek a)")
    case True
    then show ?thesis using Cons.prems by (intro exI [of _ "[]"] exI [of _ a] exI [of _ c]) auto
  next
    case False
    then obtain xs e ys where "c = xs @ e # ys" "eh e = hv" "eq k (ek e)" "ev e = v"
        "remove_chain hv eq k c = Some (v, xs @ ys)" "modify_chain hv eq k f c = xs @ e\<lparr>ev := f (ev e)\<rparr> # ys"
      using Cons by auto
    then show ?thesis
      using False by (intro exI [of _ "a # xs"] exI [of _ e] exI [of _ ys]) auto
  qed
qed simp

lemma chain_walk_miss:
  "search_chain hv eq k c = None \<Longrightarrow> remove_chain hv eq k c = None \<and> modify_chain hv eq k f c = c"
  by (induction c) (auto split: if_splits)

lemma slot_hit:
  assumes "ht_shape h" "eq_ok h" "ht_map h k = Some v"
  obtains xs e ys where "table h ! slot h k = xs @ e # ys" "ek e = k" "eh e = hash h k" "ev e = v"
    "remove_chain (hash h k) (eqfn h) k (table h ! slot h k) = Some (v, xs @ ys)"
    "modify_chain (hash h k) (eqfn h) k f (table h ! slot h k) = xs @ e\<lparr>ev := f (ev e)\<rparr> # ys"
proof -
  have "search_chain (hash h k) (eqfn h) k (table h ! slot h k) = Some v"
    using hashtable_search_refines [OF assms(1,2)] assms(3) by (simp add: hashtable_search_def Let_def)
  then have "\<exists>xs e ys. table h ! slot h k = xs @ e # ys \<and> eh e = hash h k \<and> eqfn h k (ek e) \<and> ev e = v \<and>
      remove_chain (hash h k) (eqfn h) k (table h ! slot h k) = Some (v, xs @ ys) \<and>
      modify_chain (hash h k) (eqfn h) k f (table h ! slot h k) = xs @ e\<lparr>ev := f (ev e)\<rparr> # ys"
    by (rule chain_walk_hit)
  then obtain xs e ys where *: "table h ! slot h k = xs @ e # ys" "eh e = hash h k" "eqfn h k (ek e)" "ev e = v"
      "remove_chain (hash h k) (eqfn h) k (table h ! slot h k) = Some (v, xs @ ys)"
      "modify_chain (hash h k) (eqfn h) k f (table h ! slot h k) = xs @ e\<lparr>ev := f (ev e)\<rparr> # ys"
    by (elim exE conjE)
  have "ek e = k" using *(3) assms(2) by (simp add: eq_ok_def)
  then show thesis using * that by metis
qed

lemma slot_miss:
  assumes "ht_shape h" "eq_ok h" "ht_map h k = None"
  shows "remove_chain (hash h k) (eqfn h) k (table h ! slot h k) = None"
    "modify_chain (hash h k) (eqfn h) k f (table h ! slot h k) = table h ! slot h k"
proof -
  have "search_chain (hash h k) (eqfn h) k (table h ! slot h k) = None"
    using hashtable_search_refines [OF assms(1,2)] assms(3) by (simp add: hashtable_search_def Let_def)
  then show "remove_chain (hash h k) (eqfn h) k (table h ! slot h k) = None"
    "modify_chain (hash h k) (eqfn h) k f (table h ! slot h k) = table h ! slot h k"
    by (simp_all add: chain_walk_miss)
qed

lemma drop_entry:
  assumes "ht_shape h" "table h ! slot h k = xs @ e # ys" "ek e = k"
    and h'_def: "h' = h\<lparr>table := (table h)[slot h k := xs @ ys]\<rparr>"
  shows "ht_shape h'" "mset (entries h) = add_mset e (mset (entries h'))"
    "ht_map h' = (ht_map h)(k := None)"
proof -
  have i: "slot h k < length (table h)" by (rule slot_less [OF assms(1)])
  show ms: "mset (entries h) = add_mset e (mset (entries h'))"
    using mset_concat_update [OF i, of "xs @ ys"] assms(2) h'_def by (simp add: union_iff)
  then have "mset (map ek (entries h)) = mset (map ek (e # entries h'))"
    by (simp add: mset_map)
  then have "distinct (map ek (e # entries h'))"
    using assms(1) mset_eq_imp_distinct_iff unfolding ht_shape_def by blast
  then have "distinct (map ek (concat ((table h)[slot h k := xs @ ys])))"
    by (simp add: h'_def)
  moreover have "eh a = hash h (ek a) \<and> slot h (ek a) = slot h k" if "a \<in> set (xs @ ys)" for a
    using that assms(1,2) i by (auto simp: ht_shape_def)
  ultimately show "ht_shape h'"
    unfolding h'_def using assms(1) i by (simp only: ht_shape_replace_chain)
  show "ht_map h' = (ht_map h)(k := None)"
    using ht_map_add [OF assms(1) ms] assms(3) by (auto simp: domIff)
qed

lemma hashtable_remove_spec:
  assumes "hashtable_remove h k = (r, h')" "ht_wf h" "eq_ok h"
  shows "r = ht_map h k" "ht_wf h'" "ht_map h' = (ht_map h)(k := None)" "eqfn h' = eqfn h"
    "hashfn h' = hashfn h" "length (entries h') \<le> length (entries h)"
proof -
  have shape: "ht_shape h" using assms(2) by (simp add: ht_wf_def)
  have "r = ht_map h k \<and> ht_wf h' \<and> ht_map h' = (ht_map h)(k := None) \<and> eqfn h' = eqfn h \<and>
     hashfn h' = hashfn h \<and> length (entries h') \<le> length (entries h)"
  proof (cases "ht_map h k")
    case None
    then have "r = None" "h' = h"
      using slot_miss [OF shape assms(3) None] assms(1) by (auto simp: hashtable_remove_def Let_def)
    then show ?thesis using None assms(2) by auto
  next
    case (Some v)
    obtain xs e ys where c: "table h ! slot h k = xs @ e # ys" "ek e = k"
        "remove_chain (hash h k) (eqfn h) k (table h ! slot h k) = Some (v, xs @ ys)"
      using slot_hit [OF shape assms(3) Some] by metis
    let ?h = "h\<lparr>table := (table h)[slot h k := xs @ ys]\<rparr>"
    have r: "r = Some v" and h': "h' = ?h\<lparr>entrycount := entrycount h - 1\<rparr>"
      using assms(1) c(3) by (auto simp: hashtable_remove_def Let_def)
    note d = drop_entry [OF shape c(1,2) refl]
    have len: "length (entries h) = Suc (length (entries h'))"
      using arg_cong [OF d(2), of size] h' by simp
    have "unat (entrycount h - 1) = unat (entrycount h) - 1"
      using len assms(2) by (simp add: ht_wf_def unat_sub word_le_nat_alt)
    then have "ht_wf h'"
      using assms(2) len d(1) by (simp add: ht_wf_def h')
    moreover have "ht_map h' = ht_map ?h" by (simp add: ht_map_def h')
    ultimately show ?thesis using r Some len h' d(3) by simp
  qed
  then show "r = ht_map h k" "ht_wf h'" "ht_map h' = (ht_map h)(k := None)" "eqfn h' = eqfn h"
    "hashfn h' = hashfn h" "length (entries h') \<le> length (entries h)" by simp_all
qed

lemma map_concat_update:
  assumes "i < length t" "map g c = map g (t ! i)"
  shows "map g (concat (t[i := c])) = map g (concat t)"
proof -
  have "map (map g) (t[i := c]) = map (map g) t"
    using assms by (simp add: map_update list_update_same_conv)
  then show ?thesis by (simp add: map_concat)
qed

lemma hashtable_modify_spec:
  assumes "ht_wf h" "eq_ok h"
  shows "ht_wf (hashtable_modify h k f)"
    "ht_map (hashtable_modify h k f) = (ht_map h)(k := map_option f (ht_map h k))"
    "eqfn (hashtable_modify h k f) = eqfn h" "hashfn (hashtable_modify h k f) = hashfn h"
    "length (entries (hashtable_modify h k f)) = length (entries h)"
proof -
  let ?h' = "hashtable_modify h k f"
  have shape: "ht_shape h" using assms(1) by (simp add: ht_wf_def)
  have i: "slot h k < length (table h)" by (rule slot_less [OF shape])
  show "eqfn ?h' = eqfn h" "hashfn ?h' = hashfn h"
    by (simp_all add: hashtable_modify_def Let_def)
  have "ht_wf ?h' \<and> ht_map ?h' = (ht_map h)(k := map_option f (ht_map h k)) \<and>
      length (entries ?h') = length (entries h)"
  proof (cases "ht_map h k")
    case None
    then have "?h' = h"
      using slot_miss [OF shape assms(2) None] by (simp add: hashtable_modify_def Let_def)
    then show ?thesis using None assms(1) by (simp add: fun_upd_idem)
  next
    case (Some v)
    obtain xs e ys where c: "table h ! slot h k = xs @ e # ys" "ek e = k" "eh e = hash h k" "ev e = v"
        "modify_chain (hash h k) (eqfn h) k f (table h ! slot h k) = xs @ e\<lparr>ev := f (ev e)\<rparr> # ys"
      using slot_hit [OF shape assms(2) Some] by metis
    let ?c = "xs @ e\<lparr>ev := f (ev e)\<rparr> # ys"
    have h': "?h' = h\<lparr>table := (table h)[slot h k := ?c]\<rparr>"
      using c(5) by (simp add: hashtable_modify_def Let_def)
    have keys: "map ek (concat ((table h)[slot h k := ?c])) = map ek (entries h)"
      using i c(1) by (intro map_concat_update) simp_all
    have "eh a = hash h (ek a) \<and> slot h (ek a) = slot h k" if "a \<in> set ?c" for a
      using that shape i c(1) by (auto simp: ht_shape_def)
    then have sh: "ht_shape ?h'"
      unfolding h' using shape i keys by (intro ht_shape_replace_chain) (auto simp: ht_shape_def)
    have len: "length (entries ?h') = length (entries h)"
      using arg_cong [OF keys, of length] by (simp add: h')
    note d = drop_entry [OF shape c(1,2) refl]
    have "slot ?h' k = slot h k" "table ?h' ! slot h k = ?c"
      using h' i by simp_all
    then have "mset (entries ?h') = add_mset (e\<lparr>ev := f (ev e)\<rparr>) (mset (entries (h\<lparr>table := (table h)[slot h k := xs @ ys]\<rparr>)))"
      using drop_entry(2) [OF sh, of k xs "e\<lparr>ev := f (ev e)\<rparr>" ys] c(2) h' by simp
    from ht_map_add(1) [OF sh this] show ?thesis
      using d(3) sh len assms(1) Some c(2,4) h' by (simp add: ht_wf_def)
  qed
  then show "ht_wf ?h'" "ht_map ?h' = (ht_map h)(k := map_option f (ht_map h k))"
    "length (entries ?h') = length (entries h)" by simp_all
qed

section \<open>Iteration\<close>

text \<open>The entries an iterator has still to visit, its current one first.\<close>

definition itr_rest :: "('k, 'v) hashtable \<Rightarrow> hashtable_itr \<Rightarrow> ('k, 'v) entry list" where
  "itr_rest h itr = (case itr_e itr of None \<Rightarrow> []
     | Some p \<Rightarrow> drop p (table h ! itr_index itr) @ concat (drop (Suc (itr_index itr)) (table h)))"

definition itr_ok :: "('k, 'v) hashtable \<Rightarrow> hashtable_itr \<Rightarrow> bool" where
  "itr_ok h itr = (case itr_e itr of None \<Rightarrow> True
     | Some p \<Rightarrow> itr_index itr < length (table h) \<and> p < length (table h ! itr_index itr) \<and>
         itr_parent itr = (if p = 0 then None else Some (p - 1)))"

lemma first_chain_None: "first_chain cs i = None \<longleftrightarrow> concat cs = []"
  by (induction cs arbitrary: i) auto

lemma first_chain_Some:
  "first_chain cs i = Some j \<Longrightarrow>
   i \<le> j \<and> j - i < length cs \<and> cs ! (j - i) \<noteq> [] \<and> concat cs = concat (drop (j - i) cs)"
proof (induction cs arbitrary: i)
  case (Cons c cs)
  show ?case
  proof (cases "c = []")
    case True
    then have "Suc i \<le> j \<and> j - Suc i < length cs \<and> cs ! (j - Suc i) \<noteq> [] \<and>
        concat cs = concat (drop (j - Suc i) cs)"
      using Cons by simp
    then show ?thesis
      using True by (auto simp: nth_Cons' drop_Cons' Suc_diff_le)
  next
    case False
    then show ?thesis using Cons.prems by simp
  qed
qed simp

lemma itr_rest_entry: "itr_ok h itr \<Longrightarrow> itr_entry h itr = (case itr_rest h itr of [] \<Rightarrow> None | e # _ \<Rightarrow> Some e)"
  by (auto simp: itr_ok_def itr_rest_def itr_entry_def Cons_nth_drop_Suc [symmetric] split: option.splits)

lemma itr_rest_nil: "itr_ok h itr \<Longrightarrow> itr_rest h itr = [] \<longleftrightarrow> itr_e itr = None"
  by (auto simp: itr_ok_def itr_rest_def split: option.splits)

lemma concat_drop_nth: "i < length t \<Longrightarrow> concat (drop i t) = t ! i @ concat (drop (Suc i) t)"
  by (simp add: Cons_nth_drop_Suc [symmetric])

lemma hashtable_iterator_ex: "\<exists>itr. hashtable_iterator True h = Some itr"
  by (simp add: hashtable_iterator_def Let_def split: option.split)

lemma hashtable_iterator_spec:
  assumes "hashtable_iterator True h = Some itr" "ht_wf h"
  shows "itr_ok h itr" "itr_rest h itr = entries h"
proof -
  have len: "length (table h) = unat (tablelength h)"
    using assms(2) by (simp add: ht_wf_def ht_shape_def)
  have zero: "entries h = []" if "entrycount h = 0"
    using that assms(2) by (simp add: ht_wf_def)
  show "itr_ok h itr" "itr_rest h itr = entries h"
    using assms(1) len zero first_chain_None [of "table h" 0] first_chain_Some [of "table h" 0]
    by (auto simp: hashtable_iterator_def Let_def itr_ok_def itr_rest_def concat_drop_nth
             split: if_splits option.splits)
qed

lemma first_chain_rest:
  assumes "first_chain (drop j t) j = Some i" "j < length t"
  shows "j \<le> i" "i < length t" "t ! i \<noteq> []" "concat (drop j t) = t ! i @ concat (drop (Suc i) t)"
proof -
  note f = first_chain_Some [OF assms(1)]
  then show le: "j \<le> i" and lt: "i < length t" by auto
  show "t ! i \<noteq> []" using f le assms(2) by simp
  show "concat (drop j t) = t ! i @ concat (drop (Suc i) t)"
    using f le lt concat_drop_nth [OF lt] by simp
qed

lemma itr_next_chain_spec:
  assumes "itr_next_chain h itr = (rc, itr')" "length (table h) = unat (tablelength h)"
  shows "itr_ok h itr'" "itr_rest h itr' = concat (drop (Suc (itr_index itr)) (table h))"
    "rc \<noteq> 0 \<longleftrightarrow> itr_rest h itr' \<noteq> []"
proof -
  let ?j = "Suc (itr_index itr)"
  note hit = first_chain_rest [of ?j "table h"]
  note miss = first_chain_None [of "drop ?j (table h)" ?j]
  show "itr_ok h itr'" "itr_rest h itr' = concat (drop ?j (table h))" "rc \<noteq> 0 \<longleftrightarrow> itr_rest h itr' \<noteq> []"
    using assms hit miss
    by (auto simp: itr_next_chain_def Let_def itr_ok_def itr_rest_def
             split: if_splits option.splits)
qed

lemma hashtable_iterator_advance_spec:
  assumes "hashtable_iterator_advance h itr = (rc, itr')" "ht_wf h" "itr_ok h itr"
  shows "itr_ok h itr'" "itr_rest h itr' = tl (itr_rest h itr)" "rc \<noteq> 0 \<longleftrightarrow> itr_rest h itr' \<noteq> []"
proof -
  have len: "length (table h) = unat (tablelength h)"
    using assms(2) by (simp add: ht_wf_def ht_shape_def)
  have "itr_ok h itr' \<and> itr_rest h itr' = tl (itr_rest h itr) \<and> (rc \<noteq> 0 \<longleftrightarrow> itr_rest h itr' \<noteq> [])"
  proof (cases "itr_e itr")
    case None
    then show ?thesis using assms(1,3) by (auto simp: hashtable_iterator_advance_def itr_rest_def)
  next
    case (Some p)
    let ?c = "table h ! itr_index itr"
    show ?thesis
    proof (cases "Suc p < length ?c")
      case True
      then show ?thesis using assms(1,3) Some
        by (auto simp: hashtable_iterator_advance_def itr_rest_def itr_ok_def drop_Suc tl_drop)
    next
      case False
      then have "tl (itr_rest h itr) = concat (drop (Suc (itr_index itr)) (table h))"
        using assms(3) Some by (simp add: itr_rest_def itr_ok_def Cons_nth_drop_Suc [symmetric])
      then show ?thesis
        using itr_next_chain_spec [OF _ len] assms(1) Some False
        by (simp add: hashtable_iterator_advance_def)
    qed
  qed
  then show "itr_ok h itr'" "itr_rest h itr' = tl (itr_rest h itr)" "rc \<noteq> 0 \<longleftrightarrow> itr_rest h itr' \<noteq> []"
    by simp_all
qed

lemma hashtable_iterator_remove_spec:
  assumes "ht_wf h" "itr_ok h itr" "itr_e itr \<noteq> None"
  obtains rc itr' h' where "hashtable_iterator_remove h itr = Ret (rc, itr', h')"
    "itr_ok h' itr'" "itr_rest h' itr' = tl (itr_rest h itr)" "rc \<noteq> 0 \<longleftrightarrow> itr_rest h' itr' \<noteq> []"
    "mset (entries h) = add_mset (hd (itr_rest h itr)) (mset (entries h'))" "ht_wf h'" "eqfn h' = eqfn h"
proof -
  obtain p where p: "itr_e itr = Some p" using assms(3) by blast
  let ?i = "itr_index itr"
  let ?c = "table h ! ?i"
  let ?h = "h\<lparr>table := (table h)[?i := take p ?c @ drop (Suc p) ?c], entrycount := entrycount h - 1\<rparr>"
  have ok: "?i < length (table h)" "p < length ?c" using assms(2) p by (simp_all add: itr_ok_def)
  have len: "length (table ?h) = unat (tablelength ?h)"
    using assms(1) by (simp add: ht_wf_def ht_shape_def)
  have hd: "hd (itr_rest h itr) = ?c ! p" and tl: "tl (itr_rest h itr) = drop (Suc p) ?c @ concat (drop (Suc ?i) (table h))"
    using p ok by (simp_all add: itr_rest_def Cons_nth_drop_Suc [symmetric])
  have shape: "ht_shape h" using assms(1) by (simp add: ht_wf_def)
  have slot: "slot h (ek (?c ! p)) = ?i"
    using shape ok(1) nth_mem [OF ok(2)] unfolding ht_shape_def by blast
  have split: "table h ! slot h (ek (?c ! p)) = take p ?c @ ?c ! p # drop (Suc p) ?c"
    unfolding slot using id_take_nth_drop [OF ok(2)] .
  note d = drop_entry [OF shape split refl refl, unfolded slot]
  have ms: "mset (entries h) = add_mset (hd (itr_rest h itr)) (mset (entries ?h))"
    using d(2) hd by simp
  then have "length (entries h) = Suc (length (entries ?h))"
    using arg_cong [of _ _ size] by (metis size_mset size_add_mset)
  moreover from this have "unat (entrycount h - 1) = unat (entrycount h) - 1"
    using assms(1) by (simp add: ht_wf_def unat_sub word_le_nat_alt)
  ultimately have wf: "ht_wf ?h"
    using assms(1) d(1) by (simp add: ht_wf_def)
  show thesis
  proof (cases "Suc p < length ?c")
    case True
    then show ?thesis
      using that [of "-1" itr ?h] p ok ms tl assms(2) wf
      by (simp add: hashtable_iterator_remove_def Let_def itr_ok_def itr_rest_def)
  next
    case False
    obtain rc itr' where nx: "itr_next_chain ?h itr = (rc, itr')" by fastforce
    show ?thesis
      using that [of rc itr' ?h] itr_next_chain_spec [OF nx len] p ok ms tl False nx wf
      by (simp add: hashtable_iterator_remove_def Let_def)
  qed
qed

lemma search_pos_conv:
  "search_pos hv eq k c p = Some q \<Longrightarrow>
     p \<le> q \<and> q - p < length c \<and> eh (c ! (q - p)) = hv \<and> eq k (ek (c ! (q - p)))"
proof (induction c arbitrary: p)
  case (Cons e c)
  then show ?case
    by (auto simp: nth_Cons' split: if_splits dest!: Cons.IH)
qed simp

lemma search_pos_None: "search_pos hv eq k c p = None \<longleftrightarrow> search_chain hv eq k c = None"
  by (induction c arbitrary: p) auto

section \<open>The interface of a keyed store\<close>

text \<open>
  What the watcher tables rely on: a partial map with lookup, insertion of an absent key, removal
  and update in place, each of them described through the map it stands for. An insertion may
  be undefined or run out of memory in the implementation; the laws speak of those that return
  success.
\<close>

locale keyed_store =
  fixes find :: "'s \<Rightarrow> 'k \<Rightarrow> 'v option"
    and put :: "'s \<Rightarrow> 'k \<Rightarrow> 'v \<Rightarrow> (int \<times> 's) exec"
    and del :: "'s \<Rightarrow> 'k \<Rightarrow> 'v option \<times> 's"
    and upd :: "'s \<Rightarrow> 'k \<Rightarrow> ('v \<Rightarrow> 'v) \<Rightarrow> 's"
    and amap :: "'s \<Rightarrow> 'k \<rightharpoonup> 'v"
    and ok :: "'s \<Rightarrow> bool"
    and room :: "'s \<Rightarrow> bool"
  assumes find_amap: "ok s \<Longrightarrow> find s k = amap s k"
    and put_amap: "ok s \<Longrightarrow> room s \<Longrightarrow> amap s k = None \<Longrightarrow> put s k v = Ret (rc, s') \<Longrightarrow>
      ok s' \<and> amap s' = (amap s)(k \<mapsto> v) \<and> rc \<noteq> 0"
    and del_amap: "ok s \<Longrightarrow> del s k = (r, s') \<Longrightarrow>
      ok s' \<and> r = amap s k \<and> amap s' = (amap s)(k := None) \<and> (room s \<longrightarrow> room s')"
    and upd_amap: "ok s \<Longrightarrow> ok (upd s k f) \<and> amap (upd s k f) = (amap s)(k := map_option f (amap s k)) \<and>
      (room s \<longrightarrow> room (upd s k f))"
begin

lemma find_after_put:
  assumes "ok s" "room s" "find s k = None" "put s k v = Ret (rc, s')"
  shows "find s' q = (if q = k then Some v else find s q)"
  using assms put_amap [of s k v rc s'] by (simp add: find_amap)

lemma find_after_del:
  assumes "ok s" "del s k = (r, s')"
  shows "r = find s k" "find s' q = (if q = k then None else find s q)"
  using assms del_amap [of s k r s'] by (simp_all add: find_amap)

lemma put_then_del:
  assumes "ok s" "room s" "find s k = None" "put s k v = Ret (rc, s')" "del s' k = (r, s'')"
  shows "r = Some v" "amap s'' = amap s"
  using assms put_amap [of s k v rc s'] del_amap [of s' k r s'']
  by (auto simp: find_amap fun_upd_idem)

text \<open>Insert the key if it is new, else update its value through the pointer that was found.\<close>

lemma upsert:
  assumes "ok s" "room s"
    "(case find s k of None \<Rightarrow> put s k v0 | Some v \<Rightarrow> Ret (f v, upd s k g)) = Ret (rc, s')"
  shows "ok s'" "amap s' = (amap s)(k \<mapsto> (case amap s k of None \<Rightarrow> v0 | Some v \<Rightarrow> g v))"
  using assms put_amap [of s k v0 rc s'] upd_amap [of s k g]
  by (auto simp: find_amap split: option.splits)

text \<open>Update in place, then drop the key when its value has become void.\<close>

lemma prune:
  assumes "ok s" "amap s k = Some v"
    "s' = (if void (g v) then snd (del (upd s k g) k) else upd s k g)"
  shows "ok s'" "amap s' = (amap s)(k := (if void (g v) then None else Some (g v)))"
    "room s \<longrightarrow> room s'"
proof -
  obtain r s2 where d: "del (upd s k g) k = (r, s2)" by fastforce
  show "ok s'" "amap s' = (amap s)(k := (if void (g v) then None else Some (g v)))" "room s \<longrightarrow> room s'"
    using assms upd_amap [OF assms(1), of k g] del_amap [OF _ d] d by auto
qed

end

definition ht_ok :: "('k, 'v) hashtable \<Rightarrow> bool" where
  "ht_ok h \<longleftrightarrow> ht_wf h \<and> eq_ok h"

interpretation ht: keyed_store hashtable_search "hashtable_insert mok rok True" hashtable_remove
    hashtable_modify ht_map ht_ok ht_room for mok rok
proof unfold_locales
  fix s :: "('k, 'v) hashtable" and k v rc s' r f
  show "ht_ok s \<Longrightarrow> hashtable_search s k = ht_map s k"
    by (simp add: ht_ok_def ht_wf_def hashtable_search_refines)
  show "ht_ok s' \<and> ht_map s' = (ht_map s)(k \<mapsto> v) \<and> rc \<noteq> 0"
    if "ht_ok s" "ht_room s" "ht_map s k = None" "hashtable_insert mok rok True s k v = Ret (rc, s')"
    using hashtable_insert_spec [OF that(4), unfolded domIff] that(1-3) by (simp add: ht_ok_def eq_ok_def)
  show "ht_ok s' \<and> r = ht_map s k \<and> ht_map s' = (ht_map s)(k := None) \<and> (ht_room s \<longrightarrow> ht_room s')"
    if "ht_ok s" "hashtable_remove s k = (r, s')"
    using hashtable_remove_spec [OF that(2)] that(1) by (auto simp: ht_ok_def eq_ok_def ht_room_def)
  show "ht_ok (hashtable_modify s k f) \<and>
        ht_map (hashtable_modify s k f) = (ht_map s)(k := map_option f (ht_map s k)) \<and>
        (ht_room s \<longrightarrow> ht_room (hashtable_modify s k f))" if "ht_ok s"
    using hashtable_modify_spec [of s k f] that by (simp add: ht_ok_def eq_ok_def ht_room_def)
qed

section \<open>Load\<close>

text \<open>
  The table is loaded at most up to its limit, until the largest prime is reached and it cannot
  grow any more.
\<close>

definition ht_loaded :: "('k, 'v) hashtable \<Rightarrow> bool" where
  "ht_loaded h \<longleftrightarrow> loadlimit h = load_limit (tablelength h) \<and>
     (primeindex h \<noteq> prime_table_length - 1 \<longrightarrow> entrycount h \<le> loadlimit h)"

lemma load_limit_primes:
  "map load_limit primes = [35, 64, 126, 253, 500, 1003, 2002, 3999, 7988, 15986, 31953, 63907,
     127799, 255607, 511182, 1022365, 2044731, 4089455, 8178896, 16357798, 32715572, 65431156,
     130862288, 261724560, 523449152, 1046898240]"
  by (simp add: primes_def load_limit_def f32_round_def max_load_factor_def bit_len.simps)

lemma load_limit_strict_mono:
  assumes "Suc i < length primes"
  shows "load_limit (primes ! i) < load_limit (primes ! Suc i)"
proof -
  have "sorted_wrt (<) (map load_limit primes)"
    by (simp add: load_limit_primes)
  then have "map load_limit primes ! i < map load_limit primes ! Suc i"
    by (rule sorted_wrt_nth_less) (use assms in simp_all)
  then show ?thesis using assms by simp
qed

lemma hashtable_insert_loaded:
  assumes "hashtable_insert True rok True h k v = Ret (rc, h')" "ht_wf h" "ht_loaded h"
  shows "ht_loaded h'"
proof -
  let ?h = "h\<lparr>entrycount := entrycount h + 1\<rparr>"
  obtain x h2 where prep: "(if entrycount h + 1 > loadlimit h then hashtable_expand True rok ?h
            else Ret (0, ?h)) = Ret (x, h2)"
    and h': "h' = h2\<lparr>table := (table h2)[slot h2 k :=
             \<lparr>ek = k, ev = v, eh = hash h2 k\<rparr> # table h2 ! slot h2 k]\<rparr>"
    using assms(1) unfolding hashtable_insert_unfold by auto
  have shape: "ht_shape h" using assms(2) by (simp add: ht_wf_def)
  have "ht_loaded h2"
  proof (cases "primeindex h = prime_table_length - 1 \<or> \<not> entrycount h + 1 > loadlimit h")
    case True
    then have "h2 = ?h"
      using prep by (auto simp: hashtable_expand_def split: if_splits)
    then show ?thesis
      using assms(3) True by (auto simp: ht_loaded_def)
  next
    case False
    then have h2: "h2 = expanded ?h"
      using prep by (simp add: hashtable_expand_def Let_def)
    have np: "unat (primeindex h + 1) = Suc (unat (primeindex h))" "Suc (unat (primeindex h)) < length primes"
      using next_prime [OF shape] False by auto
    have "loadlimit h < load_limit (primes ! unat (primeindex h + 1))"
      using load_limit_strict_mono [OF np(2)] np(1) shape assms(3) by (simp add: ht_loaded_def ht_shape_def)
    moreover have "entrycount h \<le> loadlimit h"
      using False assms(3) by (auto simp: ht_loaded_def)
    ultimately have "entrycount h + 1 \<le> load_limit (primes ! unat (primeindex h + 1))"
      by (meson inc_le le_less_trans)
    then show ?thesis by (simp add: h2 ht_loaded_def Let_def)
  qed
  then show ?thesis by (auto simp: h' ht_loaded_def)
qed

section \<open>Properties\<close>

text \<open>
  Property C25: inserting an absent key succeeds, keeps the table well formed, and a later search
  finds the new value under that key and the old answer under every other key, whether or not the
  insertion rehashed the table.
\<close>

theorem hashtable_insert_search:
  assumes "ht_ok h" "ht_room h" "hashtable_search h k = None"
    and "hashtable_insert malloc_ok realloc_ok True h k v = Ret (rc, h')"
  shows "rc = -1 \<and> ht_ok h' \<and>
     (\<forall>q. hashtable_search h' q = (if q = k then Some v else hashtable_search h q))"
proof -
  have none: "ht_map h k = None" using assms(1,3) by (simp add: ht.find_amap)
  have "ht_ok h'" using ht.put_amap [OF assms(1,2) none assms(4)] by blast
  moreover have "rc = -1" using assms(4) unfolding hashtable_insert_unfold by auto
  ultimately show ?thesis using ht.find_after_put [OF assms] by blast
qed

lemma example_table:
  fixes hf :: "'k \<Rightarrow> u32"
  obtains h where "create_hashtable True True 32 hf (=) = Some (h :: ('k, 'v) hashtable)" "ht_ok h" "ht_room h"
    "hashtable_search h = Map.empty"
proof -
  obtain h where h: "create_hashtable True True 32 hf (=) = Some (h :: ('k, 'v) hashtable)"
    by (simp add: create_hashtable_def primes_def push_bit_eq_mult)
  note c = create_hashtable_spec [OF h]
  have ok: "ht_ok h" using c by (simp add: ht_ok_def eq_ok_def)
  moreover have "ht_room h" unfolding ht_room_def c(6) by simp
  moreover have "hashtable_search h = Map.empty"
    using ht.find_amap [OF ok] c(3) by (intro ext) simp
  ultimately show thesis using that h by blast
qed

theorem hashtable_insert_search_witness:
  "\<exists>h h'. create_hashtable True True 32 (word_of_nat :: nat \<Rightarrow> u32) (=) = Some h \<and>
     hashtable_insert True True True h 5 ''v'' = Ret (-1, h') \<and>
     hashtable_search h' 5 = Some ''v'' \<and> hashtable_search h' 6 = None"
proof -
  obtain h where h: "create_hashtable True True 32 (word_of_nat :: nat \<Rightarrow> u32) (=) = Some (h :: (nat, string) hashtable)"
    "ht_ok h" "ht_room h" "hashtable_search h = Map.empty"
    using example_table .
  obtain h' where ins: "hashtable_insert True True True h 5 ''v'' = Ret (-1, h')"
    using hashtable_insert_returns [of True h 5 "''v''"] by blast
  then show ?thesis
    using h hashtable_insert_search [OF h(2,3) _ ins] by auto
qed

text \<open>
  Growing the table to the next prime moves every entry to the chain its hash selects
  there; no search answers differently afterwards, and when the expansion reports success the table
  is longer.
\<close>

theorem hashtable_expand_search:
  assumes "ht_ok h" "hashtable_expand malloc_ok realloc_ok h = Ret (rc, h')"
  shows "ht_ok h' \<and> (\<forall>q. hashtable_search h' q = hashtable_search h q) \<and>
     entrycount h' = entrycount h \<and> (rc \<noteq> 0 \<longrightarrow> tablelength h < tablelength h')"
proof -
  have shape: "ht_shape h" using assms(1) by (simp add: ht_ok_def ht_wf_def)
  note e = hashtable_expand_spec [OF assms(2) shape]
  have "length (entries h') = length (entries h)"
    using arg_cong [OF e(2), of size] by simp
  then have "ht_ok h'" using assms(1) e by (simp add: ht_ok_def ht_wf_def eq_ok_def)
  moreover have "ht_map h' = ht_map h" by (rule ht_map_mset [OF shape e(2)])
  ultimately show ?thesis using assms(1) e by (simp add: ht.find_amap)
qed

theorem hashtable_expand_search_witness:
  "\<exists>h h'. create_hashtable True True 32 (word_of_nat :: nat \<Rightarrow> u32) (=) = Some (h :: (nat, string) hashtable) \<and>
     hashtable_expand True True h = Ret (-1, h') \<and> tablelength h < tablelength h'"
proof -
  obtain h where h: "create_hashtable True True 32 (word_of_nat :: nat \<Rightarrow> u32) (=) = Some (h :: (nat, string) hashtable)"
    "ht_ok h"
    using example_table by metis
  have "primeindex h = 0"
    using h(1) by (auto simp: create_hashtable_def primes_def push_bit_eq_mult)
  then obtain h' where e: "hashtable_expand True True h = Ret (-1, h')"
    by (simp add: hashtable_expand_def prime_table_length_eq Let_def)
  then show ?thesis using h hashtable_expand_search [OF h(2) e] by auto
qed

text \<open>
  While memory lasts, an insertion keeps the number of entries within the load limit
  (65 percent of the number of chains, in the single-precision arithmetic the code uses) until the
  largest prime is reached.
\<close>

theorem hashtable_insert_keeps_load:
  assumes "hashtable_insert True realloc_ok True h k v = Ret (rc, h')" "ht_wf h" "ht_loaded h"
  shows "ht_loaded h'"
  using assms by (rule hashtable_insert_loaded)

theorem hashtable_insert_keeps_load_witness:
  "\<exists>h h'. create_hashtable True True 32 (word_of_nat :: nat \<Rightarrow> u32) (=) = Some h \<and>
     hashtable_insert True True True h 5 ''v'' = Ret (-1, h') \<and> ht_loaded h'"
proof -
  obtain h where h: "create_hashtable True True 32 (word_of_nat :: nat \<Rightarrow> u32) (=) = Some (h :: (nat, string) hashtable)"
    "ht_ok h"
    using example_table by metis
  have "ht_loaded h"
    using h(1) by (auto simp: create_hashtable_def push_bit_eq_mult ht_loaded_def split: prod.splits)
  moreover obtain h' where ins: "hashtable_insert True True True h 5 ''v'' = Ret (-1, h')"
    using hashtable_insert_returns [of True h 5 "''v''"] by blast
  ultimately show ?thesis
    using h hashtable_insert_keeps_load [OF ins] by (auto simp: ht_ok_def)
qed

text \<open>
  An insertion that cannot allocate its entry reports 0 and answers every search as
  before, even when it has already grown the table.
\<close>

theorem hashtable_insert_out_of_memory:
  assumes "ht_ok h" "hashtable_insert malloc_ok realloc_ok False h k v = Ret (rc, h')"
  shows "rc = 0 \<and> ht_ok h' \<and> entrycount h' = entrycount h \<and> hashtable_search h' = hashtable_search h"
proof -
  have wf: "ht_wf h" "eq_ok h" using assms(1) by (simp_all add: ht_ok_def)
  note o = hashtable_insert_oom [OF assms(2) wf(1)]
  obtain x h2 where prep: "(if entrycount h + 1 > loadlimit h
            then hashtable_expand malloc_ok realloc_ok (h\<lparr>entrycount := entrycount h + 1\<rparr>)
            else Ret (0, h\<lparr>entrycount := entrycount h + 1\<rparr>)) = Ret (x, h2)"
      and h': "h' = h2\<lparr>entrycount := entrycount h2 - 1\<rparr>"
    using assms(2) unfolding hashtable_insert_unfold by auto
  have "ht_shape h" using wf(1) by (simp add: ht_wf_def)
  then have "entrycount h' = entrycount h" "eqfn h' = eqfn h"
    using hashtable_insert_prepared [OF prep] h' by auto
  moreover from this have ok: "ht_ok h'" using o(1) wf(2) by (simp add: ht_ok_def eq_ok_def)
  moreover have "hashtable_search h' = hashtable_search h"
    using o(2) assms(1) ok by (intro ext) (simp add: ht.find_amap)
  ultimately show ?thesis using o(3) by simp
qed

theorem hashtable_insert_out_of_memory_witness:
  "\<exists>h h'. create_hashtable True True 32 (word_of_nat :: nat \<Rightarrow> u32) (=) = Some h \<and>
     hashtable_insert True True False h 5 ''v'' = Ret (0, h') \<and> hashtable_search h' 5 = None"
proof -
  obtain h where h: "create_hashtable True True 32 (word_of_nat :: nat \<Rightarrow> u32) (=) = Some (h :: (nat, string) hashtable)"
    "ht_ok h" "hashtable_search h = Map.empty"
    using example_table by metis
  obtain h' where "hashtable_insert True True False h 5 ''v'' = Ret (0, h')"
    by (cases "loadlimit h < entrycount h + 1"; cases "primeindex h = prime_table_length - 1")
      (auto simp: hashtable_insert_def hashtable_expand_def Let_def)
  then show ?thesis using h hashtable_insert_out_of_memory [OF h(2)] by fastforce
qed

text \<open>
  Removing a key returns the value it had and removes exactly that key.
\<close>

theorem hashtable_remove_search:
  assumes "ht_ok h" "hashtable_remove h k = (r, h')"
  shows "ht_ok h' \<and> r = hashtable_search h k \<and>
     (\<forall>q. hashtable_search h' q = (if q = k then None else hashtable_search h q))"
  using ht.del_amap [OF assms] ht.find_after_del [OF assms] by blast

theorem hashtable_remove_search_witness:
  "\<exists>h h' h''. create_hashtable True True 32 (word_of_nat :: nat \<Rightarrow> u32) (=) = Some h \<and>
     hashtable_insert True True True h 5 ''v'' = Ret (-1, h') \<and>
     hashtable_remove h' 5 = (Some ''v'', h'') \<and> hashtable_search h'' 5 = None"
proof -
  obtain h where h: "create_hashtable True True 32 (word_of_nat :: nat \<Rightarrow> u32) (=) = Some (h :: (nat, string) hashtable)"
    "ht_ok h" "ht_room h" "hashtable_search h = Map.empty"
    using example_table .
  obtain h' where ins: "hashtable_insert True True True h 5 ''v'' = Ret (-1, h')"
    using hashtable_insert_returns [of True h 5 "''v''"] by blast
  obtain r h'' where rm: "hashtable_remove h' 5 = (r, h'')" by fastforce
  have none: "ht_map h 5 = None" using h by (metis ht.find_amap)
  have ok: "ht_ok h'" "ht_map h' 5 = Some ''v''"
    using ht.put_amap [OF h(2,3) none ins] by simp_all
  then show ?thesis
    using h ins rm hashtable_remove_search [OF ok(1) rm] by (auto simp: ht.find_amap)
qed

text \<open>
  The fallback of \<^verbatim>\<open>hashtable_expand\<close> for a failed \<^verbatim>\<open>malloc\<close> (\<open>Plan B\<close>) is
  undefined: it clears memory through a pointer read from the fresh, uninitialised part of the
  reallocated table. An insertion that needs to grow the table does not return then.
\<close>

theorem hashtable_insert_plan_b_undefined:
  assumes "loadlimit h < entrycount h + 1" "primeindex h \<noteq> prime_table_length - 1"
  shows "hashtable_insert False True entry_ok h k v = UB"
  using assms by (simp add: hashtable_insert_def hashtable_expand_def Let_def)

theorem hashtable_insert_plan_b_undefined_witness:
  "hashtable_insert False True True
     \<lparr> tablelength = 53, table = [], entrycount = 35, loadlimit = 35, primeindex = 0,
       hashfn = word_of_nat, eqfn = (=) \<rparr> (5 :: nat) ''v'' = UB"
  by (rule hashtable_insert_plan_b_undefined) (simp_all add: prime_table_length_eq)

end
