(* ===== verification/Zk_Const.thy ===== *)
theory Zk_Const
  imports Zk_Prelude
begin

text \<open>
  The numeric vocabulary of the ZooKeeper C client: error codes, session states, event types,
  reserved transaction ids, operation codes and node modes, with the functions that name them
  (\<^verbatim>\<open>state2String\<close>, \<^verbatim>\<open>watcherEvent2String\<close>, \<^verbatim>\<open>zerror\<close>).
\<close>

section \<open>Error codes (include/zookeeper.h)\<close>

definition ZOK :: int where
  [simp]: "ZOK = 0"

definition ZSYSTEMERROR :: int where
  [simp]: "ZSYSTEMERROR = -1"

definition ZRUNTIMEINCONSISTENCY :: int where
  [simp]: "ZRUNTIMEINCONSISTENCY = -2"

definition ZDATAINCONSISTENCY :: int where
  [simp]: "ZDATAINCONSISTENCY = -3"

definition ZCONNECTIONLOSS :: int where
  [simp]: "ZCONNECTIONLOSS = -4"

definition ZMARSHALLINGERROR :: int where
  [simp]: "ZMARSHALLINGERROR = -5"

definition ZUNIMPLEMENTED :: int where
  [simp]: "ZUNIMPLEMENTED = -6"

definition ZOPERATIONTIMEOUT :: int where
  [simp]: "ZOPERATIONTIMEOUT = -7"

definition ZBADARGUMENTS :: int where
  [simp]: "ZBADARGUMENTS = -8"

definition ZINVALIDSTATE :: int where
  [simp]: "ZINVALIDSTATE = -9"

definition ZNEWCONFIGNOQUORUM :: int where
  [simp]: "ZNEWCONFIGNOQUORUM = -13"

definition ZRECONFIGINPROGRESS :: int where
  [simp]: "ZRECONFIGINPROGRESS = -14"

definition ZSSLCONNECTIONERROR :: int where
  [simp]: "ZSSLCONNECTIONERROR = -15"

definition ZAPIERROR :: int where
  [simp]: "ZAPIERROR = -100"

definition ZNONODE :: int where
  [simp]: "ZNONODE = -101"

definition ZNOAUTH :: int where
  [simp]: "ZNOAUTH = -102"

definition ZBADVERSION :: int where
  [simp]: "ZBADVERSION = -103"

definition ZNOCHILDRENFOREPHEMERALS :: int where
  [simp]: "ZNOCHILDRENFOREPHEMERALS = -108"

definition ZNODEEXISTS :: int where
  [simp]: "ZNODEEXISTS = -110"

definition ZNOTEMPTY :: int where
  [simp]: "ZNOTEMPTY = -111"

definition ZSESSIONEXPIRED :: int where
  [simp]: "ZSESSIONEXPIRED = -112"

definition ZINVALIDCALLBACK :: int where
  [simp]: "ZINVALIDCALLBACK = -113"

definition ZINVALIDACL :: int where
  [simp]: "ZINVALIDACL = -114"

definition ZAUTHFAILED :: int where
  [simp]: "ZAUTHFAILED = -115"

definition ZCLOSING :: int where
  [simp]: "ZCLOSING = -116"

definition ZNOTHING :: int where
  [simp]: "ZNOTHING = -117"

definition ZSESSIONMOVED :: int where
  [simp]: "ZSESSIONMOVED = -118"

definition ZNOTREADONLY :: int where
  [simp]: "ZNOTREADONLY = -119"

definition ZEPHEMERALONLOCALSESSION :: int where
  [simp]: "ZEPHEMERALONLOCALSESSION = -120"

definition ZNOWATCHER :: int where
  [simp]: "ZNOWATCHER = -121"

definition ZRECONFIGDISABLED :: int where
  [simp]: "ZRECONFIGDISABLED = -123"

definition ZSESSIONCLOSEDREQUIRESASLAUTH :: int where
  [simp]: "ZSESSIONCLOSEDREQUIRESASLAUTH = -124"

definition ZOO_READONLY :: int where
  [simp]: "ZOO_READONLY = 1"

definition ZWATCHTYPE_CHILD :: int where
  [simp]: "ZWATCHTYPE_CHILD = 1"

definition ZWATCHTYPE_DATA :: int where
  [simp]: "ZWATCHTYPE_DATA = 2"

definition ZWATCHTYPE_ANY :: int where
  [simp]: "ZWATCHTYPE_ANY = 3"

section \<open>Session states, events and reserved transaction ids (zk_adaptor.h)\<close>

definition WATCHER_EVENT_XID :: int where
  [simp]: "WATCHER_EVENT_XID = -1"

definition PING_XID :: int where
  [simp]: "PING_XID = -2"

definition AUTH_XID :: int where
  [simp]: "AUTH_XID = -4"

definition SET_WATCHES_XID :: int where
  [simp]: "SET_WATCHES_XID = -8"

definition ZOO_EXPIRED_SESSION_STATE :: int where
  [simp]: "ZOO_EXPIRED_SESSION_STATE = -112"

definition ZOO_AUTH_FAILED_STATE :: int where
  [simp]: "ZOO_AUTH_FAILED_STATE = -113"

definition ZOO_CONNECTING_STATE :: int where
  [simp]: "ZOO_CONNECTING_STATE = 1"

definition ZOO_ASSOCIATING_STATE :: int where
  [simp]: "ZOO_ASSOCIATING_STATE = 2"

definition ZOO_CONNECTED_STATE :: int where
  [simp]: "ZOO_CONNECTED_STATE = 3"

definition ZOO_READONLY_STATE :: int where
  [simp]: "ZOO_READONLY_STATE = 5"

definition ZOO_SSL_CONNECTING_STATE :: int where
  [simp]: "ZOO_SSL_CONNECTING_STATE = 7"

definition ZOO_NOTCONNECTED_STATE :: int where
  [simp]: "ZOO_NOTCONNECTED_STATE = 999"

definition ZOO_CREATED_EVENT :: int where
  [simp]: "ZOO_CREATED_EVENT = 1"

definition ZOO_DELETED_EVENT :: int where
  [simp]: "ZOO_DELETED_EVENT = 2"

definition ZOO_CHANGED_EVENT :: int where
  [simp]: "ZOO_CHANGED_EVENT = 3"

definition ZOO_CHILD_EVENT :: int where
  [simp]: "ZOO_CHILD_EVENT = 4"

definition ZOO_SESSION_EVENT :: int where
  [simp]: "ZOO_SESSION_EVENT = -1"

definition ZOO_NOTWATCHING_EVENT :: int where
  [simp]: "ZOO_NOTWATCHING_EVENT = -2"

section \<open>Operation codes (include/proto.h)\<close>

definition ZOO_NOTIFY_OP :: int where
  [simp]: "ZOO_NOTIFY_OP = 0"

definition ZOO_CREATE_OP :: int where
  [simp]: "ZOO_CREATE_OP = 1"

definition ZOO_DELETE_OP :: int where
  [simp]: "ZOO_DELETE_OP = 2"

definition ZOO_EXISTS_OP :: int where
  [simp]: "ZOO_EXISTS_OP = 3"

definition ZOO_GETDATA_OP :: int where
  [simp]: "ZOO_GETDATA_OP = 4"

definition ZOO_SETDATA_OP :: int where
  [simp]: "ZOO_SETDATA_OP = 5"

definition ZOO_GETACL_OP :: int where
  [simp]: "ZOO_GETACL_OP = 6"

definition ZOO_SETACL_OP :: int where
  [simp]: "ZOO_SETACL_OP = 7"

definition ZOO_GETCHILDREN_OP :: int where
  [simp]: "ZOO_GETCHILDREN_OP = 8"

definition ZOO_SYNC_OP :: int where
  [simp]: "ZOO_SYNC_OP = 9"

definition ZOO_PING_OP :: int where
  [simp]: "ZOO_PING_OP = 11"

definition ZOO_GETCHILDREN2_OP :: int where
  [simp]: "ZOO_GETCHILDREN2_OP = 12"

definition ZOO_CHECK_OP :: int where
  [simp]: "ZOO_CHECK_OP = 13"

definition ZOO_MULTI_OP :: int where
  [simp]: "ZOO_MULTI_OP = 14"

definition ZOO_CREATE2_OP :: int where
  [simp]: "ZOO_CREATE2_OP = 15"

definition ZOO_RECONFIG_OP :: int where
  [simp]: "ZOO_RECONFIG_OP = 16"

definition ZOO_CHECK_WATCHES :: int where
  [simp]: "ZOO_CHECK_WATCHES = 17"

definition ZOO_REMOVE_WATCHES :: int where
  [simp]: "ZOO_REMOVE_WATCHES = 18"

definition ZOO_CREATE_CONTAINER_OP :: int where
  [simp]: "ZOO_CREATE_CONTAINER_OP = 19"

definition ZOO_DELETE_CONTAINER_OP :: int where
  [simp]: "ZOO_DELETE_CONTAINER_OP = 20"

definition ZOO_CREATE_TTL_OP :: int where
  [simp]: "ZOO_CREATE_TTL_OP = 21"

definition ZOO_CLOSE_OP :: int where
  [simp]: "ZOO_CLOSE_OP = -11"

definition ZOO_SETAUTH_OP :: int where
  [simp]: "ZOO_SETAUTH_OP = 100"

definition ZOO_SETWATCHES_OP :: int where
  [simp]: "ZOO_SETWATCHES_OP = 101"

section \<open>Node modes and interest flags (zookeeper.c)\<close>

definition ZOO_PERSISTENT :: int where
  [simp]: "ZOO_PERSISTENT = 0"

definition ZOO_EPHEMERAL :: int where
  [simp]: "ZOO_EPHEMERAL = 1"

definition ZOO_PERSISTENT_SEQUENTIAL :: int where
  [simp]: "ZOO_PERSISTENT_SEQUENTIAL = 2"

definition ZOO_EPHEMERAL_SEQUENTIAL :: int where
  [simp]: "ZOO_EPHEMERAL_SEQUENTIAL = 3"

definition ZOO_CONTAINER :: int where
  [simp]: "ZOO_CONTAINER = 4"

definition ZOO_PERSISTENT_WITH_TTL :: int where
  [simp]: "ZOO_PERSISTENT_WITH_TTL = 5"

definition ZOO_PERSISTENT_SEQUENTIAL_WITH_TTL :: int where
  [simp]: "ZOO_PERSISTENT_SEQUENTIAL_WITH_TTL = 6"

definition ZOOKEEPER_WRITE :: int where
  [simp]: "ZOOKEEPER_WRITE = 1"

definition ZOOKEEPER_READ :: int where
  [simp]: "ZOOKEEPER_READ = 2"

definition ZOO_MAX_TTL :: int where
  [simp]: "ZOO_MAX_TTL = 1099511627775"

definition ZOOKEEPER_IS_SEQUENCE :: "int \<Rightarrow> bool" where
  "ZOOKEEPER_IS_SEQUENCE mode \<longleftrightarrow>
     mode = ZOO_PERSISTENT_SEQUENTIAL \<or> mode = ZOO_EPHEMERAL_SEQUENTIAL \<or>
     mode = ZOO_PERSISTENT_SEQUENTIAL_WITH_TTL"

definition ZOOKEEPER_IS_TTL :: "int \<Rightarrow> bool" where
  "ZOOKEEPER_IS_TTL mode \<longleftrightarrow>
     mode = ZOO_PERSISTENT_WITH_TTL \<or> mode = ZOO_PERSISTENT_SEQUENTIAL_WITH_TTL"

section \<open>Names of codes\<close>

definition state2String :: "int \<Rightarrow> string" where
  "state2String st =
     (if st = 0 then ''ZOO_CLOSED_STATE''
      else if st = ZOO_CONNECTING_STATE then ''ZOO_CONNECTING_STATE''
      else if st = ZOO_SSL_CONNECTING_STATE then ''ZOO_SSL_CONNECTING_STATE''
      else if st = ZOO_ASSOCIATING_STATE then ''ZOO_ASSOCIATING_STATE''
      else if st = ZOO_CONNECTED_STATE then ''ZOO_CONNECTED_STATE''
      else if st = ZOO_READONLY_STATE then ''ZOO_READONLY_STATE''
      else if st = ZOO_EXPIRED_SESSION_STATE then ''ZOO_EXPIRED_SESSION_STATE''
      else if st = ZOO_AUTH_FAILED_STATE then ''ZOO_AUTH_FAILED_STATE''
      else ''INVALID_STATE'')"

definition watcherEvent2String :: "int \<Rightarrow> string" where
  "watcherEvent2String e =
     (if e = 0 then ''ZOO_ERROR_EVENT''
      else if e = ZOO_CREATED_EVENT then ''ZOO_CREATED_EVENT''
      else if e = ZOO_DELETED_EVENT then ''ZOO_DELETED_EVENT''
      else if e = ZOO_CHANGED_EVENT then ''ZOO_CHANGED_EVENT''
      else if e = ZOO_CHILD_EVENT then ''ZOO_CHILD_EVENT''
      else if e = ZOO_SESSION_EVENT then ''ZOO_SESSION_EVENT''
      else if e = ZOO_NOTWATCHING_EVENT then ''ZOO_NOTWATCHING_EVENT''
      else ''INVALID_EVENT'')"

text \<open>\<^verbatim>\<open>strerror\<close> of the C library is a parameter.\<close>

definition zerror :: "(int \<Rightarrow> string) \<Rightarrow> int \<Rightarrow> string" where
  "zerror strerror c =
     (if c = ZOK then ''ok''
      else if c = ZSYSTEMERROR then ''system error''
      else if c = ZRUNTIMEINCONSISTENCY then ''run time inconsistency''
      else if c = ZDATAINCONSISTENCY then ''data inconsistency''
      else if c = ZCONNECTIONLOSS then ''connection loss''
      else if c = ZMARSHALLINGERROR then ''marshalling error''
      else if c = ZUNIMPLEMENTED then ''unimplemented''
      else if c = ZOPERATIONTIMEOUT then ''operation timeout''
      else if c = ZBADARGUMENTS then ''bad arguments''
      else if c = ZINVALIDSTATE then ''invalid zhandle state''
      else if c = ZNEWCONFIGNOQUORUM then ''no quorum of new config is connected and up-to-date with the leader of last commmitted config - try invoking reconfiguration after new servers are connected and synced''
      else if c = ZRECONFIGINPROGRESS then ''Another reconfiguration is in progress -- concurrent reconfigs not supported (yet)''
      else if c = ZAPIERROR then ''api error''
      else if c = ZNONODE then ''no node''
      else if c = ZNOAUTH then ''not authenticated''
      else if c = ZBADVERSION then ''bad version''
      else if c = ZNOCHILDRENFOREPHEMERALS then ''no children for ephemerals''
      else if c = ZNODEEXISTS then ''node exists''
      else if c = ZNOTEMPTY then ''not empty''
      else if c = ZSESSIONEXPIRED then ''session expired''
      else if c = ZINVALIDCALLBACK then ''invalid callback''
      else if c = ZINVALIDACL then ''invalid acl''
      else if c = ZAUTHFAILED then ''authentication failed''
      else if c = ZCLOSING then ''zookeeper is closing''
      else if c = ZNOTHING then ''(not error) no server responses to process''
      else if c = ZSESSIONMOVED then ''session moved to another server, so operation is ignored''
      else if c = ZNOTREADONLY then ''state-changing request is passed to read-only server''
      else if c = ZEPHEMERALONLOCALSESSION then ''attempt to create ephemeral node on a local session''
      else if c = ZNOWATCHER then ''the watcher couldn'' @ [CHR 0x27] @ ''t be found''
      else if c = ZRECONFIGDISABLED then ''attempts to perform a reconfiguration operation when reconfiguration feature is disable''
      else if c > 0 then strerror c
      else ''unknown error'')"

text \<open>The codes of \<^verbatim>\<open>enum ZOO_ERRORS\<close>, in its order.\<close>

definition ZOO_ERRORS :: "int list" where
  "ZOO_ERRORS = [ZOK, ZSYSTEMERROR, ZRUNTIMEINCONSISTENCY, ZDATAINCONSISTENCY, ZCONNECTIONLOSS, ZMARSHALLINGERROR, ZUNIMPLEMENTED, ZOPERATIONTIMEOUT, ZBADARGUMENTS, ZINVALIDSTATE, ZNEWCONFIGNOQUORUM, ZRECONFIGINPROGRESS, ZSSLCONNECTIONERROR, ZAPIERROR, ZNONODE, ZNOAUTH, ZBADVERSION, ZNOCHILDRENFOREPHEMERALS, ZNODEEXISTS, ZNOTEMPTY, ZSESSIONEXPIRED, ZINVALIDCALLBACK, ZINVALIDACL, ZAUTHFAILED, ZCLOSING, ZNOTHING, ZSESSIONMOVED, ZNOTREADONLY, ZEPHEMERALONLOCALSESSION, ZNOWATCHER, ZRECONFIGDISABLED, ZSESSIONCLOSEDREQUIRESASLAUTH]"

section \<open>Properties\<close>

text \<open>
  Of the codes of \<^verbatim>\<open>enum ZOO_ERRORS\<close>, exactly \<^verbatim>\<open>ZSSLCONNECTIONERROR\<close> and
  \<^verbatim>\<open>ZSESSIONCLOSEDREQUIRESASLAUTH\<close> have no text of their own in \<^verbatim>\<open>zerror\<close> and are reported as an
  unknown error.
\<close>

theorem zerror_unknown_codes:
  "filter (\<lambda>c. zerror strerror c = ''unknown error'') ZOO_ERRORS =
     [ZSSLCONNECTIONERROR, ZSESSIONCLOSEDREQUIRESASLAUTH]"
  by (simp add: ZOO_ERRORS_def zerror_def)

end
