(* ===== verification/Watch_Table.thy ===== *)
theory Watch_Table
  imports Hashtable Zk_Path
begin

text \<open>
  The watcher tables of \<^verbatim>\<open>3party/zookeeper-client-c/src/zk_hashtable.c\<close>: three hash tables from
  server paths to lists of watcher objects, and the operations on them (activation after a
  response, collection for an event, removal, queries). A watcher object is a function pointer
  with a context pointer; two objects are the same watcher when both agree.

  The model of a hash table is the one of theory Hashtable; the lemmas here rest on its interface
  \<^verbatim>\<open>keyed_store\<close> and show that the tables hold no watcher twice, that an event takes exactly the
  watchers of its path out of the tables its type selects, and what a removal leaves.
\<close>

section \<open>Data\<close>

record watcher_object =
  wo_watcher :: addr
  wo_context :: addr

type_synonym watcher_object_list = "watcher_object list"
type_synonym zk_hashtable = "(string, watcher_object_list) hashtable"

text \<open>
  Which allocations succeed: the objects whose result the code asserts or uses unchecked
  (\<^verbatim>\<open>calloc\<close>, \<^verbatim>\<open>strdup\<close>), and the allocation sites of the hash table.
\<close>

record alloc =
  obj_ok :: bool
  head_ok :: bool
  table_ok :: bool
  realloc_ok :: bool
  entry_ok :: bool

definition all_memory :: alloc where
  "all_memory = \<lparr> obj_ok = True, head_ok = True, table_ok = True, realloc_ok = True, entry_ok = True \<rparr>"

text \<open>The fields of \<^verbatim>\<open>struct _zhandle\<close> that this component reads and writes.\<close>

record watch_state =
  zh_watcher :: addr
  zh_context :: addr
  chroot :: "string option"
  active_node_watchers :: zk_hashtable
  active_exist_watchers :: zk_hashtable
  active_child_watchers :: zk_hashtable

text \<open>
  A result checker (\<^verbatim>\<open>result_checker_fn\<close>) picks the table a watcher is activated in, from the return
  code of the request.
\<close>

datatype watch_table = NodeT | ExistT | ChildT

record watcher_registration =
  reg_watcher :: addr
  reg_context :: addr
  reg_checker :: "int \<Rightarrow> watch_table option"
  reg_path :: string

record watcher_deregistration =
  dereg_watcher :: addr
  dereg_context :: addr
  dereg_type :: int
  dereg_path :: string

definition data_result_checker :: "int \<Rightarrow> watch_table option" where
  "data_result_checker rc = (if rc = ZOK then Some NodeT else None)"

definition exists_result_checker :: "int \<Rightarrow> watch_table option" where
  "exists_result_checker rc =
     (if rc = ZOK then Some NodeT else if rc = ZNONODE then Some ExistT else None)"

definition child_result_checker :: "int \<Rightarrow> watch_table option" where
  "child_result_checker rc = (if rc = ZOK then Some ChildT else None)"

section \<open>Operations on one table\<close>

text \<open>\<^verbatim>\<open>char\<close> is signed: a byte above 0x7f is sign-extended before it is added.\<close>

fun djb2_loop :: "u32 \<Rightarrow> string \<Rightarrow> u32" where
  "djb2_loop hv [] = hv"
| "djb2_loop hv (c # cs) =
     djb2_loop ((push_bit 5 hv + hv) + word_of_int (sint (word_of_nat (of_char c) :: byte))) cs"

definition string_hash_djb2 :: "string \<Rightarrow> u32" where
  "string_hash_djb2 str = djb2_loop 5381 str"

definition string_equal :: "string \<Rightarrow> string \<Rightarrow> bool" where
  "string_equal key1 key2 = (key1 = key2)"

definition create_zk_hashtable :: "alloc \<Rightarrow> zk_hashtable option exec" where
  "create_zk_hashtable m =
     (if \<not> obj_ok m then UB
      else Ret (create_hashtable (head_ok m) (table_ok m) 32 string_hash_djb2 string_equal))"



fun search_watcher :: "watcher_object_list \<Rightarrow> watcher_object \<Rightarrow> watcher_object option" where
  "search_watcher [] wo = None"
| "search_watcher (wobj # wl) wo =
     (if wo_watcher wobj = wo_watcher wo \<and> wo_context wobj = wo_context wo then Some wobj
      else search_watcher wl wo)"

text \<open>
  \<^verbatim>\<open>add_to_list\<close>: whether the object is cloned or moved only concerns who owns its memory; the list
  gets an object with the same two fields either way.
\<close>

definition add_to_list :: "watcher_object_list \<Rightarrow> watcher_object \<Rightarrow> int \<times> watcher_object_list" where
  "add_to_list wl wo = (if search_watcher wl wo = None then (1, wo # wl) else (0, wl))"

definition do_insert_watcher_object ::
  "alloc \<Rightarrow> zk_hashtable \<Rightarrow> string \<Rightarrow> watcher_object \<Rightarrow> (int \<times> zk_hashtable) exec" where
  "do_insert_watcher_object m ht path wo =
     (case hashtable_search ht path of
        None \<Rightarrow>
          if \<not> obj_ok m then UB
          else bind_exec (hashtable_insert (table_ok m) (realloc_ok m) (entry_ok m) ht path [wo])
                 (\<lambda>(res, ht'). if res = 0 then UB else Ret (1, ht'))
      | Some wl \<Rightarrow>
          Ret (fst (add_to_list wl wo), hashtable_modify ht path (\<lambda>l. snd (add_to_list l wo))))"

fun keys_loop :: "zk_hashtable \<Rightarrow> hashtable_itr \<Rightarrow> nat \<Rightarrow> string list exec" where
  "keys_loop h itr 0 = Ret []"
| "keys_loop h itr (Suc n) =
     (case itr_entry h itr of
        None \<Rightarrow> UB
      | Some e \<Rightarrow> bind_exec (keys_loop h (snd (hashtable_iterator_advance h itr)) n)
                   (\<lambda>ks. Ret (ek e # ks)))"

text \<open>\<^verbatim>\<open>*count\<close> is an \<^verbatim>\<open>int\<close>: a count above its range would be negative and the loop would not run.\<close>

definition collect_keys :: "alloc \<Rightarrow> zk_hashtable \<Rightarrow> string list exec" where
  "collect_keys m ht =
     (let count = sint (hashtable_count ht) in
      if count \<le> 0 then Ret []
      else if \<not> obj_ok m then UB
      else case hashtable_iterator True ht of
             None \<Rightarrow> UB
           | Some itr \<Rightarrow> keys_loop ht itr (nat count))"

fun copy_watchers :: "watcher_object_list \<Rightarrow> watcher_object_list \<Rightarrow> watcher_object_list" where
  "copy_watchers [] to = to"
| "copy_watchers (wo # from) to = copy_watchers from (snd (add_to_list to wo))"

partial_function (option) copy_loop ::
  "zk_hashtable \<Rightarrow> hashtable_itr \<Rightarrow> watcher_object_list \<Rightarrow> watcher_object_list exec option" where
  "copy_loop h itr to =
     (case itr_entry h itr of
        None \<Rightarrow> Some UB
      | Some e \<Rightarrow>
          (case hashtable_iterator_advance h itr of
             (hasMore, itr') \<Rightarrow>
               if hasMore \<noteq> 0 then copy_loop h itr' (copy_watchers (ev e) to)
               else Some (Ret (copy_watchers (ev e) to))))"

definition copy_table ::
  "alloc \<Rightarrow> zk_hashtable \<Rightarrow> watcher_object_list \<Rightarrow> watcher_object_list exec option" where
  "copy_table m from to =
     (if hashtable_count from = 0 then Some (Ret to)
      else if \<not> obj_ok m then Some UB
      else case hashtable_iterator True from of
             None \<Rightarrow> Some UB
           | Some itr \<Rightarrow> copy_loop from itr to)"

definition add_for_event ::
  "zk_hashtable \<Rightarrow> string \<Rightarrow> watcher_object_list \<Rightarrow> zk_hashtable \<times> watcher_object_list" where
  "add_for_event ht path list =
     (case hashtable_remove ht path of
        (None, ht') \<Rightarrow> (ht', list)
      | (Some wl, ht') \<Rightarrow> (ht', copy_watchers wl list))"

definition containsWatcher :: "zk_hashtable \<Rightarrow> string \<Rightarrow> addr \<Rightarrow> addr \<Rightarrow> bool" where
  "containsWatcher watchers path watcher watcherCtx =
     (if watcher = NULL then True
      else case hashtable_search watchers path of
             None \<Rightarrow> False
           | Some wl \<Rightarrow> search_watcher wl \<lparr> wo_watcher = watcher, wo_context = watcherCtx \<rparr> \<noteq> None)"

text \<open>
  \<^verbatim>\<open>removeWatcherFromList\<close> first unlinks the first match behind the head, then the head if it
  matches.
\<close>

fun unlink_behind :: "addr \<Rightarrow> addr \<Rightarrow> watcher_object_list \<Rightarrow> watcher_object_list" where
  "unlink_behind w c (e # n # es) =
     (if wo_watcher n = w \<and> wo_context n = c then e # es else e # unlink_behind w c (n # es))"
| "unlink_behind w c es = es"

definition removeWatcherFromList :: "addr \<Rightarrow> addr \<Rightarrow> watcher_object_list \<Rightarrow> watcher_object_list" where
  "removeWatcherFromList watcher watcherCtx wl =
     (case unlink_behind watcher watcherCtx wl of
        [] \<Rightarrow> []
      | e # es \<Rightarrow> if wo_watcher e = watcher \<and> wo_context e = watcherCtx then es else e # es)"

definition removeWatcher :: "zk_hashtable \<Rightarrow> string \<Rightarrow> addr \<Rightarrow> addr \<Rightarrow> zk_hashtable" where
  "removeWatcher watchers path watcher watcherCtx =
     (case hashtable_search watchers path of
        None \<Rightarrow> watchers
      | Some wl \<Rightarrow>
          if watcher = NULL then snd (hashtable_remove watchers path)
          else let watchers' = hashtable_modify watchers path (removeWatcherFromList watcher watcherCtx)
               in if removeWatcherFromList watcher watcherCtx wl = []
                  then snd (hashtable_remove watchers' path)
                  else watchers')"

section \<open>Operations on the handle\<close>

definition collect_session_watchers ::
  "alloc \<Rightarrow> 'a watch_state_scheme \<Rightarrow> watcher_object_list \<Rightarrow> watcher_object_list exec option" where
  "collect_session_watchers m zh list =
     (case copy_table m (active_node_watchers zh) list of
        Some (Ret l1) \<Rightarrow>
          (case copy_table m (active_exist_watchers zh) l1 of
             Some (Ret l2) \<Rightarrow> copy_table m (active_child_watchers zh) l2
           | r \<Rightarrow> r)
      | r \<Rightarrow> r)"

definition add_node_event ::
  "string \<Rightarrow> 'a watch_state_scheme \<times> watcher_object_list \<Rightarrow> 'a watch_state_scheme \<times> watcher_object_list" where
  "add_node_event path = (\<lambda>(zh, list). case add_for_event (active_node_watchers zh) path list of
     (ht, l) \<Rightarrow> (zh\<lparr> active_node_watchers := ht \<rparr>, l))"

definition add_exist_event ::
  "string \<Rightarrow> 'a watch_state_scheme \<times> watcher_object_list \<Rightarrow> 'a watch_state_scheme \<times> watcher_object_list" where
  "add_exist_event path = (\<lambda>(zh, list). case add_for_event (active_exist_watchers zh) path list of
     (ht, l) \<Rightarrow> (zh\<lparr> active_exist_watchers := ht \<rparr>, l))"

definition add_child_event ::
  "string \<Rightarrow> 'a watch_state_scheme \<times> watcher_object_list \<Rightarrow> 'a watch_state_scheme \<times> watcher_object_list" where
  "add_child_event path = (\<lambda>(zh, list). case add_for_event (active_child_watchers zh) path list of
     (ht, l) \<Rightarrow> (zh\<lparr> active_child_watchers := ht \<rparr>, l))"

definition collectWatchers ::
  "alloc \<Rightarrow> 'a watch_state_scheme \<Rightarrow> int \<Rightarrow> string \<Rightarrow>
   (watcher_object_list \<times> 'a watch_state_scheme) exec option" where
  "collectWatchers m zh type path =
     (if \<not> obj_ok m then Some UB
      else if type = ZOO_SESSION_EVENT then
        (case collect_session_watchers m zh
                (snd (add_to_list [] \<lparr> wo_watcher = zh_watcher zh, wo_context = zh_context zh \<rparr>)) of
           Some (Ret list) \<Rightarrow> Some (Ret (list, zh))
         | Some UB \<Rightarrow> Some UB
         | None \<Rightarrow> None)
      else
        let (zh', list) =
          (if type = ZOO_CREATED_EVENT \<or> type = ZOO_CHANGED_EVENT then
             add_exist_event path (add_node_event path (zh, []))
           else if type = ZOO_CHILD_EVENT then add_child_event path (zh, [])
           else if type = ZOO_DELETED_EVENT then
             add_child_event path (add_exist_event path (add_node_event path (zh, [])))
           else (zh, []))
        in Some (Ret (list, zh')))"

text \<open>
  The calls of user code that \<^verbatim>\<open>deliverWatchers\<close> makes, in order: function, event type, state, client
  path, context. A NULL function pointer is a crash.
\<close>

record watch_call =
  call_fn :: addr
  call_type :: int
  call_state :: int
  call_path :: string
  call_context :: addr

fun do_foreach_watcher :: "watcher_object_list \<Rightarrow> string \<Rightarrow> int \<Rightarrow> int \<Rightarrow> watch_call list exec" where
  "do_foreach_watcher [] client_path type state = Ret []"
| "do_foreach_watcher (wo # wl) client_path type state =
     (if wo_watcher wo = NULL then UB
      else bind_exec (do_foreach_watcher wl client_path type state)
             (\<lambda>calls. Ret (\<lparr> call_fn = wo_watcher wo, call_type = type, call_state = state,
                            call_path = client_path, call_context = wo_context wo \<rparr> # calls)))"

definition deliverWatchers ::
  "'a watch_state_scheme \<Rightarrow> int \<Rightarrow> int \<Rightarrow> string \<Rightarrow> watcher_object_list option \<Rightarrow> watch_call list exec" where
  "deliverWatchers zh type state path list =
     (case list of None \<Rightarrow> Ret []
      | Some wl \<Rightarrow>
          let client_path = (if type \<noteq> ZOO_SESSION_EVENT then sub_string (chroot zh) path else path)
          in do_foreach_watcher wl client_path type state)"

definition get_table :: "'a watch_state_scheme \<Rightarrow> watch_table \<Rightarrow> zk_hashtable" where
  "get_table zh t =
     (case t of NodeT \<Rightarrow> active_node_watchers zh | ExistT \<Rightarrow> active_exist_watchers zh
      | ChildT \<Rightarrow> active_child_watchers zh)"

definition set_table :: "'a watch_state_scheme \<Rightarrow> watch_table \<Rightarrow> zk_hashtable \<Rightarrow> 'a watch_state_scheme" where
  "set_table zh t ht =
     (case t of NodeT \<Rightarrow> zh\<lparr> active_node_watchers := ht \<rparr> | ExistT \<Rightarrow> zh\<lparr> active_exist_watchers := ht \<rparr>
      | ChildT \<Rightarrow> zh\<lparr> active_child_watchers := ht \<rparr>)"

definition activateWatcher ::
  "alloc \<Rightarrow> 'a watch_state_scheme \<Rightarrow> watcher_registration option \<Rightarrow> int \<Rightarrow> 'a watch_state_scheme exec" where
  "activateWatcher m zh reg rc =
     (case reg of None \<Rightarrow> Ret zh
      | Some r \<Rightarrow>
          (case reg_checker r rc of None \<Rightarrow> Ret zh
           | Some t \<Rightarrow>
               if \<not> obj_ok m then UB
               else bind_exec (do_insert_watcher_object m (get_table zh t) (reg_path r)
                        \<lparr> wo_watcher = reg_watcher r, wo_context = reg_context r \<rparr>)
                      (\<lambda>(_, ht). Ret (set_table zh t ht))))"

definition removeWatchers ::
  "'a watch_state_scheme \<Rightarrow> string \<Rightarrow> int \<Rightarrow> addr \<Rightarrow> addr \<Rightarrow> 'a watch_state_scheme" where
  "removeWatchers zh path type watcher watcherCtx =
     (let rm = (\<lambda>t zh. set_table zh t (removeWatcher (get_table zh t) path watcher watcherCtx)) in
      if type = ZWATCHTYPE_CHILD then rm ChildT zh
      else if type = ZWATCHTYPE_DATA then rm ExistT (rm NodeT zh)
      else if type = ZWATCHTYPE_ANY then rm ExistT (rm NodeT (rm ChildT zh))
      else zh)"

definition deactivateWatcher ::
  "'a watch_state_scheme \<Rightarrow> watcher_deregistration option \<Rightarrow> int \<Rightarrow> 'a watch_state_scheme" where
  "deactivateWatcher zh dereg rc =
     (case dereg of None \<Rightarrow> zh
      | Some d \<Rightarrow>
          if rc \<noteq> ZOK then zh
          else removeWatchers zh (dereg_path d) (dereg_type d) (dereg_watcher d) (dereg_context d))"

definition pathHasWatcher ::
  "'a watch_state_scheme \<Rightarrow> string \<Rightarrow> int \<Rightarrow> addr \<Rightarrow> addr \<Rightarrow> bool" where
  "pathHasWatcher zh path wtype watcher watcherCtx =
     (let has = (\<lambda>t. containsWatcher (get_table zh t) path watcher watcherCtx) in
      if wtype = ZWATCHTYPE_CHILD then has ChildT
      else if wtype = ZWATCHTYPE_DATA then has NodeT \<or> has ExistT
      else if wtype = ZWATCHTYPE_ANY then has ChildT \<or> has NodeT \<or> has ExistT
      else False)"

section \<open>Watcher lists\<close>

lemma watcher_object_eq:
  "wo = wo' \<longleftrightarrow> wo_watcher wo = wo_watcher wo' \<and> wo_context wo = wo_context (wo' :: watcher_object)"
  by auto

lemma search_watcher_None [simp]: "search_watcher wl wo = None \<longleftrightarrow> wo \<notin> set wl"
  by (induction wl) (auto simp: watcher_object_eq)

lemma add_to_list_set [simp]: "set (snd (add_to_list wl wo)) = insert wo (set wl)"
  by (auto simp: add_to_list_def)

lemma add_to_list_distinct [simp]: "distinct (snd (add_to_list wl wo)) = distinct wl"
  by (auto simp: add_to_list_def)

lemma copy_watchers_set [simp]: "set (copy_watchers from to) = set from \<union> set to"
  by (induction "from" arbitrary: to) auto

lemma copy_watchers_distinct [simp]: "distinct (copy_watchers from to) = distinct to"
  by (induction "from" arbitrary: to) auto

lemma unlink_behind_distinct:
  assumes "distinct wl"
  shows "unlink_behind w c wl =
    (case wl of [] \<Rightarrow> [] | e # es \<Rightarrow> e # filter (\<lambda>x. x \<noteq> \<lparr>wo_watcher = w, wo_context = c\<rparr>) es)"
  using assms
proof (induction w c wl rule: unlink_behind.induct)
  case (1 w c e n es)
  have eq: "wo_watcher n = w \<and> wo_context n = c \<longleftrightarrow> n = \<lparr>wo_watcher = w, wo_context = c\<rparr>"
    by (auto simp: watcher_object_eq)
  show ?case
  proof (cases "n = \<lparr>wo_watcher = w, wo_context = c\<rparr>")
    case True
    then have "filter (\<lambda>x. x \<noteq> \<lparr>wo_watcher = w, wo_context = c\<rparr>) es = es"
      using "1.prems" by (intro filter_True) auto
    then show ?thesis using True by simp
  next
    case False
    then show ?thesis using 1 eq by auto
  qed
qed auto

lemma removeWatcherFromList_filter:
  assumes "distinct wl"
  shows "removeWatcherFromList w c wl = filter (\<lambda>x. x \<noteq> \<lparr>wo_watcher = w, wo_context = c\<rparr>) wl"
proof (cases wl)
  case (Cons e es)
  have "filter (\<lambda>x. x \<noteq> e) es = es" using assms Cons by (intro filter_True) auto
  then show ?thesis
    using Cons unlink_behind_distinct [OF assms]
    by (auto simp: removeWatcherFromList_def watcher_object_eq)
qed (simp add: removeWatcherFromList_def)

section \<open>One table as a relation between paths and watchers\<close>

definition wt_ok :: "zk_hashtable \<Rightarrow> bool" where
  "wt_ok ht \<longleftrightarrow> ht_ok ht \<and> (\<forall>p l. ht_map ht p = Some l \<longrightarrow> l \<noteq> [] \<and> distinct l)"

definition watchers_of :: "zk_hashtable \<Rightarrow> string \<Rightarrow> watcher_object set" where
  "watchers_of ht p = (case ht_map ht p of None \<Rightarrow> {} | Some l \<Rightarrow> set l)"

lemma wt_okD: "wt_ok ht \<Longrightarrow> ht_ok ht" "wt_ok ht \<Longrightarrow> ht_map ht p = Some l \<Longrightarrow> l \<noteq> [] \<and> distinct l"
  by (auto simp: wt_ok_def)

lemma watchers_of_update:
  "ht_map ht' = (ht_map ht)(p := r) \<Longrightarrow>
   watchers_of ht' = (watchers_of ht)(p := (case r of None \<Rightarrow> {} | Some l \<Rightarrow> set l))"
  by (auto simp: watchers_of_def fun_eq_iff)

lemma wt_ok_update:
  "wt_ok ht \<Longrightarrow> ht_ok ht' \<Longrightarrow> ht_map ht' = (ht_map ht)(p := r) \<Longrightarrow>
   (\<And>l. r = Some l \<Longrightarrow> l \<noteq> [] \<and> distinct l) \<Longrightarrow> wt_ok ht'"
  by (auto simp: wt_ok_def split: if_splits)

lemma create_zk_hashtable_ok:
  assumes "create_zk_hashtable m = Ret (Some ht)"
  shows "wt_ok ht" "watchers_of ht = (\<lambda>_. {})" "ht_room ht"
proof -
  have "create_hashtable (head_ok m) (table_ok m) 32 string_hash_djb2 string_equal = Some ht"
    using assms by (simp add: create_zk_hashtable_def split: if_splits)
  note c = create_hashtable_spec [OF this]
  show "wt_ok ht" "watchers_of ht = (\<lambda>_. {})"
    using c(1,3,5) by (auto simp: wt_ok_def ht_ok_def eq_ok_def watchers_of_def string_equal_def fun_eq_iff)
  show "ht_room ht" unfolding ht_room_def c(6) by simp
qed

lemma do_insert_spec:
  assumes "wt_ok ht" "ht_room ht" "do_insert_watcher_object m ht path wo = Ret (rc, ht')"
  shows "wt_ok ht'" "watchers_of ht' = (watchers_of ht)(path := insert wo (watchers_of ht path))"
    "rc = (if wo \<in> watchers_of ht path then 0 else 1)"
proof -
  note ok = wt_okD(1) [OF assms(1)]
  have ht': "(case hashtable_search ht path of
        None \<Rightarrow> hashtable_insert (table_ok m) (realloc_ok m) True ht path [wo]
      | Some l \<Rightarrow> Ret (rc, hashtable_modify ht path (\<lambda>l. snd (add_to_list l wo)))) = Ret (if hashtable_search ht path = None then -1 else rc, ht')"
    using assms(3)
    by (cases "entry_ok m")
      (auto simp: do_insert_watcher_object_def hashtable_insert_unfold split: option.splits if_splits)
  let ?l = "case ht_map ht path of None \<Rightarrow> [wo] | Some l \<Rightarrow> snd (add_to_list l wo)"
  have u: "ht_ok ht'" "ht_map ht' = (ht_map ht)(path \<mapsto> ?l)"
    using ht.upsert [OF ok assms(2) ht'] by simp_all
  have l: "?l \<noteq> [] \<and> distinct ?l"
    using wt_okD(2) [OF assms(1)] by (auto simp: add_to_list_def split: option.splits)
  show "wt_ok ht'" using wt_ok_update [OF assms(1) u] l by simp
  show "watchers_of ht' = (watchers_of ht)(path := insert wo (watchers_of ht path))"
    using watchers_of_update [OF u(2)] by (auto simp: watchers_of_def split: option.splits)
  show "rc = (if wo \<in> watchers_of ht path then 0 else 1)"
    using assms(3) ok
    by (auto simp: do_insert_watcher_object_def ht.find_amap watchers_of_def add_to_list_def
        split: option.splits if_splits)
qed

lemma removeWatcher_spec:
  assumes "wt_ok ht"
  shows "wt_ok (removeWatcher ht path w c)"
    "watchers_of (removeWatcher ht path w c) = (watchers_of ht)(path :=
       (if w = NULL then {} else watchers_of ht path - {\<lparr>wo_watcher = w, wo_context = c\<rparr>}))"
proof -
  let ?ht = "removeWatcher ht path w c"
  let ?f = "filter (\<lambda>x. x \<noteq> \<lparr>wo_watcher = w, wo_context = c\<rparr>)"
  note ok = wt_okD(1) [OF assms]
  have "wt_ok ?ht \<and> watchers_of ?ht = (watchers_of ht)(path :=
       (if w = NULL then {} else watchers_of ht path - {\<lparr>wo_watcher = w, wo_context = c\<rparr>}))"
  proof (cases "ht_map ht path")
    case None
    then show ?thesis
      using assms ok by (auto simp: removeWatcher_def ht.find_amap watchers_of_def fun_eq_iff)
  next
    case (Some l)
    note l = wt_okD(2) [OF assms Some]
    have rm: "removeWatcherFromList w c l = ?f l" using l by (simp add: removeWatcherFromList_filter)
    obtain r s where d: "hashtable_remove ht path = (r, s)" by fastforce
    have "ht_ok ?ht \<and> ht_map ?ht = (ht_map ht)(path := (if w = NULL \<or> ?f l = [] then None else Some (?f l)))"
    proof (cases "w = NULL")
      case True
      then show ?thesis
        using Some ok d ht.del_amap [OF ok d] by (simp add: removeWatcher_def ht.find_amap)
    next
      case False
      have "?ht = (if removeWatcherFromList w c l = [] then snd (hashtable_remove (hashtable_modify ht path (removeWatcherFromList w c)) path)
          else hashtable_modify ht path (removeWatcherFromList w c))"
        using False Some ok by (simp add: removeWatcher_def ht.find_amap Let_def)
      from ht.prune [where void = "\<lambda>x. x = []", OF ok Some this] show ?thesis
        using False rm by simp
    qed
    then have m: "ht_ok ?ht" "ht_map ?ht = (ht_map ht)(path := (if w = NULL \<or> ?f l = [] then None else Some (?f l)))"
      by simp_all
    have wf: "wt_ok ?ht"
      using l by (intro wt_ok_update [OF assms m]) (auto split: if_splits)
    have "(case (if w = NULL \<or> ?f l = [] then None else Some (?f l)) of None \<Rightarrow> {} | Some l \<Rightarrow> set l) =
        (if w = NULL then {} else watchers_of ht path - {\<lparr>wo_watcher = w, wo_context = c\<rparr>})"
      using Some by (auto simp: watchers_of_def filter_empty_conv)
    then show ?thesis using wf watchers_of_update [OF m(2)] by simp
  qed
  then show "wt_ok ?ht" "watchers_of ?ht = (watchers_of ht)(path :=
       (if w = NULL then {} else watchers_of ht path - {\<lparr>wo_watcher = w, wo_context = c\<rparr>}))" by simp_all
qed

lemma add_for_event_spec:
  assumes "wt_ok ht" "add_for_event ht path list = (ht', list')"
  shows "wt_ok ht'" "watchers_of ht' = (watchers_of ht)(path := {})"
    "set list' = watchers_of ht path \<union> set list" "distinct list' = distinct list"
proof -
  note ok = wt_okD(1) [OF assms(1)]
  obtain r s where d: "hashtable_remove ht path = (r, s)" by fastforce
  note m = ht.del_amap [OF ok d]
  have ht': "ht' = s" using assms(2) d by (auto simp: add_for_event_def split: option.splits)
  show "wt_ok ht'" using m ht' by (intro wt_ok_update [OF assms(1), of _ path None]) auto
  show "watchers_of ht' = (watchers_of ht)(path := {})"
    using m ht' watchers_of_update [of s ht path None] by simp
  show "set list' = watchers_of ht path \<union> set list" "distinct list' = distinct list"
    using assms(2) d m by (auto simp: add_for_event_def watchers_of_def split: option.splits)
qed

lemma containsWatcher_iff:
  assumes "wt_ok ht"
  shows "containsWatcher ht path w c \<longleftrightarrow> w = NULL \<or> \<lparr>wo_watcher = w, wo_context = c\<rparr> \<in> watchers_of ht path"
  using wt_okD(1) [OF assms]
  by (auto simp: containsWatcher_def watchers_of_def ht.find_amap simp del: not_None_eq split: option.splits)

section \<open>The loops over a whole table\<close>

lemma itr_step:
  assumes "itr_ok h itr" "itr_rest h itr = e # es"
  shows "itr_entry h itr = Some e" "itr_e itr \<noteq> None"
  using assms itr_rest_entry [OF assms(1)] itr_rest_nil [OF assms(1)] by auto

lemma keys_loop_rest:
  assumes "ht_wf h" "itr_ok h itr" "n \<le> length (itr_rest h itr)"
  shows "keys_loop h itr n = Ret (map ek (take n (itr_rest h itr)))"
  using assms(2,3)
proof (induction n arbitrary: itr)
  case (Suc n)
  then obtain e es where r: "itr_rest h itr = e # es" by (cases "itr_rest h itr") auto
  obtain rc itr' where a: "hashtable_iterator_advance h itr = (rc, itr')" by fastforce
  show ?case
    using Suc itr_step [OF Suc.prems(1) r] r a
      hashtable_iterator_advance_spec [OF a assms(1) Suc.prems(1)] by simp
qed simp

lemma collect_keys_entries:
  assumes "ht_wf ht" "length (entries ht) < 2 ^ 31" "obj_ok m"
  shows "collect_keys m ht = Ret (map ek (entries ht))"
proof -
  have n: "unat (entrycount ht) = length (entries ht)" using assms(1) by (simp add: ht_wf_def)
  then have c: "sint (entrycount ht) = int (length (entries ht))"
    using assms(2) sint_i32_of_nat [of "length (entries ht)"] by (simp add: n [symmetric])
  show ?thesis
  proof (cases "entries ht = []")
    case True
    then show ?thesis using c unfolding collect_keys_def hashtable_count_def by (simp del: concat_eq_Nil_conv)
  next
    case False
    then have ne: "0 < sint (entrycount ht)" unfolding c by (simp del: concat_eq_Nil_conv)
    obtain itr where i: "hashtable_iterator True ht = Some itr"
      using hashtable_iterator_ex by blast
    note s = hashtable_iterator_spec [OF i assms(1)]
    show ?thesis
      using keys_loop_rest [OF assms(1) s(1), of "length (entries ht)"] s(2) ne c i assms(3)
      unfolding collect_keys_def hashtable_count_def by simp
  qed
qed

lemma copy_loop_rest:
  assumes "ht_wf h" "itr_ok h itr" "itr_rest h itr = e # es"
  shows "copy_loop h itr to = Some (Ret (fold (\<lambda>x. copy_watchers (ev x)) (e # es) to))"
  using assms(2,3)
proof (induction es arbitrary: itr e to)
  case Nil
  obtain rc itr' where a: "hashtable_iterator_advance h itr = (rc, itr')" by fastforce
  note s = hashtable_iterator_advance_spec [OF a assms(1) Nil(1)]
  show ?case
    using s Nil itr_step [OF Nil] a by (subst copy_loop.simps) simp
next
  case (Cons x xs)
  obtain rc itr' where a: "hashtable_iterator_advance h itr = (rc, itr')" by fastforce
  note s = hashtable_iterator_advance_spec [OF a assms(1) Cons.prems(1)]
  have r: "itr_rest h itr' = x # xs" "rc \<noteq> 0" using s Cons.prems(2) by simp_all
  show ?case
    using Cons.IH [OF s(1) r(1)] r(2) itr_step [OF Cons.prems] a by (subst copy_loop.simps) simp
qed

lemma copy_table_spec:
  assumes "ht_wf ht" "obj_ok m"
  shows "copy_table m ht to = Some (Ret (fold (\<lambda>x. copy_watchers (ev x)) (entries ht) to))"
proof (cases "entries ht")
  case Nil
  then have "unat (entrycount ht) = 0" using assms(1) unfolding ht_wf_def by (metis list.size(3))
  then have "entrycount ht = 0" by (simp add: unat_eq_0)
  then show ?thesis using Nil by (simp add: copy_table_def hashtable_count_def del: concat_eq_Nil_conv)
next
  case (Cons e es)
  then have "entrycount ht \<noteq> 0" using assms(1) by (auto simp: ht_wf_def)
  moreover obtain itr where i: "hashtable_iterator True ht = Some itr"
    using hashtable_iterator_ex by blast
  ultimately show ?thesis
    using hashtable_iterator_spec [OF i assms(1)] copy_loop_rest [OF assms(1), of itr e es] Cons assms(2)
    by (simp add: copy_table_def hashtable_count_def)
qed

lemma fold_copy_watchers:
  "set (fold (\<lambda>x. copy_watchers (ev x)) es to) = set to \<union> (\<Union>x \<in> set es. set (ev x))"
  "distinct (fold (\<lambda>x. copy_watchers (ev x)) es to) = distinct to"
  by (induction es arbitrary: to) auto

lemma entries_watchers:
  assumes "ht_shape ht"
  shows "(\<Union>x \<in> set (entries ht). set (ev x)) = (\<Union>p. watchers_of ht p)"
proof -
  have "w \<in> (\<Union>p. watchers_of ht p) \<longleftrightarrow> (\<exists>p l. ht_map ht p = Some l \<and> w \<in> set l)" for w
    by (auto simp: watchers_of_def split: option.splits)
  then show ?thesis using ht_map_Some [OF assms] by fastforce
qed


section \<open>The handle\<close>

definition watch_ok :: "'a watch_state_scheme \<Rightarrow> bool" where
  "watch_ok zh \<longleftrightarrow> wt_ok (active_node_watchers zh) \<and> wt_ok (active_exist_watchers zh) \<and>
     wt_ok (active_child_watchers zh)"

text \<open>The watchers of a path in one of the tables.\<close>

abbreviation registered :: "'a watch_state_scheme \<Rightarrow> watch_table \<Rightarrow> string \<Rightarrow> watcher_object set" where
  "registered zh t \<equiv> watchers_of (get_table zh t)"

lemma watch_ok_get: "watch_ok zh \<Longrightarrow> wt_ok (get_table zh t)"
  by (cases t) (simp_all add: watch_ok_def get_table_def)

lemma watch_ok_set: "watch_ok zh \<Longrightarrow> wt_ok ht \<Longrightarrow> watch_ok (set_table zh t ht)"
  by (cases t) (simp_all add: watch_ok_def set_table_def)

lemma get_set_table [simp]: "get_table (set_table zh t ht) t' = (if t = t' then ht else get_table zh t')"
  by (cases t; cases t') (simp_all add: get_table_def set_table_def)

text \<open>The tables whose watchers an event of a given type triggers.\<close>

definition event_tables :: "int \<Rightarrow> watch_table set" where
  "event_tables type =
     (if type = ZOO_CREATED_EVENT \<or> type = ZOO_CHANGED_EVENT then {NodeT, ExistT}
      else if type = ZOO_CHILD_EVENT then {ChildT}
      else if type = ZOO_DELETED_EVENT then {NodeT, ExistT, ChildT} else {})"

text \<open>One table's part of the collection.\<close>

definition add_table_event ::
  "watch_table \<Rightarrow> string \<Rightarrow> 'a watch_state_scheme \<times> watcher_object_list \<Rightarrow> 'a watch_state_scheme \<times> watcher_object_list" where
  "add_table_event t path = (\<lambda>(zh, list). case add_for_event (get_table zh t) path list of
     (ht, l) \<Rightarrow> (set_table zh t ht, l))"

lemma add_event_table:
  "add_node_event = add_table_event NodeT" "add_exist_event = add_table_event ExistT"
  "add_child_event = add_table_event ChildT"
  by (auto simp: add_node_event_def add_exist_event_def add_child_event_def add_table_event_def
      get_table_def set_table_def fun_eq_iff)

lemma add_table_event_spec:
  assumes "watch_ok zh" "add_table_event t path (zh, list) = (zh', list')"
  shows "watch_ok zh'" "set list' = registered zh t path \<union> set list" "distinct list' = distinct list"
    "registered zh' t' p = (if t' = t \<and> p = path then {} else registered zh t' p)"
proof -
  obtain ht l where a: "add_for_event (get_table zh t) path list = (ht, l)" by fastforce
  then have r: "zh' = set_table zh t ht" "list' = l"
    using assms(2) by (simp_all add: add_table_event_def)
  note s = add_for_event_spec [OF watch_ok_get [OF assms(1)] a]
  show "watch_ok zh'" using r s assms(1) by (simp add: watch_ok_set)
  show "set list' = registered zh t path \<union> set list" "distinct list' = distinct list" using s r by simp_all
  show "registered zh' t' p = (if t' = t \<and> p = path then {} else registered zh t' p)"
    using s r by auto
qed

text \<open>A collection over several tables, one after the other.\<close>

definition add_events ::
  "watch_table list \<Rightarrow> string \<Rightarrow> 'a watch_state_scheme \<times> watcher_object_list \<Rightarrow> 'a watch_state_scheme \<times> watcher_object_list" where
  "add_events ts path st = fold (\<lambda>t. add_table_event t path) ts st"

lemma add_events_spec:
  assumes "watch_ok zh" "add_events ts path (zh, list) = (zh', list')" "distinct ts"
  shows "watch_ok zh' \<and> set list' = (\<Union>t \<in> set ts. registered zh t path) \<union> set list \<and>
    distinct list' = distinct list \<and>
    (\<forall>t p. registered zh' t p = (if t \<in> set ts \<and> p = path then {} else registered zh t p))"
  using assms
proof (induction ts arbitrary: zh list)
  case (Cons t ts)
  obtain zh1 l1 where a: "add_table_event t path (zh, list) = (zh1, l1)" by fastforce
  note s = add_table_event_spec [OF Cons.prems(1) a]
  have "add_events ts path (zh1, l1) = (zh', list')"
    using Cons.prems(2) a by (simp add: add_events_def)
  from Cons.IH [OF s(1) this] Cons.prems(3) s show ?case by auto
qed (simp add: add_events_def)

lemma collectWatchers_event:
  assumes "obj_ok m" "type \<noteq> ZOO_SESSION_EVENT"
  shows "\<exists>ts. distinct ts \<and> set ts = event_tables type \<and>
    collectWatchers m zh type path = (case add_events ts path (zh, []) of (zh', l) \<Rightarrow> Some (Ret (l, zh')))"
proof -
  let ?ts = "if type = ZOO_CREATED_EVENT \<or> type = ZOO_CHANGED_EVENT then [NodeT, ExistT]
      else if type = ZOO_CHILD_EVENT then [ChildT]
      else if type = ZOO_DELETED_EVENT then [NodeT, ExistT, ChildT] else []"
  show ?thesis
    using assms
    by (intro exI [of _ ?ts]) (auto simp: collectWatchers_def event_tables_def add_events_def add_event_table Let_def)
qed

lemma collectWatchers_session:
  assumes "obj_ok m" "watch_ok zh"
  obtains l where "collectWatchers m zh ZOO_SESSION_EVENT path = Some (Ret (l, zh))" "distinct l"
    "set l = insert \<lparr>wo_watcher = zh_watcher zh, wo_context = zh_context zh\<rparr> (\<Union>t p. registered zh t p)"
proof -
  have wf: "ht_wf (get_table zh t)" for t
    using watch_ok_get [OF assms(2), of t] by (simp add: wt_ok_def ht_ok_def)
  have wfs: "ht_wf (active_node_watchers zh)" "ht_wf (active_exist_watchers zh)" "ht_wf (active_child_watchers zh)"
    using wf [of NodeT] wf [of ExistT] wf [of ChildT] by (simp_all add: get_table_def)
  let ?cp = "\<lambda>t. fold (\<lambda>x. copy_watchers (ev x)) (entries (get_table zh t))"
  let ?d = "\<lparr>wo_watcher = zh_watcher zh, wo_context = zh_context zh\<rparr>"
  let ?l = "?cp ChildT (?cp ExistT (?cp NodeT [?d]))"
  have 1: "collectWatchers m zh ZOO_SESSION_EVENT path = Some (Ret (?l, zh))"
    using assms(1) wfs
    by (simp add: collectWatchers_def collect_session_watchers_def copy_table_spec add_to_list_def get_table_def)
  have all: "(\<Union>t p. registered zh t p) = (\<Union>p. registered zh NodeT p) \<union> (\<Union>p. registered zh ExistT p) \<union> (\<Union>p. registered zh ChildT p)"
    by auto (metis watch_table.exhaust)
  have "set (?cp t l) = set l \<union> (\<Union>p. registered zh t p)" for t l
    using entries_watchers [of "get_table zh t"] wf [of t] unfolding fold_copy_watchers(1)
    by (simp add: ht_wf_def)
  then have 2: "set ?l = insert ?d (\<Union>t p. registered zh t p)"
    unfolding all by auto
  have 3: "distinct ?l" by (simp add: fold_copy_watchers)
  show thesis using that 1 2 3 by blast
qed

lemma deliver_calls:
  assumes "\<forall>w \<in> set wl. wo_watcher w \<noteq> NULL"
  shows "do_foreach_watcher wl cp type st = Ret (map (\<lambda>w. \<lparr> call_fn = wo_watcher w, call_type = type,
     call_state = st, call_path = cp, call_context = wo_context w \<rparr>) wl)"
  using assms by (induction wl) auto

definition watch_room :: "'a watch_state_scheme \<Rightarrow> bool" where
  "watch_room zh \<longleftrightarrow> (\<forall>t. ht_room (get_table zh t))"

lemma activateWatcher_table:
  assumes "watch_ok zh" "watch_room zh" "activateWatcher m zh (Some r) rc = Ret zh'" "reg_checker r rc = Some t"
  shows "watch_ok zh'" "registered zh' t' p = (if t' = t \<and> p = reg_path r
      then insert \<lparr>wo_watcher = reg_watcher r, wo_context = reg_context r\<rparr> (registered zh t' p)
      else registered zh t' p)"
proof -
  let ?w = "\<lparr>wo_watcher = reg_watcher r, wo_context = reg_context r\<rparr>"
  obtain x ht where i: "do_insert_watcher_object m (get_table zh t) (reg_path r) ?w = Ret (x, ht)"
      and zh': "zh' = set_table zh t ht"
    using assms(3,4) by (auto simp: activateWatcher_def split: if_splits)
  have "ht_room (get_table zh t)" using assms(2) by (simp add: watch_room_def)
  note s = do_insert_spec [OF watch_ok_get [OF assms(1)] this i]
  show "watch_ok zh'" using s(1) assms(1) zh' by (simp add: watch_ok_set)
  show "registered zh' t' p = (if t' = t \<and> p = reg_path r
      then insert ?w (registered zh t' p) else registered zh t' p)"
    using s(2) zh' by auto
qed

definition rm_table ::
  "string \<Rightarrow> addr \<Rightarrow> addr \<Rightarrow> watch_table \<Rightarrow> 'a watch_state_scheme \<Rightarrow> 'a watch_state_scheme" where
  "rm_table path w c t zh = set_table zh t (removeWatcher (get_table zh t) path w c)"

lemma rm_table_spec:
  assumes "watch_ok zh"
  shows "watch_ok (rm_table path w c t zh)" "registered (rm_table path w c t zh) t' p = (if t' = t \<and> p = path
      then (if w = NULL then {} else registered zh t' p - {\<lparr>wo_watcher = w, wo_context = c\<rparr>})
      else registered zh t' p)"
proof -
  note s = removeWatcher_spec [OF watch_ok_get [OF assms(1), of t], of path w c]
  show "watch_ok (rm_table path w c t zh)" using s(1) assms by (simp add: watch_ok_set rm_table_def)
  show "registered (rm_table path w c t zh) t' p = (if t' = t \<and> p = path
      then (if w = NULL then {} else registered zh t' p - {\<lparr>wo_watcher = w, wo_context = c\<rparr>})
      else registered zh t' p)"
    using s(2) by (cases "t' = t") (auto simp: rm_table_def)
qed

definition type_tables :: "int \<Rightarrow> watch_table set" where
  "type_tables type = (if type = ZWATCHTYPE_CHILD then {ChildT} else if type = ZWATCHTYPE_DATA then {NodeT, ExistT}
     else if type = ZWATCHTYPE_ANY then UNIV else {})"

lemma removeWatchers_tables:
  assumes "watch_ok zh"
  shows "watch_ok (removeWatchers zh path type w c)"
    "registered (removeWatchers zh path type w c) t p = (if t \<in> type_tables type \<and> p = path
      then (if w = NULL then {} else registered zh t p - {\<lparr>wo_watcher = w, wo_context = c\<rparr>})
      else registered zh t p)"
  using assms
  by (cases t; simp add: removeWatchers_def Let_def type_tables_def rm_table_def [symmetric] rm_table_spec)+

lemma example_watch_state:
  obtains zh :: watch_state and ht where "create_zk_hashtable all_memory = Ret (Some ht)"
    "zh = \<lparr> zh_watcher = 7, zh_context = 0, chroot = None, active_node_watchers = ht,
            active_exist_watchers = ht, active_child_watchers = ht \<rparr>"
    "watch_ok zh" "watch_room zh" "\<And>t p. registered zh t p = {}"
proof -
  obtain ht :: zk_hashtable where ht: "create_zk_hashtable all_memory = Ret (Some ht)"
    by (auto simp: create_zk_hashtable_def all_memory_def create_hashtable_def primes_def push_bit_eq_mult)
  note c = create_zk_hashtable_ok [OF ht]
  let ?zh = "\<lparr> zh_watcher = 7, zh_context = 0, chroot = None, active_node_watchers = ht,
            active_exist_watchers = ht, active_child_watchers = ht \<rparr>"
  have g: "get_table ?zh t = ht" for t by (cases t) (simp_all add: get_table_def)
  show thesis
  proof (rule that [OF ht refl])
    show "watch_ok ?zh" using c(1) by (simp add: watch_ok_def)
    show "watch_room ?zh" unfolding watch_room_def g using c(3) by simp
    show "registered ?zh t p = {}" for t p unfolding g c(2) by simp
  qed
qed

lemma activate_returns:
  assumes "reg_checker r rc = Some t"
  shows "\<exists>zh'. activateWatcher all_memory zh (Some r) rc = Ret zh'"
proof (cases "hashtable_search (get_table zh t) (reg_path r)")
  case None
  then show ?thesis
    using hashtable_insert_returns [of True "get_table zh t" "reg_path r" "[\<lparr>wo_watcher = reg_watcher r, wo_context = reg_context r\<rparr>]"] assms
    by (auto simp: activateWatcher_def do_insert_watcher_object_def all_memory_def simp del: bind_exec_Ret_iff)
next
  case (Some l)
  then show ?thesis using assms by (auto simp: activateWatcher_def do_insert_watcher_object_def all_memory_def)
qed

lemma collectWatchers_takes:
  assumes "watch_ok zh" "obj_ok m" "type \<noteq> ZOO_SESSION_EVENT"
  shows "\<exists>l zh'. collectWatchers m zh type path = Some (Ret (l, zh')) \<and> watch_ok zh' \<and> distinct l \<and>
     set l = (\<Union>t \<in> event_tables type. registered zh t path) \<and>
     (\<forall>t p. registered zh' t p = (if t \<in> event_tables type \<and> p = path then {} else registered zh t p))"
proof -
  obtain ts where ts: "distinct ts" "set ts = event_tables type"
      "collectWatchers m zh type path = (case add_events ts path (zh, []) of (zh', l) \<Rightarrow> Some (Ret (l, zh')))"
    using collectWatchers_event [OF assms(2,3)] by blast
  obtain zh' l where e: "add_events ts path (zh, []) = (zh', l)" by fastforce
  show ?thesis using add_events_spec [OF assms(1) e ts(1)] ts e by auto
qed

section \<open>Properties\<close>

text \<open>
  Property C22: a watch fires once. After a response has activated a watcher in a table, the next
  event for its path of a type that reads this table delivers that watcher exactly once, and takes
  it (with all others of that path) out of the table, so a further event does not deliver it again.
\<close>

theorem watch_fires_once:
  assumes "watch_ok zh" "watch_room zh" "obj_ok m"
    and "reg_checker r rc = Some t" "activateWatcher m zh (Some r) rc = Ret zh1"
    and "type \<noteq> ZOO_SESSION_EVENT" "t \<in> event_tables type"
  shows "\<exists>l zh2. collectWatchers m zh1 type (reg_path r) = Some (Ret (l, zh2)) \<and>
     count_list l \<lparr>wo_watcher = reg_watcher r, wo_context = reg_context r\<rparr> = 1 \<and>
     registered zh2 t (reg_path r) = {}"
proof -
  note a = activateWatcher_table [OF assms(1,2,5,4)]
  obtain ts where ts: "distinct ts" "set ts = event_tables type"
      "collectWatchers m zh1 type (reg_path r) = (case add_events ts (reg_path r) (zh1, []) of (zh', l) \<Rightarrow> Some (Ret (l, zh')))"
    using collectWatchers_event [OF assms(3,6)] by blast
  obtain zh2 l where e: "add_events ts (reg_path r) (zh1, []) = (zh2, l)" by fastforce
  note s = add_events_spec [OF a(1) e ts(1)]
  let ?w = "\<lparr>wo_watcher = reg_watcher r, wo_context = reg_context r\<rparr>"
  have "?w \<in> set l" using s ts(2) assms(7) a(2) by auto
  moreover have "distinct l" using s by simp
  ultimately have "count_list l ?w = 1" by (intro count_list_distinct)
  then show ?thesis using ts e s assms(7) by auto
qed

theorem watch_fires_once_witness:
  "\<exists>zh zh1 l zh2. activateWatcher all_memory (zh :: watch_state)
       (Some \<lparr> reg_watcher = 1, reg_context = 2, reg_checker = data_result_checker, reg_path = ''/cfg'' \<rparr>) ZOK = Ret zh1 \<and>
     collectWatchers all_memory zh1 ZOO_CHANGED_EVENT ''/cfg'' = Some (Ret (l, zh2)) \<and>
     count_list l \<lparr>wo_watcher = 1, wo_context = 2\<rparr> = 1"
proof -
  obtain zh :: watch_state where zh: "watch_ok zh" "watch_room zh" using example_watch_state by metis
  let ?r = "\<lparr> reg_watcher = 1, reg_context = 2, reg_checker = data_result_checker, reg_path = ''/cfg'' \<rparr>"
  have c: "reg_checker ?r ZOK = Some NodeT" by (simp add: data_result_checker_def)
  obtain zh1 where a: "activateWatcher all_memory zh (Some ?r) ZOK = Ret zh1"
    using activate_returns [OF c] by blast
  have "\<exists>l zh2. collectWatchers all_memory zh1 ZOO_CHANGED_EVENT ''/cfg'' = Some (Ret (l, zh2)) \<and>
     count_list l \<lparr>wo_watcher = 1, wo_context = 2\<rparr> = 1"
    using watch_fires_once [OF zh _ c a, of ZOO_CHANGED_EVENT] by (auto simp: all_memory_def event_tables_def)
  then show ?thesis using a by blast
qed

text \<open>
  An event delivers exactly the watchers its path has in the tables its type selects,
  none twice; it removes exactly these and leaves every other path and table alone.
\<close>

theorem collectWatchers_exact:
  assumes "watch_ok zh" "obj_ok m" "type \<noteq> ZOO_SESSION_EVENT"
  shows "\<exists>l zh'. collectWatchers m zh type path = Some (Ret (l, zh')) \<and> watch_ok zh' \<and> distinct l \<and>
     set l = (\<Union>t \<in> event_tables type. registered zh t path) \<and>
     (\<forall>t p. registered zh' t p = (if t \<in> event_tables type \<and> p = path then {} else registered zh t p))"
  by (rule collectWatchers_takes [OF assms])

theorem collectWatchers_exact_witness:
  "\<exists>zh l zh'. collectWatchers all_memory (zh :: watch_state) ZOO_DELETED_EVENT ''/cfg'' = Some (Ret (l, zh')) \<and> watch_ok zh'"
proof -
  obtain zh :: watch_state where "watch_ok zh" using example_watch_state by metis
  then show ?thesis using collectWatchers_exact [of zh all_memory ZOO_DELETED_EVENT "''/cfg''"]
    by (fastforce simp: all_memory_def)
qed

text \<open>
  A session event reaches the default watcher and every registered watcher, each
  once, and leaves the tables as they are.
\<close>

theorem session_event_reaches_all:
  assumes "watch_ok zh" "obj_ok m"
  shows "\<exists>l. collectWatchers m zh ZOO_SESSION_EVENT path = Some (Ret (l, zh)) \<and> distinct l \<and>
     set l = insert \<lparr>wo_watcher = zh_watcher zh, wo_context = zh_context zh\<rparr> (\<Union>t p. registered zh t p)"
  using collectWatchers_session [OF assms(2,1)] by metis

theorem session_event_reaches_all_witness:
  "\<exists>zh l. collectWatchers all_memory (zh :: watch_state) ZOO_SESSION_EVENT [] = Some (Ret (l, zh)) \<and>
     set l = {\<lparr>wo_watcher = 7, wo_context = 0\<rparr>}"
proof -
  obtain zh :: watch_state and ht where zh: "zh = \<lparr> zh_watcher = 7, zh_context = 0, chroot = None,
      active_node_watchers = ht, active_exist_watchers = ht, active_child_watchers = ht \<rparr>"
      "watch_ok zh" "\<And>t p. registered zh t p = {}"
    using example_watch_state by metis
  have "obj_ok all_memory" by (simp add: all_memory_def)
  from session_event_reaches_all [OF zh(2) this, of "[]"] show ?thesis
    using zh by auto
qed

text \<open>
  Removing the watches of a path for a watch type removes the given watcher (or, with
  a NULL watcher, all of them) from the tables of that type and nothing else; afterwards
  \<^verbatim>\<open>pathHasWatcher\<close> no longer finds the watcher.
\<close>

theorem removeWatchers_exact:
  assumes "watch_ok zh" "zh' = removeWatchers zh path type w c"
  shows "watch_ok zh' \<and>
     (\<forall>t p. registered zh' t p = (if t \<in> type_tables type \<and> p = path
        then (if w = NULL then {} else registered zh t p - {\<lparr>wo_watcher = w, wo_context = c\<rparr>})
        else registered zh t p)) \<and>
     (w \<noteq> NULL \<longrightarrow> \<not> pathHasWatcher zh' path type w c)"
proof -
  have "\<not> pathHasWatcher zh' path type w c" if "w \<noteq> NULL"
    using that removeWatchers_tables [OF assms(1), of path type w c] assms(2)
    by (auto simp: pathHasWatcher_def Let_def containsWatcher_iff watch_ok_get type_tables_def)
  then show ?thesis using removeWatchers_tables [OF assms(1)] assms(2) by simp
qed

theorem removeWatchers_exact_witness:
  "\<exists>zh. watch_ok (zh :: watch_state) \<and> \<not> pathHasWatcher (removeWatchers zh ''/cfg'' ZWATCHTYPE_ANY 1 2) ''/cfg'' ZWATCHTYPE_ANY 1 2"
proof -
  obtain zh :: watch_state where "watch_ok zh" using example_watch_state by metis
  then show ?thesis using removeWatchers_exact [OF _ refl, of zh "''/cfg''" ZWATCHTYPE_ANY 1 2] by auto
qed



text \<open>
  \<^verbatim>\<open>collect_keys\<close>, which tells the server after a reconnection what is watched, lists
  every path that has a watcher, each once.
\<close>

theorem collect_keys_complete:
  assumes "wt_ok ht" "length (entries ht) < 2 ^ 31" "obj_ok m"
  shows "\<exists>ks. collect_keys m ht = Ret ks \<and> distinct ks \<and> set ks = {p. watchers_of ht p \<noteq> {}}"
proof -
  have wf: "ht_wf ht" using assms(1) by (simp add: wt_ok_def ht_ok_def)
  have "p \<in> ek ` set (entries ht) \<longleftrightarrow> watchers_of ht p \<noteq> {}" for p
    using ht_map_None [of ht p] wt_okD(2) [OF assms(1), of p] unfolding watchers_of_def
    by (cases "ht_map ht p") auto
  then have "set (map ek (entries ht)) = {p. watchers_of ht p \<noteq> {}}" unfolding set_map by blast
  moreover have "distinct (map ek (entries ht))" using wf by (simp add: ht_wf_def ht_shape_def)
  ultimately show ?thesis using collect_keys_entries [OF wf assms(2,3)] by blast
qed

theorem collect_keys_complete_witness:
  "\<exists>ht. create_zk_hashtable all_memory = Ret (Some ht) \<and> collect_keys all_memory ht = Ret []"
proof -
  obtain ht where ht: "create_zk_hashtable all_memory = Ret (Some ht)" using example_watch_state by metis
  note c = create_zk_hashtable_ok [OF ht]
  have "create_hashtable True True 32 string_hash_djb2 string_equal = Some ht"
    using ht by (simp add: create_zk_hashtable_def all_memory_def)
  then have e: "entries ht = []" by (rule create_hashtable_spec(6))
  have "length (entries ht) < 2 ^ 31" unfolding e by simp
  from collect_keys_complete [OF c(1) this, of all_memory] show ?thesis
    using ht c(2) by (auto simp: all_memory_def)
qed

end
