(* ===== verification/Record_IO.thy ===== *)
theory Record_IO
  imports Zk_Const
begin

text \<open>
  The binary archives of \<^verbatim>\<open>3party/zookeeper-client-c/src/recordio.c\<close>: a growing output buffer and a
  bounded input buffer, with the serialisers and deserialisers of the primitive types. A buffer is
  the block of memory it points to; \<^verbatim>\<open>mem n\<close> says whether an allocation of \<^verbatim>\<open>n\<close> bytes succeeds. A
  copy that leaves its block and a signed overflow are undefined. The host is little-endian, with
  4-byte \<^verbatim>\<open>int\<close> and 8-byte \<^verbatim>\<open>size_t\<close>; error numbers are those of Linux.

  The locale \<^verbatim>\<open>codec\<close> states what a serialiser and its deserialiser owe each other; every primitive
  is an instance, and the records of theory Jute are built from them.
\<close>

section \<open>Bytes in memory\<close>

fun int_bytes :: "nat \<Rightarrow> int \<Rightarrow> byte list" where
  "int_bytes 0 x = []"
| "int_bytes (Suc n) x = word_of_int (x mod 256) # int_bytes n (x div 256)"

fun bytes_int :: "byte list \<Rightarrow> int" where
  "bytes_int [] = 0"
| "bytes_int (b # bs) = uint b + 256 * bytes_int bs"

lemma length_int_bytes [simp]: "length (int_bytes n x) = n"
  by (induction n arbitrary: x) auto

lemma bytes_int_bytes [simp]: "bytes_int (int_bytes n x) = x mod 256 ^ n"
proof (induction n arbitrary: x)
  case (Suc n)
  have "uint (word_of_int (x mod 256) :: byte) = x mod 256"
    by (simp add: uint_word_of_int)
  then show ?case
    using Suc by (simp add: mod_mult2_eq' zmod_zmult2_eq)
qed simp

lemma bytes_int_bounds: "0 \<le> bytes_int bs \<and> bytes_int bs < 256 ^ length bs"
proof (induction bs)
  case (Cons b bs)
  have "uint b < 256" using uint_lt2p [of b] by simp
  then show ?case using Cons by auto
qed simp

lemma int_bytes_int [simp]: "length bs = n \<Longrightarrow> int_bytes n (bytes_int bs) = bs"
proof (induction bs arbitrary: n)
  case (Cons b bs)
  have "uint b < 256" "0 \<le> uint b" using uint_lt2p [of b] by simp_all
  then show ?case using Cons by (auto simp: zmod_trivial_iff)
qed simp

definition bytes32 :: "i32 \<Rightarrow> byte list" where
  "bytes32 w = int_bytes 4 (uint w)"

definition word32 :: "byte list \<Rightarrow> i32" where
  "word32 bs = word_of_int (bytes_int bs)"

definition bytes64 :: "i64 \<Rightarrow> byte list" where
  "bytes64 w = int_bytes 8 (uint w)"

definition word64 :: "byte list \<Rightarrow> i64" where
  "word64 bs = word_of_int (bytes_int bs)"

text \<open>\<^verbatim>\<open>htonl\<close> and \<^verbatim>\<open>ntohl\<close> of a little-endian host.\<close>

definition htonl :: "i32 \<Rightarrow> i32" where
  "htonl w = word32 (rev (bytes32 w))"

function swap_loop :: "nat \<Rightarrow> byte list \<Rightarrow> byte list" where
  "swap_loop i s =
     (if i < 4 then swap_loop (Suc i) (s[i := s ! (8 - i - 1), 8 - i - 1 := s ! i]) else s)"
  by pat_completeness auto
termination
  by (relation "measure (\<lambda>(i, s). 4 - i)") auto

declare swap_loop.simps [simp del]

definition zoo_htonll :: "i64 \<Rightarrow> i64" where
  "zoo_htonll v = (if htonl 1 = 1 then v else word64 (swap_loop 0 (bytes64 v)))"

section \<open>Buffers\<close>

definition E2BIG :: int where [simp]: "E2BIG = 7"
definition ENOMEM :: int where [simp]: "ENOMEM = 12"
definition EINVAL :: int where [simp]: "EINVAL = 22"

record buff_struct =
  bs_len :: int
  bs_off :: int
  bs_buffer :: "byte list option"

record buffer =
  b_len :: i32
  b_buff :: "byte list option"

text \<open>A comparison with \<^verbatim>\<open>sizeof\<close> converts its left side to \<^verbatim>\<open>size_t\<close>.\<close>

definition size_lt :: "int \<Rightarrow> int \<Rightarrow> bool" where
  "size_lt d n \<longleftrightarrow> d mod 2 ^ 64 < n"

definition to_int :: "int \<Rightarrow> int" where
  "to_int x = sint (word_of_int x :: i32)"

definition in_int :: "int \<Rightarrow> bool" where
  "in_int x \<longleftrightarrow> - (2 ^ 31) \<le> x \<and> x < 2 ^ 31"

text \<open>
  The doubling loop of \<^verbatim>\<open>resize_buffer\<close>. A length of 0 would make it run forever without a side
  effect, which C leaves undefined, and doubling past \<^verbatim>\<open>INT_MAX\<close> is a signed overflow.
\<close>

function grow_len :: "int \<Rightarrow> int \<Rightarrow> int exec" where
  "grow_len l newlen =
     (if l < newlen then
        (if l = 0 \<or> \<not> in_int (2 * l) then UB else grow_len (2 * l) newlen)
      else Ret l)"
  by pat_completeness auto
termination
  by (relation "measure (\<lambda>(l, n). nat (2 ^ 32 - abs l))") (auto simp: in_int_def)

declare grow_len.simps [simp del]

text \<open>The new part of a reallocated block is indeterminate; it is written as zeros and never read.\<close>

definition realloc_block :: "byte list option \<Rightarrow> int \<Rightarrow> byte list" where
  "realloc_block b n =
     (case b of None \<Rightarrow> replicate (nat n) 0
      | Some bs \<Rightarrow> take (nat n) bs @ replicate (nat n - length bs) 0)"

definition resize_buffer :: "(int \<Rightarrow> bool) \<Rightarrow> buff_struct \<Rightarrow> int \<Rightarrow> (int \<times> buff_struct) exec" where
  "resize_buffer mem s newlen =
     bind_exec (grow_len (bs_len s) newlen)
      (\<lambda>l. if mem l
           then Ret (0, s\<lparr> bs_len := l, bs_buffer := Some (realloc_block (bs_buffer s) l) \<rparr>)
           else Ret (- ENOMEM, s\<lparr> bs_len := l, bs_buffer := None \<rparr>))"

text \<open>\<^verbatim>\<open>memcpy\<close> to the buffer at its offset, and the advance of the offset.\<close>

definition write_buff :: "buff_struct \<Rightarrow> byte list \<Rightarrow> (int \<times> buff_struct) exec" where
  "write_buff s bytes =
     (let s' = s\<lparr> bs_off := bs_off s + int (length bytes) \<rparr> in
      if bytes = [] then Ret (0, s')
      else case bs_buffer s of
        None \<Rightarrow> UB
      | Some b \<Rightarrow>
          if 0 \<le> bs_off s \<and> nat (bs_off s) + length bytes \<le> length b
          then Ret (0, s'\<lparr> bs_buffer := Some (take (nat (bs_off s)) b @ bytes @
                                drop (nat (bs_off s) + length bytes) b) \<rparr>)
          else UB)"

text \<open>\<^verbatim>\<open>memcpy\<close> of \<^verbatim>\<open>n\<close> bytes from the buffer at its offset.\<close>

definition read_buff :: "buff_struct \<Rightarrow> nat \<Rightarrow> byte list exec" where
  "read_buff s n =
     (if n = 0 then Ret []
      else case bs_buffer s of
        None \<Rightarrow> UB
      | Some b \<Rightarrow>
          if 0 \<le> bs_off s \<and> nat (bs_off s) + n \<le> length b
          then Ret (take n (drop (nat (bs_off s)) b)) else UB)"

section \<open>Output\<close>

text \<open>Call the second step unless the first returned a negative code.\<close>

definition if_ok :: "(int \<times> 's) exec \<Rightarrow> ('s \<Rightarrow> (int \<times> 's) exec) \<Rightarrow> (int \<times> 's) exec" where
  "if_ok m f = bind_exec m (\<lambda>(rc, s). if rc < 0 then Ret (rc, s) else f s)"

definition oa_serialize_int :: "(int \<Rightarrow> bool) \<Rightarrow> buff_struct \<Rightarrow> i32 \<Rightarrow> (int \<times> buff_struct) exec" where
  "oa_serialize_int mem priv d =
     (let put = (\<lambda>s. write_buff s (bytes32 (htonl d))) in
      if size_lt (bs_len priv - bs_off priv) 4
      then if_ok (resize_buffer mem priv (to_int (bs_len priv + 4))) put
      else put priv)"

definition oa_serialize_long :: "(int \<Rightarrow> bool) \<Rightarrow> buff_struct \<Rightarrow> i64 \<Rightarrow> (int \<times> buff_struct) exec" where
  "oa_serialize_long mem priv d =
     (let put = (\<lambda>s. write_buff s (bytes64 (zoo_htonll d))) in
      if size_lt (bs_len priv - bs_off priv) 8
      then if_ok (resize_buffer mem priv (to_int (bs_len priv + 8))) put
      else put priv)"

text \<open>Room for \<^verbatim>\<open>n\<close> more bytes, computed in \<^verbatim>\<open>int\<close>.\<close>

definition ensure_room :: "(int \<Rightarrow> bool) \<Rightarrow> buff_struct \<Rightarrow> int \<Rightarrow> (int \<times> buff_struct) exec" where
  "ensure_room mem priv n =
     (if bs_len priv - bs_off priv < n
      then if in_int (bs_len priv + n) then resize_buffer mem priv (bs_len priv + n) else UB
      else Ret (0, priv))"

definition oa_serialize_bool :: "(int \<Rightarrow> bool) \<Rightarrow> buff_struct \<Rightarrow> i32 \<Rightarrow> (int \<times> buff_struct) exec" where
  "oa_serialize_bool mem priv i =
     if_ok (ensure_room mem priv 1) (\<lambda>s. write_buff s [if i = 0 then 0 else 1])"

text \<open>
  \<^verbatim>\<open>oa_serialize_buffer\<close>: a NULL \<^verbatim>\<open>struct buffer\<close> and one of length -1 are written as the length -1;
  any other negative length, or a length beyond the block, is a copy out of bounds.
\<close>

definition oa_serialize_buffer ::
  "(int \<Rightarrow> bool) \<Rightarrow> buff_struct \<Rightarrow> buffer option \<Rightarrow> (int \<times> buff_struct) exec" where
  "oa_serialize_buffer mem priv b =
     (case b of None \<Rightarrow> oa_serialize_int mem priv (-1)
      | Some b \<Rightarrow>
          if_ok (oa_serialize_int mem priv (b_len b))
           (\<lambda>s. if b_len b = -1 then Ret (0, s)
                else if_ok (ensure_room mem s (sint (b_len b)))
                  (\<lambda>s. if sint (b_len b) < 0 then UB
                       else if b_len b = 0 then Ret (0, s)
                       else case b_buff b of None \<Rightarrow> UB
                         | Some bs \<Rightarrow> if nat (sint (b_len b)) \<le> length bs
                                       then write_buff s (take (nat (sint (b_len b))) bs) else UB)))"

text \<open>
  \<^verbatim>\<open>oa_serialize_string\<close>: for NULL the result of the inner call is dropped and 0 is returned.
\<close>

definition oa_serialize_string ::
  "(int \<Rightarrow> bool) \<Rightarrow> buff_struct \<Rightarrow> string option \<Rightarrow> (int \<times> buff_struct) exec" where
  "oa_serialize_string mem priv s =
     (case s of None \<Rightarrow> bind_exec (oa_serialize_int mem priv (-1)) (\<lambda>(_, s). Ret (0, s))
      | Some str \<Rightarrow>
          (let len = (word_of_nat (length str) :: i32) in
           if_ok (oa_serialize_int mem priv len)
            (\<lambda>p. if_ok (ensure_room mem p (sint len))
              (\<lambda>p. if sint len < 0 then UB
                   else write_buff p (take (nat (sint len)) (bytes_of_string str))))))"

definition oa_start_record :: "buff_struct \<Rightarrow> (int \<times> buff_struct) exec" where
  "oa_start_record oa = Ret (0, oa)"

definition oa_end_record :: "buff_struct \<Rightarrow> (int \<times> buff_struct) exec" where
  "oa_end_record oa = Ret (0, oa)"

definition oa_end_vector :: "buff_struct \<Rightarrow> (int \<times> buff_struct) exec" where
  "oa_end_vector oa = Ret (0, oa)"

definition oa_start_vector :: "(int \<Rightarrow> bool) \<Rightarrow> buff_struct \<Rightarrow> i32 \<Rightarrow> (int \<times> buff_struct) exec" where
  "oa_start_vector mem priv n = oa_serialize_int mem priv n"

definition create_buffer_oarchive :: "bool \<Rightarrow> bool \<Rightarrow> (int \<Rightarrow> bool) \<Rightarrow> buff_struct option" where
  "create_buffer_oarchive oa_mem buff_mem mem =
     (if \<not> oa_mem then None else if \<not> buff_mem then None
      else Some \<lparr> bs_len = 128, bs_off = 0, bs_buffer = (if mem 128 then Some (replicate 128 0) else None) \<rparr>)"

definition get_buffer :: "buff_struct \<Rightarrow> byte list option" where
  "get_buffer oa = bs_buffer oa"

definition get_buffer_len :: "buff_struct \<Rightarrow> int" where
  "get_buffer_len oa = bs_off oa"

section \<open>Input\<close>

text \<open>
  A deserialiser gets the old contents of its target and returns the code, the new contents and
  the archive: on an error the target keeps what was not written.
\<close>

type_synonym 'v reader = "buff_struct \<Rightarrow> 'v \<Rightarrow> (int \<times> 'v \<times> buff_struct) exec"

definition ia_deserialize_int :: "i32 reader" where
  "ia_deserialize_int priv old =
     (if size_lt (bs_len priv - bs_off priv) 4 then Ret (- E2BIG, old, priv)
      else bind_exec (read_buff priv 4)
             (\<lambda>bs. Ret (0, htonl (word32 bs), priv\<lparr> bs_off := bs_off priv + 4 \<rparr>)))"

definition ia_deserialize_long :: "i64 reader" where
  "ia_deserialize_long priv old =
     (if size_lt (bs_len priv - bs_off priv) 8 then Ret (- E2BIG, old, priv)
      else bind_exec (read_buff priv 8)
             (\<lambda>bs. Ret (0, zoo_htonll (word64 bs), priv\<lparr> bs_off := bs_off priv + 8 \<rparr>)))"

definition ia_start_record :: "'v reader" where
  "ia_start_record ia v = Ret (0, v, ia)"

definition ia_end_record :: "'v reader" where
  "ia_end_record ia v = Ret (0, v, ia)"

definition ia_end_vector :: "'v reader" where
  "ia_end_vector ia v = Ret (0, v, ia)"

definition ia_start_vector :: "i32 reader" where
  "ia_start_vector priv old = ia_deserialize_int priv old"

text \<open>\<^verbatim>\<open>char\<close> is signed.\<close>

definition ia_deserialize_bool :: "i32 reader" where
  "ia_deserialize_bool priv old =
     (if bs_len priv - bs_off priv < 1 then Ret (- E2BIG, old, priv)
      else bind_exec (read_buff priv 1)
             (\<lambda>bs. Ret (0, word_of_int (sint (hd bs)), priv\<lparr> bs_off := bs_off priv + 1 \<rparr>)))"

text \<open>
  A negative length other than -1 is converted to a huge \<^verbatim>\<open>size_t\<close> by \<^verbatim>\<open>malloc\<close>; a copy of that size
  would leave the buffer.
\<close>

definition ia_deserialize_buffer :: "(int \<Rightarrow> bool) \<Rightarrow> buffer reader" where
  "ia_deserialize_buffer mem priv old =
     bind_exec (ia_deserialize_int priv (b_len old))
      (\<lambda>(rc, n, s).
         let b = old\<lparr> b_len := n \<rparr> in
         if rc < 0 then Ret (rc, b, s)
         else if bs_len s - bs_off s < sint n then Ret (- E2BIG, b, s)
         else if n = -1 then Ret (rc, b\<lparr> b_buff := None \<rparr>, s)
         else if \<not> mem (sint n mod 2 ^ 64) then Ret (- ENOMEM, b\<lparr> b_buff := None \<rparr>, s)
         else if sint n < 0 then UB
         else bind_exec (read_buff s (nat (sint n)))
                (\<lambda>bs. Ret (0, b\<lparr> b_buff := Some bs \<rparr>, s\<lparr> bs_off := bs_off s + sint n \<rparr>)))"

definition ia_deserialize_string :: "(int \<Rightarrow> bool) \<Rightarrow> string option reader" where
  "ia_deserialize_string mem priv old =
     bind_exec (ia_deserialize_int priv 0)
      (\<lambda>(rc, len, s).
         if rc < 0 then Ret (rc, old, s)
         else if bs_len s - bs_off s < sint len then Ret (- E2BIG, old, s)
         else if sint len < 0 then Ret (- EINVAL, old, s)
         else if \<not> in_int (sint len + 1) then UB
         else if \<not> mem (sint len + 1) then Ret (- ENOMEM, None, s)
         else bind_exec (read_buff s (nat (sint len)))
                (\<lambda>bs. Ret (0, Some (cstr (string_of_bytes bs)),
                           s\<lparr> bs_off := bs_off s + sint len \<rparr>)))"

definition create_buffer_iarchive :: "bool \<Rightarrow> bool \<Rightarrow> byte list option \<Rightarrow> int \<Rightarrow> buff_struct option" where
  "create_buffer_iarchive ia_mem buff_mem buf len =
     (if \<not> ia_mem then None else if \<not> buff_mem then None
      else Some \<lparr> bs_len = len, bs_off = 0, bs_buffer = buf \<rparr>)"

section \<open>Loops over vectors\<close>

text \<open>
  The loops that the generated vector code runs over its elements: once the code is nonzero the
  remaining elements are skipped. An element behind a NULL array or past its end is undefined.
\<close>

fun ser_loop ::
  "(buff_struct \<Rightarrow> 'a \<Rightarrow> (int \<times> buff_struct) exec) \<Rightarrow> 'a list option \<Rightarrow> nat \<Rightarrow> nat \<Rightarrow>
   int \<times> buff_struct \<Rightarrow> (int \<times> buff_struct) exec" where
  "ser_loop f xs i 0 (rc, oa) = Ret (rc, oa)"
| "ser_loop f xs i (Suc n) (rc, oa) =
     (if rc \<noteq> 0 then ser_loop f xs (Suc i) n (rc, oa)
      else case xs of None \<Rightarrow> UB
        | Some ys \<Rightarrow> if i < length ys then bind_exec (f oa (ys ! i)) (ser_loop f xs (Suc i) n) else UB)"

fun des_loop ::
  "'a reader \<Rightarrow> nat \<Rightarrow> nat \<Rightarrow> int \<times> 'a list option \<times> buff_struct \<Rightarrow> (int \<times> 'a list option \<times> buff_struct) exec" where
  "des_loop f i 0 (rc, xs, ia) = Ret (rc, xs, ia)"
| "des_loop f i (Suc n) (rc, xs, ia) =
     (if rc \<noteq> 0 then des_loop f (Suc i) n (rc, xs, ia)
      else case xs of None \<Rightarrow> UB
        | Some ys \<Rightarrow>
            if i < length ys
            then bind_exec (f ia (ys ! i)) (\<lambda>(rc', y, ia'). des_loop f (Suc i) n (rc', Some (ys[i := y]), ia'))
            else UB)"

text \<open>\<^verbatim>\<open>calloc(count, size)\<close>: the count is converted to \<^verbatim>\<open>size_t\<close>.\<close>

definition calloc_vector :: "(int \<Rightarrow> bool) \<Rightarrow> i32 \<Rightarrow> int \<Rightarrow> 'a \<Rightarrow> 'a list option" where
  "calloc_vector mem n sz zero =
     (if mem ((sint n mod 2 ^ 64) * sz) then Some (replicate (nat (sint n)) zero) else None)"

section \<open>Byte order\<close>

lemma word32_bytes32 [simp]: "word32 (bytes32 w) = w"
  using uint_lt2p [of w] by (simp add: word32_def bytes32_def)

lemma bytes32_word32 [simp]: "length bs = 4 \<Longrightarrow> bytes32 (word32 bs) = bs"
  using bytes_int_bounds [of bs] by (simp add: word32_def bytes32_def uint_word_of_int)

lemma word64_bytes64 [simp]: "word64 (bytes64 w) = w"
  using uint_lt2p [of w] by (simp add: word64_def bytes64_def)

lemma bytes64_word64 [simp]: "length bs = 8 \<Longrightarrow> bytes64 (word64 bs) = bs"
  using bytes_int_bounds [of bs] by (simp add: word64_def bytes64_def uint_word_of_int)

lemma length_bytes [simp]: "length (bytes32 w) = 4" "length (bytes64 v) = 8"
  by (simp_all add: bytes32_def bytes64_def)

lemma htonl_bytes: "bytes32 (htonl w) = rev (bytes32 w)"
  by (simp add: htonl_def)

lemma htonl_htonl [simp]: "htonl (htonl w) = w"
  by (simp add: htonl_def)

lemma swap_loop_rev: "length s = 8 \<Longrightarrow> swap_loop 0 s = rev s"
  by (auto simp: swap_loop.simps numeral_eq_Suc length_Suc_conv)

lemma htonl_1: "htonl 1 \<noteq> 1"
proof
  assume "htonl 1 = 1"
  then have "rev (bytes32 1) = bytes32 1" using htonl_bytes [of 1] by simp
  moreover have "int_bytes (Suc (Suc (Suc (Suc 0)))) (uint (1 :: i32)) = [1, 0, 0, 0]" by simp
  ultimately show False by (simp add: bytes32_def eval_nat_numeral del: int_bytes.simps)
qed

lemma zoo_htonll_bytes: "bytes64 (zoo_htonll v) = rev (bytes64 v)"
  by (simp add: zoo_htonll_def htonl_1 swap_loop_rev)

lemma zoo_htonll_twice [simp]: "zoo_htonll (zoo_htonll v) = v"
  by (simp add: zoo_htonll_def htonl_1 swap_loop_rev)

section \<open>Well-formed archives\<close>

text \<open>
  An output archive is good when its block is as long as it says, its length is the initial 128
  doubled some number of times, and the offset lies within it; what has been written is the part
  before the offset.
\<close>

definition oa_ok :: "buff_struct \<Rightarrow> bool" where
  "oa_ok s \<longleftrightarrow> 0 \<le> bs_off s \<and> bs_off s \<le> bs_len s \<and> bs_len s < 2 ^ 31 \<and>
     (\<exists>j :: nat. bs_len s = 128 * 2 ^ j) \<and>
     (\<exists>b. bs_buffer s = Some b \<and> int (length b) = bs_len s)"

definition written :: "buff_struct \<Rightarrow> byte list" where
  "written s = take (nat (bs_off s)) (the (bs_buffer s))"

text \<open>An input archive is good when its block covers its length.\<close>

definition ia_ok :: "buff_struct \<Rightarrow> bool" where
  "ia_ok s \<longleftrightarrow> 0 \<le> bs_off s \<and> bs_off s \<le> bs_len s \<and> bs_len s < 2 ^ 31 \<and>
     (\<exists>b. bs_buffer s = Some b \<and> int (length b) = bs_len s)"

definition remaining :: "buff_struct \<Rightarrow> byte list" where
  "remaining s = drop (nat (bs_off s)) (the (bs_buffer s))"

lemma grow_len_spec:
  "grow_len l n = Ret r \<Longrightarrow> 0 < l \<Longrightarrow> l < 2 ^ 31 \<Longrightarrow>
   n \<le> r \<and> l \<le> r \<and> r < 2 ^ 31 \<and> (\<exists>j :: nat. r = l * 2 ^ j)"
proof (induction l n rule: grow_len.induct)
  case (1 l n)
  show ?case
  proof (cases "l < n")
    case True
    then have g: "l \<noteq> 0" "in_int (2 * l)" "grow_len (2 * l) n = Ret r"
      using 1(2) by (auto simp: grow_len.simps [of l n] split: if_splits)
    then obtain j :: nat where q: "n \<le> r" "2 * l \<le> r" "r < 2 ^ 31" "r = 2 * l * 2 ^ j"
      using 1(1) [OF True] 1(3) by (auto simp: in_int_def)
    have "l \<le> r" using q(2) 1(3) by linarith
    moreover have "r = l * 2 ^ Suc j" using q(4) by simp
    ultimately show ?thesis using q(1,3) by blast
  next
    case False
    then show ?thesis using 1(2-4) by (auto simp: grow_len.simps [of l n] intro: exI [of _ 0])
  qed
qed

lemma oa_len_bounds:
  assumes "oa_ok s"
  shows "0 < bs_len s" "bs_len s \<le> 2 ^ 30"
proof -
  obtain j :: nat where j: "bs_len s = 128 * 2 ^ j" "bs_len s < 2 ^ 31"
    using assms by (auto simp: oa_ok_def)
  then have "(2 :: int) ^ j < 2 ^ 24" by simp
  then have "j \<le> 23" using power_less_imp_less_exp [of "2 :: int" j 24] by simp
  then have "(2 :: int) ^ j \<le> 2 ^ 23" by (rule power_increasing) simp
  then show "0 < bs_len s" "bs_len s \<le> 2 ^ 30" using j(1) by simp_all
qed

lemma resize_buffer_spec:
  assumes "resize_buffer mem s n = Ret (rc, s')" "oa_ok s" "rc = 0"
  shows "oa_ok s'" "written s' = written s" "bs_off s' = bs_off s" "n \<le> bs_len s'"
proof -
  obtain l where l: "grow_len (bs_len s) n = Ret l" and
      s': "s' = s\<lparr> bs_len := l, bs_buffer := Some (realloc_block (bs_buffer s) l) \<rparr>"
    using assms(1,3) by (auto simp: resize_buffer_def split: if_splits)
  obtain i j :: nat where g: "n \<le> l" "bs_len s \<le> l" "l < 2 ^ 31" "l = bs_len s * 2 ^ j" "bs_len s = 128 * 2 ^ i"
    using grow_len_spec [OF l oa_len_bounds(1) [OF assms(2)]] assms(2) by (auto simp: oa_ok_def)
  have "l = 128 * 2 ^ (i + j)" using g(4,5) by (simp add: power_add)
  then have pow: "\<exists>j :: nat. l = 128 * 2 ^ j" by blast
  obtain b where b: "bs_buffer s = Some b" "int (length b) = bs_len s"
    using assms(2) by (auto simp: oa_ok_def)
  show "oa_ok s'" "written s' = written s" "bs_off s' = bs_off s" "n \<le> bs_len s'"
    using g(1-3) pow b assms(2) by (auto simp: s' oa_ok_def written_def realloc_block_def)
qed

lemma write_buff_spec:
  assumes "oa_ok s" "bs_off s + int (length bs) \<le> bs_len s"
  obtains s' where "write_buff s bs = Ret (0, s')" "oa_ok s'" "written s' = written s @ bs"
    "bs_off s' = bs_off s + int (length bs)" "bs_len s' = bs_len s"
proof -
  obtain b where b: "bs_buffer s = Some b" "int (length b) = bs_len s"
    using assms(1) by (auto simp: oa_ok_def)
  have fits: "0 \<le> bs_off s" "nat (bs_off s) + length bs \<le> length b"
    using assms b by (auto simp: oa_ok_def)
  let ?s = "s\<lparr> bs_off := bs_off s + int (length bs),
               bs_buffer := Some (take (nat (bs_off s)) b @ bs @ drop (nat (bs_off s) + length bs) b) \<rparr>"
  have "write_buff s bs = Ret (0, ?s)"
    using b fits by (cases s) (auto simp: write_buff_def Let_def)
  moreover have "oa_ok ?s" using assms b fits by (auto simp: oa_ok_def)
  moreover have "written ?s = written s @ bs"
    using b fits by (simp add: written_def nat_add_distrib)
  ultimately show thesis using that by simp
qed

lemma read_buff_spec:
  assumes "ia_ok s" "remaining s = bs @ rest"
  shows "read_buff s (length bs) = Ret bs"
    "ia_ok (s\<lparr> bs_off := bs_off s + int (length bs) \<rparr>)"
    "remaining (s\<lparr> bs_off := bs_off s + int (length bs) \<rparr>) = rest"
    "bs_off s + int (length bs) \<le> bs_len s" "bs_len s - bs_off s = int (length bs + length rest)"
proof -
  obtain b where b: "bs_buffer s = Some b" "int (length b) = bs_len s"
    using assms(1) by (auto simp: ia_ok_def)
  have o: "0 \<le> bs_off s" using assms(1) by (simp add: ia_ok_def)
  have d: "drop (nat (bs_off s)) b = bs @ rest"
    using assms(2) b by (simp add: remaining_def)
  then have len: "length b = nat (bs_off s) + length bs + length rest"
    using o assms(1) b by (metis (no_types, lifting) add.assoc append_take_drop_id ia_ok_def int_nat_eq length_append length_take min.absorb2 nat_int nat_le_eq_zle of_nat_0_le_iff)
  then show "bs_off s + int (length bs) \<le> bs_len s" "bs_len s - bs_off s = int (length bs + length rest)"
    using b o by auto
  show "read_buff s (length bs) = Ret bs"
    using b o d len by (simp add: read_buff_def)
  show "ia_ok (s\<lparr> bs_off := bs_off s + int (length bs) \<rparr>)"
    using assms(1) b len o by (auto simp: ia_ok_def)
  have "drop (nat (bs_off s) + length bs) b = rest"
    using d by (metis add.commute append_eq_conv_conj drop_drop)
  then show "remaining (s\<lparr> bs_off := bs_off s + int (length bs) \<rparr>) = rest"
    using b o by (simp add: remaining_def nat_add_distrib)
qed

section \<open>The contract of a codec\<close>

text \<open>
  \<^verbatim>\<open>ser\<close> appends \<^verbatim>\<open>enc v\<close> to what has been written whenever it reports success, and \<^verbatim>\<open>des\<close> reads a
  value back from its encoding, whatever follows it, when memory suffices.
\<close>

locale codec =
  fixes ser :: "(int \<Rightarrow> bool) \<Rightarrow> buff_struct \<Rightarrow> 'v \<Rightarrow> (int \<times> buff_struct) exec"
    and des :: "(int \<Rightarrow> bool) \<Rightarrow> 'v reader"
    and enc :: "'v \<Rightarrow> byte list"
    and valid :: "'v \<Rightarrow> bool"
  assumes ser_append: "oa_ok oa \<Longrightarrow> valid v \<Longrightarrow> ser mem oa v = Ret (rc, oa') \<Longrightarrow>
      rc = 0 \<and> oa_ok oa' \<and> written oa' = written oa @ enc v \<or> rc < 0"
    and des_enc: "(\<And>n. mem n) \<Longrightarrow> valid v \<Longrightarrow> ia_ok ia \<Longrightarrow> remaining ia = enc v @ rest \<Longrightarrow>
      \<exists>ia'. des mem ia old = Ret (0, v, ia') \<and> ia_ok ia' \<and> remaining ia' = rest"
begin

text \<open>What was serialised into a fresh archive is read back from its bytes.\<close>

lemma roundtrip:
  assumes "oa_ok oa" "written oa = []" "valid v" "ser mem oa v = Ret (0, oa')"
    and "\<And>n. mem' n" "ia_ok ia" "remaining ia = written oa' @ rest"
  shows "\<exists>ia'. des mem' ia old = Ret (0, v, ia') \<and> ia_ok ia' \<and> remaining ia' = rest"
  using ser_append [OF assms(1,3,4)] assms by (intro des_enc) auto

text \<open>No two valid values have the same encoding, even followed by more bytes.\<close>

lemma enc_prefix_free:
  assumes "valid v" "valid w" "enc v @ r = enc w @ q" "length (enc v @ r) < 2 ^ 31"
  shows "v = w \<and> r = q"
proof -
  let ?b = "enc v @ r"
  let ?ia = "\<lparr> bs_len = int (length ?b), bs_off = 0, bs_buffer = Some ?b \<rparr>"
  have ok: "ia_ok ?ia" using assms(4) by (simp add: ia_ok_def)
  have m: "(\<lambda>_ :: int. True) n" for n by simp
  have "remaining ?ia = enc v @ r" "remaining ?ia = enc w @ q"
    using assms(3) by (simp_all add: remaining_def)
  from des_enc [OF m assms(1) ok this(1), of v] des_enc [OF m assms(2) ok this(2), of v]
  show ?thesis by auto
qed

end

text \<open>Steps that follow each other while the code is 0, as in \<^verbatim>\<open>rc = rc ? rc : ...\<close>.\<close>

definition then_ser :: "(int \<times> 's) exec \<Rightarrow> ('s \<Rightarrow> (int \<times> 's) exec) \<Rightarrow> (int \<times> 's) exec" where
  "then_ser m f = bind_exec m (\<lambda>(rc, s). if rc \<noteq> 0 then Ret (rc, s) else f s)"

definition then_des ::
  "(int \<times> 'v \<times> 's) exec \<Rightarrow> ('v \<Rightarrow> 's \<Rightarrow> (int \<times> 'v \<times> 's) exec) \<Rightarrow> (int \<times> 'v \<times> 's) exec" where
  "then_des m f = bind_exec m (\<lambda>(rc, v, s). if rc \<noteq> 0 then Ret (rc, v, s) else f v s)"

text \<open>Reading one field of a record.\<close>

definition field ::
  "('f \<Rightarrow> (int \<times> 'f \<times> 's) exec) \<Rightarrow> ('v \<Rightarrow> 'f) \<Rightarrow> ('f \<Rightarrow> 'v) \<Rightarrow> 'v \<Rightarrow> (int \<times> 'v \<times> 's) exec" where
  "field rd get set_f v = bind_exec (rd (get v)) (\<lambda>(rc, x, s). Ret (rc, set_f x, s))"

section \<open>The primitives are codecs\<close>

definition enc_int :: "i32 \<Rightarrow> byte list" where
  "enc_int w = rev (bytes32 w)"

definition enc_long :: "i64 \<Rightarrow> byte list" where
  "enc_long w = rev (bytes64 w)"

definition enc_bool :: "i32 \<Rightarrow> byte list" where
  "enc_bool w = [if w = 0 then 0 else 1]"

definition enc_string :: "string option \<Rightarrow> byte list" where
  "enc_string s = (case s of None \<Rightarrow> enc_int (-1)
     | Some t \<Rightarrow> enc_int (word_of_nat (length t)) @ bytes_of_string t)"

definition enc_buffer :: "buffer \<Rightarrow> byte list" where
  "enc_buffer b = (case b_buff b of None \<Rightarrow> enc_int (-1) | Some bs \<Rightarrow> enc_int (b_len b) @ bs)"

definition valid_bool :: "i32 \<Rightarrow> bool" where
  "valid_bool w \<longleftrightarrow> w = 0 \<or> w = 1"

definition valid_string :: "string option \<Rightarrow> bool" where
  "valid_string s \<longleftrightarrow> (\<exists>t. s = Some t \<and> is_cstr t \<and> length t < 2 ^ 31 - 1)"

definition valid_buffer :: "buffer \<Rightarrow> bool" where
  "valid_buffer b \<longleftrightarrow> (case b_buff b of None \<Rightarrow> b_len b = -1
     | Some bs \<Rightarrow> length bs < 2 ^ 31 \<and> b_len b = word_of_nat (length bs))"

lemma length_enc [simp]: "length (enc_int w) = 4" "length (enc_long v) = 8" "length (enc_bool w) = 1"
  by (simp_all add: enc_int_def enc_long_def enc_bool_def)

lemma size_lt_iff: "0 \<le> d \<Longrightarrow> d < 2 ^ 31 \<Longrightarrow> size_lt d n \<longleftrightarrow> d < n"
  by (simp add: size_lt_def)

lemma resize_rc: "resize_buffer mem s n = Ret (rc, s') \<Longrightarrow> rc = 0 \<or> rc < 0"
  by (auto simp: resize_buffer_def split: if_splits)

text \<open>A put of a fixed number of bytes, growing the buffer when they do not fit.\<close>

lemma put_fixed:
  assumes "oa_ok s" "length bs = k" "k = 4 \<or> k = 8"
    and "(if size_lt (bs_len s - bs_off s) (int k) then if_ok (resize_buffer mem s (to_int (bs_len s + int k))) (\<lambda>s. write_buff s bs)
          else write_buff s bs) = Ret (rc, s')"
  shows "rc = 0 \<and> oa_ok s' \<and> written s' = written s @ bs \<or> rc < 0"
proof -
  have put: "rc = 0 \<and> oa_ok s' \<and> written s' = written t @ bs"
    if "oa_ok t" "bs_off t + int k \<le> bs_len t" "write_buff t bs = Ret (rc, s')" for t
    using write_buff_spec [OF that(1), of bs] that(2,3) assms(2) by auto
  show ?thesis
  proof (cases "size_lt (bs_len s - bs_off s) (int k)")
    case False
    then have "bs_off s + int k \<le> bs_len s"
      using assms(1) by (simp add: oa_ok_def size_lt_iff)
    then show ?thesis using put [OF assms(1)] assms(4) False by simp
  next
    case True
    then obtain c t where r: "resize_buffer mem s (to_int (bs_len s + int k)) = Ret (c, t)"
        and c: "if c < 0 then rc = c \<and> s' = t else write_buff t bs = Ret (rc, s')"
      using assms(4) by (auto simp: if_ok_def split: if_splits)
    show ?thesis
    proof (cases "c = 0")
      case True
      note z = resize_buffer_spec [OF r assms(1) True]
      have "bs_off t + int k \<le> bs_len t"
      proof -
        have "to_int (bs_len s + int k) = bs_len s + int k"
          unfolding to_int_def using oa_len_bounds [OF assms(1)] assms(3) by (intro sint_i32_of_int) auto
        then show ?thesis using z assms(1) by (simp add: oa_ok_def)
      qed
      then show ?thesis using put [OF z(1)] c True z(2) by simp
    next
      case False
      then show ?thesis using c resize_rc [OF r] by auto
    qed
  qed
qed

lemma des_fixed:
  assumes "ia_ok s" "remaining s = bs @ rest" "length bs = n"
  shows "\<not> size_lt (bs_len s - bs_off s) (int n)" "read_buff s n = Ret bs"
    "ia_ok (s\<lparr> bs_off := bs_off s + int n \<rparr>)" "remaining (s\<lparr> bs_off := bs_off s + int n \<rparr>) = rest"
proof -
  note r = read_buff_spec [OF assms(1,2)]
  have "0 \<le> bs_len s - bs_off s" "bs_len s - bs_off s < 2 ^ 31"
    using assms(1) by (auto simp: ia_ok_def)
  then show "\<not> size_lt (bs_len s - bs_off s) (int n)"
    using r(5) assms(3) size_lt_iff by auto
  show "read_buff s n = Ret bs" "ia_ok (s\<lparr> bs_off := bs_off s + int n \<rparr>)"
      "remaining (s\<lparr> bs_off := bs_off s + int n \<rparr>) = rest"
    using r assms(3) by auto
qed

interpretation int_codec: codec oa_serialize_int "\<lambda>_. ia_deserialize_int" enc_int "\<lambda>_. True"
proof unfold_locales
  fix oa mem rc oa' and v :: i32
  assume "oa_ok oa" "oa_serialize_int mem oa v = Ret (rc, oa')"
  then show "rc = 0 \<and> oa_ok oa' \<and> written oa' = written oa @ enc_int v \<or> rc < 0"
    using put_fixed [of oa "enc_int v" 4 mem rc oa'] by (simp add: oa_serialize_int_def Let_def enc_int_def htonl_bytes cong: if_cong)
next
  fix ia rest old and v :: i32
  assume a: "ia_ok ia" "remaining ia = enc_int v @ rest"
  have "htonl (word32 (enc_int v)) = v" by (simp add: enc_int_def flip: htonl_bytes)
  then show "\<exists>ia'. ia_deserialize_int ia old = Ret (0, v, ia') \<and> ia_ok ia' \<and> remaining ia' = rest"
    using des_fixed [OF a length_enc(1)] by (simp add: ia_deserialize_int_def)
qed

interpretation long_codec: codec oa_serialize_long "\<lambda>_. ia_deserialize_long" enc_long "\<lambda>_. True"
proof unfold_locales
  fix oa mem rc oa' and v :: i64
  assume "oa_ok oa" "oa_serialize_long mem oa v = Ret (rc, oa')"
  then show "rc = 0 \<and> oa_ok oa' \<and> written oa' = written oa @ enc_long v \<or> rc < 0"
    using put_fixed [of oa "enc_long v" 8 mem rc oa'] by (simp add: oa_serialize_long_def Let_def enc_long_def zoo_htonll_bytes cong: if_cong)
next
  fix ia rest old and v :: i64
  assume a: "ia_ok ia" "remaining ia = enc_long v @ rest"
  have "zoo_htonll (word64 (enc_long v)) = v" by (simp add: enc_long_def flip: zoo_htonll_bytes)
  then show "\<exists>ia'. ia_deserialize_long ia old = Ret (0, v, ia') \<and> ia_ok ia' \<and> remaining ia' = rest"
    using des_fixed [OF a length_enc(2)] by (simp add: ia_deserialize_long_def)
qed

text \<open>Room for a variable number of bytes, then the bytes.\<close>

lemma put_variable:
  assumes "oa_ok s" "n = int (length bs)"
    and "if_ok (ensure_room mem s n) (\<lambda>t. write_buff t bs) = Ret (rc, s')"
  shows "rc = 0 \<and> oa_ok s' \<and> written s' = written s @ bs \<or> rc < 0"
proof -
  have put: "rc = 0 \<and> oa_ok s' \<and> written s' = written t @ bs"
    if "oa_ok t" "bs_off t + n \<le> bs_len t" "write_buff t bs = Ret (rc, s')" for t
    using write_buff_spec [OF that(1), of bs] that(2,3) assms(2) by auto
  obtain c t where e: "ensure_room mem s n = Ret (c, t)"
      and c: "if c < 0 then rc = c \<and> s' = t else write_buff t bs = Ret (rc, s')"
    using assms(3) by (auto simp: if_ok_def split: if_splits)
  show ?thesis
  proof (cases "bs_len s - bs_off s < n")
    case False
    then have "c = 0" "t = s" using e by (auto simp: ensure_room_def)
    then show ?thesis using c put [OF assms(1)] False by auto
  next
    case True
    then have r: "resize_buffer mem s (bs_len s + n) = Ret (c, t)"
      using e by (auto simp: ensure_room_def split: if_splits)
    show ?thesis
    proof (cases "c = 0")
      case True
      note z = resize_buffer_spec [OF r assms(1) True]
      have "bs_off t + n \<le> bs_len t" using z assms(1) by (simp add: oa_ok_def)
      then show ?thesis using put [OF z(1)] c True z(2) by simp
    next
      case False
      then show ?thesis using c resize_rc [OF r] by auto
    qed
  qed
qed

lemma if_ok_cases:
  assumes "if_ok m f = Ret (rc, s')"
  obtains "m = Ret (rc, s')" "rc < 0" | c s where "m = Ret (c, s)" "\<not> c < 0" "f s = Ret (rc, s')"
  using assms by (auto simp: if_ok_def split: if_splits)

text \<open>A length, then that many bytes.\<close>

lemma put_counted:
  assumes "oa_ok s" "length bs < 2 ^ 31" "k = int (length bs)"
    and "if_ok (oa_serialize_int mem s w) (\<lambda>t. if_ok (ensure_room mem t k) (\<lambda>t. write_buff t bs)) = Ret (rc, s')"
  shows "rc = 0 \<and> oa_ok s' \<and> written s' = written s @ enc_int w @ bs \<or> rc < 0"
  using assms(4)
proof (cases rule: if_ok_cases)
  case (2 c t)
  then have "oa_ok t" "written t = written s @ enc_int w"
    using int_codec.ser_append [OF assms(1) TrueI 2(1)] 2(2) by auto
  then show ?thesis using put_variable [OF _ assms(3) 2(3)] by auto
qed auto

interpretation bool_codec: codec oa_serialize_bool "\<lambda>_. ia_deserialize_bool" enc_bool valid_bool
proof unfold_locales
  fix oa mem rc oa' and v :: i32
  assume "oa_ok oa" "oa_serialize_bool mem oa v = Ret (rc, oa')"
  then show "rc = 0 \<and> oa_ok oa' \<and> written oa' = written oa @ enc_bool v \<or> rc < 0"
    using put_variable [of oa 1 "[if v = 0 then 0 else 1]" mem rc oa'] by (simp add: oa_serialize_bool_def enc_bool_def)
next
  fix ia rest old and v :: i32
  assume a: "valid_bool v" "ia_ok ia" "remaining ia = enc_bool v @ rest"
  have "word_of_int (sint (hd (enc_bool v))) = v" using a(1) by (auto simp: enc_bool_def valid_bool_def)
  moreover have "\<not> bs_len ia - bs_off ia < 1" using read_buff_spec(5) [OF a(2,3)] by (simp add: enc_bool_def)
  ultimately show "\<exists>ia'. ia_deserialize_bool ia old = Ret (0, v, ia') \<and> ia_ok ia' \<and> remaining ia' = rest"
    using des_fixed [OF a(2,3) length_enc(3)] by (simp add: ia_deserialize_bool_def)
qed

lemma sint_length: "n < 2 ^ 31 \<Longrightarrow> sint (word_of_nat n :: i32) = int n"
  by (rule sint_i32_of_nat)

interpretation string_codec: codec oa_serialize_string ia_deserialize_string enc_string valid_string
proof unfold_locales
  fix oa mem rc oa' v
  assume a: "oa_ok oa" "valid_string v" "oa_serialize_string mem oa v = Ret (rc, oa')"
  obtain t where t: "v = Some t" "length t < 2 ^ 31 - 1" using a(2) by (auto simp: valid_string_def)
  have n: "sint (word_of_nat (length t) :: i32) = int (length t)" using t(2) by (intro sint_length) simp
  have "if_ok (oa_serialize_int mem oa (word_of_nat (length t))) (\<lambda>p. if_ok (ensure_room mem p (int (length t)))
      (\<lambda>p. write_buff p (bytes_of_string t))) = Ret (rc, oa')"
    using a(3) unfolding oa_serialize_string_def t(1) by (simp add: Let_def n)
  then show "rc = 0 \<and> oa_ok oa' \<and> written oa' = written oa @ enc_string v \<or> rc < 0"
    using put_counted [OF a(1), of "bytes_of_string t"] t by (simp add: enc_string_def)
next
  fix mem :: "int \<Rightarrow> bool" and ia rest old v
  assume a: "\<And>n. mem n" "valid_string v" "ia_ok ia" "remaining ia = enc_string v @ rest"
  obtain t where t: "v = Some t" "is_cstr t" "length t < 2 ^ 31 - 1" using a(2) by (auto simp: valid_string_def)
  have n: "sint (word_of_nat (length t) :: i32) = int (length t)" using t(3) by (intro sint_length) simp
  have "remaining ia = enc_int (word_of_nat (length t)) @ bytes_of_string t @ rest"
    using a(4) t(1) by (simp add: enc_string_def)
  from int_codec.des_enc [OF a(1) _ a(3) this, of 0] obtain ia1 where
      1: "ia_deserialize_int ia 0 = Ret (0, word_of_nat (length t), ia1)" "ia_ok ia1" "remaining ia1 = bytes_of_string t @ rest"
    by auto
  note r = read_buff_spec [OF 1(2,3)]
  show "\<exists>ia'. ia_deserialize_string mem ia old = Ret (0, v, ia') \<and> ia_ok ia' \<and> remaining ia' = rest"
    using r 1(1) a(1) t n unfolding ia_deserialize_string_def by (simp add: in_int_def)
qed

interpretation buffer_codec: codec "\<lambda>mem s b. oa_serialize_buffer mem s (Some b)" ia_deserialize_buffer enc_buffer valid_buffer
proof unfold_locales
  fix oa mem rc oa' v
  assume a: "oa_ok oa" "valid_buffer v" "oa_serialize_buffer mem oa (Some v) = Ret (rc, oa')"
  show "rc = 0 \<and> oa_ok oa' \<and> written oa' = written oa @ enc_buffer v \<or> rc < 0"
  proof (cases "b_buff v")
    case None
    then have "b_len v = -1" using a(2) by (simp add: valid_buffer_def)
    then have "if_ok (oa_serialize_int mem oa (-1)) (\<lambda>s. Ret (0, s)) = Ret (rc, oa')"
      using a(3) by (simp add: oa_serialize_buffer_def)
    then show ?thesis
    proof (cases rule: if_ok_cases)
      case (2 c s)
      then show ?thesis using int_codec.ser_append [OF a(1) TrueI 2(1)] 2(2,3) None by (auto simp: enc_buffer_def)
    qed auto
  next
    case (Some bs)
    then have l: "length bs < 2 ^ 31" "b_len v = word_of_nat (length bs)" using a(2) by (auto simp: valid_buffer_def)
    have n: "sint (b_len v) = int (length bs)" using l sint_length by simp
    have ne: "b_len v \<noteq> -1" using n by auto
    have "if_ok (oa_serialize_int mem oa (b_len v)) (\<lambda>p. if_ok (ensure_room mem p (int (length bs)))
        (\<lambda>p. write_buff p bs)) = Ret (rc, oa')"
    proof (cases "bs = []")
      case False
      then have "b_len v \<noteq> 0" using n by auto
      then show ?thesis using a(3) ne n Some by (simp add: oa_serialize_buffer_def)
    next
      case True
      then have "write_buff p bs = Ret (0, p)" for p by (simp add: write_buff_def)
      then show ?thesis using a(3) ne n l True by (simp add: oa_serialize_buffer_def)
    qed
    then show ?thesis using put_counted [OF a(1) l(1) refl] Some by (simp add: enc_buffer_def)
  qed
next
  fix mem :: "int \<Rightarrow> bool" and ia rest old v
  assume a: "\<And>n. mem n" "valid_buffer v" "ia_ok ia" "remaining ia = enc_buffer v @ rest"
  show "\<exists>ia'. ia_deserialize_buffer mem ia old = Ret (0, v, ia') \<and> ia_ok ia' \<and> remaining ia' = rest"
  proof (cases "b_buff v")
    case None
    then have v: "b_len v = -1" "remaining ia = enc_int (-1) @ rest" using a(2,4) by (simp_all add: valid_buffer_def enc_buffer_def)
    from int_codec.des_enc [OF a(1) _ a(3) v(2), of "b_len old"] obtain ia1 where
        1: "ia_deserialize_int ia (b_len old) = Ret (0, -1, ia1)" "ia_ok ia1" "remaining ia1 = rest" by auto
    have "\<not> bs_len ia1 - bs_off ia1 < -1" using 1(2) by (simp add: ia_ok_def)
    then show ?thesis using 1 v None by (cases v; cases old) (simp add: ia_deserialize_buffer_def Let_def)
  next
    case (Some bs)
    then have l: "length bs < 2 ^ 31" "b_len v = word_of_nat (length bs)" using a(2) by (auto simp: valid_buffer_def)
    have n: "sint (b_len v) = int (length bs)" using l sint_length by simp
    have ne: "b_len v \<noteq> -1" using n by auto
    have "remaining ia = enc_int (b_len v) @ bs @ rest" using a(4) Some by (simp add: enc_buffer_def)
    from int_codec.des_enc [OF a(1) _ a(3) this, of "b_len old"] obtain ia1 where
        1: "ia_deserialize_int ia (b_len old) = Ret (0, b_len v, ia1)" "ia_ok ia1" "remaining ia1 = bs @ rest" by auto
    note r = read_buff_spec [OF 1(2,3)]
    show ?thesis
      using r 1(1) a(1) n ne Some by (cases v; cases old) (simp add: ia_deserialize_buffer_def Let_def)
  qed
qed

section \<open>Composing codecs\<close>

text \<open>The two halves of the contract as judgements on a run, and how they compose.\<close>

definition appends :: "buff_struct \<Rightarrow> byte list \<Rightarrow> (int \<times> buff_struct) exec \<Rightarrow> bool" where
  "appends oa bs m \<longleftrightarrow> (\<forall>rc oa'. m = Ret (rc, oa') \<longrightarrow>
     rc = 0 \<and> oa_ok oa' \<and> written oa' = written oa @ bs \<or> rc < 0)"

definition yields :: "(int \<times> 'v \<times> buff_struct) exec \<Rightarrow> 'v \<Rightarrow> byte list \<Rightarrow> bool" where
  "yields m v rest \<longleftrightarrow> (\<exists>ia'. m = Ret (0, v, ia') \<and> ia_ok ia' \<and> remaining ia' = rest)"

named_theorems codec_ser \<open>what a serialiser appends\<close>
named_theorems codec_des \<open>what a deserialiser yields\<close>

lemma appends_then:
  assumes "appends oa b1 m" "\<And>oa1. oa_ok oa1 \<Longrightarrow> appends oa1 b2 (f oa1)"
  shows "appends oa (b1 @ b2) (then_ser m f)"
  using assms unfolding appends_def then_ser_def
  by (fastforce split: if_splits)

lemma appends_start: "appends oa b (f oa) \<Longrightarrow> appends oa b (then_ser (oa_start_record oa) f)"
  by (simp add: then_ser_def oa_start_record_def)

lemma appends_end: "oa_ok oa \<Longrightarrow> appends oa [] (oa_end_record oa)"
  by (simp add: appends_def oa_end_record_def)

lemma yields_field:
  assumes "yields (rd (get v0)) x rest" "\<And>ia1. ia_ok ia1 \<Longrightarrow> remaining ia1 = rest \<Longrightarrow> yields (f (set_f x) ia1) v rest'"
  shows "yields (then_des (field rd get set_f v0) f) v rest'"
  using assms by (auto simp: yields_def then_des_def field_def)

lemma yields_start: "yields (f v0 ia) v rest \<Longrightarrow> yields (then_des (ia_start_record ia v0) f) v rest"
  by (simp add: then_des_def ia_start_record_def)

lemma yields_end: "ia_ok ia \<Longrightarrow> remaining ia = rest \<Longrightarrow> v0 = v \<Longrightarrow> yields (ia_end_record ia v0) v rest"
  by (simp add: yields_def ia_end_record_def)

context codec
begin

lemma ser_appends: "oa_ok oa \<Longrightarrow> valid v \<Longrightarrow> appends oa (enc v) (ser mem oa v)"
  using ser_append by (auto simp: appends_def)

lemma des_yields:
  "ia_ok ia \<Longrightarrow> remaining ia = enc v @ rest \<Longrightarrow> valid v \<Longrightarrow> (\<And>n. mem n) \<Longrightarrow> yields (des mem ia old) v rest"
  using des_enc by (auto simp: yields_def)

end

lemmas [codec_ser] = int_codec.ser_appends [OF _ TrueI] long_codec.ser_appends [OF _ TrueI]
  bool_codec.ser_appends string_codec.ser_appends buffer_codec.ser_appends
lemmas [codec_des] = int_codec.des_yields [OF _ _ TrueI] long_codec.des_yields [OF _ _ TrueI]
  bool_codec.des_yields string_codec.des_yields buffer_codec.des_yields

lemma codecI:
  assumes "\<And>mem oa v. oa_ok oa \<Longrightarrow> valid v \<Longrightarrow> appends oa (enc v) (ser mem oa v)"
    and "\<And>mem ia v rest old. (\<And>n. mem n) \<Longrightarrow> valid v \<Longrightarrow> ia_ok ia \<Longrightarrow> remaining ia = enc v @ rest \<Longrightarrow>
      yields (des mem ia old) v rest"
  shows "codec ser des enc valid"
proof unfold_locales
  show "rc = 0 \<and> oa_ok oa' \<and> written oa' = written oa @ enc v \<or> rc < 0"
    if "oa_ok oa" "valid v" "ser mem oa v = Ret (rc, oa')" for oa v mem rc oa'
    using assms(1) [OF that(1,2), of mem] that(3) by (auto simp: appends_def)
  show "\<exists>ia'. des mem ia old = Ret (0, v, ia') \<and> ia_ok ia' \<and> remaining ia' = rest"
    if "\<And>n. mem n" "valid v" "ia_ok ia" "remaining ia = enc v @ rest" for mem v ia rest old
    using assms(2) [OF that] by (simp add: yields_def)
qed

section \<open>Vectors of a codec\<close>

lemma ser_loop_fail: "rc \<noteq> 0 \<Longrightarrow> ser_loop f xs i n (rc, oa) = Ret (rc, oa)"
  by (induction n arbitrary: i) auto

context codec
begin

lemma ser_loop_appends:
  assumes "oa_ok oa" "\<forall>x \<in> set xs. valid x" "i \<le> length xs"
  shows "appends oa (concat (map enc (drop i xs))) (ser_loop (ser mem) (Some xs) i (length xs - i) (0, oa))"
  using assms(1,3)
proof (induction "length xs - i" arbitrary: i oa)
  case 0
  then show ?case by (simp add: appends_def)
next
  case (Suc n)
  then have i: "i < length xs" "n = length xs - Suc i" by simp_all
  have len: "length xs - i = Suc (length xs - Suc i)" using i by simp
  have v: "valid (xs ! i)" using assms(2) i by simp
  have e: "concat (map enc (drop i xs)) = enc (xs ! i) @ concat (map enc (drop (Suc i) xs))"
    using i by (simp flip: Cons_nth_drop_Suc)
  have "ser_loop (ser mem) (Some xs) i (length xs - i) (0, oa) =
      bind_exec (ser mem oa (xs ! i)) (ser_loop (ser mem) (Some xs) (Suc i) (length xs - Suc i))"
    unfolding len using i by simp
  moreover have "rc = 0 \<and> oa_ok oa' \<and> written oa' = written oa @ enc (xs ! i) @ concat (map enc (drop (Suc i) xs)) \<or> rc < 0"
    if r: "ser mem oa (xs ! i) = Ret (c, oa1)" "ser_loop (ser mem) (Some xs) (Suc i) (length xs - Suc i) (c, oa1) = Ret (rc, oa')" for c oa1 rc oa'
  proof (cases "c = 0")
    case True
    then have o: "oa_ok oa1" "written oa1 = written oa @ enc (xs ! i)"
      using ser_append [OF Suc.prems(1) v r(1)] by auto
    then show ?thesis
      using Suc.hyps(1) [OF i(2) o(1)] i r(2) True by (auto simp: appends_def)
  next
    case False
    then show ?thesis using r ser_append [OF Suc.prems(1) v r(1)] by (simp add: ser_loop_fail)
  qed
  ultimately show ?case unfolding e appends_def by auto
qed

lemma des_loop_yields:
  assumes "\<And>n. mem n" "\<forall>x \<in> set xs. valid x" "i \<le> length xs" "length ys = length xs"
    "take i ys = take i xs" "ia_ok ia" "remaining ia = concat (map enc (drop i xs)) @ rest"
  shows "yields (des_loop (des mem) i (length xs - i) (0, Some ys, ia)) (Some xs) rest"
  using assms(3-7)
proof (induction "length xs - i" arbitrary: i ia ys)
  case 0
  then show ?case by (simp add: yields_def)
next
  case (Suc n)
  then have i: "i < length xs" "n = length xs - Suc i" by simp_all
  have len: "length xs - i = Suc (length xs - Suc i)" using i by simp
  have v: "valid (xs ! i)" using assms(2) i by simp
  have "remaining ia = enc (xs ! i) @ concat (map enc (drop (Suc i) xs)) @ rest"
    using i Suc.prems(5) by (simp flip: Cons_nth_drop_Suc)
  from des_enc [OF _ v Suc.prems(4) this, where old = "ys ! i" and mem = mem] obtain ia1 where
    d: "des mem ia (ys ! i) = Ret (0, xs ! i, ia1)" "ia_ok ia1" "remaining ia1 = concat (map enc (drop (Suc i) xs)) @ rest"
    using assms(1) by blast
  have "take (Suc i) (ys[i := xs ! i]) = take (Suc i) xs"
    using Suc.prems(2,3) i by (simp add: take_Suc_conv_app_nth)
  then have "yields (des_loop (des mem) (Suc i) (length xs - Suc i) (0, Some (ys[i := xs ! i]), ia1)) (Some xs) rest"
    using Suc.hyps(1) [OF i(2)] i d(2,3) Suc.prems(2) by simp
  moreover have "des_loop (des mem) i (length xs - i) (0, Some ys, ia) =
      des_loop (des mem) (Suc i) (length xs - Suc i) (0, Some (ys[i := xs ! i]), ia1)"
    unfolding len using i Suc.prems(2) d(1) by simp
  ultimately show ?case by simp
qed

end

section \<open>Readers that are safe on every input\<close>

text \<open>
  The bytes of an input archive come from the network. A reader is safe when, whatever they are,
  it returns, with a code that is 0 or negative, and keeps its offset inside the buffer.
\<close>

definition safe_run :: "(int \<times> 'v \<times> buff_struct) exec \<Rightarrow> bool" where
  "safe_run m \<longleftrightarrow> (\<exists>rc v ia'. m = Ret (rc, v, ia') \<and> ia_ok ia' \<and> rc \<le> 0)"

locale safe_reader =
  fixes rd :: "'v reader"
  assumes safe: "ia_ok ia \<Longrightarrow> safe_run (rd ia old)"
begin

lemma safe_des_loop:
  assumes "ia_ok ia" "rc \<le> 0" "length ys = i + n"
  shows "safe_run (des_loop rd i n (rc, Some ys, ia))"
  using assms
proof (induction n arbitrary: i rc ys ia)
  case 0
  then show ?case by (simp add: safe_run_def)
next
  case (Suc n)
  obtain c y ia1 where "rd ia (ys ! i) = Ret (c, y, ia1)" "ia_ok ia1" "c \<le> 0"
    using safe [OF Suc.prems(1), of "ys ! i"] by (auto simp: safe_run_def)
  then show ?case
    using Suc.IH [of ia1 c "ys[i := y]" "Suc i"] Suc.IH [of ia rc ys "Suc i"] Suc.prems by simp
qed

end

text \<open>\<^verbatim>\<open>malloc\<close> that refuses what exceeds \<^verbatim>\<open>PTRDIFF_MAX\<close>, and one that grants everything else.\<close>

definition capped :: "(int \<Rightarrow> bool) \<Rightarrow> int \<Rightarrow> bool" where
  "capped mem n \<longleftrightarrow> n < 2 ^ 63 \<and> mem n"

definition full_memory :: "int \<Rightarrow> bool" where
  "full_memory n \<longleftrightarrow> n < 2 ^ 63"

lemma full_memory_capped: "full_memory = capped (\<lambda>_. True)"
  by (simp add: full_memory_def capped_def fun_eq_iff)

named_theorems codec_safe \<open>readers that are safe on every input\<close>

lemma read_buff_safe:
  assumes "ia_ok s" "int n \<le> bs_len s - bs_off s"
  shows "\<exists>bs. read_buff s n = Ret bs" "ia_ok (s\<lparr> bs_off := bs_off s + int n \<rparr>)"
  using assms by (auto simp: read_buff_def ia_ok_def)

lemma ia_ok_diff: "ia_ok s \<Longrightarrow> 0 \<le> bs_len s - bs_off s \<and> bs_len s - bs_off s < 2 ^ 31"
  by (auto simp: ia_ok_def)

lemma ia_deserialize_int_off:
  "ia_deserialize_int ia old = Ret (rc, n, s) \<Longrightarrow> \<not> rc < 0 \<Longrightarrow> bs_off s = bs_off ia + 4"
  by (auto simp: ia_deserialize_int_def split: if_splits)

interpretation int_reader: safe_reader ia_deserialize_int
proof
  fix ia old assume ok: "ia_ok ia"
  show "safe_run (ia_deserialize_int ia old)"
  proof (cases "size_lt (bs_len ia - bs_off ia) 4")
    case False
    then have "int 4 \<le> bs_len ia - bs_off ia" using ia_ok_diff [OF ok] size_lt_iff by auto
    then obtain bs where "read_buff ia 4 = Ret bs" "ia_ok (ia\<lparr> bs_off := bs_off ia + 4 \<rparr>)"
      using read_buff_safe [OF ok, of 4] by auto
    then show ?thesis using False by (simp add: ia_deserialize_int_def safe_run_def)
  qed (simp add: ia_deserialize_int_def safe_run_def ok)
qed

interpretation long_reader: safe_reader ia_deserialize_long
proof
  fix ia old assume ok: "ia_ok ia"
  show "safe_run (ia_deserialize_long ia old)"
  proof (cases "size_lt (bs_len ia - bs_off ia) 8")
    case False
    then have "int 8 \<le> bs_len ia - bs_off ia" using ia_ok_diff [OF ok] size_lt_iff by auto
    then obtain bs where "read_buff ia 8 = Ret bs" "ia_ok (ia\<lparr> bs_off := bs_off ia + 8 \<rparr>)"
      using read_buff_safe [OF ok, of 8] by auto
    then show ?thesis using False by (simp add: ia_deserialize_long_def safe_run_def)
  qed (simp add: ia_deserialize_long_def safe_run_def ok)
qed

interpretation bool_reader: safe_reader ia_deserialize_bool
proof
  fix ia old assume ok: "ia_ok ia"
  show "safe_run (ia_deserialize_bool ia old)"
  proof (cases "bs_len ia - bs_off ia < 1")
    case False
    then obtain bs where "read_buff ia 1 = Ret bs" "ia_ok (ia\<lparr> bs_off := bs_off ia + 1 \<rparr>)"
      using read_buff_safe [OF ok, of 1] by auto
    then show ?thesis using False by (simp add: ia_deserialize_bool_def safe_run_def)
  qed (simp add: ia_deserialize_bool_def safe_run_def ok)
qed

interpretation string_reader: safe_reader "ia_deserialize_string mem" for mem
proof
  fix ia :: buff_struct and old :: "string option" assume ok: "ia_ok ia"
  then obtain rc len s where d: "ia_deserialize_int ia 0 = Ret (rc, len, s)" "ia_ok s" "rc \<le> 0"
    using int_reader.safe [of ia 0] by (auto simp: safe_run_def)
  have fits: "in_int (sint len + 1)" if "\<not> rc < 0" "\<not> bs_len s - bs_off s < sint len" "\<not> sint len < 0"
    using that ia_ok_diff [OF d(2)] ia_deserialize_int_off [OF d(1)] d(2) ok by (auto simp: in_int_def ia_ok_def)
  show "safe_run (ia_deserialize_string mem ia old)"
  proof (cases "rc < 0 \<or> bs_len s - bs_off s < sint len \<or> sint len < 0 \<or> \<not> mem (sint len + 1)")
    case True
    then show ?thesis
      using d fits by (auto simp: ia_deserialize_string_def safe_run_def)
  next
    case False
    then obtain bs where "read_buff s (nat (sint len)) = Ret bs" "ia_ok (s\<lparr> bs_off := bs_off s + sint len \<rparr>)"
      using read_buff_safe [OF d(2), of "nat (sint len)"] by auto
    then show ?thesis
      using d False fits by (auto simp: ia_deserialize_string_def safe_run_def)
  qed
qed

interpretation buffer_reader: safe_reader "ia_deserialize_buffer (capped mem)" for mem
proof
  fix ia and old :: buffer assume "ia_ok ia"
  then obtain rc n s where d: "ia_deserialize_int ia (b_len old) = Ret (rc, n, s)" "ia_ok s" "rc \<le> 0"
    using int_reader.safe [of ia "b_len old"] by (auto simp: safe_run_def)
  have neg: "2 ^ 63 \<le> sint n mod 2 ^ 64" if "sint n < 0"
  proof -
    have "sint n mod 2 ^ 64 = sint n + 2 ^ 64"
      using that sint_ge [of n] mod_pos_pos_trivial [of "sint n + 2 ^ 64" "2 ^ 64"] by simp
    then show ?thesis using sint_ge [of n] by simp
  qed
  show "safe_run (ia_deserialize_buffer (capped mem) ia old)"
  proof (cases "rc < 0 \<or> bs_len s - bs_off s < sint n \<or> n = -1 \<or> \<not> capped mem (sint n mod 2 ^ 64)")
    case True
    then show ?thesis
      using d by (auto simp: ia_deserialize_buffer_def safe_run_def Let_def)
  next
    case False
    then have nn: "\<not> sint n < 0" using neg by (auto simp: capped_def)
    then obtain bs where "read_buff s (nat (sint n)) = Ret bs" "ia_ok (s\<lparr> bs_off := bs_off s + sint n \<rparr>)"
      using read_buff_safe [OF d(2), of "nat (sint n)"] False by auto
    then show ?thesis
      using d False nn by (auto simp: ia_deserialize_buffer_def safe_run_def Let_def)
  qed
qed

lemma safe_field:
  assumes "safe_run (rd (get v0))" "\<And>x ia1. ia_ok ia1 \<Longrightarrow> safe_run (f (set_f x) ia1)"
  shows "safe_run (then_des (field rd get set_f v0) f)"
proof -
  obtain rc x ia1 where r: "rd (get v0) = Ret (rc, x, ia1)" "ia_ok ia1" "rc \<le> 0"
    using assms(1) by (auto simp: safe_run_def)
  show ?thesis
  proof (cases "rc = 0")
    case True
    then show ?thesis using r assms(2) [OF r(2), of x] by (simp add: then_des_def field_def)
  next
    case False
    then show ?thesis using r by (simp add: then_des_def field_def safe_run_def)
  qed
qed

lemma safe_start: "safe_run (f v0 ia) \<Longrightarrow> safe_run (then_des (ia_start_record ia v0) f)"
  by (simp add: then_des_def ia_start_record_def)

lemma safe_end: "ia_ok ia \<Longrightarrow> safe_run (ia_end_record ia v)"
  by (simp add: safe_run_def ia_end_record_def)

lemmas [codec_safe] = int_reader.safe long_reader.safe bool_reader.safe string_reader.safe
  buffer_reader.safe buffer_reader.safe [where mem = "\<lambda>_. True", folded full_memory_capped]

section \<open>Properties\<close>

lemma grow_len_returns:
  assumes "l = 128 * 2 ^ j" "l \<le> 2 ^ 30" "n \<le> 2 ^ 30"
  shows "\<exists>r. grow_len l n = Ret r"
  using assms
proof (induction l n arbitrary: j rule: grow_len.induct)
  case (1 l n)
  show ?case
  proof (cases "l < n")
    case True
    then have "128 * 2 ^ j < (128 :: int) * 2 ^ 23" using "1.prems" by simp
    then have "(2 :: int) ^ j < 2 ^ 23" by simp
    then have "j < 23" using power_less_imp_less_exp [of "2 :: int" j 23] by simp
    then have "(2 :: int) ^ j \<le> 2 ^ 22" by (intro power_increasing) auto
    then have le: "2 * l \<le> 2 ^ 30" using "1.prems"(1) by simp
    have pos: "0 < l" using "1.prems"(1) by simp
    have i: "in_int (2 * l)" using le pos by (simp add: in_int_def)
    have "\<exists>r. grow_len (2 * l) n = Ret r"
      using "1.IH" [OF True _ _ le, of "Suc j"] i pos "1.prems" by simp
    then show ?thesis using True i pos by (simp add: grow_len.simps [of l n])
  next
    case False
    then show ?thesis by (simp add: grow_len.simps [of l n])
  qed
qed

lemma resize_returns:
  assumes "oa_ok s" "\<And>n. mem n" "n \<le> 2 ^ 30"
  shows "\<exists>s'. resize_buffer mem s n = Ret (0, s')"
proof -
  obtain j :: nat where "bs_len s = 128 * 2 ^ j" using assms(1) by (auto simp: oa_ok_def)
  from grow_len_returns [OF this oa_len_bounds(2) [OF assms(1)] assms(3)] show ?thesis
    using assms(2) by (auto simp: resize_buffer_def)
qed

text \<open>
  Appending an integer to a good output archive returns with code 0, and not with
  undefined behaviour, whenever memory suffices and the result stays below 2^30 bytes: the doubling
  loop of \<^verbatim>\<open>resize_buffer\<close> ends before it overflows, and the four bytes, most significant first,
  follow what was written before.
\<close>

theorem oa_serialize_int_total:
  assumes "oa_ok oa" "\<And>n. mem n" "bs_off oa + 4 \<le> 2 ^ 30"
  shows "\<exists>oa'. oa_serialize_int mem oa d = Ret (0, oa') \<and> oa_ok oa' \<and> written oa' = written oa @ rev (bytes32 d)"
proof -
  have put: "\<exists>oa'. write_buff s (bytes32 (htonl d)) = Ret (0, oa')" if "oa_ok s" "bs_off s + 4 \<le> bs_len s" for s
    using write_buff_spec [OF that(1), of "bytes32 (htonl d)"] that(2) by auto
  have "\<exists>oa'. oa_serialize_int mem oa d = Ret (0, oa')"
  proof (cases "size_lt (bs_len oa - bs_off oa) 4")
    case False
    then have "bs_off oa + 4 \<le> bs_len oa" using assms(1) by (simp add: oa_ok_def size_lt_iff)
    then show ?thesis using put [OF assms(1)] False by (simp add: oa_serialize_int_def)
  next
    case True
    obtain j :: nat where j: "bs_len oa = 128 * 2 ^ j" using assms(1) by (auto simp: oa_ok_def)
    have lt: "bs_len oa < 2 ^ 30" using True assms(1,3) by (simp add: oa_ok_def size_lt_iff)
    then have "(2 :: int) ^ j < 2 ^ 23" using j by simp
    then have "j < 23" using power_less_imp_less_exp [of "2 :: int" j 23] by simp
    then have "(2 :: int) ^ j \<le> 2 ^ 22" by (intro power_increasing) auto
    then have le: "bs_len oa + 4 \<le> 2 ^ 30" using j by simp
    have t: "to_int (bs_len oa + 4) = bs_len oa + 4"
      unfolding to_int_def using le oa_len_bounds(1) [OF assms(1)] by (intro sint_i32_of_int) auto
    obtain s where r: "resize_buffer mem oa (bs_len oa + 4) = Ret (0, s)"
      using resize_returns [OF assms(1) _ le] assms(2) by blast
    note z = resize_buffer_spec [OF r assms(1) refl]
    then have "bs_off s + 4 \<le> bs_len s" using assms(1) by (simp add: oa_ok_def)
    then show ?thesis using put [OF z(1)] True r t by (simp add: oa_serialize_int_def if_ok_def)
  qed
  then obtain oa' where r: "oa_serialize_int mem oa d = Ret (0, oa')" by blast
  show ?thesis using int_codec.ser_append [OF assms(1) TrueI r] r by (auto simp: enc_int_def)
qed

theorem oa_serialize_int_total_witness:
  "\<exists>oa oa'. create_buffer_oarchive True True (\<lambda>_. True) = Some oa \<and>
     oa_serialize_int (\<lambda>_. True) oa 258 = Ret (0, oa') \<and> oa_ok oa'"
proof -
  obtain oa where oa: "create_buffer_oarchive True True (\<lambda>_. True) = Some oa"
      "oa = \<lparr> bs_len = 128, bs_off = 0, bs_buffer = Some (replicate 128 0) \<rparr>"
    by (simp add: create_buffer_oarchive_def)
  have "oa_ok oa" "bs_off oa = 0"
    unfolding oa(2) by (auto simp: oa_ok_def intro: exI [of _ 0])
  then show ?thesis using oa_serialize_int_total [of oa "\<lambda>_. True" 258] oa(1) by auto
qed

text \<open>
  Strings round trip through the archives, followed by any bytes, when they contain no
  NUL and are shorter than 2^31 - 1.
\<close>

theorem string_roundtrip:
  assumes "oa_ok oa" "written oa = []" "is_cstr t" "length t < 2 ^ 31 - 1"
    and "oa_serialize_string mem oa (Some t) = Ret (0, oa')"
    and "\<And>n. mem' n" "ia_ok ia" "remaining ia = written oa' @ rest"
  shows "\<exists>ia'. ia_deserialize_string mem' ia old = Ret (0, Some t, ia') \<and> remaining ia' = rest"
  using string_codec.roundtrip [where mem' = mem', OF assms(1,2) _ assms(5) _ assms(7,8)] assms(3,4,6)
  by (auto simp: valid_string_def)

definition string_archive :: buff_struct where
  "string_archive = \<lparr> bs_len = 128, bs_off = 0, bs_buffer = Some (replicate 128 0) \<rparr>"

lemma string_archive_run:
  "(case oa_serialize_string (\<lambda>_. True) string_archive (Some ''ab'') of UB \<Rightarrow> False
    | Ret (rc, oa') \<Rightarrow> rc = 0 \<and> written oa' = [0, 0, 0, 2, 97, 98])"
  by code_simp

theorem string_roundtrip_witness:
  "\<exists>oa' ia'. oa_serialize_string (\<lambda>_. True) string_archive (Some ''ab'') = Ret (0, oa') \<and>
     ia_deserialize_string (\<lambda>_. True) \<lparr> bs_len = 6, bs_off = 0, bs_buffer = Some (written oa') \<rparr> None =
       Ret (0, Some ''ab'', ia')"
proof -
  obtain oa' where r: "oa_serialize_string (\<lambda>_. True) string_archive (Some ''ab'') = Ret (0, oa')"
      "written oa' = [0, 0, 0, 2, 97, 98]"
    using string_archive_run by (auto split: exec.splits)
  have ok: "oa_ok string_archive" "written string_archive = []"
    by (auto simp: string_archive_def oa_ok_def written_def intro: exI [of _ 0])
  have ia: "ia_ok \<lparr> bs_len = 6, bs_off = 0, bs_buffer = Some (written oa') \<rparr>"
      "remaining \<lparr> bs_len = 6, bs_off = 0, bs_buffer = Some (written oa') \<rparr> = written oa' @ []"
    using r(2) by (simp_all add: ia_ok_def remaining_def)
  show ?thesis using string_roundtrip [OF ok _ _ r(1) _ ia, of "\<lambda>_. True" None] r(1) by (auto simp: NUL_def)
qed

text \<open>
  A NULL string hides a failed allocation. When the buffer has to grow and \<^verbatim>\<open>realloc\<close>
  fails, \<^verbatim>\<open>oa_serialize_string\<close> still returns 0, with the buffer pointer set to NULL.
\<close>

theorem null_string_hides_oom:
  assumes "oa_ok oa" "bs_len oa < bs_off oa + 4" "bs_len oa \<le> 2 ^ 29" "\<And>n. \<not> mem n"
  shows "\<exists>oa'. oa_serialize_string mem oa None = Ret (0, oa') \<and> bs_buffer oa' = None"
proof -
  obtain j :: nat where j: "bs_len oa = 128 * 2 ^ j" using assms(1) by (auto simp: oa_ok_def)
  have t: "to_int (bs_len oa + 4) = bs_len oa + 4"
    unfolding to_int_def using assms(3) oa_len_bounds(1) [OF assms(1)] by (intro sint_i32_of_int) auto
  obtain r where g: "grow_len (bs_len oa) (bs_len oa + 4) = Ret r"
    using grow_len_returns [OF j oa_len_bounds(2) [OF assms(1)], of "bs_len oa + 4"] assms(3) by auto
  have "size_lt (bs_len oa - bs_off oa) 4" using assms(1,2) by (simp add: oa_ok_def size_lt_iff)
  then show ?thesis
    using g t assms(4) by (auto simp: oa_serialize_string_def oa_serialize_int_def if_ok_def resize_buffer_def)
qed

theorem null_string_hides_oom_witness:
  "\<exists>oa'. oa_serialize_string (\<lambda>_. False) \<lparr> bs_len = 128, bs_off = 126, bs_buffer = Some (replicate 128 0) \<rparr> None =
     Ret (0, oa') \<and> bs_buffer oa' = None"
proof -
  have "oa_ok \<lparr> bs_len = 128, bs_off = 126, bs_buffer = Some (replicate 128 0) \<rparr>"
    by (auto simp: oa_ok_def intro: exI [of _ 0])
  from null_string_hides_oom [OF this] show ?thesis by simp
qed

end
