(* ===== verification/Jute.thy ===== *)
theory Jute
  imports Record_IO
begin

text \<open>
  The protocol records that the client sends and receives
  (\<^verbatim>\<open>3party/zookeeper-client-c/generated/zookeeper.jute.c\<close>): for each record its structure, its
  serialiser and its deserialiser, as sequences of steps that stop at the first nonzero code. Every
  record is an instance of the locales \<^verbatim>\<open>codec\<close> (what is written is read back) and \<^verbatim>\<open>safe_reader\<close> (no
  input bytes make reading undefined while memory lasts).
\<close>

section \<open>Vectors\<close>

lemma appends_loop:
  assumes "appends oa b1 m" "\<And>oa1. oa_ok oa1 \<Longrightarrow> appends oa1 b2 (ser_loop f xs 0 n (0, oa1))"
  shows "appends oa (b1 @ b2) (bind_exec m (ser_loop f xs 0 n))"
  unfolding appends_def
proof (intro allI impI)
  fix rc oa' assume "bind_exec m (ser_loop f xs 0 n) = Ret (rc, oa')"
  then obtain c oa1 where r: "m = Ret (c, oa1)" "ser_loop f xs 0 n (c, oa1) = Ret (rc, oa')" by auto
  show "rc = 0 \<and> oa_ok oa' \<and> written oa' = written oa @ b1 @ b2 \<or> rc < 0"
  proof (cases "c = 0")
    case True
    then have o: "oa_ok oa1" "written oa1 = written oa @ b1" using assms(1) r(1) by (auto simp: appends_def)
    then show ?thesis using assms(2) [OF o(1)] r(2) True by (auto simp: appends_def)
  next
    case False
    then show ?thesis using assms(1) r by (auto simp: appends_def ser_loop_fail)
  qed
qed

lemma appends_end_vector: "appends oa b m \<Longrightarrow> appends oa b (then_ser m oa_end_vector)"
  by (auto simp: appends_def then_ser_def oa_end_vector_def split: if_splits)

section \<open>Records\<close>

record Id =
  Id_scheme :: "string option"
  Id_id :: "string option"

definition serialize_Id :: "(int \<Rightarrow> bool) \<Rightarrow> buff_struct \<Rightarrow> Id \<Rightarrow> (int \<times> buff_struct) exec" where
  "serialize_Id mem oa v =
     then_ser (oa_start_record oa) (\<lambda>oa.
     then_ser (oa_serialize_string mem oa (Id_scheme v)) (\<lambda>oa.
     then_ser (oa_serialize_string mem oa (Id_id v)) (\<lambda>oa.
     oa_end_record oa)))"

definition deserialize_Id :: "(int \<Rightarrow> bool) \<Rightarrow> Id reader" where
  "deserialize_Id mem ia v =
     then_des (ia_start_record ia v) (\<lambda>v ia.
     then_des (field (ia_deserialize_string mem ia) Id_scheme (\<lambda>x. v\<lparr> Id_scheme := x \<rparr>) v) (\<lambda>v ia.
     then_des (field (ia_deserialize_string mem ia) Id_id (\<lambda>x. v\<lparr> Id_id := x \<rparr>) v) (\<lambda>v ia.
     ia_end_record ia v)))"

definition enc_Id :: "Id \<Rightarrow> byte list" where
  "enc_Id v = enc_string (Id_scheme v) @ enc_string (Id_id v) @ []"

definition valid_Id :: "Id \<Rightarrow> bool" where
  "valid_Id v \<longleftrightarrow> valid_string (Id_scheme v) \<and> valid_string (Id_id v)"

interpretation Id_codec: codec serialize_Id deserialize_Id enc_Id valid_Id
proof (rule codecI)
  show "appends oa (enc_Id v) (serialize_Id mem oa v)" if "oa_ok oa" "valid_Id v" for mem oa v
    unfolding serialize_Id_def enc_Id_def
    by (intro appends_start appends_then appends_end codec_ser)
      (use that in \<open>simp_all add: valid_Id_def\<close>)
  show "yields (deserialize_Id mem ia old) v rest"
    if "\<And>n. mem n" "valid_Id v" "ia_ok ia" "remaining ia = enc_Id v @ rest" for mem ia v rest old
  proof -
    note v = that(2) [unfolded valid_Id_def]
    have "ia_ok ia \<Longrightarrow> remaining ia = enc_string (Id_scheme v) @ enc_string (Id_id v) @ rest \<Longrightarrow> ?thesis"
      unfolding deserialize_Id_def
      by (rule yields_start, (rule yields_field, rule codec_des, assumption, assumption, simp_all only: v that(1))+,
          rule yields_end, assumption, assumption, simp)
    then show ?thesis using that(3,4) by (simp add: enc_Id_def)
  qed
qed

interpretation Id_reader: safe_reader "deserialize_Id full_memory"
  by unfold_locales (unfold deserialize_Id_def, intro safe_start safe_field safe_end codec_safe)

lemmas [codec_ser] = Id_codec.ser_appends
lemmas [codec_des] = Id_codec.des_yields
lemmas [codec_safe] = Id_reader.safe

record ACL =
  ACL_perms :: "i32"
  ACL_id :: "Id"

definition serialize_ACL :: "(int \<Rightarrow> bool) \<Rightarrow> buff_struct \<Rightarrow> ACL \<Rightarrow> (int \<times> buff_struct) exec" where
  "serialize_ACL mem oa v =
     then_ser (oa_start_record oa) (\<lambda>oa.
     then_ser (oa_serialize_int mem oa (ACL_perms v)) (\<lambda>oa.
     then_ser (serialize_Id mem oa (ACL_id v)) (\<lambda>oa.
     oa_end_record oa)))"

definition deserialize_ACL :: "(int \<Rightarrow> bool) \<Rightarrow> ACL reader" where
  "deserialize_ACL mem ia v =
     then_des (ia_start_record ia v) (\<lambda>v ia.
     then_des (field (ia_deserialize_int ia) ACL_perms (\<lambda>x. v\<lparr> ACL_perms := x \<rparr>) v) (\<lambda>v ia.
     then_des (field (deserialize_Id mem ia) ACL_id (\<lambda>x. v\<lparr> ACL_id := x \<rparr>) v) (\<lambda>v ia.
     ia_end_record ia v)))"

definition enc_ACL :: "ACL \<Rightarrow> byte list" where
  "enc_ACL v = enc_int (ACL_perms v) @ enc_Id (ACL_id v) @ []"

definition valid_ACL :: "ACL \<Rightarrow> bool" where
  "valid_ACL v \<longleftrightarrow> valid_Id (ACL_id v)"

interpretation ACL_codec: codec serialize_ACL deserialize_ACL enc_ACL valid_ACL
proof (rule codecI)
  show "appends oa (enc_ACL v) (serialize_ACL mem oa v)" if "oa_ok oa" "valid_ACL v" for mem oa v
    unfolding serialize_ACL_def enc_ACL_def
    by (intro appends_start appends_then appends_end codec_ser)
      (use that in \<open>simp_all add: valid_ACL_def\<close>)
  show "yields (deserialize_ACL mem ia old) v rest"
    if "\<And>n. mem n" "valid_ACL v" "ia_ok ia" "remaining ia = enc_ACL v @ rest" for mem ia v rest old
  proof -
    note v = that(2) [unfolded valid_ACL_def]
    have "ia_ok ia \<Longrightarrow> remaining ia = enc_int (ACL_perms v) @ enc_Id (ACL_id v) @ rest \<Longrightarrow> ?thesis"
      unfolding deserialize_ACL_def
      by (rule yields_start, (rule yields_field, rule codec_des, assumption, assumption, simp_all only: v that(1))+,
          rule yields_end, assumption, assumption, simp)
    then show ?thesis using that(3,4) by (simp add: enc_ACL_def)
  qed
qed

interpretation ACL_reader: safe_reader "deserialize_ACL full_memory"
  by unfold_locales (unfold deserialize_ACL_def, intro safe_start safe_field safe_end codec_safe)

lemmas [codec_ser] = ACL_codec.ser_appends
lemmas [codec_des] = ACL_codec.des_yields
lemmas [codec_safe] = ACL_reader.safe

record Stat =
  Stat_czxid :: "i64"
  Stat_mzxid :: "i64"
  Stat_ctime :: "i64"
  Stat_mtime :: "i64"
  Stat_version :: "i32"
  Stat_cversion :: "i32"
  Stat_aversion :: "i32"
  Stat_ephemeralOwner :: "i64"
  Stat_dataLength :: "i32"
  Stat_numChildren :: "i32"
  Stat_pzxid :: "i64"

definition serialize_Stat :: "(int \<Rightarrow> bool) \<Rightarrow> buff_struct \<Rightarrow> Stat \<Rightarrow> (int \<times> buff_struct) exec" where
  "serialize_Stat mem oa v =
     then_ser (oa_start_record oa) (\<lambda>oa.
     then_ser (oa_serialize_long mem oa (Stat_czxid v)) (\<lambda>oa.
     then_ser (oa_serialize_long mem oa (Stat_mzxid v)) (\<lambda>oa.
     then_ser (oa_serialize_long mem oa (Stat_ctime v)) (\<lambda>oa.
     then_ser (oa_serialize_long mem oa (Stat_mtime v)) (\<lambda>oa.
     then_ser (oa_serialize_int mem oa (Stat_version v)) (\<lambda>oa.
     then_ser (oa_serialize_int mem oa (Stat_cversion v)) (\<lambda>oa.
     then_ser (oa_serialize_int mem oa (Stat_aversion v)) (\<lambda>oa.
     then_ser (oa_serialize_long mem oa (Stat_ephemeralOwner v)) (\<lambda>oa.
     then_ser (oa_serialize_int mem oa (Stat_dataLength v)) (\<lambda>oa.
     then_ser (oa_serialize_int mem oa (Stat_numChildren v)) (\<lambda>oa.
     then_ser (oa_serialize_long mem oa (Stat_pzxid v)) (\<lambda>oa.
     oa_end_record oa))))))))))))"

definition deserialize_Stat :: "(int \<Rightarrow> bool) \<Rightarrow> Stat reader" where
  "deserialize_Stat mem ia v =
     then_des (ia_start_record ia v) (\<lambda>v ia.
     then_des (field (ia_deserialize_long ia) Stat_czxid (\<lambda>x. v\<lparr> Stat_czxid := x \<rparr>) v) (\<lambda>v ia.
     then_des (field (ia_deserialize_long ia) Stat_mzxid (\<lambda>x. v\<lparr> Stat_mzxid := x \<rparr>) v) (\<lambda>v ia.
     then_des (field (ia_deserialize_long ia) Stat_ctime (\<lambda>x. v\<lparr> Stat_ctime := x \<rparr>) v) (\<lambda>v ia.
     then_des (field (ia_deserialize_long ia) Stat_mtime (\<lambda>x. v\<lparr> Stat_mtime := x \<rparr>) v) (\<lambda>v ia.
     then_des (field (ia_deserialize_int ia) Stat_version (\<lambda>x. v\<lparr> Stat_version := x \<rparr>) v) (\<lambda>v ia.
     then_des (field (ia_deserialize_int ia) Stat_cversion (\<lambda>x. v\<lparr> Stat_cversion := x \<rparr>) v) (\<lambda>v ia.
     then_des (field (ia_deserialize_int ia) Stat_aversion (\<lambda>x. v\<lparr> Stat_aversion := x \<rparr>) v) (\<lambda>v ia.
     then_des (field (ia_deserialize_long ia) Stat_ephemeralOwner (\<lambda>x. v\<lparr> Stat_ephemeralOwner := x \<rparr>) v) (\<lambda>v ia.
     then_des (field (ia_deserialize_int ia) Stat_dataLength (\<lambda>x. v\<lparr> Stat_dataLength := x \<rparr>) v) (\<lambda>v ia.
     then_des (field (ia_deserialize_int ia) Stat_numChildren (\<lambda>x. v\<lparr> Stat_numChildren := x \<rparr>) v) (\<lambda>v ia.
     then_des (field (ia_deserialize_long ia) Stat_pzxid (\<lambda>x. v\<lparr> Stat_pzxid := x \<rparr>) v) (\<lambda>v ia.
     ia_end_record ia v))))))))))))"

definition enc_Stat :: "Stat \<Rightarrow> byte list" where
  "enc_Stat v = enc_long (Stat_czxid v) @ enc_long (Stat_mzxid v) @ enc_long (Stat_ctime v) @ enc_long (Stat_mtime v) @ enc_int (Stat_version v) @ enc_int (Stat_cversion v) @ enc_int (Stat_aversion v) @ enc_long (Stat_ephemeralOwner v) @ enc_int (Stat_dataLength v) @ enc_int (Stat_numChildren v) @ enc_long (Stat_pzxid v) @ []"

definition valid_Stat :: "Stat \<Rightarrow> bool" where
  "valid_Stat v \<longleftrightarrow> True"

interpretation Stat_codec: codec serialize_Stat deserialize_Stat enc_Stat valid_Stat
proof (rule codecI)
  show "appends oa (enc_Stat v) (serialize_Stat mem oa v)" if "oa_ok oa" "valid_Stat v" for mem oa v
    unfolding serialize_Stat_def enc_Stat_def
    by (intro appends_start appends_then appends_end codec_ser)
      (use that in \<open>simp_all add: valid_Stat_def\<close>)
  show "yields (deserialize_Stat mem ia old) v rest"
    if "\<And>n. mem n" "valid_Stat v" "ia_ok ia" "remaining ia = enc_Stat v @ rest" for mem ia v rest old
  proof -
    note v = that(2) [unfolded valid_Stat_def]
    have "ia_ok ia \<Longrightarrow> remaining ia = enc_long (Stat_czxid v) @ enc_long (Stat_mzxid v) @ enc_long (Stat_ctime v) @ enc_long (Stat_mtime v) @ enc_int (Stat_version v) @ enc_int (Stat_cversion v) @ enc_int (Stat_aversion v) @ enc_long (Stat_ephemeralOwner v) @ enc_int (Stat_dataLength v) @ enc_int (Stat_numChildren v) @ enc_long (Stat_pzxid v) @ rest \<Longrightarrow> ?thesis"
      unfolding deserialize_Stat_def
      by (rule yields_start, (rule yields_field, rule codec_des, assumption, assumption, simp_all only: v that(1))+,
          rule yields_end, assumption, assumption, simp)
    then show ?thesis using that(3,4) by (simp add: enc_Stat_def)
  qed
qed

interpretation Stat_reader: safe_reader "deserialize_Stat full_memory"
  by unfold_locales (unfold deserialize_Stat_def, intro safe_start safe_field safe_end codec_safe)

lemmas [codec_ser] = Stat_codec.ser_appends
lemmas [codec_des] = Stat_codec.des_yields
lemmas [codec_safe] = Stat_reader.safe

record String_vector =
  String_vector_count :: i32
  String_vector_data :: "string option list option"

definition serialize_String_vector :: "(int \<Rightarrow> bool) \<Rightarrow> buff_struct \<Rightarrow> String_vector \<Rightarrow> (int \<times> buff_struct) exec" where
  "serialize_String_vector mem oa v =
     then_ser (bind_exec (oa_start_vector mem oa (String_vector_count v))
                (ser_loop (oa_serialize_string mem) (String_vector_data v) 0 (nat (sint (String_vector_count v)))))
       oa_end_vector"

text \<open>The code of \<^verbatim>\<open>end_vector\<close>, which is 0, replaces whatever went wrong before.\<close>

definition deserialize_String_vector :: "(int \<Rightarrow> bool) \<Rightarrow> String_vector reader" where
  "deserialize_String_vector mem ia v =
     bind_exec (ia_start_vector ia (String_vector_count v))
      (\<lambda>(rc, n, ia).
         bind_exec (des_loop (ia_deserialize_string mem) 0 (nat (sint n)) (rc, calloc_vector mem n 8 (None), ia))
          (\<lambda>(rc, xs, ia). ia_end_vector ia \<lparr> String_vector_count = n, String_vector_data = xs \<rparr>))"

definition enc_String_vector :: "String_vector \<Rightarrow> byte list" where
  "enc_String_vector v = enc_int (String_vector_count v) @ concat (map enc_string (the (String_vector_data v)))"

definition valid_String_vector :: "String_vector \<Rightarrow> bool" where
  "valid_String_vector v \<longleftrightarrow> (\<exists>xs. String_vector_data v = Some xs \<and> length xs < 2 ^ 31 \<and>
     String_vector_count v = word_of_nat (length xs) \<and> list_all valid_string xs)"

interpretation String_vector_codec: codec serialize_String_vector deserialize_String_vector enc_String_vector valid_String_vector
proof (rule codecI)
  fix mem :: "int \<Rightarrow> bool" and oa and v :: String_vector assume a: "oa_ok oa" "valid_String_vector v"
  then obtain xs where xs: "String_vector_data v = Some xs" "length xs < 2 ^ 31"
      "String_vector_count v = word_of_nat (length xs)" "\<forall>x \<in> set xs. valid_string x"
    by (auto simp: valid_String_vector_def list_all_iff)
  have n: "nat (sint (String_vector_count v)) = length xs" using xs(2,3) by (simp add: sint_length)
  have "appends oa (enc_int (String_vector_count v) @ concat (map enc_string xs))
      (bind_exec (oa_serialize_int mem oa (String_vector_count v)) (ser_loop (oa_serialize_string mem) (Some xs) 0 (length xs)))"
    using string_codec.ser_loop_appends [OF _ xs(4), where i = 0 and mem = mem]
    by (intro appends_loop codec_ser a(1)) auto
  then show "appends oa (enc_String_vector v) (serialize_String_vector mem oa v)"
    unfolding serialize_String_vector_def enc_String_vector_def oa_start_vector_def n xs(1)
    by (simp add: appends_end_vector)
next
  fix mem :: "int \<Rightarrow> bool" and ia rest and v old :: String_vector
  assume a: "\<And>n. mem n" "valid_String_vector v" "ia_ok ia" "remaining ia = enc_String_vector v @ rest"
  then obtain xs where xs: "String_vector_data v = Some xs" "length xs < 2 ^ 31"
      "String_vector_count v = word_of_nat (length xs)" "\<forall>x \<in> set xs. valid_string x"
    by (auto simp: valid_String_vector_def list_all_iff)
  have n: "nat (sint (String_vector_count v)) = length xs" using xs(2,3) by (simp add: sint_length)
  have "remaining ia = enc_int (String_vector_count v) @ concat (map enc_string xs) @ rest"
    using a(4) xs(1) by (simp add: enc_String_vector_def)
  from int_codec.des_enc [OF a(1) TrueI a(3) this, where old = "String_vector_count old"] obtain ia1 where
    d: "ia_deserialize_int ia (String_vector_count old) = Ret (0, String_vector_count v, ia1)" "ia_ok ia1"
      "remaining ia1 = concat (map enc_string xs) @ rest" by auto
  have "yields (des_loop (ia_deserialize_string mem) 0 (length xs) (0, calloc_vector mem (String_vector_count v) 8 (None), ia1)) (Some xs) rest"
    using string_codec.des_loop_yields [where mem = mem and i = 0, OF a(1) xs(4) _ _ _ d(2)] d(3) n
    by (simp add: calloc_vector_def a(1))
  then obtain ia2 where e: "des_loop (ia_deserialize_string mem) 0 (length xs) (0, calloc_vector mem (String_vector_count v) 8 (None), ia1) = Ret (0, Some xs, ia2)"
      "ia_ok ia2" "remaining ia2 = rest" by (auto simp: yields_def)
  show "yields (deserialize_String_vector mem ia old) v rest"
    using d(1) e xs(1) n by (cases v) (simp add: deserialize_String_vector_def ia_start_vector_def ia_end_vector_def yields_def)
qed

interpretation String_vector_reader: safe_reader "deserialize_String_vector full_memory"
proof
  fix ia and old :: String_vector assume "ia_ok ia"
  then obtain rc n ia1 where d: "ia_deserialize_int ia (String_vector_count old) = Ret (rc, n, ia1)" "ia_ok ia1" "rc \<le> 0"
    using int_reader.safe [of ia "String_vector_count old"] by (auto simp: safe_run_def)
  let ?xs = "calloc_vector full_memory n 8 (None)"
  have "safe_run (des_loop (ia_deserialize_string full_memory) 0 (nat (sint n)) (rc, ?xs, ia1))"
  proof (cases "0 \<le> sint n")
    case True
    then show ?thesis
      using string_reader.safe_des_loop [OF d(2,3), where i = 0 and n = "nat (sint n)" and ys = "replicate (nat (sint n)) (None)"] sint_lt [of n]
      by (simp add: calloc_vector_def full_memory_def)
  qed (simp add: safe_run_def d)
  then show "safe_run (deserialize_String_vector full_memory ia old)"
    using d(1) by (auto simp: deserialize_String_vector_def ia_start_vector_def ia_end_vector_def safe_run_def)
qed

lemmas [codec_ser] = String_vector_codec.ser_appends
lemmas [codec_des] = String_vector_codec.des_yields
lemmas [codec_safe] = String_vector_reader.safe

record SetWatches =
  SetWatches_relativeZxid :: "i64"
  SetWatches_dataWatches :: "String_vector"
  SetWatches_existWatches :: "String_vector"
  SetWatches_childWatches :: "String_vector"

definition serialize_SetWatches :: "(int \<Rightarrow> bool) \<Rightarrow> buff_struct \<Rightarrow> SetWatches \<Rightarrow> (int \<times> buff_struct) exec" where
  "serialize_SetWatches mem oa v =
     then_ser (oa_start_record oa) (\<lambda>oa.
     then_ser (oa_serialize_long mem oa (SetWatches_relativeZxid v)) (\<lambda>oa.
     then_ser (serialize_String_vector mem oa (SetWatches_dataWatches v)) (\<lambda>oa.
     then_ser (serialize_String_vector mem oa (SetWatches_existWatches v)) (\<lambda>oa.
     then_ser (serialize_String_vector mem oa (SetWatches_childWatches v)) (\<lambda>oa.
     oa_end_record oa)))))"

definition deserialize_SetWatches :: "(int \<Rightarrow> bool) \<Rightarrow> SetWatches reader" where
  "deserialize_SetWatches mem ia v =
     then_des (ia_start_record ia v) (\<lambda>v ia.
     then_des (field (ia_deserialize_long ia) SetWatches_relativeZxid (\<lambda>x. v\<lparr> SetWatches_relativeZxid := x \<rparr>) v) (\<lambda>v ia.
     then_des (field (deserialize_String_vector mem ia) SetWatches_dataWatches (\<lambda>x. v\<lparr> SetWatches_dataWatches := x \<rparr>) v) (\<lambda>v ia.
     then_des (field (deserialize_String_vector mem ia) SetWatches_existWatches (\<lambda>x. v\<lparr> SetWatches_existWatches := x \<rparr>) v) (\<lambda>v ia.
     then_des (field (deserialize_String_vector mem ia) SetWatches_childWatches (\<lambda>x. v\<lparr> SetWatches_childWatches := x \<rparr>) v) (\<lambda>v ia.
     ia_end_record ia v)))))"

definition enc_SetWatches :: "SetWatches \<Rightarrow> byte list" where
  "enc_SetWatches v = enc_long (SetWatches_relativeZxid v) @ enc_String_vector (SetWatches_dataWatches v) @ enc_String_vector (SetWatches_existWatches v) @ enc_String_vector (SetWatches_childWatches v) @ []"

definition valid_SetWatches :: "SetWatches \<Rightarrow> bool" where
  "valid_SetWatches v \<longleftrightarrow> valid_String_vector (SetWatches_dataWatches v) \<and> valid_String_vector (SetWatches_existWatches v) \<and> valid_String_vector (SetWatches_childWatches v)"

interpretation SetWatches_codec: codec serialize_SetWatches deserialize_SetWatches enc_SetWatches valid_SetWatches
proof (rule codecI)
  show "appends oa (enc_SetWatches v) (serialize_SetWatches mem oa v)" if "oa_ok oa" "valid_SetWatches v" for mem oa v
    unfolding serialize_SetWatches_def enc_SetWatches_def
    by (intro appends_start appends_then appends_end codec_ser)
      (use that in \<open>simp_all add: valid_SetWatches_def\<close>)
  show "yields (deserialize_SetWatches mem ia old) v rest"
    if "\<And>n. mem n" "valid_SetWatches v" "ia_ok ia" "remaining ia = enc_SetWatches v @ rest" for mem ia v rest old
  proof -
    note v = that(2) [unfolded valid_SetWatches_def]
    have "ia_ok ia \<Longrightarrow> remaining ia = enc_long (SetWatches_relativeZxid v) @ enc_String_vector (SetWatches_dataWatches v) @ enc_String_vector (SetWatches_existWatches v) @ enc_String_vector (SetWatches_childWatches v) @ rest \<Longrightarrow> ?thesis"
      unfolding deserialize_SetWatches_def
      by (rule yields_start, (rule yields_field, rule codec_des, assumption, assumption, simp_all only: v that(1))+,
          rule yields_end, assumption, assumption, simp)
    then show ?thesis using that(3,4) by (simp add: enc_SetWatches_def)
  qed
qed

interpretation SetWatches_reader: safe_reader "deserialize_SetWatches full_memory"
  by unfold_locales (unfold deserialize_SetWatches_def, intro safe_start safe_field safe_end codec_safe)

lemmas [codec_ser] = SetWatches_codec.ser_appends
lemmas [codec_des] = SetWatches_codec.des_yields
lemmas [codec_safe] = SetWatches_reader.safe

record RequestHeader =
  RequestHeader_xid :: "i32"
  RequestHeader_type :: "i32"

definition serialize_RequestHeader :: "(int \<Rightarrow> bool) \<Rightarrow> buff_struct \<Rightarrow> RequestHeader \<Rightarrow> (int \<times> buff_struct) exec" where
  "serialize_RequestHeader mem oa v =
     then_ser (oa_start_record oa) (\<lambda>oa.
     then_ser (oa_serialize_int mem oa (RequestHeader_xid v)) (\<lambda>oa.
     then_ser (oa_serialize_int mem oa (RequestHeader_type v)) (\<lambda>oa.
     oa_end_record oa)))"

definition deserialize_RequestHeader :: "(int \<Rightarrow> bool) \<Rightarrow> RequestHeader reader" where
  "deserialize_RequestHeader mem ia v =
     then_des (ia_start_record ia v) (\<lambda>v ia.
     then_des (field (ia_deserialize_int ia) RequestHeader_xid (\<lambda>x. v\<lparr> RequestHeader_xid := x \<rparr>) v) (\<lambda>v ia.
     then_des (field (ia_deserialize_int ia) RequestHeader_type (\<lambda>x. v\<lparr> RequestHeader_type := x \<rparr>) v) (\<lambda>v ia.
     ia_end_record ia v)))"

definition enc_RequestHeader :: "RequestHeader \<Rightarrow> byte list" where
  "enc_RequestHeader v = enc_int (RequestHeader_xid v) @ enc_int (RequestHeader_type v) @ []"

definition valid_RequestHeader :: "RequestHeader \<Rightarrow> bool" where
  "valid_RequestHeader v \<longleftrightarrow> True"

interpretation RequestHeader_codec: codec serialize_RequestHeader deserialize_RequestHeader enc_RequestHeader valid_RequestHeader
proof (rule codecI)
  show "appends oa (enc_RequestHeader v) (serialize_RequestHeader mem oa v)" if "oa_ok oa" "valid_RequestHeader v" for mem oa v
    unfolding serialize_RequestHeader_def enc_RequestHeader_def
    by (intro appends_start appends_then appends_end codec_ser)
      (use that in \<open>simp_all add: valid_RequestHeader_def\<close>)
  show "yields (deserialize_RequestHeader mem ia old) v rest"
    if "\<And>n. mem n" "valid_RequestHeader v" "ia_ok ia" "remaining ia = enc_RequestHeader v @ rest" for mem ia v rest old
  proof -
    note v = that(2) [unfolded valid_RequestHeader_def]
    have "ia_ok ia \<Longrightarrow> remaining ia = enc_int (RequestHeader_xid v) @ enc_int (RequestHeader_type v) @ rest \<Longrightarrow> ?thesis"
      unfolding deserialize_RequestHeader_def
      by (rule yields_start, (rule yields_field, rule codec_des, assumption, assumption, simp_all only: v that(1))+,
          rule yields_end, assumption, assumption, simp)
    then show ?thesis using that(3,4) by (simp add: enc_RequestHeader_def)
  qed
qed

interpretation RequestHeader_reader: safe_reader "deserialize_RequestHeader full_memory"
  by unfold_locales (unfold deserialize_RequestHeader_def, intro safe_start safe_field safe_end codec_safe)

lemmas [codec_ser] = RequestHeader_codec.ser_appends
lemmas [codec_des] = RequestHeader_codec.des_yields
lemmas [codec_safe] = RequestHeader_reader.safe

record MultiHeader =
  MultiHeader_type :: "i32"
  MultiHeader_done :: "i32"
  MultiHeader_err :: "i32"

definition serialize_MultiHeader :: "(int \<Rightarrow> bool) \<Rightarrow> buff_struct \<Rightarrow> MultiHeader \<Rightarrow> (int \<times> buff_struct) exec" where
  "serialize_MultiHeader mem oa v =
     then_ser (oa_start_record oa) (\<lambda>oa.
     then_ser (oa_serialize_int mem oa (MultiHeader_type v)) (\<lambda>oa.
     then_ser (oa_serialize_bool mem oa (MultiHeader_done v)) (\<lambda>oa.
     then_ser (oa_serialize_int mem oa (MultiHeader_err v)) (\<lambda>oa.
     oa_end_record oa))))"

definition deserialize_MultiHeader :: "(int \<Rightarrow> bool) \<Rightarrow> MultiHeader reader" where
  "deserialize_MultiHeader mem ia v =
     then_des (ia_start_record ia v) (\<lambda>v ia.
     then_des (field (ia_deserialize_int ia) MultiHeader_type (\<lambda>x. v\<lparr> MultiHeader_type := x \<rparr>) v) (\<lambda>v ia.
     then_des (field (ia_deserialize_bool ia) MultiHeader_done (\<lambda>x. v\<lparr> MultiHeader_done := x \<rparr>) v) (\<lambda>v ia.
     then_des (field (ia_deserialize_int ia) MultiHeader_err (\<lambda>x. v\<lparr> MultiHeader_err := x \<rparr>) v) (\<lambda>v ia.
     ia_end_record ia v))))"

definition enc_MultiHeader :: "MultiHeader \<Rightarrow> byte list" where
  "enc_MultiHeader v = enc_int (MultiHeader_type v) @ enc_bool (MultiHeader_done v) @ enc_int (MultiHeader_err v) @ []"

definition valid_MultiHeader :: "MultiHeader \<Rightarrow> bool" where
  "valid_MultiHeader v \<longleftrightarrow> valid_bool (MultiHeader_done v)"

interpretation MultiHeader_codec: codec serialize_MultiHeader deserialize_MultiHeader enc_MultiHeader valid_MultiHeader
proof (rule codecI)
  show "appends oa (enc_MultiHeader v) (serialize_MultiHeader mem oa v)" if "oa_ok oa" "valid_MultiHeader v" for mem oa v
    unfolding serialize_MultiHeader_def enc_MultiHeader_def
    by (intro appends_start appends_then appends_end codec_ser)
      (use that in \<open>simp_all add: valid_MultiHeader_def\<close>)
  show "yields (deserialize_MultiHeader mem ia old) v rest"
    if "\<And>n. mem n" "valid_MultiHeader v" "ia_ok ia" "remaining ia = enc_MultiHeader v @ rest" for mem ia v rest old
  proof -
    note v = that(2) [unfolded valid_MultiHeader_def]
    have "ia_ok ia \<Longrightarrow> remaining ia = enc_int (MultiHeader_type v) @ enc_bool (MultiHeader_done v) @ enc_int (MultiHeader_err v) @ rest \<Longrightarrow> ?thesis"
      unfolding deserialize_MultiHeader_def
      by (rule yields_start, (rule yields_field, rule codec_des, assumption, assumption, simp_all only: v that(1))+,
          rule yields_end, assumption, assumption, simp)
    then show ?thesis using that(3,4) by (simp add: enc_MultiHeader_def)
  qed
qed

interpretation MultiHeader_reader: safe_reader "deserialize_MultiHeader full_memory"
  by unfold_locales (unfold deserialize_MultiHeader_def, intro safe_start safe_field safe_end codec_safe)

lemmas [codec_ser] = MultiHeader_codec.ser_appends
lemmas [codec_des] = MultiHeader_codec.des_yields
lemmas [codec_safe] = MultiHeader_reader.safe

record AuthPacket =
  AuthPacket_type :: "i32"
  AuthPacket_scheme :: "string option"
  AuthPacket_auth :: "buffer"

definition serialize_AuthPacket :: "(int \<Rightarrow> bool) \<Rightarrow> buff_struct \<Rightarrow> AuthPacket \<Rightarrow> (int \<times> buff_struct) exec" where
  "serialize_AuthPacket mem oa v =
     then_ser (oa_start_record oa) (\<lambda>oa.
     then_ser (oa_serialize_int mem oa (AuthPacket_type v)) (\<lambda>oa.
     then_ser (oa_serialize_string mem oa (AuthPacket_scheme v)) (\<lambda>oa.
     then_ser (oa_serialize_buffer mem oa (Some (AuthPacket_auth v))) (\<lambda>oa.
     oa_end_record oa))))"

definition deserialize_AuthPacket :: "(int \<Rightarrow> bool) \<Rightarrow> AuthPacket reader" where
  "deserialize_AuthPacket mem ia v =
     then_des (ia_start_record ia v) (\<lambda>v ia.
     then_des (field (ia_deserialize_int ia) AuthPacket_type (\<lambda>x. v\<lparr> AuthPacket_type := x \<rparr>) v) (\<lambda>v ia.
     then_des (field (ia_deserialize_string mem ia) AuthPacket_scheme (\<lambda>x. v\<lparr> AuthPacket_scheme := x \<rparr>) v) (\<lambda>v ia.
     then_des (field (ia_deserialize_buffer mem ia) AuthPacket_auth (\<lambda>x. v\<lparr> AuthPacket_auth := x \<rparr>) v) (\<lambda>v ia.
     ia_end_record ia v))))"

definition enc_AuthPacket :: "AuthPacket \<Rightarrow> byte list" where
  "enc_AuthPacket v = enc_int (AuthPacket_type v) @ enc_string (AuthPacket_scheme v) @ enc_buffer (AuthPacket_auth v) @ []"

definition valid_AuthPacket :: "AuthPacket \<Rightarrow> bool" where
  "valid_AuthPacket v \<longleftrightarrow> valid_string (AuthPacket_scheme v) \<and> valid_buffer (AuthPacket_auth v)"

interpretation AuthPacket_codec: codec serialize_AuthPacket deserialize_AuthPacket enc_AuthPacket valid_AuthPacket
proof (rule codecI)
  show "appends oa (enc_AuthPacket v) (serialize_AuthPacket mem oa v)" if "oa_ok oa" "valid_AuthPacket v" for mem oa v
    unfolding serialize_AuthPacket_def enc_AuthPacket_def
    by (intro appends_start appends_then appends_end codec_ser)
      (use that in \<open>simp_all add: valid_AuthPacket_def\<close>)
  show "yields (deserialize_AuthPacket mem ia old) v rest"
    if "\<And>n. mem n" "valid_AuthPacket v" "ia_ok ia" "remaining ia = enc_AuthPacket v @ rest" for mem ia v rest old
  proof -
    note v = that(2) [unfolded valid_AuthPacket_def]
    have "ia_ok ia \<Longrightarrow> remaining ia = enc_int (AuthPacket_type v) @ enc_string (AuthPacket_scheme v) @ enc_buffer (AuthPacket_auth v) @ rest \<Longrightarrow> ?thesis"
      unfolding deserialize_AuthPacket_def
      by (rule yields_start, (rule yields_field, rule codec_des, assumption, assumption, simp_all only: v that(1))+,
          rule yields_end, assumption, assumption, simp)
    then show ?thesis using that(3,4) by (simp add: enc_AuthPacket_def)
  qed
qed

interpretation AuthPacket_reader: safe_reader "deserialize_AuthPacket full_memory"
  by unfold_locales (unfold deserialize_AuthPacket_def, intro safe_start safe_field safe_end codec_safe)

lemmas [codec_ser] = AuthPacket_codec.ser_appends
lemmas [codec_des] = AuthPacket_codec.des_yields
lemmas [codec_safe] = AuthPacket_reader.safe

record ReplyHeader =
  ReplyHeader_xid :: "i32"
  ReplyHeader_zxid :: "i64"
  ReplyHeader_err :: "i32"

definition serialize_ReplyHeader :: "(int \<Rightarrow> bool) \<Rightarrow> buff_struct \<Rightarrow> ReplyHeader \<Rightarrow> (int \<times> buff_struct) exec" where
  "serialize_ReplyHeader mem oa v =
     then_ser (oa_start_record oa) (\<lambda>oa.
     then_ser (oa_serialize_int mem oa (ReplyHeader_xid v)) (\<lambda>oa.
     then_ser (oa_serialize_long mem oa (ReplyHeader_zxid v)) (\<lambda>oa.
     then_ser (oa_serialize_int mem oa (ReplyHeader_err v)) (\<lambda>oa.
     oa_end_record oa))))"

definition deserialize_ReplyHeader :: "(int \<Rightarrow> bool) \<Rightarrow> ReplyHeader reader" where
  "deserialize_ReplyHeader mem ia v =
     then_des (ia_start_record ia v) (\<lambda>v ia.
     then_des (field (ia_deserialize_int ia) ReplyHeader_xid (\<lambda>x. v\<lparr> ReplyHeader_xid := x \<rparr>) v) (\<lambda>v ia.
     then_des (field (ia_deserialize_long ia) ReplyHeader_zxid (\<lambda>x. v\<lparr> ReplyHeader_zxid := x \<rparr>) v) (\<lambda>v ia.
     then_des (field (ia_deserialize_int ia) ReplyHeader_err (\<lambda>x. v\<lparr> ReplyHeader_err := x \<rparr>) v) (\<lambda>v ia.
     ia_end_record ia v))))"

definition enc_ReplyHeader :: "ReplyHeader \<Rightarrow> byte list" where
  "enc_ReplyHeader v = enc_int (ReplyHeader_xid v) @ enc_long (ReplyHeader_zxid v) @ enc_int (ReplyHeader_err v) @ []"

definition valid_ReplyHeader :: "ReplyHeader \<Rightarrow> bool" where
  "valid_ReplyHeader v \<longleftrightarrow> True"

interpretation ReplyHeader_codec: codec serialize_ReplyHeader deserialize_ReplyHeader enc_ReplyHeader valid_ReplyHeader
proof (rule codecI)
  show "appends oa (enc_ReplyHeader v) (serialize_ReplyHeader mem oa v)" if "oa_ok oa" "valid_ReplyHeader v" for mem oa v
    unfolding serialize_ReplyHeader_def enc_ReplyHeader_def
    by (intro appends_start appends_then appends_end codec_ser)
      (use that in \<open>simp_all add: valid_ReplyHeader_def\<close>)
  show "yields (deserialize_ReplyHeader mem ia old) v rest"
    if "\<And>n. mem n" "valid_ReplyHeader v" "ia_ok ia" "remaining ia = enc_ReplyHeader v @ rest" for mem ia v rest old
  proof -
    note v = that(2) [unfolded valid_ReplyHeader_def]
    have "ia_ok ia \<Longrightarrow> remaining ia = enc_int (ReplyHeader_xid v) @ enc_long (ReplyHeader_zxid v) @ enc_int (ReplyHeader_err v) @ rest \<Longrightarrow> ?thesis"
      unfolding deserialize_ReplyHeader_def
      by (rule yields_start, (rule yields_field, rule codec_des, assumption, assumption, simp_all only: v that(1))+,
          rule yields_end, assumption, assumption, simp)
    then show ?thesis using that(3,4) by (simp add: enc_ReplyHeader_def)
  qed
qed

interpretation ReplyHeader_reader: safe_reader "deserialize_ReplyHeader full_memory"
  by unfold_locales (unfold deserialize_ReplyHeader_def, intro safe_start safe_field safe_end codec_safe)

lemmas [codec_ser] = ReplyHeader_codec.ser_appends
lemmas [codec_des] = ReplyHeader_codec.des_yields
lemmas [codec_safe] = ReplyHeader_reader.safe

record GetDataRequest =
  GetDataRequest_path :: "string option"
  GetDataRequest_watch :: "i32"

definition serialize_GetDataRequest :: "(int \<Rightarrow> bool) \<Rightarrow> buff_struct \<Rightarrow> GetDataRequest \<Rightarrow> (int \<times> buff_struct) exec" where
  "serialize_GetDataRequest mem oa v =
     then_ser (oa_start_record oa) (\<lambda>oa.
     then_ser (oa_serialize_string mem oa (GetDataRequest_path v)) (\<lambda>oa.
     then_ser (oa_serialize_bool mem oa (GetDataRequest_watch v)) (\<lambda>oa.
     oa_end_record oa)))"

definition deserialize_GetDataRequest :: "(int \<Rightarrow> bool) \<Rightarrow> GetDataRequest reader" where
  "deserialize_GetDataRequest mem ia v =
     then_des (ia_start_record ia v) (\<lambda>v ia.
     then_des (field (ia_deserialize_string mem ia) GetDataRequest_path (\<lambda>x. v\<lparr> GetDataRequest_path := x \<rparr>) v) (\<lambda>v ia.
     then_des (field (ia_deserialize_bool ia) GetDataRequest_watch (\<lambda>x. v\<lparr> GetDataRequest_watch := x \<rparr>) v) (\<lambda>v ia.
     ia_end_record ia v)))"

definition enc_GetDataRequest :: "GetDataRequest \<Rightarrow> byte list" where
  "enc_GetDataRequest v = enc_string (GetDataRequest_path v) @ enc_bool (GetDataRequest_watch v) @ []"

definition valid_GetDataRequest :: "GetDataRequest \<Rightarrow> bool" where
  "valid_GetDataRequest v \<longleftrightarrow> valid_string (GetDataRequest_path v) \<and> valid_bool (GetDataRequest_watch v)"

interpretation GetDataRequest_codec: codec serialize_GetDataRequest deserialize_GetDataRequest enc_GetDataRequest valid_GetDataRequest
proof (rule codecI)
  show "appends oa (enc_GetDataRequest v) (serialize_GetDataRequest mem oa v)" if "oa_ok oa" "valid_GetDataRequest v" for mem oa v
    unfolding serialize_GetDataRequest_def enc_GetDataRequest_def
    by (intro appends_start appends_then appends_end codec_ser)
      (use that in \<open>simp_all add: valid_GetDataRequest_def\<close>)
  show "yields (deserialize_GetDataRequest mem ia old) v rest"
    if "\<And>n. mem n" "valid_GetDataRequest v" "ia_ok ia" "remaining ia = enc_GetDataRequest v @ rest" for mem ia v rest old
  proof -
    note v = that(2) [unfolded valid_GetDataRequest_def]
    have "ia_ok ia \<Longrightarrow> remaining ia = enc_string (GetDataRequest_path v) @ enc_bool (GetDataRequest_watch v) @ rest \<Longrightarrow> ?thesis"
      unfolding deserialize_GetDataRequest_def
      by (rule yields_start, (rule yields_field, rule codec_des, assumption, assumption, simp_all only: v that(1))+,
          rule yields_end, assumption, assumption, simp)
    then show ?thesis using that(3,4) by (simp add: enc_GetDataRequest_def)
  qed
qed

interpretation GetDataRequest_reader: safe_reader "deserialize_GetDataRequest full_memory"
  by unfold_locales (unfold deserialize_GetDataRequest_def, intro safe_start safe_field safe_end codec_safe)

lemmas [codec_ser] = GetDataRequest_codec.ser_appends
lemmas [codec_des] = GetDataRequest_codec.des_yields
lemmas [codec_safe] = GetDataRequest_reader.safe

record SetDataRequest =
  SetDataRequest_path :: "string option"
  SetDataRequest_data :: "buffer"
  SetDataRequest_version :: "i32"

definition serialize_SetDataRequest :: "(int \<Rightarrow> bool) \<Rightarrow> buff_struct \<Rightarrow> SetDataRequest \<Rightarrow> (int \<times> buff_struct) exec" where
  "serialize_SetDataRequest mem oa v =
     then_ser (oa_start_record oa) (\<lambda>oa.
     then_ser (oa_serialize_string mem oa (SetDataRequest_path v)) (\<lambda>oa.
     then_ser (oa_serialize_buffer mem oa (Some (SetDataRequest_data v))) (\<lambda>oa.
     then_ser (oa_serialize_int mem oa (SetDataRequest_version v)) (\<lambda>oa.
     oa_end_record oa))))"

definition deserialize_SetDataRequest :: "(int \<Rightarrow> bool) \<Rightarrow> SetDataRequest reader" where
  "deserialize_SetDataRequest mem ia v =
     then_des (ia_start_record ia v) (\<lambda>v ia.
     then_des (field (ia_deserialize_string mem ia) SetDataRequest_path (\<lambda>x. v\<lparr> SetDataRequest_path := x \<rparr>) v) (\<lambda>v ia.
     then_des (field (ia_deserialize_buffer mem ia) SetDataRequest_data (\<lambda>x. v\<lparr> SetDataRequest_data := x \<rparr>) v) (\<lambda>v ia.
     then_des (field (ia_deserialize_int ia) SetDataRequest_version (\<lambda>x. v\<lparr> SetDataRequest_version := x \<rparr>) v) (\<lambda>v ia.
     ia_end_record ia v))))"

definition enc_SetDataRequest :: "SetDataRequest \<Rightarrow> byte list" where
  "enc_SetDataRequest v = enc_string (SetDataRequest_path v) @ enc_buffer (SetDataRequest_data v) @ enc_int (SetDataRequest_version v) @ []"

definition valid_SetDataRequest :: "SetDataRequest \<Rightarrow> bool" where
  "valid_SetDataRequest v \<longleftrightarrow> valid_string (SetDataRequest_path v) \<and> valid_buffer (SetDataRequest_data v)"

interpretation SetDataRequest_codec: codec serialize_SetDataRequest deserialize_SetDataRequest enc_SetDataRequest valid_SetDataRequest
proof (rule codecI)
  show "appends oa (enc_SetDataRequest v) (serialize_SetDataRequest mem oa v)" if "oa_ok oa" "valid_SetDataRequest v" for mem oa v
    unfolding serialize_SetDataRequest_def enc_SetDataRequest_def
    by (intro appends_start appends_then appends_end codec_ser)
      (use that in \<open>simp_all add: valid_SetDataRequest_def\<close>)
  show "yields (deserialize_SetDataRequest mem ia old) v rest"
    if "\<And>n. mem n" "valid_SetDataRequest v" "ia_ok ia" "remaining ia = enc_SetDataRequest v @ rest" for mem ia v rest old
  proof -
    note v = that(2) [unfolded valid_SetDataRequest_def]
    have "ia_ok ia \<Longrightarrow> remaining ia = enc_string (SetDataRequest_path v) @ enc_buffer (SetDataRequest_data v) @ enc_int (SetDataRequest_version v) @ rest \<Longrightarrow> ?thesis"
      unfolding deserialize_SetDataRequest_def
      by (rule yields_start, (rule yields_field, rule codec_des, assumption, assumption, simp_all only: v that(1))+,
          rule yields_end, assumption, assumption, simp)
    then show ?thesis using that(3,4) by (simp add: enc_SetDataRequest_def)
  qed
qed

interpretation SetDataRequest_reader: safe_reader "deserialize_SetDataRequest full_memory"
  by unfold_locales (unfold deserialize_SetDataRequest_def, intro safe_start safe_field safe_end codec_safe)

lemmas [codec_ser] = SetDataRequest_codec.ser_appends
lemmas [codec_des] = SetDataRequest_codec.des_yields
lemmas [codec_safe] = SetDataRequest_reader.safe

record ReconfigRequest =
  ReconfigRequest_joiningServers :: "string option"
  ReconfigRequest_leavingServers :: "string option"
  ReconfigRequest_newMembers :: "string option"
  ReconfigRequest_curConfigId :: "i64"

definition serialize_ReconfigRequest :: "(int \<Rightarrow> bool) \<Rightarrow> buff_struct \<Rightarrow> ReconfigRequest \<Rightarrow> (int \<times> buff_struct) exec" where
  "serialize_ReconfigRequest mem oa v =
     then_ser (oa_start_record oa) (\<lambda>oa.
     then_ser (oa_serialize_string mem oa (ReconfigRequest_joiningServers v)) (\<lambda>oa.
     then_ser (oa_serialize_string mem oa (ReconfigRequest_leavingServers v)) (\<lambda>oa.
     then_ser (oa_serialize_string mem oa (ReconfigRequest_newMembers v)) (\<lambda>oa.
     then_ser (oa_serialize_long mem oa (ReconfigRequest_curConfigId v)) (\<lambda>oa.
     oa_end_record oa)))))"

definition deserialize_ReconfigRequest :: "(int \<Rightarrow> bool) \<Rightarrow> ReconfigRequest reader" where
  "deserialize_ReconfigRequest mem ia v =
     then_des (ia_start_record ia v) (\<lambda>v ia.
     then_des (field (ia_deserialize_string mem ia) ReconfigRequest_joiningServers (\<lambda>x. v\<lparr> ReconfigRequest_joiningServers := x \<rparr>) v) (\<lambda>v ia.
     then_des (field (ia_deserialize_string mem ia) ReconfigRequest_leavingServers (\<lambda>x. v\<lparr> ReconfigRequest_leavingServers := x \<rparr>) v) (\<lambda>v ia.
     then_des (field (ia_deserialize_string mem ia) ReconfigRequest_newMembers (\<lambda>x. v\<lparr> ReconfigRequest_newMembers := x \<rparr>) v) (\<lambda>v ia.
     then_des (field (ia_deserialize_long ia) ReconfigRequest_curConfigId (\<lambda>x. v\<lparr> ReconfigRequest_curConfigId := x \<rparr>) v) (\<lambda>v ia.
     ia_end_record ia v)))))"

definition enc_ReconfigRequest :: "ReconfigRequest \<Rightarrow> byte list" where
  "enc_ReconfigRequest v = enc_string (ReconfigRequest_joiningServers v) @ enc_string (ReconfigRequest_leavingServers v) @ enc_string (ReconfigRequest_newMembers v) @ enc_long (ReconfigRequest_curConfigId v) @ []"

definition valid_ReconfigRequest :: "ReconfigRequest \<Rightarrow> bool" where
  "valid_ReconfigRequest v \<longleftrightarrow> valid_string (ReconfigRequest_joiningServers v) \<and> valid_string (ReconfigRequest_leavingServers v) \<and> valid_string (ReconfigRequest_newMembers v)"

interpretation ReconfigRequest_codec: codec serialize_ReconfigRequest deserialize_ReconfigRequest enc_ReconfigRequest valid_ReconfigRequest
proof (rule codecI)
  show "appends oa (enc_ReconfigRequest v) (serialize_ReconfigRequest mem oa v)" if "oa_ok oa" "valid_ReconfigRequest v" for mem oa v
    unfolding serialize_ReconfigRequest_def enc_ReconfigRequest_def
    by (intro appends_start appends_then appends_end codec_ser)
      (use that in \<open>simp_all add: valid_ReconfigRequest_def\<close>)
  show "yields (deserialize_ReconfigRequest mem ia old) v rest"
    if "\<And>n. mem n" "valid_ReconfigRequest v" "ia_ok ia" "remaining ia = enc_ReconfigRequest v @ rest" for mem ia v rest old
  proof -
    note v = that(2) [unfolded valid_ReconfigRequest_def]
    have "ia_ok ia \<Longrightarrow> remaining ia = enc_string (ReconfigRequest_joiningServers v) @ enc_string (ReconfigRequest_leavingServers v) @ enc_string (ReconfigRequest_newMembers v) @ enc_long (ReconfigRequest_curConfigId v) @ rest \<Longrightarrow> ?thesis"
      unfolding deserialize_ReconfigRequest_def
      by (rule yields_start, (rule yields_field, rule codec_des, assumption, assumption, simp_all only: v that(1))+,
          rule yields_end, assumption, assumption, simp)
    then show ?thesis using that(3,4) by (simp add: enc_ReconfigRequest_def)
  qed
qed

interpretation ReconfigRequest_reader: safe_reader "deserialize_ReconfigRequest full_memory"
  by unfold_locales (unfold deserialize_ReconfigRequest_def, intro safe_start safe_field safe_end codec_safe)

lemmas [codec_ser] = ReconfigRequest_codec.ser_appends
lemmas [codec_des] = ReconfigRequest_codec.des_yields
lemmas [codec_safe] = ReconfigRequest_reader.safe

record SetDataResponse =
  SetDataResponse_stat :: "Stat"

definition serialize_SetDataResponse :: "(int \<Rightarrow> bool) \<Rightarrow> buff_struct \<Rightarrow> SetDataResponse \<Rightarrow> (int \<times> buff_struct) exec" where
  "serialize_SetDataResponse mem oa v =
     then_ser (oa_start_record oa) (\<lambda>oa.
     then_ser (serialize_Stat mem oa (SetDataResponse_stat v)) (\<lambda>oa.
     oa_end_record oa))"

definition deserialize_SetDataResponse :: "(int \<Rightarrow> bool) \<Rightarrow> SetDataResponse reader" where
  "deserialize_SetDataResponse mem ia v =
     then_des (ia_start_record ia v) (\<lambda>v ia.
     then_des (field (deserialize_Stat mem ia) SetDataResponse_stat (\<lambda>x. v\<lparr> SetDataResponse_stat := x \<rparr>) v) (\<lambda>v ia.
     ia_end_record ia v))"

definition enc_SetDataResponse :: "SetDataResponse \<Rightarrow> byte list" where
  "enc_SetDataResponse v = enc_Stat (SetDataResponse_stat v) @ []"

definition valid_SetDataResponse :: "SetDataResponse \<Rightarrow> bool" where
  "valid_SetDataResponse v \<longleftrightarrow> valid_Stat (SetDataResponse_stat v)"

interpretation SetDataResponse_codec: codec serialize_SetDataResponse deserialize_SetDataResponse enc_SetDataResponse valid_SetDataResponse
proof (rule codecI)
  show "appends oa (enc_SetDataResponse v) (serialize_SetDataResponse mem oa v)" if "oa_ok oa" "valid_SetDataResponse v" for mem oa v
    unfolding serialize_SetDataResponse_def enc_SetDataResponse_def
    by (intro appends_start appends_then appends_end codec_ser)
      (use that in \<open>simp_all add: valid_SetDataResponse_def\<close>)
  show "yields (deserialize_SetDataResponse mem ia old) v rest"
    if "\<And>n. mem n" "valid_SetDataResponse v" "ia_ok ia" "remaining ia = enc_SetDataResponse v @ rest" for mem ia v rest old
  proof -
    note v = that(2) [unfolded valid_SetDataResponse_def]
    have "ia_ok ia \<Longrightarrow> remaining ia = enc_Stat (SetDataResponse_stat v) @ rest \<Longrightarrow> ?thesis"
      unfolding deserialize_SetDataResponse_def
      by (rule yields_start, (rule yields_field, rule codec_des, assumption, assumption, simp_all only: v that(1))+,
          rule yields_end, assumption, assumption, simp)
    then show ?thesis using that(3,4) by (simp add: enc_SetDataResponse_def)
  qed
qed

interpretation SetDataResponse_reader: safe_reader "deserialize_SetDataResponse full_memory"
  by unfold_locales (unfold deserialize_SetDataResponse_def, intro safe_start safe_field safe_end codec_safe)

lemmas [codec_ser] = SetDataResponse_codec.ser_appends
lemmas [codec_des] = SetDataResponse_codec.des_yields
lemmas [codec_safe] = SetDataResponse_reader.safe

record ACL_vector =
  ACL_vector_count :: i32
  ACL_vector_data :: "ACL list option"

definition serialize_ACL_vector :: "(int \<Rightarrow> bool) \<Rightarrow> buff_struct \<Rightarrow> ACL_vector \<Rightarrow> (int \<times> buff_struct) exec" where
  "serialize_ACL_vector mem oa v =
     then_ser (bind_exec (oa_start_vector mem oa (ACL_vector_count v))
                (ser_loop (serialize_ACL mem) (ACL_vector_data v) 0 (nat (sint (ACL_vector_count v)))))
       oa_end_vector"

text \<open>The code of \<^verbatim>\<open>end_vector\<close>, which is 0, replaces whatever went wrong before.\<close>

definition deserialize_ACL_vector :: "(int \<Rightarrow> bool) \<Rightarrow> ACL_vector reader" where
  "deserialize_ACL_vector mem ia v =
     bind_exec (ia_start_vector ia (ACL_vector_count v))
      (\<lambda>(rc, n, ia).
         bind_exec (des_loop (deserialize_ACL mem) 0 (nat (sint n)) (rc, calloc_vector mem n 24 (\<lparr> ACL_perms = 0, ACL_id = \<lparr> Id_scheme = None, Id_id = None \<rparr> \<rparr>), ia))
          (\<lambda>(rc, xs, ia). ia_end_vector ia \<lparr> ACL_vector_count = n, ACL_vector_data = xs \<rparr>))"

definition enc_ACL_vector :: "ACL_vector \<Rightarrow> byte list" where
  "enc_ACL_vector v = enc_int (ACL_vector_count v) @ concat (map enc_ACL (the (ACL_vector_data v)))"

definition valid_ACL_vector :: "ACL_vector \<Rightarrow> bool" where
  "valid_ACL_vector v \<longleftrightarrow> (\<exists>xs. ACL_vector_data v = Some xs \<and> length xs < 2 ^ 31 \<and>
     ACL_vector_count v = word_of_nat (length xs) \<and> list_all valid_ACL xs)"

interpretation ACL_vector_codec: codec serialize_ACL_vector deserialize_ACL_vector enc_ACL_vector valid_ACL_vector
proof (rule codecI)
  fix mem :: "int \<Rightarrow> bool" and oa and v :: ACL_vector assume a: "oa_ok oa" "valid_ACL_vector v"
  then obtain xs where xs: "ACL_vector_data v = Some xs" "length xs < 2 ^ 31"
      "ACL_vector_count v = word_of_nat (length xs)" "\<forall>x \<in> set xs. valid_ACL x"
    by (auto simp: valid_ACL_vector_def list_all_iff)
  have n: "nat (sint (ACL_vector_count v)) = length xs" using xs(2,3) by (simp add: sint_length)
  have "appends oa (enc_int (ACL_vector_count v) @ concat (map enc_ACL xs))
      (bind_exec (oa_serialize_int mem oa (ACL_vector_count v)) (ser_loop (serialize_ACL mem) (Some xs) 0 (length xs)))"
    using ACL_codec.ser_loop_appends [OF _ xs(4), where i = 0 and mem = mem]
    by (intro appends_loop codec_ser a(1)) auto
  then show "appends oa (enc_ACL_vector v) (serialize_ACL_vector mem oa v)"
    unfolding serialize_ACL_vector_def enc_ACL_vector_def oa_start_vector_def n xs(1)
    by (simp add: appends_end_vector)
next
  fix mem :: "int \<Rightarrow> bool" and ia rest and v old :: ACL_vector
  assume a: "\<And>n. mem n" "valid_ACL_vector v" "ia_ok ia" "remaining ia = enc_ACL_vector v @ rest"
  then obtain xs where xs: "ACL_vector_data v = Some xs" "length xs < 2 ^ 31"
      "ACL_vector_count v = word_of_nat (length xs)" "\<forall>x \<in> set xs. valid_ACL x"
    by (auto simp: valid_ACL_vector_def list_all_iff)
  have n: "nat (sint (ACL_vector_count v)) = length xs" using xs(2,3) by (simp add: sint_length)
  have "remaining ia = enc_int (ACL_vector_count v) @ concat (map enc_ACL xs) @ rest"
    using a(4) xs(1) by (simp add: enc_ACL_vector_def)
  from int_codec.des_enc [OF a(1) TrueI a(3) this, where old = "ACL_vector_count old"] obtain ia1 where
    d: "ia_deserialize_int ia (ACL_vector_count old) = Ret (0, ACL_vector_count v, ia1)" "ia_ok ia1"
      "remaining ia1 = concat (map enc_ACL xs) @ rest" by auto
  have "yields (des_loop (deserialize_ACL mem) 0 (length xs) (0, calloc_vector mem (ACL_vector_count v) 24 (\<lparr> ACL_perms = 0, ACL_id = \<lparr> Id_scheme = None, Id_id = None \<rparr> \<rparr>), ia1)) (Some xs) rest"
    using ACL_codec.des_loop_yields [where mem = mem and i = 0, OF a(1) xs(4) _ _ _ d(2)] d(3) n
    by (simp add: calloc_vector_def a(1))
  then obtain ia2 where e: "des_loop (deserialize_ACL mem) 0 (length xs) (0, calloc_vector mem (ACL_vector_count v) 24 (\<lparr> ACL_perms = 0, ACL_id = \<lparr> Id_scheme = None, Id_id = None \<rparr> \<rparr>), ia1) = Ret (0, Some xs, ia2)"
      "ia_ok ia2" "remaining ia2 = rest" by (auto simp: yields_def)
  show "yields (deserialize_ACL_vector mem ia old) v rest"
    using d(1) e xs(1) n by (cases v) (simp add: deserialize_ACL_vector_def ia_start_vector_def ia_end_vector_def yields_def)
qed

interpretation ACL_vector_reader: safe_reader "deserialize_ACL_vector full_memory"
proof
  fix ia and old :: ACL_vector assume "ia_ok ia"
  then obtain rc n ia1 where d: "ia_deserialize_int ia (ACL_vector_count old) = Ret (rc, n, ia1)" "ia_ok ia1" "rc \<le> 0"
    using int_reader.safe [of ia "ACL_vector_count old"] by (auto simp: safe_run_def)
  let ?xs = "calloc_vector full_memory n 24 (\<lparr> ACL_perms = 0, ACL_id = \<lparr> Id_scheme = None, Id_id = None \<rparr> \<rparr>)"
  have "safe_run (des_loop (deserialize_ACL full_memory) 0 (nat (sint n)) (rc, ?xs, ia1))"
  proof (cases "0 \<le> sint n")
    case True
    then show ?thesis
      using ACL_reader.safe_des_loop [OF d(2,3), where i = 0 and n = "nat (sint n)" and ys = "replicate (nat (sint n)) (\<lparr> ACL_perms = 0, ACL_id = \<lparr> Id_scheme = None, Id_id = None \<rparr> \<rparr>)"] sint_lt [of n]
      by (simp add: calloc_vector_def full_memory_def)
  qed (simp add: safe_run_def d)
  then show "safe_run (deserialize_ACL_vector full_memory ia old)"
    using d(1) by (auto simp: deserialize_ACL_vector_def ia_start_vector_def ia_end_vector_def safe_run_def)
qed

lemmas [codec_ser] = ACL_vector_codec.ser_appends
lemmas [codec_des] = ACL_vector_codec.des_yields
lemmas [codec_safe] = ACL_vector_reader.safe

record CreateRequest =
  CreateRequest_path :: "string option"
  CreateRequest_data :: "buffer"
  CreateRequest_acl :: "ACL_vector"
  CreateRequest_flags :: "i32"

definition serialize_CreateRequest :: "(int \<Rightarrow> bool) \<Rightarrow> buff_struct \<Rightarrow> CreateRequest \<Rightarrow> (int \<times> buff_struct) exec" where
  "serialize_CreateRequest mem oa v =
     then_ser (oa_start_record oa) (\<lambda>oa.
     then_ser (oa_serialize_string mem oa (CreateRequest_path v)) (\<lambda>oa.
     then_ser (oa_serialize_buffer mem oa (Some (CreateRequest_data v))) (\<lambda>oa.
     then_ser (serialize_ACL_vector mem oa (CreateRequest_acl v)) (\<lambda>oa.
     then_ser (oa_serialize_int mem oa (CreateRequest_flags v)) (\<lambda>oa.
     oa_end_record oa)))))"

definition deserialize_CreateRequest :: "(int \<Rightarrow> bool) \<Rightarrow> CreateRequest reader" where
  "deserialize_CreateRequest mem ia v =
     then_des (ia_start_record ia v) (\<lambda>v ia.
     then_des (field (ia_deserialize_string mem ia) CreateRequest_path (\<lambda>x. v\<lparr> CreateRequest_path := x \<rparr>) v) (\<lambda>v ia.
     then_des (field (ia_deserialize_buffer mem ia) CreateRequest_data (\<lambda>x. v\<lparr> CreateRequest_data := x \<rparr>) v) (\<lambda>v ia.
     then_des (field (deserialize_ACL_vector mem ia) CreateRequest_acl (\<lambda>x. v\<lparr> CreateRequest_acl := x \<rparr>) v) (\<lambda>v ia.
     then_des (field (ia_deserialize_int ia) CreateRequest_flags (\<lambda>x. v\<lparr> CreateRequest_flags := x \<rparr>) v) (\<lambda>v ia.
     ia_end_record ia v)))))"

definition enc_CreateRequest :: "CreateRequest \<Rightarrow> byte list" where
  "enc_CreateRequest v = enc_string (CreateRequest_path v) @ enc_buffer (CreateRequest_data v) @ enc_ACL_vector (CreateRequest_acl v) @ enc_int (CreateRequest_flags v) @ []"

definition valid_CreateRequest :: "CreateRequest \<Rightarrow> bool" where
  "valid_CreateRequest v \<longleftrightarrow> valid_string (CreateRequest_path v) \<and> valid_buffer (CreateRequest_data v) \<and> valid_ACL_vector (CreateRequest_acl v)"

interpretation CreateRequest_codec: codec serialize_CreateRequest deserialize_CreateRequest enc_CreateRequest valid_CreateRequest
proof (rule codecI)
  show "appends oa (enc_CreateRequest v) (serialize_CreateRequest mem oa v)" if "oa_ok oa" "valid_CreateRequest v" for mem oa v
    unfolding serialize_CreateRequest_def enc_CreateRequest_def
    by (intro appends_start appends_then appends_end codec_ser)
      (use that in \<open>simp_all add: valid_CreateRequest_def\<close>)
  show "yields (deserialize_CreateRequest mem ia old) v rest"
    if "\<And>n. mem n" "valid_CreateRequest v" "ia_ok ia" "remaining ia = enc_CreateRequest v @ rest" for mem ia v rest old
  proof -
    note v = that(2) [unfolded valid_CreateRequest_def]
    have "ia_ok ia \<Longrightarrow> remaining ia = enc_string (CreateRequest_path v) @ enc_buffer (CreateRequest_data v) @ enc_ACL_vector (CreateRequest_acl v) @ enc_int (CreateRequest_flags v) @ rest \<Longrightarrow> ?thesis"
      unfolding deserialize_CreateRequest_def
      by (rule yields_start, (rule yields_field, rule codec_des, assumption, assumption, simp_all only: v that(1))+,
          rule yields_end, assumption, assumption, simp)
    then show ?thesis using that(3,4) by (simp add: enc_CreateRequest_def)
  qed
qed

interpretation CreateRequest_reader: safe_reader "deserialize_CreateRequest full_memory"
  by unfold_locales (unfold deserialize_CreateRequest_def, intro safe_start safe_field safe_end codec_safe)

lemmas [codec_ser] = CreateRequest_codec.ser_appends
lemmas [codec_des] = CreateRequest_codec.des_yields
lemmas [codec_safe] = CreateRequest_reader.safe

record CreateTTLRequest =
  CreateTTLRequest_path :: "string option"
  CreateTTLRequest_data :: "buffer"
  CreateTTLRequest_acl :: "ACL_vector"
  CreateTTLRequest_flags :: "i32"
  CreateTTLRequest_ttl :: "i64"

definition serialize_CreateTTLRequest :: "(int \<Rightarrow> bool) \<Rightarrow> buff_struct \<Rightarrow> CreateTTLRequest \<Rightarrow> (int \<times> buff_struct) exec" where
  "serialize_CreateTTLRequest mem oa v =
     then_ser (oa_start_record oa) (\<lambda>oa.
     then_ser (oa_serialize_string mem oa (CreateTTLRequest_path v)) (\<lambda>oa.
     then_ser (oa_serialize_buffer mem oa (Some (CreateTTLRequest_data v))) (\<lambda>oa.
     then_ser (serialize_ACL_vector mem oa (CreateTTLRequest_acl v)) (\<lambda>oa.
     then_ser (oa_serialize_int mem oa (CreateTTLRequest_flags v)) (\<lambda>oa.
     then_ser (oa_serialize_long mem oa (CreateTTLRequest_ttl v)) (\<lambda>oa.
     oa_end_record oa))))))"

definition deserialize_CreateTTLRequest :: "(int \<Rightarrow> bool) \<Rightarrow> CreateTTLRequest reader" where
  "deserialize_CreateTTLRequest mem ia v =
     then_des (ia_start_record ia v) (\<lambda>v ia.
     then_des (field (ia_deserialize_string mem ia) CreateTTLRequest_path (\<lambda>x. v\<lparr> CreateTTLRequest_path := x \<rparr>) v) (\<lambda>v ia.
     then_des (field (ia_deserialize_buffer mem ia) CreateTTLRequest_data (\<lambda>x. v\<lparr> CreateTTLRequest_data := x \<rparr>) v) (\<lambda>v ia.
     then_des (field (deserialize_ACL_vector mem ia) CreateTTLRequest_acl (\<lambda>x. v\<lparr> CreateTTLRequest_acl := x \<rparr>) v) (\<lambda>v ia.
     then_des (field (ia_deserialize_int ia) CreateTTLRequest_flags (\<lambda>x. v\<lparr> CreateTTLRequest_flags := x \<rparr>) v) (\<lambda>v ia.
     then_des (field (ia_deserialize_long ia) CreateTTLRequest_ttl (\<lambda>x. v\<lparr> CreateTTLRequest_ttl := x \<rparr>) v) (\<lambda>v ia.
     ia_end_record ia v))))))"

definition enc_CreateTTLRequest :: "CreateTTLRequest \<Rightarrow> byte list" where
  "enc_CreateTTLRequest v = enc_string (CreateTTLRequest_path v) @ enc_buffer (CreateTTLRequest_data v) @ enc_ACL_vector (CreateTTLRequest_acl v) @ enc_int (CreateTTLRequest_flags v) @ enc_long (CreateTTLRequest_ttl v) @ []"

definition valid_CreateTTLRequest :: "CreateTTLRequest \<Rightarrow> bool" where
  "valid_CreateTTLRequest v \<longleftrightarrow> valid_string (CreateTTLRequest_path v) \<and> valid_buffer (CreateTTLRequest_data v) \<and> valid_ACL_vector (CreateTTLRequest_acl v)"

interpretation CreateTTLRequest_codec: codec serialize_CreateTTLRequest deserialize_CreateTTLRequest enc_CreateTTLRequest valid_CreateTTLRequest
proof (rule codecI)
  show "appends oa (enc_CreateTTLRequest v) (serialize_CreateTTLRequest mem oa v)" if "oa_ok oa" "valid_CreateTTLRequest v" for mem oa v
    unfolding serialize_CreateTTLRequest_def enc_CreateTTLRequest_def
    by (intro appends_start appends_then appends_end codec_ser)
      (use that in \<open>simp_all add: valid_CreateTTLRequest_def\<close>)
  show "yields (deserialize_CreateTTLRequest mem ia old) v rest"
    if "\<And>n. mem n" "valid_CreateTTLRequest v" "ia_ok ia" "remaining ia = enc_CreateTTLRequest v @ rest" for mem ia v rest old
  proof -
    note v = that(2) [unfolded valid_CreateTTLRequest_def]
    have "ia_ok ia \<Longrightarrow> remaining ia = enc_string (CreateTTLRequest_path v) @ enc_buffer (CreateTTLRequest_data v) @ enc_ACL_vector (CreateTTLRequest_acl v) @ enc_int (CreateTTLRequest_flags v) @ enc_long (CreateTTLRequest_ttl v) @ rest \<Longrightarrow> ?thesis"
      unfolding deserialize_CreateTTLRequest_def
      by (rule yields_start, (rule yields_field, rule codec_des, assumption, assumption, simp_all only: v that(1))+,
          rule yields_end, assumption, assumption, simp)
    then show ?thesis using that(3,4) by (simp add: enc_CreateTTLRequest_def)
  qed
qed

interpretation CreateTTLRequest_reader: safe_reader "deserialize_CreateTTLRequest full_memory"
  by unfold_locales (unfold deserialize_CreateTTLRequest_def, intro safe_start safe_field safe_end codec_safe)

lemmas [codec_ser] = CreateTTLRequest_codec.ser_appends
lemmas [codec_des] = CreateTTLRequest_codec.des_yields
lemmas [codec_safe] = CreateTTLRequest_reader.safe

record DeleteRequest =
  DeleteRequest_path :: "string option"
  DeleteRequest_version :: "i32"

definition serialize_DeleteRequest :: "(int \<Rightarrow> bool) \<Rightarrow> buff_struct \<Rightarrow> DeleteRequest \<Rightarrow> (int \<times> buff_struct) exec" where
  "serialize_DeleteRequest mem oa v =
     then_ser (oa_start_record oa) (\<lambda>oa.
     then_ser (oa_serialize_string mem oa (DeleteRequest_path v)) (\<lambda>oa.
     then_ser (oa_serialize_int mem oa (DeleteRequest_version v)) (\<lambda>oa.
     oa_end_record oa)))"

definition deserialize_DeleteRequest :: "(int \<Rightarrow> bool) \<Rightarrow> DeleteRequest reader" where
  "deserialize_DeleteRequest mem ia v =
     then_des (ia_start_record ia v) (\<lambda>v ia.
     then_des (field (ia_deserialize_string mem ia) DeleteRequest_path (\<lambda>x. v\<lparr> DeleteRequest_path := x \<rparr>) v) (\<lambda>v ia.
     then_des (field (ia_deserialize_int ia) DeleteRequest_version (\<lambda>x. v\<lparr> DeleteRequest_version := x \<rparr>) v) (\<lambda>v ia.
     ia_end_record ia v)))"

definition enc_DeleteRequest :: "DeleteRequest \<Rightarrow> byte list" where
  "enc_DeleteRequest v = enc_string (DeleteRequest_path v) @ enc_int (DeleteRequest_version v) @ []"

definition valid_DeleteRequest :: "DeleteRequest \<Rightarrow> bool" where
  "valid_DeleteRequest v \<longleftrightarrow> valid_string (DeleteRequest_path v)"

interpretation DeleteRequest_codec: codec serialize_DeleteRequest deserialize_DeleteRequest enc_DeleteRequest valid_DeleteRequest
proof (rule codecI)
  show "appends oa (enc_DeleteRequest v) (serialize_DeleteRequest mem oa v)" if "oa_ok oa" "valid_DeleteRequest v" for mem oa v
    unfolding serialize_DeleteRequest_def enc_DeleteRequest_def
    by (intro appends_start appends_then appends_end codec_ser)
      (use that in \<open>simp_all add: valid_DeleteRequest_def\<close>)
  show "yields (deserialize_DeleteRequest mem ia old) v rest"
    if "\<And>n. mem n" "valid_DeleteRequest v" "ia_ok ia" "remaining ia = enc_DeleteRequest v @ rest" for mem ia v rest old
  proof -
    note v = that(2) [unfolded valid_DeleteRequest_def]
    have "ia_ok ia \<Longrightarrow> remaining ia = enc_string (DeleteRequest_path v) @ enc_int (DeleteRequest_version v) @ rest \<Longrightarrow> ?thesis"
      unfolding deserialize_DeleteRequest_def
      by (rule yields_start, (rule yields_field, rule codec_des, assumption, assumption, simp_all only: v that(1))+,
          rule yields_end, assumption, assumption, simp)
    then show ?thesis using that(3,4) by (simp add: enc_DeleteRequest_def)
  qed
qed

interpretation DeleteRequest_reader: safe_reader "deserialize_DeleteRequest full_memory"
  by unfold_locales (unfold deserialize_DeleteRequest_def, intro safe_start safe_field safe_end codec_safe)

lemmas [codec_ser] = DeleteRequest_codec.ser_appends
lemmas [codec_des] = DeleteRequest_codec.des_yields
lemmas [codec_safe] = DeleteRequest_reader.safe

record GetChildrenRequest =
  GetChildrenRequest_path :: "string option"
  GetChildrenRequest_watch :: "i32"

definition serialize_GetChildrenRequest :: "(int \<Rightarrow> bool) \<Rightarrow> buff_struct \<Rightarrow> GetChildrenRequest \<Rightarrow> (int \<times> buff_struct) exec" where
  "serialize_GetChildrenRequest mem oa v =
     then_ser (oa_start_record oa) (\<lambda>oa.
     then_ser (oa_serialize_string mem oa (GetChildrenRequest_path v)) (\<lambda>oa.
     then_ser (oa_serialize_bool mem oa (GetChildrenRequest_watch v)) (\<lambda>oa.
     oa_end_record oa)))"

definition deserialize_GetChildrenRequest :: "(int \<Rightarrow> bool) \<Rightarrow> GetChildrenRequest reader" where
  "deserialize_GetChildrenRequest mem ia v =
     then_des (ia_start_record ia v) (\<lambda>v ia.
     then_des (field (ia_deserialize_string mem ia) GetChildrenRequest_path (\<lambda>x. v\<lparr> GetChildrenRequest_path := x \<rparr>) v) (\<lambda>v ia.
     then_des (field (ia_deserialize_bool ia) GetChildrenRequest_watch (\<lambda>x. v\<lparr> GetChildrenRequest_watch := x \<rparr>) v) (\<lambda>v ia.
     ia_end_record ia v)))"

definition enc_GetChildrenRequest :: "GetChildrenRequest \<Rightarrow> byte list" where
  "enc_GetChildrenRequest v = enc_string (GetChildrenRequest_path v) @ enc_bool (GetChildrenRequest_watch v) @ []"

definition valid_GetChildrenRequest :: "GetChildrenRequest \<Rightarrow> bool" where
  "valid_GetChildrenRequest v \<longleftrightarrow> valid_string (GetChildrenRequest_path v) \<and> valid_bool (GetChildrenRequest_watch v)"

interpretation GetChildrenRequest_codec: codec serialize_GetChildrenRequest deserialize_GetChildrenRequest enc_GetChildrenRequest valid_GetChildrenRequest
proof (rule codecI)
  show "appends oa (enc_GetChildrenRequest v) (serialize_GetChildrenRequest mem oa v)" if "oa_ok oa" "valid_GetChildrenRequest v" for mem oa v
    unfolding serialize_GetChildrenRequest_def enc_GetChildrenRequest_def
    by (intro appends_start appends_then appends_end codec_ser)
      (use that in \<open>simp_all add: valid_GetChildrenRequest_def\<close>)
  show "yields (deserialize_GetChildrenRequest mem ia old) v rest"
    if "\<And>n. mem n" "valid_GetChildrenRequest v" "ia_ok ia" "remaining ia = enc_GetChildrenRequest v @ rest" for mem ia v rest old
  proof -
    note v = that(2) [unfolded valid_GetChildrenRequest_def]
    have "ia_ok ia \<Longrightarrow> remaining ia = enc_string (GetChildrenRequest_path v) @ enc_bool (GetChildrenRequest_watch v) @ rest \<Longrightarrow> ?thesis"
      unfolding deserialize_GetChildrenRequest_def
      by (rule yields_start, (rule yields_field, rule codec_des, assumption, assumption, simp_all only: v that(1))+,
          rule yields_end, assumption, assumption, simp)
    then show ?thesis using that(3,4) by (simp add: enc_GetChildrenRequest_def)
  qed
qed

interpretation GetChildrenRequest_reader: safe_reader "deserialize_GetChildrenRequest full_memory"
  by unfold_locales (unfold deserialize_GetChildrenRequest_def, intro safe_start safe_field safe_end codec_safe)

lemmas [codec_ser] = GetChildrenRequest_codec.ser_appends
lemmas [codec_des] = GetChildrenRequest_codec.des_yields
lemmas [codec_safe] = GetChildrenRequest_reader.safe

record GetChildren2Request =
  GetChildren2Request_path :: "string option"
  GetChildren2Request_watch :: "i32"

definition serialize_GetChildren2Request :: "(int \<Rightarrow> bool) \<Rightarrow> buff_struct \<Rightarrow> GetChildren2Request \<Rightarrow> (int \<times> buff_struct) exec" where
  "serialize_GetChildren2Request mem oa v =
     then_ser (oa_start_record oa) (\<lambda>oa.
     then_ser (oa_serialize_string mem oa (GetChildren2Request_path v)) (\<lambda>oa.
     then_ser (oa_serialize_bool mem oa (GetChildren2Request_watch v)) (\<lambda>oa.
     oa_end_record oa)))"

definition deserialize_GetChildren2Request :: "(int \<Rightarrow> bool) \<Rightarrow> GetChildren2Request reader" where
  "deserialize_GetChildren2Request mem ia v =
     then_des (ia_start_record ia v) (\<lambda>v ia.
     then_des (field (ia_deserialize_string mem ia) GetChildren2Request_path (\<lambda>x. v\<lparr> GetChildren2Request_path := x \<rparr>) v) (\<lambda>v ia.
     then_des (field (ia_deserialize_bool ia) GetChildren2Request_watch (\<lambda>x. v\<lparr> GetChildren2Request_watch := x \<rparr>) v) (\<lambda>v ia.
     ia_end_record ia v)))"

definition enc_GetChildren2Request :: "GetChildren2Request \<Rightarrow> byte list" where
  "enc_GetChildren2Request v = enc_string (GetChildren2Request_path v) @ enc_bool (GetChildren2Request_watch v) @ []"

definition valid_GetChildren2Request :: "GetChildren2Request \<Rightarrow> bool" where
  "valid_GetChildren2Request v \<longleftrightarrow> valid_string (GetChildren2Request_path v) \<and> valid_bool (GetChildren2Request_watch v)"

interpretation GetChildren2Request_codec: codec serialize_GetChildren2Request deserialize_GetChildren2Request enc_GetChildren2Request valid_GetChildren2Request
proof (rule codecI)
  show "appends oa (enc_GetChildren2Request v) (serialize_GetChildren2Request mem oa v)" if "oa_ok oa" "valid_GetChildren2Request v" for mem oa v
    unfolding serialize_GetChildren2Request_def enc_GetChildren2Request_def
    by (intro appends_start appends_then appends_end codec_ser)
      (use that in \<open>simp_all add: valid_GetChildren2Request_def\<close>)
  show "yields (deserialize_GetChildren2Request mem ia old) v rest"
    if "\<And>n. mem n" "valid_GetChildren2Request v" "ia_ok ia" "remaining ia = enc_GetChildren2Request v @ rest" for mem ia v rest old
  proof -
    note v = that(2) [unfolded valid_GetChildren2Request_def]
    have "ia_ok ia \<Longrightarrow> remaining ia = enc_string (GetChildren2Request_path v) @ enc_bool (GetChildren2Request_watch v) @ rest \<Longrightarrow> ?thesis"
      unfolding deserialize_GetChildren2Request_def
      by (rule yields_start, (rule yields_field, rule codec_des, assumption, assumption, simp_all only: v that(1))+,
          rule yields_end, assumption, assumption, simp)
    then show ?thesis using that(3,4) by (simp add: enc_GetChildren2Request_def)
  qed
qed

interpretation GetChildren2Request_reader: safe_reader "deserialize_GetChildren2Request full_memory"
  by unfold_locales (unfold deserialize_GetChildren2Request_def, intro safe_start safe_field safe_end codec_safe)

lemmas [codec_ser] = GetChildren2Request_codec.ser_appends
lemmas [codec_des] = GetChildren2Request_codec.des_yields
lemmas [codec_safe] = GetChildren2Request_reader.safe

record CheckVersionRequest =
  CheckVersionRequest_path :: "string option"
  CheckVersionRequest_version :: "i32"

definition serialize_CheckVersionRequest :: "(int \<Rightarrow> bool) \<Rightarrow> buff_struct \<Rightarrow> CheckVersionRequest \<Rightarrow> (int \<times> buff_struct) exec" where
  "serialize_CheckVersionRequest mem oa v =
     then_ser (oa_start_record oa) (\<lambda>oa.
     then_ser (oa_serialize_string mem oa (CheckVersionRequest_path v)) (\<lambda>oa.
     then_ser (oa_serialize_int mem oa (CheckVersionRequest_version v)) (\<lambda>oa.
     oa_end_record oa)))"

definition deserialize_CheckVersionRequest :: "(int \<Rightarrow> bool) \<Rightarrow> CheckVersionRequest reader" where
  "deserialize_CheckVersionRequest mem ia v =
     then_des (ia_start_record ia v) (\<lambda>v ia.
     then_des (field (ia_deserialize_string mem ia) CheckVersionRequest_path (\<lambda>x. v\<lparr> CheckVersionRequest_path := x \<rparr>) v) (\<lambda>v ia.
     then_des (field (ia_deserialize_int ia) CheckVersionRequest_version (\<lambda>x. v\<lparr> CheckVersionRequest_version := x \<rparr>) v) (\<lambda>v ia.
     ia_end_record ia v)))"

definition enc_CheckVersionRequest :: "CheckVersionRequest \<Rightarrow> byte list" where
  "enc_CheckVersionRequest v = enc_string (CheckVersionRequest_path v) @ enc_int (CheckVersionRequest_version v) @ []"

definition valid_CheckVersionRequest :: "CheckVersionRequest \<Rightarrow> bool" where
  "valid_CheckVersionRequest v \<longleftrightarrow> valid_string (CheckVersionRequest_path v)"

interpretation CheckVersionRequest_codec: codec serialize_CheckVersionRequest deserialize_CheckVersionRequest enc_CheckVersionRequest valid_CheckVersionRequest
proof (rule codecI)
  show "appends oa (enc_CheckVersionRequest v) (serialize_CheckVersionRequest mem oa v)" if "oa_ok oa" "valid_CheckVersionRequest v" for mem oa v
    unfolding serialize_CheckVersionRequest_def enc_CheckVersionRequest_def
    by (intro appends_start appends_then appends_end codec_ser)
      (use that in \<open>simp_all add: valid_CheckVersionRequest_def\<close>)
  show "yields (deserialize_CheckVersionRequest mem ia old) v rest"
    if "\<And>n. mem n" "valid_CheckVersionRequest v" "ia_ok ia" "remaining ia = enc_CheckVersionRequest v @ rest" for mem ia v rest old
  proof -
    note v = that(2) [unfolded valid_CheckVersionRequest_def]
    have "ia_ok ia \<Longrightarrow> remaining ia = enc_string (CheckVersionRequest_path v) @ enc_int (CheckVersionRequest_version v) @ rest \<Longrightarrow> ?thesis"
      unfolding deserialize_CheckVersionRequest_def
      by (rule yields_start, (rule yields_field, rule codec_des, assumption, assumption, simp_all only: v that(1))+,
          rule yields_end, assumption, assumption, simp)
    then show ?thesis using that(3,4) by (simp add: enc_CheckVersionRequest_def)
  qed
qed

interpretation CheckVersionRequest_reader: safe_reader "deserialize_CheckVersionRequest full_memory"
  by unfold_locales (unfold deserialize_CheckVersionRequest_def, intro safe_start safe_field safe_end codec_safe)

lemmas [codec_ser] = CheckVersionRequest_codec.ser_appends
lemmas [codec_des] = CheckVersionRequest_codec.des_yields
lemmas [codec_safe] = CheckVersionRequest_reader.safe

record SyncRequest =
  SyncRequest_path :: "string option"

definition serialize_SyncRequest :: "(int \<Rightarrow> bool) \<Rightarrow> buff_struct \<Rightarrow> SyncRequest \<Rightarrow> (int \<times> buff_struct) exec" where
  "serialize_SyncRequest mem oa v =
     then_ser (oa_start_record oa) (\<lambda>oa.
     then_ser (oa_serialize_string mem oa (SyncRequest_path v)) (\<lambda>oa.
     oa_end_record oa))"

definition deserialize_SyncRequest :: "(int \<Rightarrow> bool) \<Rightarrow> SyncRequest reader" where
  "deserialize_SyncRequest mem ia v =
     then_des (ia_start_record ia v) (\<lambda>v ia.
     then_des (field (ia_deserialize_string mem ia) SyncRequest_path (\<lambda>x. v\<lparr> SyncRequest_path := x \<rparr>) v) (\<lambda>v ia.
     ia_end_record ia v))"

definition enc_SyncRequest :: "SyncRequest \<Rightarrow> byte list" where
  "enc_SyncRequest v = enc_string (SyncRequest_path v) @ []"

definition valid_SyncRequest :: "SyncRequest \<Rightarrow> bool" where
  "valid_SyncRequest v \<longleftrightarrow> valid_string (SyncRequest_path v)"

interpretation SyncRequest_codec: codec serialize_SyncRequest deserialize_SyncRequest enc_SyncRequest valid_SyncRequest
proof (rule codecI)
  show "appends oa (enc_SyncRequest v) (serialize_SyncRequest mem oa v)" if "oa_ok oa" "valid_SyncRequest v" for mem oa v
    unfolding serialize_SyncRequest_def enc_SyncRequest_def
    by (intro appends_start appends_then appends_end codec_ser)
      (use that in \<open>simp_all add: valid_SyncRequest_def\<close>)
  show "yields (deserialize_SyncRequest mem ia old) v rest"
    if "\<And>n. mem n" "valid_SyncRequest v" "ia_ok ia" "remaining ia = enc_SyncRequest v @ rest" for mem ia v rest old
  proof -
    note v = that(2) [unfolded valid_SyncRequest_def]
    have "ia_ok ia \<Longrightarrow> remaining ia = enc_string (SyncRequest_path v) @ rest \<Longrightarrow> ?thesis"
      unfolding deserialize_SyncRequest_def
      by (rule yields_start, (rule yields_field, rule codec_des, assumption, assumption, simp_all only: v that(1))+,
          rule yields_end, assumption, assumption, simp)
    then show ?thesis using that(3,4) by (simp add: enc_SyncRequest_def)
  qed
qed

interpretation SyncRequest_reader: safe_reader "deserialize_SyncRequest full_memory"
  by unfold_locales (unfold deserialize_SyncRequest_def, intro safe_start safe_field safe_end codec_safe)

lemmas [codec_ser] = SyncRequest_codec.ser_appends
lemmas [codec_des] = SyncRequest_codec.des_yields
lemmas [codec_safe] = SyncRequest_reader.safe

record SyncResponse =
  SyncResponse_path :: "string option"

definition serialize_SyncResponse :: "(int \<Rightarrow> bool) \<Rightarrow> buff_struct \<Rightarrow> SyncResponse \<Rightarrow> (int \<times> buff_struct) exec" where
  "serialize_SyncResponse mem oa v =
     then_ser (oa_start_record oa) (\<lambda>oa.
     then_ser (oa_serialize_string mem oa (SyncResponse_path v)) (\<lambda>oa.
     oa_end_record oa))"

definition deserialize_SyncResponse :: "(int \<Rightarrow> bool) \<Rightarrow> SyncResponse reader" where
  "deserialize_SyncResponse mem ia v =
     then_des (ia_start_record ia v) (\<lambda>v ia.
     then_des (field (ia_deserialize_string mem ia) SyncResponse_path (\<lambda>x. v\<lparr> SyncResponse_path := x \<rparr>) v) (\<lambda>v ia.
     ia_end_record ia v))"

definition enc_SyncResponse :: "SyncResponse \<Rightarrow> byte list" where
  "enc_SyncResponse v = enc_string (SyncResponse_path v) @ []"

definition valid_SyncResponse :: "SyncResponse \<Rightarrow> bool" where
  "valid_SyncResponse v \<longleftrightarrow> valid_string (SyncResponse_path v)"

interpretation SyncResponse_codec: codec serialize_SyncResponse deserialize_SyncResponse enc_SyncResponse valid_SyncResponse
proof (rule codecI)
  show "appends oa (enc_SyncResponse v) (serialize_SyncResponse mem oa v)" if "oa_ok oa" "valid_SyncResponse v" for mem oa v
    unfolding serialize_SyncResponse_def enc_SyncResponse_def
    by (intro appends_start appends_then appends_end codec_ser)
      (use that in \<open>simp_all add: valid_SyncResponse_def\<close>)
  show "yields (deserialize_SyncResponse mem ia old) v rest"
    if "\<And>n. mem n" "valid_SyncResponse v" "ia_ok ia" "remaining ia = enc_SyncResponse v @ rest" for mem ia v rest old
  proof -
    note v = that(2) [unfolded valid_SyncResponse_def]
    have "ia_ok ia \<Longrightarrow> remaining ia = enc_string (SyncResponse_path v) @ rest \<Longrightarrow> ?thesis"
      unfolding deserialize_SyncResponse_def
      by (rule yields_start, (rule yields_field, rule codec_des, assumption, assumption, simp_all only: v that(1))+,
          rule yields_end, assumption, assumption, simp)
    then show ?thesis using that(3,4) by (simp add: enc_SyncResponse_def)
  qed
qed

interpretation SyncResponse_reader: safe_reader "deserialize_SyncResponse full_memory"
  by unfold_locales (unfold deserialize_SyncResponse_def, intro safe_start safe_field safe_end codec_safe)

lemmas [codec_ser] = SyncResponse_codec.ser_appends
lemmas [codec_des] = SyncResponse_codec.des_yields
lemmas [codec_safe] = SyncResponse_reader.safe

record GetACLRequest =
  GetACLRequest_path :: "string option"

definition serialize_GetACLRequest :: "(int \<Rightarrow> bool) \<Rightarrow> buff_struct \<Rightarrow> GetACLRequest \<Rightarrow> (int \<times> buff_struct) exec" where
  "serialize_GetACLRequest mem oa v =
     then_ser (oa_start_record oa) (\<lambda>oa.
     then_ser (oa_serialize_string mem oa (GetACLRequest_path v)) (\<lambda>oa.
     oa_end_record oa))"

definition deserialize_GetACLRequest :: "(int \<Rightarrow> bool) \<Rightarrow> GetACLRequest reader" where
  "deserialize_GetACLRequest mem ia v =
     then_des (ia_start_record ia v) (\<lambda>v ia.
     then_des (field (ia_deserialize_string mem ia) GetACLRequest_path (\<lambda>x. v\<lparr> GetACLRequest_path := x \<rparr>) v) (\<lambda>v ia.
     ia_end_record ia v))"

definition enc_GetACLRequest :: "GetACLRequest \<Rightarrow> byte list" where
  "enc_GetACLRequest v = enc_string (GetACLRequest_path v) @ []"

definition valid_GetACLRequest :: "GetACLRequest \<Rightarrow> bool" where
  "valid_GetACLRequest v \<longleftrightarrow> valid_string (GetACLRequest_path v)"

interpretation GetACLRequest_codec: codec serialize_GetACLRequest deserialize_GetACLRequest enc_GetACLRequest valid_GetACLRequest
proof (rule codecI)
  show "appends oa (enc_GetACLRequest v) (serialize_GetACLRequest mem oa v)" if "oa_ok oa" "valid_GetACLRequest v" for mem oa v
    unfolding serialize_GetACLRequest_def enc_GetACLRequest_def
    by (intro appends_start appends_then appends_end codec_ser)
      (use that in \<open>simp_all add: valid_GetACLRequest_def\<close>)
  show "yields (deserialize_GetACLRequest mem ia old) v rest"
    if "\<And>n. mem n" "valid_GetACLRequest v" "ia_ok ia" "remaining ia = enc_GetACLRequest v @ rest" for mem ia v rest old
  proof -
    note v = that(2) [unfolded valid_GetACLRequest_def]
    have "ia_ok ia \<Longrightarrow> remaining ia = enc_string (GetACLRequest_path v) @ rest \<Longrightarrow> ?thesis"
      unfolding deserialize_GetACLRequest_def
      by (rule yields_start, (rule yields_field, rule codec_des, assumption, assumption, simp_all only: v that(1))+,
          rule yields_end, assumption, assumption, simp)
    then show ?thesis using that(3,4) by (simp add: enc_GetACLRequest_def)
  qed
qed

interpretation GetACLRequest_reader: safe_reader "deserialize_GetACLRequest full_memory"
  by unfold_locales (unfold deserialize_GetACLRequest_def, intro safe_start safe_field safe_end codec_safe)

lemmas [codec_ser] = GetACLRequest_codec.ser_appends
lemmas [codec_des] = GetACLRequest_codec.des_yields
lemmas [codec_safe] = GetACLRequest_reader.safe

record SetACLRequest =
  SetACLRequest_path :: "string option"
  SetACLRequest_acl :: "ACL_vector"
  SetACLRequest_version :: "i32"

definition serialize_SetACLRequest :: "(int \<Rightarrow> bool) \<Rightarrow> buff_struct \<Rightarrow> SetACLRequest \<Rightarrow> (int \<times> buff_struct) exec" where
  "serialize_SetACLRequest mem oa v =
     then_ser (oa_start_record oa) (\<lambda>oa.
     then_ser (oa_serialize_string mem oa (SetACLRequest_path v)) (\<lambda>oa.
     then_ser (serialize_ACL_vector mem oa (SetACLRequest_acl v)) (\<lambda>oa.
     then_ser (oa_serialize_int mem oa (SetACLRequest_version v)) (\<lambda>oa.
     oa_end_record oa))))"

definition deserialize_SetACLRequest :: "(int \<Rightarrow> bool) \<Rightarrow> SetACLRequest reader" where
  "deserialize_SetACLRequest mem ia v =
     then_des (ia_start_record ia v) (\<lambda>v ia.
     then_des (field (ia_deserialize_string mem ia) SetACLRequest_path (\<lambda>x. v\<lparr> SetACLRequest_path := x \<rparr>) v) (\<lambda>v ia.
     then_des (field (deserialize_ACL_vector mem ia) SetACLRequest_acl (\<lambda>x. v\<lparr> SetACLRequest_acl := x \<rparr>) v) (\<lambda>v ia.
     then_des (field (ia_deserialize_int ia) SetACLRequest_version (\<lambda>x. v\<lparr> SetACLRequest_version := x \<rparr>) v) (\<lambda>v ia.
     ia_end_record ia v))))"

definition enc_SetACLRequest :: "SetACLRequest \<Rightarrow> byte list" where
  "enc_SetACLRequest v = enc_string (SetACLRequest_path v) @ enc_ACL_vector (SetACLRequest_acl v) @ enc_int (SetACLRequest_version v) @ []"

definition valid_SetACLRequest :: "SetACLRequest \<Rightarrow> bool" where
  "valid_SetACLRequest v \<longleftrightarrow> valid_string (SetACLRequest_path v) \<and> valid_ACL_vector (SetACLRequest_acl v)"

interpretation SetACLRequest_codec: codec serialize_SetACLRequest deserialize_SetACLRequest enc_SetACLRequest valid_SetACLRequest
proof (rule codecI)
  show "appends oa (enc_SetACLRequest v) (serialize_SetACLRequest mem oa v)" if "oa_ok oa" "valid_SetACLRequest v" for mem oa v
    unfolding serialize_SetACLRequest_def enc_SetACLRequest_def
    by (intro appends_start appends_then appends_end codec_ser)
      (use that in \<open>simp_all add: valid_SetACLRequest_def\<close>)
  show "yields (deserialize_SetACLRequest mem ia old) v rest"
    if "\<And>n. mem n" "valid_SetACLRequest v" "ia_ok ia" "remaining ia = enc_SetACLRequest v @ rest" for mem ia v rest old
  proof -
    note v = that(2) [unfolded valid_SetACLRequest_def]
    have "ia_ok ia \<Longrightarrow> remaining ia = enc_string (SetACLRequest_path v) @ enc_ACL_vector (SetACLRequest_acl v) @ enc_int (SetACLRequest_version v) @ rest \<Longrightarrow> ?thesis"
      unfolding deserialize_SetACLRequest_def
      by (rule yields_start, (rule yields_field, rule codec_des, assumption, assumption, simp_all only: v that(1))+,
          rule yields_end, assumption, assumption, simp)
    then show ?thesis using that(3,4) by (simp add: enc_SetACLRequest_def)
  qed
qed

interpretation SetACLRequest_reader: safe_reader "deserialize_SetACLRequest full_memory"
  by unfold_locales (unfold deserialize_SetACLRequest_def, intro safe_start safe_field safe_end codec_safe)

lemmas [codec_ser] = SetACLRequest_codec.ser_appends
lemmas [codec_des] = SetACLRequest_codec.des_yields
lemmas [codec_safe] = SetACLRequest_reader.safe

record SetACLResponse =
  SetACLResponse_stat :: "Stat"

definition serialize_SetACLResponse :: "(int \<Rightarrow> bool) \<Rightarrow> buff_struct \<Rightarrow> SetACLResponse \<Rightarrow> (int \<times> buff_struct) exec" where
  "serialize_SetACLResponse mem oa v =
     then_ser (oa_start_record oa) (\<lambda>oa.
     then_ser (serialize_Stat mem oa (SetACLResponse_stat v)) (\<lambda>oa.
     oa_end_record oa))"

definition deserialize_SetACLResponse :: "(int \<Rightarrow> bool) \<Rightarrow> SetACLResponse reader" where
  "deserialize_SetACLResponse mem ia v =
     then_des (ia_start_record ia v) (\<lambda>v ia.
     then_des (field (deserialize_Stat mem ia) SetACLResponse_stat (\<lambda>x. v\<lparr> SetACLResponse_stat := x \<rparr>) v) (\<lambda>v ia.
     ia_end_record ia v))"

definition enc_SetACLResponse :: "SetACLResponse \<Rightarrow> byte list" where
  "enc_SetACLResponse v = enc_Stat (SetACLResponse_stat v) @ []"

definition valid_SetACLResponse :: "SetACLResponse \<Rightarrow> bool" where
  "valid_SetACLResponse v \<longleftrightarrow> valid_Stat (SetACLResponse_stat v)"

interpretation SetACLResponse_codec: codec serialize_SetACLResponse deserialize_SetACLResponse enc_SetACLResponse valid_SetACLResponse
proof (rule codecI)
  show "appends oa (enc_SetACLResponse v) (serialize_SetACLResponse mem oa v)" if "oa_ok oa" "valid_SetACLResponse v" for mem oa v
    unfolding serialize_SetACLResponse_def enc_SetACLResponse_def
    by (intro appends_start appends_then appends_end codec_ser)
      (use that in \<open>simp_all add: valid_SetACLResponse_def\<close>)
  show "yields (deserialize_SetACLResponse mem ia old) v rest"
    if "\<And>n. mem n" "valid_SetACLResponse v" "ia_ok ia" "remaining ia = enc_SetACLResponse v @ rest" for mem ia v rest old
  proof -
    note v = that(2) [unfolded valid_SetACLResponse_def]
    have "ia_ok ia \<Longrightarrow> remaining ia = enc_Stat (SetACLResponse_stat v) @ rest \<Longrightarrow> ?thesis"
      unfolding deserialize_SetACLResponse_def
      by (rule yields_start, (rule yields_field, rule codec_des, assumption, assumption, simp_all only: v that(1))+,
          rule yields_end, assumption, assumption, simp)
    then show ?thesis using that(3,4) by (simp add: enc_SetACLResponse_def)
  qed
qed

interpretation SetACLResponse_reader: safe_reader "deserialize_SetACLResponse full_memory"
  by unfold_locales (unfold deserialize_SetACLResponse_def, intro safe_start safe_field safe_end codec_safe)

lemmas [codec_ser] = SetACLResponse_codec.ser_appends
lemmas [codec_des] = SetACLResponse_codec.des_yields
lemmas [codec_safe] = SetACLResponse_reader.safe

record WatcherEvent =
  WatcherEvent_type :: "i32"
  WatcherEvent_state :: "i32"
  WatcherEvent_path :: "string option"

definition serialize_WatcherEvent :: "(int \<Rightarrow> bool) \<Rightarrow> buff_struct \<Rightarrow> WatcherEvent \<Rightarrow> (int \<times> buff_struct) exec" where
  "serialize_WatcherEvent mem oa v =
     then_ser (oa_start_record oa) (\<lambda>oa.
     then_ser (oa_serialize_int mem oa (WatcherEvent_type v)) (\<lambda>oa.
     then_ser (oa_serialize_int mem oa (WatcherEvent_state v)) (\<lambda>oa.
     then_ser (oa_serialize_string mem oa (WatcherEvent_path v)) (\<lambda>oa.
     oa_end_record oa))))"

definition deserialize_WatcherEvent :: "(int \<Rightarrow> bool) \<Rightarrow> WatcherEvent reader" where
  "deserialize_WatcherEvent mem ia v =
     then_des (ia_start_record ia v) (\<lambda>v ia.
     then_des (field (ia_deserialize_int ia) WatcherEvent_type (\<lambda>x. v\<lparr> WatcherEvent_type := x \<rparr>) v) (\<lambda>v ia.
     then_des (field (ia_deserialize_int ia) WatcherEvent_state (\<lambda>x. v\<lparr> WatcherEvent_state := x \<rparr>) v) (\<lambda>v ia.
     then_des (field (ia_deserialize_string mem ia) WatcherEvent_path (\<lambda>x. v\<lparr> WatcherEvent_path := x \<rparr>) v) (\<lambda>v ia.
     ia_end_record ia v))))"

definition enc_WatcherEvent :: "WatcherEvent \<Rightarrow> byte list" where
  "enc_WatcherEvent v = enc_int (WatcherEvent_type v) @ enc_int (WatcherEvent_state v) @ enc_string (WatcherEvent_path v) @ []"

definition valid_WatcherEvent :: "WatcherEvent \<Rightarrow> bool" where
  "valid_WatcherEvent v \<longleftrightarrow> valid_string (WatcherEvent_path v)"

interpretation WatcherEvent_codec: codec serialize_WatcherEvent deserialize_WatcherEvent enc_WatcherEvent valid_WatcherEvent
proof (rule codecI)
  show "appends oa (enc_WatcherEvent v) (serialize_WatcherEvent mem oa v)" if "oa_ok oa" "valid_WatcherEvent v" for mem oa v
    unfolding serialize_WatcherEvent_def enc_WatcherEvent_def
    by (intro appends_start appends_then appends_end codec_ser)
      (use that in \<open>simp_all add: valid_WatcherEvent_def\<close>)
  show "yields (deserialize_WatcherEvent mem ia old) v rest"
    if "\<And>n. mem n" "valid_WatcherEvent v" "ia_ok ia" "remaining ia = enc_WatcherEvent v @ rest" for mem ia v rest old
  proof -
    note v = that(2) [unfolded valid_WatcherEvent_def]
    have "ia_ok ia \<Longrightarrow> remaining ia = enc_int (WatcherEvent_type v) @ enc_int (WatcherEvent_state v) @ enc_string (WatcherEvent_path v) @ rest \<Longrightarrow> ?thesis"
      unfolding deserialize_WatcherEvent_def
      by (rule yields_start, (rule yields_field, rule codec_des, assumption, assumption, simp_all only: v that(1))+,
          rule yields_end, assumption, assumption, simp)
    then show ?thesis using that(3,4) by (simp add: enc_WatcherEvent_def)
  qed
qed

interpretation WatcherEvent_reader: safe_reader "deserialize_WatcherEvent full_memory"
  by unfold_locales (unfold deserialize_WatcherEvent_def, intro safe_start safe_field safe_end codec_safe)

lemmas [codec_ser] = WatcherEvent_codec.ser_appends
lemmas [codec_des] = WatcherEvent_codec.des_yields
lemmas [codec_safe] = WatcherEvent_reader.safe

record ErrorResponse =
  ErrorResponse_err :: "i32"

definition serialize_ErrorResponse :: "(int \<Rightarrow> bool) \<Rightarrow> buff_struct \<Rightarrow> ErrorResponse \<Rightarrow> (int \<times> buff_struct) exec" where
  "serialize_ErrorResponse mem oa v =
     then_ser (oa_start_record oa) (\<lambda>oa.
     then_ser (oa_serialize_int mem oa (ErrorResponse_err v)) (\<lambda>oa.
     oa_end_record oa))"

definition deserialize_ErrorResponse :: "(int \<Rightarrow> bool) \<Rightarrow> ErrorResponse reader" where
  "deserialize_ErrorResponse mem ia v =
     then_des (ia_start_record ia v) (\<lambda>v ia.
     then_des (field (ia_deserialize_int ia) ErrorResponse_err (\<lambda>x. v\<lparr> ErrorResponse_err := x \<rparr>) v) (\<lambda>v ia.
     ia_end_record ia v))"

definition enc_ErrorResponse :: "ErrorResponse \<Rightarrow> byte list" where
  "enc_ErrorResponse v = enc_int (ErrorResponse_err v) @ []"

definition valid_ErrorResponse :: "ErrorResponse \<Rightarrow> bool" where
  "valid_ErrorResponse v \<longleftrightarrow> True"

interpretation ErrorResponse_codec: codec serialize_ErrorResponse deserialize_ErrorResponse enc_ErrorResponse valid_ErrorResponse
proof (rule codecI)
  show "appends oa (enc_ErrorResponse v) (serialize_ErrorResponse mem oa v)" if "oa_ok oa" "valid_ErrorResponse v" for mem oa v
    unfolding serialize_ErrorResponse_def enc_ErrorResponse_def
    by (intro appends_start appends_then appends_end codec_ser)
      (use that in \<open>simp_all add: valid_ErrorResponse_def\<close>)
  show "yields (deserialize_ErrorResponse mem ia old) v rest"
    if "\<And>n. mem n" "valid_ErrorResponse v" "ia_ok ia" "remaining ia = enc_ErrorResponse v @ rest" for mem ia v rest old
  proof -
    note v = that(2) [unfolded valid_ErrorResponse_def]
    have "ia_ok ia \<Longrightarrow> remaining ia = enc_int (ErrorResponse_err v) @ rest \<Longrightarrow> ?thesis"
      unfolding deserialize_ErrorResponse_def
      by (rule yields_start, (rule yields_field, rule codec_des, assumption, assumption, simp_all only: v that(1))+,
          rule yields_end, assumption, assumption, simp)
    then show ?thesis using that(3,4) by (simp add: enc_ErrorResponse_def)
  qed
qed

interpretation ErrorResponse_reader: safe_reader "deserialize_ErrorResponse full_memory"
  by unfold_locales (unfold deserialize_ErrorResponse_def, intro safe_start safe_field safe_end codec_safe)

lemmas [codec_ser] = ErrorResponse_codec.ser_appends
lemmas [codec_des] = ErrorResponse_codec.des_yields
lemmas [codec_safe] = ErrorResponse_reader.safe

record CreateResponse =
  CreateResponse_path :: "string option"

definition serialize_CreateResponse :: "(int \<Rightarrow> bool) \<Rightarrow> buff_struct \<Rightarrow> CreateResponse \<Rightarrow> (int \<times> buff_struct) exec" where
  "serialize_CreateResponse mem oa v =
     then_ser (oa_start_record oa) (\<lambda>oa.
     then_ser (oa_serialize_string mem oa (CreateResponse_path v)) (\<lambda>oa.
     oa_end_record oa))"

definition deserialize_CreateResponse :: "(int \<Rightarrow> bool) \<Rightarrow> CreateResponse reader" where
  "deserialize_CreateResponse mem ia v =
     then_des (ia_start_record ia v) (\<lambda>v ia.
     then_des (field (ia_deserialize_string mem ia) CreateResponse_path (\<lambda>x. v\<lparr> CreateResponse_path := x \<rparr>) v) (\<lambda>v ia.
     ia_end_record ia v))"

definition enc_CreateResponse :: "CreateResponse \<Rightarrow> byte list" where
  "enc_CreateResponse v = enc_string (CreateResponse_path v) @ []"

definition valid_CreateResponse :: "CreateResponse \<Rightarrow> bool" where
  "valid_CreateResponse v \<longleftrightarrow> valid_string (CreateResponse_path v)"

interpretation CreateResponse_codec: codec serialize_CreateResponse deserialize_CreateResponse enc_CreateResponse valid_CreateResponse
proof (rule codecI)
  show "appends oa (enc_CreateResponse v) (serialize_CreateResponse mem oa v)" if "oa_ok oa" "valid_CreateResponse v" for mem oa v
    unfolding serialize_CreateResponse_def enc_CreateResponse_def
    by (intro appends_start appends_then appends_end codec_ser)
      (use that in \<open>simp_all add: valid_CreateResponse_def\<close>)
  show "yields (deserialize_CreateResponse mem ia old) v rest"
    if "\<And>n. mem n" "valid_CreateResponse v" "ia_ok ia" "remaining ia = enc_CreateResponse v @ rest" for mem ia v rest old
  proof -
    note v = that(2) [unfolded valid_CreateResponse_def]
    have "ia_ok ia \<Longrightarrow> remaining ia = enc_string (CreateResponse_path v) @ rest \<Longrightarrow> ?thesis"
      unfolding deserialize_CreateResponse_def
      by (rule yields_start, (rule yields_field, rule codec_des, assumption, assumption, simp_all only: v that(1))+,
          rule yields_end, assumption, assumption, simp)
    then show ?thesis using that(3,4) by (simp add: enc_CreateResponse_def)
  qed
qed

interpretation CreateResponse_reader: safe_reader "deserialize_CreateResponse full_memory"
  by unfold_locales (unfold deserialize_CreateResponse_def, intro safe_start safe_field safe_end codec_safe)

lemmas [codec_ser] = CreateResponse_codec.ser_appends
lemmas [codec_des] = CreateResponse_codec.des_yields
lemmas [codec_safe] = CreateResponse_reader.safe

record Create2Response =
  Create2Response_path :: "string option"
  Create2Response_stat :: "Stat"

definition serialize_Create2Response :: "(int \<Rightarrow> bool) \<Rightarrow> buff_struct \<Rightarrow> Create2Response \<Rightarrow> (int \<times> buff_struct) exec" where
  "serialize_Create2Response mem oa v =
     then_ser (oa_start_record oa) (\<lambda>oa.
     then_ser (oa_serialize_string mem oa (Create2Response_path v)) (\<lambda>oa.
     then_ser (serialize_Stat mem oa (Create2Response_stat v)) (\<lambda>oa.
     oa_end_record oa)))"

definition deserialize_Create2Response :: "(int \<Rightarrow> bool) \<Rightarrow> Create2Response reader" where
  "deserialize_Create2Response mem ia v =
     then_des (ia_start_record ia v) (\<lambda>v ia.
     then_des (field (ia_deserialize_string mem ia) Create2Response_path (\<lambda>x. v\<lparr> Create2Response_path := x \<rparr>) v) (\<lambda>v ia.
     then_des (field (deserialize_Stat mem ia) Create2Response_stat (\<lambda>x. v\<lparr> Create2Response_stat := x \<rparr>) v) (\<lambda>v ia.
     ia_end_record ia v)))"

definition enc_Create2Response :: "Create2Response \<Rightarrow> byte list" where
  "enc_Create2Response v = enc_string (Create2Response_path v) @ enc_Stat (Create2Response_stat v) @ []"

definition valid_Create2Response :: "Create2Response \<Rightarrow> bool" where
  "valid_Create2Response v \<longleftrightarrow> valid_string (Create2Response_path v) \<and> valid_Stat (Create2Response_stat v)"

interpretation Create2Response_codec: codec serialize_Create2Response deserialize_Create2Response enc_Create2Response valid_Create2Response
proof (rule codecI)
  show "appends oa (enc_Create2Response v) (serialize_Create2Response mem oa v)" if "oa_ok oa" "valid_Create2Response v" for mem oa v
    unfolding serialize_Create2Response_def enc_Create2Response_def
    by (intro appends_start appends_then appends_end codec_ser)
      (use that in \<open>simp_all add: valid_Create2Response_def\<close>)
  show "yields (deserialize_Create2Response mem ia old) v rest"
    if "\<And>n. mem n" "valid_Create2Response v" "ia_ok ia" "remaining ia = enc_Create2Response v @ rest" for mem ia v rest old
  proof -
    note v = that(2) [unfolded valid_Create2Response_def]
    have "ia_ok ia \<Longrightarrow> remaining ia = enc_string (Create2Response_path v) @ enc_Stat (Create2Response_stat v) @ rest \<Longrightarrow> ?thesis"
      unfolding deserialize_Create2Response_def
      by (rule yields_start, (rule yields_field, rule codec_des, assumption, assumption, simp_all only: v that(1))+,
          rule yields_end, assumption, assumption, simp)
    then show ?thesis using that(3,4) by (simp add: enc_Create2Response_def)
  qed
qed

interpretation Create2Response_reader: safe_reader "deserialize_Create2Response full_memory"
  by unfold_locales (unfold deserialize_Create2Response_def, intro safe_start safe_field safe_end codec_safe)

lemmas [codec_ser] = Create2Response_codec.ser_appends
lemmas [codec_des] = Create2Response_codec.des_yields
lemmas [codec_safe] = Create2Response_reader.safe

record ExistsRequest =
  ExistsRequest_path :: "string option"
  ExistsRequest_watch :: "i32"

definition serialize_ExistsRequest :: "(int \<Rightarrow> bool) \<Rightarrow> buff_struct \<Rightarrow> ExistsRequest \<Rightarrow> (int \<times> buff_struct) exec" where
  "serialize_ExistsRequest mem oa v =
     then_ser (oa_start_record oa) (\<lambda>oa.
     then_ser (oa_serialize_string mem oa (ExistsRequest_path v)) (\<lambda>oa.
     then_ser (oa_serialize_bool mem oa (ExistsRequest_watch v)) (\<lambda>oa.
     oa_end_record oa)))"

definition deserialize_ExistsRequest :: "(int \<Rightarrow> bool) \<Rightarrow> ExistsRequest reader" where
  "deserialize_ExistsRequest mem ia v =
     then_des (ia_start_record ia v) (\<lambda>v ia.
     then_des (field (ia_deserialize_string mem ia) ExistsRequest_path (\<lambda>x. v\<lparr> ExistsRequest_path := x \<rparr>) v) (\<lambda>v ia.
     then_des (field (ia_deserialize_bool ia) ExistsRequest_watch (\<lambda>x. v\<lparr> ExistsRequest_watch := x \<rparr>) v) (\<lambda>v ia.
     ia_end_record ia v)))"

definition enc_ExistsRequest :: "ExistsRequest \<Rightarrow> byte list" where
  "enc_ExistsRequest v = enc_string (ExistsRequest_path v) @ enc_bool (ExistsRequest_watch v) @ []"

definition valid_ExistsRequest :: "ExistsRequest \<Rightarrow> bool" where
  "valid_ExistsRequest v \<longleftrightarrow> valid_string (ExistsRequest_path v) \<and> valid_bool (ExistsRequest_watch v)"

interpretation ExistsRequest_codec: codec serialize_ExistsRequest deserialize_ExistsRequest enc_ExistsRequest valid_ExistsRequest
proof (rule codecI)
  show "appends oa (enc_ExistsRequest v) (serialize_ExistsRequest mem oa v)" if "oa_ok oa" "valid_ExistsRequest v" for mem oa v
    unfolding serialize_ExistsRequest_def enc_ExistsRequest_def
    by (intro appends_start appends_then appends_end codec_ser)
      (use that in \<open>simp_all add: valid_ExistsRequest_def\<close>)
  show "yields (deserialize_ExistsRequest mem ia old) v rest"
    if "\<And>n. mem n" "valid_ExistsRequest v" "ia_ok ia" "remaining ia = enc_ExistsRequest v @ rest" for mem ia v rest old
  proof -
    note v = that(2) [unfolded valid_ExistsRequest_def]
    have "ia_ok ia \<Longrightarrow> remaining ia = enc_string (ExistsRequest_path v) @ enc_bool (ExistsRequest_watch v) @ rest \<Longrightarrow> ?thesis"
      unfolding deserialize_ExistsRequest_def
      by (rule yields_start, (rule yields_field, rule codec_des, assumption, assumption, simp_all only: v that(1))+,
          rule yields_end, assumption, assumption, simp)
    then show ?thesis using that(3,4) by (simp add: enc_ExistsRequest_def)
  qed
qed

interpretation ExistsRequest_reader: safe_reader "deserialize_ExistsRequest full_memory"
  by unfold_locales (unfold deserialize_ExistsRequest_def, intro safe_start safe_field safe_end codec_safe)

lemmas [codec_ser] = ExistsRequest_codec.ser_appends
lemmas [codec_des] = ExistsRequest_codec.des_yields
lemmas [codec_safe] = ExistsRequest_reader.safe

record ExistsResponse =
  ExistsResponse_stat :: "Stat"

definition serialize_ExistsResponse :: "(int \<Rightarrow> bool) \<Rightarrow> buff_struct \<Rightarrow> ExistsResponse \<Rightarrow> (int \<times> buff_struct) exec" where
  "serialize_ExistsResponse mem oa v =
     then_ser (oa_start_record oa) (\<lambda>oa.
     then_ser (serialize_Stat mem oa (ExistsResponse_stat v)) (\<lambda>oa.
     oa_end_record oa))"

definition deserialize_ExistsResponse :: "(int \<Rightarrow> bool) \<Rightarrow> ExistsResponse reader" where
  "deserialize_ExistsResponse mem ia v =
     then_des (ia_start_record ia v) (\<lambda>v ia.
     then_des (field (deserialize_Stat mem ia) ExistsResponse_stat (\<lambda>x. v\<lparr> ExistsResponse_stat := x \<rparr>) v) (\<lambda>v ia.
     ia_end_record ia v))"

definition enc_ExistsResponse :: "ExistsResponse \<Rightarrow> byte list" where
  "enc_ExistsResponse v = enc_Stat (ExistsResponse_stat v) @ []"

definition valid_ExistsResponse :: "ExistsResponse \<Rightarrow> bool" where
  "valid_ExistsResponse v \<longleftrightarrow> valid_Stat (ExistsResponse_stat v)"

interpretation ExistsResponse_codec: codec serialize_ExistsResponse deserialize_ExistsResponse enc_ExistsResponse valid_ExistsResponse
proof (rule codecI)
  show "appends oa (enc_ExistsResponse v) (serialize_ExistsResponse mem oa v)" if "oa_ok oa" "valid_ExistsResponse v" for mem oa v
    unfolding serialize_ExistsResponse_def enc_ExistsResponse_def
    by (intro appends_start appends_then appends_end codec_ser)
      (use that in \<open>simp_all add: valid_ExistsResponse_def\<close>)
  show "yields (deserialize_ExistsResponse mem ia old) v rest"
    if "\<And>n. mem n" "valid_ExistsResponse v" "ia_ok ia" "remaining ia = enc_ExistsResponse v @ rest" for mem ia v rest old
  proof -
    note v = that(2) [unfolded valid_ExistsResponse_def]
    have "ia_ok ia \<Longrightarrow> remaining ia = enc_Stat (ExistsResponse_stat v) @ rest \<Longrightarrow> ?thesis"
      unfolding deserialize_ExistsResponse_def
      by (rule yields_start, (rule yields_field, rule codec_des, assumption, assumption, simp_all only: v that(1))+,
          rule yields_end, assumption, assumption, simp)
    then show ?thesis using that(3,4) by (simp add: enc_ExistsResponse_def)
  qed
qed

interpretation ExistsResponse_reader: safe_reader "deserialize_ExistsResponse full_memory"
  by unfold_locales (unfold deserialize_ExistsResponse_def, intro safe_start safe_field safe_end codec_safe)

lemmas [codec_ser] = ExistsResponse_codec.ser_appends
lemmas [codec_des] = ExistsResponse_codec.des_yields
lemmas [codec_safe] = ExistsResponse_reader.safe

record GetDataResponse =
  GetDataResponse_data :: "buffer"
  GetDataResponse_stat :: "Stat"

definition serialize_GetDataResponse :: "(int \<Rightarrow> bool) \<Rightarrow> buff_struct \<Rightarrow> GetDataResponse \<Rightarrow> (int \<times> buff_struct) exec" where
  "serialize_GetDataResponse mem oa v =
     then_ser (oa_start_record oa) (\<lambda>oa.
     then_ser (oa_serialize_buffer mem oa (Some (GetDataResponse_data v))) (\<lambda>oa.
     then_ser (serialize_Stat mem oa (GetDataResponse_stat v)) (\<lambda>oa.
     oa_end_record oa)))"

definition deserialize_GetDataResponse :: "(int \<Rightarrow> bool) \<Rightarrow> GetDataResponse reader" where
  "deserialize_GetDataResponse mem ia v =
     then_des (ia_start_record ia v) (\<lambda>v ia.
     then_des (field (ia_deserialize_buffer mem ia) GetDataResponse_data (\<lambda>x. v\<lparr> GetDataResponse_data := x \<rparr>) v) (\<lambda>v ia.
     then_des (field (deserialize_Stat mem ia) GetDataResponse_stat (\<lambda>x. v\<lparr> GetDataResponse_stat := x \<rparr>) v) (\<lambda>v ia.
     ia_end_record ia v)))"

definition enc_GetDataResponse :: "GetDataResponse \<Rightarrow> byte list" where
  "enc_GetDataResponse v = enc_buffer (GetDataResponse_data v) @ enc_Stat (GetDataResponse_stat v) @ []"

definition valid_GetDataResponse :: "GetDataResponse \<Rightarrow> bool" where
  "valid_GetDataResponse v \<longleftrightarrow> valid_buffer (GetDataResponse_data v) \<and> valid_Stat (GetDataResponse_stat v)"

interpretation GetDataResponse_codec: codec serialize_GetDataResponse deserialize_GetDataResponse enc_GetDataResponse valid_GetDataResponse
proof (rule codecI)
  show "appends oa (enc_GetDataResponse v) (serialize_GetDataResponse mem oa v)" if "oa_ok oa" "valid_GetDataResponse v" for mem oa v
    unfolding serialize_GetDataResponse_def enc_GetDataResponse_def
    by (intro appends_start appends_then appends_end codec_ser)
      (use that in \<open>simp_all add: valid_GetDataResponse_def\<close>)
  show "yields (deserialize_GetDataResponse mem ia old) v rest"
    if "\<And>n. mem n" "valid_GetDataResponse v" "ia_ok ia" "remaining ia = enc_GetDataResponse v @ rest" for mem ia v rest old
  proof -
    note v = that(2) [unfolded valid_GetDataResponse_def]
    have "ia_ok ia \<Longrightarrow> remaining ia = enc_buffer (GetDataResponse_data v) @ enc_Stat (GetDataResponse_stat v) @ rest \<Longrightarrow> ?thesis"
      unfolding deserialize_GetDataResponse_def
      by (rule yields_start, (rule yields_field, rule codec_des, assumption, assumption, simp_all only: v that(1))+,
          rule yields_end, assumption, assumption, simp)
    then show ?thesis using that(3,4) by (simp add: enc_GetDataResponse_def)
  qed
qed

interpretation GetDataResponse_reader: safe_reader "deserialize_GetDataResponse full_memory"
  by unfold_locales (unfold deserialize_GetDataResponse_def, intro safe_start safe_field safe_end codec_safe)

lemmas [codec_ser] = GetDataResponse_codec.ser_appends
lemmas [codec_des] = GetDataResponse_codec.des_yields
lemmas [codec_safe] = GetDataResponse_reader.safe

record GetChildrenResponse =
  GetChildrenResponse_children :: "String_vector"

definition serialize_GetChildrenResponse :: "(int \<Rightarrow> bool) \<Rightarrow> buff_struct \<Rightarrow> GetChildrenResponse \<Rightarrow> (int \<times> buff_struct) exec" where
  "serialize_GetChildrenResponse mem oa v =
     then_ser (oa_start_record oa) (\<lambda>oa.
     then_ser (serialize_String_vector mem oa (GetChildrenResponse_children v)) (\<lambda>oa.
     oa_end_record oa))"

definition deserialize_GetChildrenResponse :: "(int \<Rightarrow> bool) \<Rightarrow> GetChildrenResponse reader" where
  "deserialize_GetChildrenResponse mem ia v =
     then_des (ia_start_record ia v) (\<lambda>v ia.
     then_des (field (deserialize_String_vector mem ia) GetChildrenResponse_children (\<lambda>x. v\<lparr> GetChildrenResponse_children := x \<rparr>) v) (\<lambda>v ia.
     ia_end_record ia v))"

definition enc_GetChildrenResponse :: "GetChildrenResponse \<Rightarrow> byte list" where
  "enc_GetChildrenResponse v = enc_String_vector (GetChildrenResponse_children v) @ []"

definition valid_GetChildrenResponse :: "GetChildrenResponse \<Rightarrow> bool" where
  "valid_GetChildrenResponse v \<longleftrightarrow> valid_String_vector (GetChildrenResponse_children v)"

interpretation GetChildrenResponse_codec: codec serialize_GetChildrenResponse deserialize_GetChildrenResponse enc_GetChildrenResponse valid_GetChildrenResponse
proof (rule codecI)
  show "appends oa (enc_GetChildrenResponse v) (serialize_GetChildrenResponse mem oa v)" if "oa_ok oa" "valid_GetChildrenResponse v" for mem oa v
    unfolding serialize_GetChildrenResponse_def enc_GetChildrenResponse_def
    by (intro appends_start appends_then appends_end codec_ser)
      (use that in \<open>simp_all add: valid_GetChildrenResponse_def\<close>)
  show "yields (deserialize_GetChildrenResponse mem ia old) v rest"
    if "\<And>n. mem n" "valid_GetChildrenResponse v" "ia_ok ia" "remaining ia = enc_GetChildrenResponse v @ rest" for mem ia v rest old
  proof -
    note v = that(2) [unfolded valid_GetChildrenResponse_def]
    have "ia_ok ia \<Longrightarrow> remaining ia = enc_String_vector (GetChildrenResponse_children v) @ rest \<Longrightarrow> ?thesis"
      unfolding deserialize_GetChildrenResponse_def
      by (rule yields_start, (rule yields_field, rule codec_des, assumption, assumption, simp_all only: v that(1))+,
          rule yields_end, assumption, assumption, simp)
    then show ?thesis using that(3,4) by (simp add: enc_GetChildrenResponse_def)
  qed
qed

interpretation GetChildrenResponse_reader: safe_reader "deserialize_GetChildrenResponse full_memory"
  by unfold_locales (unfold deserialize_GetChildrenResponse_def, intro safe_start safe_field safe_end codec_safe)

lemmas [codec_ser] = GetChildrenResponse_codec.ser_appends
lemmas [codec_des] = GetChildrenResponse_codec.des_yields
lemmas [codec_safe] = GetChildrenResponse_reader.safe

record GetChildren2Response =
  GetChildren2Response_children :: "String_vector"
  GetChildren2Response_stat :: "Stat"

definition serialize_GetChildren2Response :: "(int \<Rightarrow> bool) \<Rightarrow> buff_struct \<Rightarrow> GetChildren2Response \<Rightarrow> (int \<times> buff_struct) exec" where
  "serialize_GetChildren2Response mem oa v =
     then_ser (oa_start_record oa) (\<lambda>oa.
     then_ser (serialize_String_vector mem oa (GetChildren2Response_children v)) (\<lambda>oa.
     then_ser (serialize_Stat mem oa (GetChildren2Response_stat v)) (\<lambda>oa.
     oa_end_record oa)))"

definition deserialize_GetChildren2Response :: "(int \<Rightarrow> bool) \<Rightarrow> GetChildren2Response reader" where
  "deserialize_GetChildren2Response mem ia v =
     then_des (ia_start_record ia v) (\<lambda>v ia.
     then_des (field (deserialize_String_vector mem ia) GetChildren2Response_children (\<lambda>x. v\<lparr> GetChildren2Response_children := x \<rparr>) v) (\<lambda>v ia.
     then_des (field (deserialize_Stat mem ia) GetChildren2Response_stat (\<lambda>x. v\<lparr> GetChildren2Response_stat := x \<rparr>) v) (\<lambda>v ia.
     ia_end_record ia v)))"

definition enc_GetChildren2Response :: "GetChildren2Response \<Rightarrow> byte list" where
  "enc_GetChildren2Response v = enc_String_vector (GetChildren2Response_children v) @ enc_Stat (GetChildren2Response_stat v) @ []"

definition valid_GetChildren2Response :: "GetChildren2Response \<Rightarrow> bool" where
  "valid_GetChildren2Response v \<longleftrightarrow> valid_String_vector (GetChildren2Response_children v) \<and> valid_Stat (GetChildren2Response_stat v)"

interpretation GetChildren2Response_codec: codec serialize_GetChildren2Response deserialize_GetChildren2Response enc_GetChildren2Response valid_GetChildren2Response
proof (rule codecI)
  show "appends oa (enc_GetChildren2Response v) (serialize_GetChildren2Response mem oa v)" if "oa_ok oa" "valid_GetChildren2Response v" for mem oa v
    unfolding serialize_GetChildren2Response_def enc_GetChildren2Response_def
    by (intro appends_start appends_then appends_end codec_ser)
      (use that in \<open>simp_all add: valid_GetChildren2Response_def\<close>)
  show "yields (deserialize_GetChildren2Response mem ia old) v rest"
    if "\<And>n. mem n" "valid_GetChildren2Response v" "ia_ok ia" "remaining ia = enc_GetChildren2Response v @ rest" for mem ia v rest old
  proof -
    note v = that(2) [unfolded valid_GetChildren2Response_def]
    have "ia_ok ia \<Longrightarrow> remaining ia = enc_String_vector (GetChildren2Response_children v) @ enc_Stat (GetChildren2Response_stat v) @ rest \<Longrightarrow> ?thesis"
      unfolding deserialize_GetChildren2Response_def
      by (rule yields_start, (rule yields_field, rule codec_des, assumption, assumption, simp_all only: v that(1))+,
          rule yields_end, assumption, assumption, simp)
    then show ?thesis using that(3,4) by (simp add: enc_GetChildren2Response_def)
  qed
qed

interpretation GetChildren2Response_reader: safe_reader "deserialize_GetChildren2Response full_memory"
  by unfold_locales (unfold deserialize_GetChildren2Response_def, intro safe_start safe_field safe_end codec_safe)

lemmas [codec_ser] = GetChildren2Response_codec.ser_appends
lemmas [codec_des] = GetChildren2Response_codec.des_yields
lemmas [codec_safe] = GetChildren2Response_reader.safe

record GetACLResponse =
  GetACLResponse_acl :: "ACL_vector"
  GetACLResponse_stat :: "Stat"

definition serialize_GetACLResponse :: "(int \<Rightarrow> bool) \<Rightarrow> buff_struct \<Rightarrow> GetACLResponse \<Rightarrow> (int \<times> buff_struct) exec" where
  "serialize_GetACLResponse mem oa v =
     then_ser (oa_start_record oa) (\<lambda>oa.
     then_ser (serialize_ACL_vector mem oa (GetACLResponse_acl v)) (\<lambda>oa.
     then_ser (serialize_Stat mem oa (GetACLResponse_stat v)) (\<lambda>oa.
     oa_end_record oa)))"

definition deserialize_GetACLResponse :: "(int \<Rightarrow> bool) \<Rightarrow> GetACLResponse reader" where
  "deserialize_GetACLResponse mem ia v =
     then_des (ia_start_record ia v) (\<lambda>v ia.
     then_des (field (deserialize_ACL_vector mem ia) GetACLResponse_acl (\<lambda>x. v\<lparr> GetACLResponse_acl := x \<rparr>) v) (\<lambda>v ia.
     then_des (field (deserialize_Stat mem ia) GetACLResponse_stat (\<lambda>x. v\<lparr> GetACLResponse_stat := x \<rparr>) v) (\<lambda>v ia.
     ia_end_record ia v)))"

definition enc_GetACLResponse :: "GetACLResponse \<Rightarrow> byte list" where
  "enc_GetACLResponse v = enc_ACL_vector (GetACLResponse_acl v) @ enc_Stat (GetACLResponse_stat v) @ []"

definition valid_GetACLResponse :: "GetACLResponse \<Rightarrow> bool" where
  "valid_GetACLResponse v \<longleftrightarrow> valid_ACL_vector (GetACLResponse_acl v) \<and> valid_Stat (GetACLResponse_stat v)"

interpretation GetACLResponse_codec: codec serialize_GetACLResponse deserialize_GetACLResponse enc_GetACLResponse valid_GetACLResponse
proof (rule codecI)
  show "appends oa (enc_GetACLResponse v) (serialize_GetACLResponse mem oa v)" if "oa_ok oa" "valid_GetACLResponse v" for mem oa v
    unfolding serialize_GetACLResponse_def enc_GetACLResponse_def
    by (intro appends_start appends_then appends_end codec_ser)
      (use that in \<open>simp_all add: valid_GetACLResponse_def\<close>)
  show "yields (deserialize_GetACLResponse mem ia old) v rest"
    if "\<And>n. mem n" "valid_GetACLResponse v" "ia_ok ia" "remaining ia = enc_GetACLResponse v @ rest" for mem ia v rest old
  proof -
    note v = that(2) [unfolded valid_GetACLResponse_def]
    have "ia_ok ia \<Longrightarrow> remaining ia = enc_ACL_vector (GetACLResponse_acl v) @ enc_Stat (GetACLResponse_stat v) @ rest \<Longrightarrow> ?thesis"
      unfolding deserialize_GetACLResponse_def
      by (rule yields_start, (rule yields_field, rule codec_des, assumption, assumption, simp_all only: v that(1))+,
          rule yields_end, assumption, assumption, simp)
    then show ?thesis using that(3,4) by (simp add: enc_GetACLResponse_def)
  qed
qed

interpretation GetACLResponse_reader: safe_reader "deserialize_GetACLResponse full_memory"
  by unfold_locales (unfold deserialize_GetACLResponse_def, intro safe_start safe_field safe_end codec_safe)

lemmas [codec_ser] = GetACLResponse_codec.ser_appends
lemmas [codec_des] = GetACLResponse_codec.des_yields
lemmas [codec_safe] = GetACLResponse_reader.safe

record RemoveWatchesRequest =
  RemoveWatchesRequest_path :: "string option"
  RemoveWatchesRequest_type :: "i32"

definition serialize_RemoveWatchesRequest :: "(int \<Rightarrow> bool) \<Rightarrow> buff_struct \<Rightarrow> RemoveWatchesRequest \<Rightarrow> (int \<times> buff_struct) exec" where
  "serialize_RemoveWatchesRequest mem oa v =
     then_ser (oa_start_record oa) (\<lambda>oa.
     then_ser (oa_serialize_string mem oa (RemoveWatchesRequest_path v)) (\<lambda>oa.
     then_ser (oa_serialize_int mem oa (RemoveWatchesRequest_type v)) (\<lambda>oa.
     oa_end_record oa)))"

definition deserialize_RemoveWatchesRequest :: "(int \<Rightarrow> bool) \<Rightarrow> RemoveWatchesRequest reader" where
  "deserialize_RemoveWatchesRequest mem ia v =
     then_des (ia_start_record ia v) (\<lambda>v ia.
     then_des (field (ia_deserialize_string mem ia) RemoveWatchesRequest_path (\<lambda>x. v\<lparr> RemoveWatchesRequest_path := x \<rparr>) v) (\<lambda>v ia.
     then_des (field (ia_deserialize_int ia) RemoveWatchesRequest_type (\<lambda>x. v\<lparr> RemoveWatchesRequest_type := x \<rparr>) v) (\<lambda>v ia.
     ia_end_record ia v)))"

definition enc_RemoveWatchesRequest :: "RemoveWatchesRequest \<Rightarrow> byte list" where
  "enc_RemoveWatchesRequest v = enc_string (RemoveWatchesRequest_path v) @ enc_int (RemoveWatchesRequest_type v) @ []"

definition valid_RemoveWatchesRequest :: "RemoveWatchesRequest \<Rightarrow> bool" where
  "valid_RemoveWatchesRequest v \<longleftrightarrow> valid_string (RemoveWatchesRequest_path v)"

interpretation RemoveWatchesRequest_codec: codec serialize_RemoveWatchesRequest deserialize_RemoveWatchesRequest enc_RemoveWatchesRequest valid_RemoveWatchesRequest
proof (rule codecI)
  show "appends oa (enc_RemoveWatchesRequest v) (serialize_RemoveWatchesRequest mem oa v)" if "oa_ok oa" "valid_RemoveWatchesRequest v" for mem oa v
    unfolding serialize_RemoveWatchesRequest_def enc_RemoveWatchesRequest_def
    by (intro appends_start appends_then appends_end codec_ser)
      (use that in \<open>simp_all add: valid_RemoveWatchesRequest_def\<close>)
  show "yields (deserialize_RemoveWatchesRequest mem ia old) v rest"
    if "\<And>n. mem n" "valid_RemoveWatchesRequest v" "ia_ok ia" "remaining ia = enc_RemoveWatchesRequest v @ rest" for mem ia v rest old
  proof -
    note v = that(2) [unfolded valid_RemoveWatchesRequest_def]
    have "ia_ok ia \<Longrightarrow> remaining ia = enc_string (RemoveWatchesRequest_path v) @ enc_int (RemoveWatchesRequest_type v) @ rest \<Longrightarrow> ?thesis"
      unfolding deserialize_RemoveWatchesRequest_def
      by (rule yields_start, (rule yields_field, rule codec_des, assumption, assumption, simp_all only: v that(1))+,
          rule yields_end, assumption, assumption, simp)
    then show ?thesis using that(3,4) by (simp add: enc_RemoveWatchesRequest_def)
  qed
qed

interpretation RemoveWatchesRequest_reader: safe_reader "deserialize_RemoveWatchesRequest full_memory"
  by unfold_locales (unfold deserialize_RemoveWatchesRequest_def, intro safe_start safe_field safe_end codec_safe)

lemmas [codec_ser] = RemoveWatchesRequest_codec.ser_appends
lemmas [codec_des] = RemoveWatchesRequest_codec.des_yields
lemmas [codec_safe] = RemoveWatchesRequest_reader.safe

record CheckWatchesRequest =
  CheckWatchesRequest_path :: "string option"
  CheckWatchesRequest_type :: "i32"

definition serialize_CheckWatchesRequest :: "(int \<Rightarrow> bool) \<Rightarrow> buff_struct \<Rightarrow> CheckWatchesRequest \<Rightarrow> (int \<times> buff_struct) exec" where
  "serialize_CheckWatchesRequest mem oa v =
     then_ser (oa_start_record oa) (\<lambda>oa.
     then_ser (oa_serialize_string mem oa (CheckWatchesRequest_path v)) (\<lambda>oa.
     then_ser (oa_serialize_int mem oa (CheckWatchesRequest_type v)) (\<lambda>oa.
     oa_end_record oa)))"

definition deserialize_CheckWatchesRequest :: "(int \<Rightarrow> bool) \<Rightarrow> CheckWatchesRequest reader" where
  "deserialize_CheckWatchesRequest mem ia v =
     then_des (ia_start_record ia v) (\<lambda>v ia.
     then_des (field (ia_deserialize_string mem ia) CheckWatchesRequest_path (\<lambda>x. v\<lparr> CheckWatchesRequest_path := x \<rparr>) v) (\<lambda>v ia.
     then_des (field (ia_deserialize_int ia) CheckWatchesRequest_type (\<lambda>x. v\<lparr> CheckWatchesRequest_type := x \<rparr>) v) (\<lambda>v ia.
     ia_end_record ia v)))"

definition enc_CheckWatchesRequest :: "CheckWatchesRequest \<Rightarrow> byte list" where
  "enc_CheckWatchesRequest v = enc_string (CheckWatchesRequest_path v) @ enc_int (CheckWatchesRequest_type v) @ []"

definition valid_CheckWatchesRequest :: "CheckWatchesRequest \<Rightarrow> bool" where
  "valid_CheckWatchesRequest v \<longleftrightarrow> valid_string (CheckWatchesRequest_path v)"

interpretation CheckWatchesRequest_codec: codec serialize_CheckWatchesRequest deserialize_CheckWatchesRequest enc_CheckWatchesRequest valid_CheckWatchesRequest
proof (rule codecI)
  show "appends oa (enc_CheckWatchesRequest v) (serialize_CheckWatchesRequest mem oa v)" if "oa_ok oa" "valid_CheckWatchesRequest v" for mem oa v
    unfolding serialize_CheckWatchesRequest_def enc_CheckWatchesRequest_def
    by (intro appends_start appends_then appends_end codec_ser)
      (use that in \<open>simp_all add: valid_CheckWatchesRequest_def\<close>)
  show "yields (deserialize_CheckWatchesRequest mem ia old) v rest"
    if "\<And>n. mem n" "valid_CheckWatchesRequest v" "ia_ok ia" "remaining ia = enc_CheckWatchesRequest v @ rest" for mem ia v rest old
  proof -
    note v = that(2) [unfolded valid_CheckWatchesRequest_def]
    have "ia_ok ia \<Longrightarrow> remaining ia = enc_string (CheckWatchesRequest_path v) @ enc_int (CheckWatchesRequest_type v) @ rest \<Longrightarrow> ?thesis"
      unfolding deserialize_CheckWatchesRequest_def
      by (rule yields_start, (rule yields_field, rule codec_des, assumption, assumption, simp_all only: v that(1))+,
          rule yields_end, assumption, assumption, simp)
    then show ?thesis using that(3,4) by (simp add: enc_CheckWatchesRequest_def)
  qed
qed

interpretation CheckWatchesRequest_reader: safe_reader "deserialize_CheckWatchesRequest full_memory"
  by unfold_locales (unfold deserialize_CheckWatchesRequest_def, intro safe_start safe_field safe_end codec_safe)

lemmas [codec_ser] = CheckWatchesRequest_codec.ser_appends
lemmas [codec_des] = CheckWatchesRequest_codec.des_yields
lemmas [codec_safe] = CheckWatchesRequest_reader.safe

section \<open>Properties\<close>

text \<open>
  Property C34: a create request, with its path, data and access control list, survives the wire:
  when its serialisation into a fresh archive succeeds, deserialising the bytes gives the same
  request and consumes exactly these bytes.
\<close>

theorem CreateRequest_roundtrip:
  assumes "oa_ok oa" "written oa = []" "valid_CreateRequest v"
    and "serialize_CreateRequest mem oa v = Ret (0, oa')"
    and "\<And>n. mem' n" "ia_ok ia" "remaining ia = written oa' @ rest"
  shows "\<exists>ia'. deserialize_CreateRequest mem' ia old = Ret (0, v, ia') \<and> remaining ia' = rest"
  using CreateRequest_codec.roundtrip [where mem' = mem', OF assms(1-4) _ assms(6,7)] assms(5) by blast

lemma fresh_archive:
  "create_buffer_oarchive True True (\<lambda>_. True) = Some oa \<Longrightarrow> oa_ok oa \<and> written oa = []"
  by (auto simp: create_buffer_oarchive_def oa_ok_def written_def intro: exI [of _ 0])

definition example_request :: CreateRequest where
  "example_request = \<lparr> CreateRequest_path = Some ''/cfg'', CreateRequest_data = \<lparr> b_len = 2, b_buff = Some [104, 105] \<rparr>,
     CreateRequest_acl = \<lparr> ACL_vector_count = 1, ACL_vector_data = Some
        [\<lparr> ACL_perms = 31, ACL_id = \<lparr> Id_scheme = Some ''world'', Id_id = Some ''anyone'' \<rparr> \<rparr>] \<rparr>,
     CreateRequest_flags = 0 \<rparr>"

lemma example_request_valid: "valid_CreateRequest example_request"
  by (simp add: valid_CreateRequest_def example_request_def valid_string_def valid_buffer_def valid_ACL_vector_def
      valid_ACL_def valid_Id_def NUL_def)

definition fresh_oarchive :: buff_struct where
  "fresh_oarchive = \<lparr> bs_len = 128, bs_off = 0, bs_buffer = Some (replicate 128 0) \<rparr>"

lemma example_request_run:
  "(case serialize_CreateRequest (\<lambda>_. True) fresh_oarchive example_request of UB \<Rightarrow> False
    | Ret (rc, oa') \<Rightarrow> rc = 0 \<and> bs_off oa' = 45)"
  by code_simp

lemma example_request_serialised:
  "\<exists>oa oa'. create_buffer_oarchive True True (\<lambda>_. True) = Some oa \<and>
     serialize_CreateRequest (\<lambda>_. True) oa example_request = Ret (0, oa') \<and> bs_off oa' = 45"
  using example_request_run
  by (auto simp: create_buffer_oarchive_def fresh_oarchive_def split: exec.splits)

theorem CreateRequest_roundtrip_witness:
  "\<exists>oa oa' ia ia'. create_buffer_oarchive True True (\<lambda>_. True) = Some oa \<and>
     serialize_CreateRequest (\<lambda>_. True) oa example_request = Ret (0, oa') \<and>
     create_buffer_iarchive True True (Some (written oa')) (get_buffer_len oa') = Some ia \<and>
     deserialize_CreateRequest (\<lambda>_. True) ia example_request = Ret (0, example_request, ia')"
proof -
  obtain oa oa' where r: "create_buffer_oarchive True True (\<lambda>_. True) = Some oa"
      "serialize_CreateRequest (\<lambda>_. True) oa example_request = Ret (0, oa')" "bs_off oa' = 45"
    using example_request_serialised by blast
  note f = fresh_archive [OF r(1)]
  have ok: "oa_ok oa'" using CreateRequest_codec.ser_append [OF _ example_request_valid r(2)] f by auto
  let ?ia = "\<lparr> bs_len = 45, bs_off = 0, bs_buffer = Some (written oa') \<rparr>"
  have "length (written oa') = 45" using ok r(3) by (auto simp: written_def oa_ok_def)
  then have ia: "ia_ok ?ia" "remaining ?ia = written oa' @ []" by (simp_all add: ia_ok_def remaining_def)
  have "create_buffer_iarchive True True (Some (written oa')) (get_buffer_len oa') = Some ?ia"
    using r(3) by (simp add: create_buffer_iarchive_def get_buffer_len_def)
  moreover have "\<exists>ia'. deserialize_CreateRequest (\<lambda>_. True) ?ia example_request = Ret (0, example_request, ia') \<and> remaining ia' = []"
    using f by (intro CreateRequest_roundtrip [OF _ _ example_request_valid r(2) _ ia]) auto
  ultimately show ?thesis using r(1,2) by blast
qed

text \<open>
  Whatever bytes the server sends, reading a reply header, an event, node data, a list
  of children with its status, or an access control list returns, with a code that is 0 or
  negative, and never leaves the buffer, as long as allocations below 2^63 bytes succeed.
\<close>

theorem server_records_safe:
  assumes "ia_ok ia"
  shows "safe_run (deserialize_ReplyHeader full_memory ia h) \<and> safe_run (deserialize_WatcherEvent full_memory ia e) \<and>
    safe_run (deserialize_GetDataResponse full_memory ia d) \<and> safe_run (deserialize_GetChildren2Response full_memory ia c) \<and>
    safe_run (deserialize_GetACLResponse full_memory ia a) \<and> safe_run (deserialize_Create2Response full_memory ia r)"
  using assms by (intro conjI codec_safe)

theorem server_records_safe_witness:
  "safe_run (deserialize_ReplyHeader full_memory \<lparr> bs_len = 2, bs_off = 0, bs_buffer = Some [0, 1] \<rparr>
     \<lparr> ReplyHeader_xid = 0, ReplyHeader_zxid = 0, ReplyHeader_err = 0 \<rparr>)"
proof -
  have "ia_ok \<lparr> bs_len = 2, bs_off = 0, bs_buffer = Some [0, 1] \<rparr>" by (simp add: ia_ok_def)
  from server_records_safe [OF this] show ?thesis by blast
qed

text \<open>
  \<^verbatim>\<open>deserialize_String_vector\<close> reports success on every input: the code of \<^verbatim>\<open>end_vector\<close>
  overwrites the error of an element. A list of children that is cut off in the middle is taken
  for a complete one whose remaining names are NULL.
\<close>

theorem String_vector_errors_masked:
  assumes "deserialize_String_vector mem ia v = Ret (rc, v', ia')"
  shows "rc = 0"
  using assms by (auto simp: deserialize_String_vector_def ia_end_vector_def)

definition cut_off_children :: buff_struct where
  "cut_off_children = \<lparr> bs_len = 9, bs_off = 0, bs_buffer = Some [0, 0, 0, 2, 0, 0, 0, 1, 97] \<rparr>"

lemma cut_off_children_read:
  "\<exists>rc. deserialize_String_vector (\<lambda>_. True) cut_off_children \<lparr> String_vector_count = 0, String_vector_data = None \<rparr> =
    Ret (rc, \<lparr> String_vector_count = 2, String_vector_data = Some [Some ''a'', None] \<rparr>, cut_off_children\<lparr> bs_off := 9 \<rparr>)"
  by (rule exI [of _ 0]) code_simp

theorem String_vector_errors_masked_witness:
  "deserialize_String_vector (\<lambda>_. True) cut_off_children \<lparr> String_vector_count = 0, String_vector_data = None \<rparr> =
    Ret (0, \<lparr> String_vector_count = 2, String_vector_data = Some [Some ''a'', None] \<rparr>, cut_off_children\<lparr> bs_off := 9 \<rparr>)"
  using cut_off_children_read String_vector_errors_masked by metis

end
