(* ===== verification/Addrvec.thy ===== *)
theory Addrvec
  imports Zk_Const
begin

text \<open>
  The list of server addresses of \<^verbatim>\<open>3party/zookeeper-client-c/src/addrvec.c\<close>: a growing array with a
  round-robin cursor. The data block is the list of its \<^verbatim>\<open>capacity\<close> slots (empty for NULL), of which
  the first \<^verbatim>\<open>count\<close> hold addresses. \<^verbatim>\<open>mem\<close> says whether the reallocation succeeds; \<^verbatim>\<open>random\<close> is a
  parameter, indexed by the loop counter.

  The lemmas show that appending and shuffling keep the addresses, that the cursor visits every
  address in turn, and what \<^verbatim>\<open>addrvec_eq\<close> decides.
\<close>

section \<open>Data\<close>

text \<open>A socket address: the address bytes and the port of the two Internet families.\<close>

datatype sockaddr = AF_INET "byte list" nat | AF_INET6 "byte list" nat | AF_OTHER nat

text \<open>The result of \<^verbatim>\<open>memset\<close> to zero (\<^verbatim>\<open>AF_UNSPEC\<close>), also used for slots not yet written.\<close>

definition zero_addr :: sockaddr where
  "zero_addr = AF_OTHER 0"

record addrvec =
  av_next :: u32
  av_count :: u32
  av_capacity :: u32
  av_data :: "sockaddr list"

section \<open>Operations\<close>

definition addrvec_init :: addrvec where
  "addrvec_init = \<lparr> av_next = 0, av_count = 0, av_capacity = 0, av_data = [] \<rparr>"

definition addrvec_free :: "addrvec option \<Rightarrow> addrvec option" where
  "addrvec_free avec =
     map_option (\<lambda>a. a\<lparr> av_next := 0, av_count := 0, av_capacity := 0, av_data := [] \<rparr>) avec"

definition addrvec_grow :: "bool \<Rightarrow> addrvec \<Rightarrow> u32 \<Rightarrow> int \<times> addrvec" where
  "addrvec_grow mem avec grow_amount =
     (if grow_amount = 0 then (0, avec)
      else if \<not> mem then (1, avec)
      else let capacity = av_capacity avec + grow_amount in
        (0, avec\<lparr> av_capacity := capacity,
                  av_data := take (unat capacity) (av_data avec) @
                             replicate (unat capacity - length (av_data avec)) zero_addr \<rparr>))"

definition addrvec_grow_default :: "bool \<Rightarrow> addrvec \<Rightarrow> int \<times> addrvec" where
  "addrvec_grow_default mem avec = addrvec_grow mem avec 16"

definition addrvec_alloc :: "bool \<Rightarrow> int \<times> addrvec" where
  "addrvec_alloc mem = addrvec_grow_default mem addrvec_init"

definition addrvec_alloc_capacity :: "bool \<Rightarrow> u32 \<Rightarrow> int \<times> addrvec" where
  "addrvec_alloc_capacity mem capacity = addrvec_grow mem addrvec_init capacity"

definition addrvec_grow_if_full :: "bool \<Rightarrow> addrvec \<Rightarrow> int \<times> addrvec" where
  "addrvec_grow_if_full mem avec =
     (if av_count avec = av_capacity avec then addrvec_grow_default mem avec else (0, avec))"

text \<open>Same family and same address bytes; the ports are not compared, and no other family matches.\<close>

fun same_address :: "sockaddr \<Rightarrow> sockaddr \<Rightarrow> bool" where
  "same_address (AF_INET a p) (AF_INET b q) = (a = b)"
| "same_address (AF_INET6 a p) (AF_INET6 b q) = (a = b)"
| "same_address x y = False"

fun contains_loop :: "sockaddr list \<Rightarrow> sockaddr \<Rightarrow> bool" where
  "contains_loop [] a = False"
| "contains_loop (d # ds) a = (same_address d a \<or> contains_loop ds a)"

definition addrvec_contains :: "addrvec option \<Rightarrow> sockaddr option \<Rightarrow> bool" where
  "addrvec_contains avec a =
     (case (avec, a) of
        (Some v, Some x) \<Rightarrow> contains_loop (take (unat (av_count v)) (av_data v)) x
      | _ \<Rightarrow> False)"

definition addrvec_append :: "bool \<Rightarrow> addrvec \<Rightarrow> sockaddr \<Rightarrow> (int \<times> addrvec) exec" where
  "addrvec_append mem avec a =
     (case addrvec_grow_if_full mem avec of
        (rc, v) \<Rightarrow>
          if rc \<noteq> 0 then Ret (rc, v)
          else if unat (av_count v) < length (av_data v)
          then Ret (0, v\<lparr> av_data := (av_data v)[unat (av_count v) := a], av_count := av_count v + 1 \<rparr>)
          else UB)"

text \<open>The copy from an \<^verbatim>\<open>addrinfo\<close> stores the socket address it points to.\<close>

definition addrvec_append_addrinfo :: "bool \<Rightarrow> addrvec \<Rightarrow> sockaddr \<Rightarrow> (int \<times> addrvec) exec" where
  "addrvec_append_addrinfo mem avec ai_addr = addrvec_append mem avec ai_addr"

fun shuffle_loop :: "(nat \<Rightarrow> nat) \<Rightarrow> nat \<Rightarrow> sockaddr list \<Rightarrow> sockaddr list" where
  "shuffle_loop random 0 xs = xs"
| "shuffle_loop random (Suc i) xs =
     (let j = random (Suc i) mod (Suc i + 1) in
      shuffle_loop random i
        (if Suc i \<noteq> j then xs[Suc i := xs ! j, j := xs ! Suc i] else xs))"

text \<open>\<^verbatim>\<open>count - 1\<close> is converted to \<^verbatim>\<open>int\<close>: for an empty vector the loop does not run.\<close>

definition addrvec_shuffle :: "(nat \<Rightarrow> nat) \<Rightarrow> addrvec \<Rightarrow> addrvec" where
  "addrvec_shuffle random avec =
     avec\<lparr> av_data := shuffle_loop random (nat (sint (av_count avec - 1))) (av_data avec) \<rparr>"

definition addrvec_hasnext :: "addrvec \<Rightarrow> bool" where
  "addrvec_hasnext avec \<longleftrightarrow> av_count avec > 0 \<and> av_next avec < av_count avec"

definition addrvec_atend :: "addrvec \<Rightarrow> bool" where
  "addrvec_atend avec \<longleftrightarrow> av_count avec > 0 \<and> av_next avec \<ge> av_count avec"

definition addrvec_next :: "addrvec \<Rightarrow> (sockaddr \<times> addrvec) exec" where
  "addrvec_next avec =
     (let v = (if addrvec_atend avec then avec\<lparr> av_next := 0 \<rparr> else avec) in
      if \<not> addrvec_hasnext v then Ret (zero_addr, v)
      else let index = unat (av_next v) in
        if index < length (av_data v) then Ret (av_data v ! index, v\<lparr> av_next := av_next v + 1 \<rparr>) else UB)"

definition addrvec_peek :: "addrvec \<Rightarrow> sockaddr exec" where
  "addrvec_peek avec =
     (if av_count avec = 0 then Ret zero_addr
      else let index = (if addrvec_atend avec then 0 else unat (av_next avec)) in
        if index < length (av_data avec) then Ret (av_data avec ! index) else UB)"

fun eq_loop :: "addrvec \<Rightarrow> sockaddr list \<Rightarrow> bool" where
  "eq_loop a2 [] = True"
| "eq_loop a2 (x # xs) = (if \<not> addrvec_contains (Some a2) (Some x) then False else eq_loop a2 xs)"

definition addrvec_eq :: "addrvec \<Rightarrow> addrvec \<Rightarrow> bool" where
  "addrvec_eq a1 a2 =
     (if av_count a1 \<noteq> av_count a2 then False
      else eq_loop a2 (take (unat (av_count a1)) (av_data a1)))"

section \<open>Well-formed vectors\<close>

definition av_ok :: "addrvec \<Rightarrow> bool" where
  "av_ok v \<longleftrightarrow> av_count v \<le> av_capacity v \<and> length (av_data v) = unat (av_capacity v)"

definition addresses :: "addrvec \<Rightarrow> sockaddr list" where
  "addresses v = take (unat (av_count v)) (av_data v)"

lemma addresses_length: "av_ok v \<Longrightarrow> length (addresses v) = unat (av_count v)"
  by (auto simp: av_ok_def addresses_def word_le_nat_alt)

lemma addresses_nth: "av_ok v \<Longrightarrow> i < unat (av_count v) \<Longrightarrow> addresses v ! i = av_data v ! i"
  by (simp add: addresses_def)

lemma count_fits: "av_ok v \<Longrightarrow> unat (av_count v) \<le> length (av_data v)"
  by (simp add: av_ok_def word_le_nat_alt)

lemma addrvec_grow_spec:
  assumes "av_ok v" "unat (av_capacity v) + unat n < 2 ^ 32" "addrvec_grow mem v n = (rc, v')"
  shows "av_ok v'" "addresses v' = addresses v" "av_count v' = av_count v" "av_next v' = av_next v"
    "rc = 0 \<longrightarrow> unat (av_capacity v') = unat (av_capacity v) + unat n"
proof -
  have c: "unat (av_capacity v + n) = unat (av_capacity v) + unat n"
    using assms(2) by (simp add: unat_word_ariths)
  have l: "unat (av_count v) \<le> unat (av_capacity v)" "length (av_data v) = unat (av_capacity v)"
    using assms(1) by (simp_all add: av_ok_def word_le_nat_alt)
  show "av_ok v'" "addresses v' = addresses v" "av_count v' = av_count v" "av_next v' = av_next v"
    "rc = 0 \<longrightarrow> unat (av_capacity v') = unat (av_capacity v) + unat n"
    using assms(1,3) c l
    by (auto simp: addrvec_grow_def Let_def av_ok_def addresses_def word_le_nat_alt split: if_splits)
qed

lemma addrvec_grow_if_full_spec:
  assumes "av_ok v" "unat (av_capacity v) + 16 < 2 ^ 32" "addrvec_grow_if_full mem v = (rc, g)"
  shows "av_ok g" "addresses g = addresses v" "av_count g = av_count v" "av_next g = av_next v"
    "rc = 0 \<Longrightarrow> unat (av_count g) < unat (av_capacity g)" "mem \<Longrightarrow> rc = 0"
proof -
  have *: "av_ok g \<and> addresses g = addresses v \<and> av_count g = av_count v \<and> av_next g = av_next v \<and>
    (rc = 0 \<longrightarrow> unat (av_count g) < unat (av_capacity g)) \<and> (mem \<longrightarrow> rc = 0)"
  proof (cases "av_count v = av_capacity v")
    case True
    then have g: "addrvec_grow mem v 16 = (rc, g)"
      using assms(3) by (simp add: addrvec_grow_if_full_def addrvec_grow_default_def)
    have "mem \<longrightarrow> rc = 0" using g by (auto simp: addrvec_grow_def Let_def split: if_splits)
    then show ?thesis using addrvec_grow_spec [OF assms(1) _ g] assms(2) True by simp
  next
    case False
    then have "g = v" "rc = 0" using assms(3) by (simp_all add: addrvec_grow_if_full_def)
    moreover have "unat (av_count v) < unat (av_capacity v)"
      using False assms(1) by (auto simp: av_ok_def word_less_nat_alt [symmetric])
    ultimately show ?thesis using assms(1) by simp
  qed
  then show "av_ok g" "addresses g = addresses v" "av_count g = av_count v" "av_next g = av_next v"
    "rc = 0 \<Longrightarrow> unat (av_count g) < unat (av_capacity g)" "mem \<Longrightarrow> rc = 0" by auto
qed

lemma addrvec_append_spec:
  assumes "av_ok v" "unat (av_capacity v) + 16 < 2 ^ 32"
  obtains rc v' where "addrvec_append mem v a = Ret (rc, v')" "av_ok v'" "av_next v' = av_next v"
    "rc = 0 \<Longrightarrow> addresses v' = addresses v @ [a]" "rc \<noteq> 0 \<Longrightarrow> addresses v' = addresses v" "mem \<Longrightarrow> rc = 0"
proof -
  obtain rc g where g: "addrvec_grow_if_full mem v = (rc, g)" by fastforce
  note gs = addrvec_grow_if_full_spec [OF assms g]
  show thesis
  proof (cases "rc = 0")
    case False
    then show ?thesis using that [of rc g] g gs by (simp add: addrvec_append_def)
  next
    case True
    let ?v = "g\<lparr> av_data := (av_data g)[unat (av_count g) := a], av_count := av_count g + 1 \<rparr>"
    have lt: "unat (av_count g) < length (av_data g)" using gs(1,5) True by (simp add: av_ok_def)
    have inc: "unat (av_count g + 1) = Suc (unat (av_count g))"
      using gs(5) [OF True] unat_lt [of "av_capacity g"] by (simp add: unat_word_ariths)
    have "av_ok ?v" using gs(1,5) True inc by (simp add: av_ok_def word_le_nat_alt)
    moreover have "addresses ?v = addresses v @ [a]"
      using lt inc gs(2) by (simp add: addresses_def take_Suc_conv_app_nth)
    ultimately show ?thesis
      using that [of 0 ?v] g True lt gs(4) by (simp add: addrvec_append_def)
  qed
qed

lemma shuffle_loop_mset:
  "i < length xs \<Longrightarrow> mset (shuffle_loop random i xs) = mset xs \<and>
     (\<forall>k. i < k \<longrightarrow> k < length xs \<longrightarrow> shuffle_loop random i xs ! k = xs ! k) \<and>
     length (shuffle_loop random i xs) = length xs"
proof (induction i arbitrary: xs)
  case (Suc i)
  define j where "j = random (Suc i) mod (Suc i + 1)"
  define ys where "ys = (if Suc i \<noteq> j then xs[Suc i := xs ! j, j := xs ! Suc i] else xs)"
  have "j < Suc i + 1" unfolding j_def by (rule mod_less_divisor) simp
  then have j: "j \<le> Suc i" by simp
  have "mset ys = mset xs"
    using mset_swap [of j xs "Suc i"] j Suc.prems by (simp add: ys_def)
  moreover have "ys ! k = xs ! k" if "Suc i < k" for k using that j by (simp add: ys_def)
  moreover have "length ys = length xs" by (simp add: ys_def)
  moreover have "shuffle_loop random (Suc i) xs = shuffle_loop random i ys"
    by (simp only: shuffle_loop.simps Let_def j_def ys_def)
  ultimately show ?case using Suc.IH [of ys] Suc.prems by simp
qed simp

lemma shuffle_addresses:
  assumes "i < n" "n \<le> length xs"
  shows "mset (take n (shuffle_loop random i xs)) = mset (take n xs)"
proof -
  let ?s = "shuffle_loop random i xs"
  have s: "mset ?s = mset xs" "\<forall>k. i < k \<longrightarrow> k < length xs \<longrightarrow> ?s ! k = xs ! k" "length ?s = length xs"
    using shuffle_loop_mset [of i xs random] assms by auto
  have "drop n ?s = drop n xs"
    using s assms by (intro nth_equalityI) auto
  then have "mset (take n ?s) + mset (drop n xs) = mset (take n xs) + mset (drop n xs)"
    using s(1) by (metis append_take_drop_id mset_append)
  then show ?thesis by simp
qed

lemma addrvec_next_spec:
  assumes "av_ok v" "av_count v > 0"
  defines "i \<equiv> (if av_next v < av_count v then unat (av_next v) else 0)"
  shows "\<exists>v'. addrvec_next v = Ret (addresses v ! i, v') \<and> v' = v\<lparr> av_next := word_of_nat (Suc i) \<rparr> \<and>
    unat (av_next v') = Suc i \<and> i < length (addresses v)"
proof -
  have i: "i < unat (av_count v)" using assms(2) by (auto simp: i_def word_less_nat_alt)
  have c: "unat (av_count v) \<le> length (av_data v)" by (rule count_fits [OF assms(1)])
  have s: "unat (word_of_nat (Suc i) :: u32) = Suc i"
    using i unat_lt [of "av_count v"] by (simp only: unat_of_nat) simp
  have w: "av_next v + 1 = word_of_nat (Suc i)" if "av_next v < av_count v"
    using that by (simp add: i_def word_unat_eq_iff [symmetric])
  show ?thesis
    using assms(2) i c s w addresses_nth [OF assms(1) i] addresses_length [OF assms(1)]
    by (cases "av_next v < av_count v")
      (auto simp: addrvec_next_def addrvec_atend_def addrvec_hasnext_def Let_def i_def not_less)
qed

text \<open>A run of \<^verbatim>\<open>n\<close> calls of \<^verbatim>\<open>addrvec_next\<close>.\<close>

fun next_run :: "nat \<Rightarrow> addrvec \<Rightarrow> (sockaddr list \<times> addrvec) exec" where
  "next_run 0 v = Ret ([], v)"
| "next_run (Suc n) v = bind_exec (addrvec_next v) (\<lambda>(a, v').
     bind_exec (next_run n v') (\<lambda>(as, v''). Ret (a # as, v'')))"

lemma next_run_from:
  assumes "av_ok v" "unat (av_next v) + n \<le> unat (av_count v)"
  shows "\<exists>v'. next_run n v = Ret (take n (drop (unat (av_next v)) (addresses v)), v') \<and>
    v' = v\<lparr> av_next := word_of_nat (unat (av_next v) + n) \<rparr>"
  using assms
proof (induction n arbitrary: v)
  case (Suc n)
  then have lt: "av_next v < av_count v" by (simp add: word_less_nat_alt)
  then have pos: "0 < av_count v" by (metis word_gt_0 word_not_simps(1) le_less_trans word_zero_le)
  obtain v1 where v1: "addrvec_next v = Ret (addresses v ! unat (av_next v), v1)"
      "v1 = v\<lparr> av_next := word_of_nat (Suc (unat (av_next v))) \<rparr>" "unat (av_next v1) = Suc (unat (av_next v))"
    using addrvec_next_spec [OF Suc.prems(1) pos] lt by auto
  have a: "addresses v1 = addresses v" "av_ok v1" "av_count v1 = av_count v"
    using Suc.prems(1) by (simp_all add: v1(2) addresses_def av_ok_def)
  obtain v2 where v2: "next_run n v1 = Ret (take n (drop (unat (av_next v1)) (addresses v1)), v2)"
      "v2 = v1\<lparr> av_next := word_of_nat (unat (av_next v1) + n) \<rparr>"
    using Suc.IH [OF a(2)] Suc.prems(2) v1(3) a(3) by auto
  have "unat (av_next v) < length (addresses v)"
    using lt addresses_length [OF Suc.prems(1)] by (simp add: word_less_nat_alt)
  then have "take (Suc n) (drop (unat (av_next v)) (addresses v)) =
      addresses v ! unat (av_next v) # take n (drop (Suc (unat (av_next v))) (addresses v))"
    by (simp flip: Cons_nth_drop_Suc)
  then show ?case using v1 v2 a(1) by simp
qed simp

section \<open>Properties\<close>

text \<open>
  One round of \<^verbatim>\<open>addrvec_next\<close> from the start of the list returns every address exactly in
  list order, and the next round starts over: the client tries all servers before it repeats one.
\<close>

theorem addrvec_round_robin:
  assumes "av_ok v" "av_next v = 0" "av_count v > 0"
  shows "\<exists>v'. next_run (unat (av_count v)) v = Ret (addresses v, v') \<and> addrvec_atend v' \<and>
     addrvec_peek v' = Ret (addresses v ! 0)"
proof -
  obtain v' where v': "next_run (unat (av_count v)) v = Ret (take (unat (av_count v)) (addresses v), v')"
      "v' = v\<lparr> av_next := av_count v \<rparr>"
    using next_run_from [OF assms(1), of "unat (av_count v)"] assms(2) by auto
  have "0 < unat (av_count v)" using assms(3) by (simp add: word_less_nat_alt)
  moreover have "unat (av_count v) \<le> length (av_data v)" by (rule count_fits [OF assms(1)])
  ultimately show ?thesis
    using v' assms(3) addresses_length [OF assms(1)] addresses_nth [OF assms(1), of 0]
    by (auto simp: addrvec_atend_def addrvec_peek_def)
qed

definition two_servers :: addrvec where
  "two_servers = \<lparr> av_next = 0, av_count = 2, av_capacity = 2,
     av_data = [AF_INET [10, 0, 0, 1] 2181, AF_INET [10, 0, 0, 2] 2181] \<rparr>"

theorem addrvec_round_robin_witness:
  "\<exists>v'. next_run 2 two_servers = Ret ([AF_INET [10, 0, 0, 1] 2181, AF_INET [10, 0, 0, 2] 2181], v') \<and> addrvec_atend v'"
  using addrvec_round_robin [of two_servers] by (auto simp: two_servers_def av_ok_def addresses_def)

text \<open>
  Shuffling permutes the addresses: none is lost, added or repeated, for every source
  of random numbers.
\<close>

theorem addrvec_shuffle_permutes:
  assumes "av_ok v" "unat (av_count v) < 2 ^ 31"
  shows "mset (addresses (addrvec_shuffle random v)) = mset (addresses v)"
proof (cases "av_count v = 0")
  case True
  then show ?thesis by (simp add: addrvec_shuffle_def addresses_def)
next
  case False
  have c: "0 < unat (av_count v)" using False by (simp add: unat_gt_0)
  have "av_count v - 1 = word_of_nat (unat (av_count v) - 1)"
    using c by (simp add: of_nat_diff)
  then have "sint (av_count v - 1) = int (unat (av_count v) - 1)"
    using assms(2) by (simp only:) (intro sint_i32_of_nat, simp)
  then have n: "nat (sint (av_count v - 1)) = unat (av_count v) - 1" by simp
  show ?thesis
    unfolding addrvec_shuffle_def addresses_def n
    using shuffle_addresses [OF _ count_fits [OF assms(1)]] c by simp
qed

theorem addrvec_shuffle_permutes_witness:
  "mset (addresses (addrvec_shuffle (\<lambda>i. 7) two_servers)) = mset (addresses two_servers)"
  by (rule addrvec_shuffle_permutes) (simp_all add: two_servers_def av_ok_def)

text \<open>
  Appending adds the address at the end and nothing else; when the reallocation fails
  the vector keeps its addresses and the call returns nonzero.
\<close>

theorem addrvec_append_appends:
  assumes "av_ok v" "unat (av_capacity v) + 16 < 2 ^ 32"
  shows "\<exists>rc v'. addrvec_append mem v a = Ret (rc, v') \<and> av_ok v' \<and>
     addresses v' = (if rc = 0 then addresses v @ [a] else addresses v) \<and> (mem \<longrightarrow> rc = 0)"
  using addrvec_append_spec [OF assms, of mem a] by metis

theorem addrvec_append_appends_witness:
  "\<exists>v'. addrvec_append True two_servers (AF_INET [10, 0, 0, 3] 2181) = Ret (0, v') \<and> length (addresses v') = 3"
proof -
  have "av_ok two_servers" "unat (av_capacity two_servers) + 16 < 2 ^ 32" by (simp_all add: two_servers_def av_ok_def)
  from addrvec_append_appends [OF this, of True] show ?thesis
    by (fastforce simp: two_servers_def addresses_def)
qed

text \<open>
  \<^verbatim>\<open>addrvec_eq\<close> compares the lengths and asks whether each address of the first list occurs
  in the second, by family and address bytes. It ignores ports and multiplicities: it holds for two
  lists of different servers on one host, and it is not symmetric, although its contract is that
  the contents are identical.
\<close>

theorem addrvec_eq_not_identity:
  "addrvec_eq (two_servers\<lparr> av_data := [AF_INET [10, 0, 0, 1] 2181, AF_INET [10, 0, 0, 1] 2182] \<rparr>)
     (two_servers\<lparr> av_data := [AF_INET [10, 0, 0, 1] 2183, AF_INET [10, 0, 0, 2] 2181] \<rparr>) \<and>
   \<not> addrvec_eq (two_servers\<lparr> av_data := [AF_INET [10, 0, 0, 1] 2183, AF_INET [10, 0, 0, 2] 2181] \<rparr>)
     (two_servers\<lparr> av_data := [AF_INET [10, 0, 0, 1] 2181, AF_INET [10, 0, 0, 1] 2182] \<rparr>)"
  by (simp add: addrvec_eq_def addrvec_contains_def two_servers_def)

end
