(* ===== verification/Reconfig.thy ===== *)
theory Reconfig
  imports Watch_Table Addrvec Complex_Main
begin

text \<open>
  Which server the client connects to (\<^verbatim>\<open>zookeeper.c\<close>): \<^verbatim>\<open>update_addrs\<close> after the list of servers has
  changed, and \<^verbatim>\<open>zoo_cycle_next_server\<close>, which picks the next one, in round-robin mode or in reconfig
  mode. \<^verbatim>\<open>resolve\<close> stands for \<^verbatim>\<open>resolve_hosts\<close> (modelled in \<^verbatim>\<open>Zk_Resolve\<close>); \<^verbatim>\<open>drand\<close> is the value of
  \<^verbatim>\<open>drand48()\<close>. The probabilities, doubles in the source, are exact here; a division by zero is the
  NaN \<^verbatim>\<open>None\<close>, with which every comparison fails.

  The lemmas show that an update splits the new list into known and unknown servers without losing
  one, and that reconfig mode tries each of them once before it falls back to the round robin.
\<close>

section \<open>Data\<close>

record server_state = watch_state +
  hostname :: "string option"
  addr_cur :: sockaddr
  addrs :: addrvec
  addrs_old :: addrvec
  addrs_new :: addrvec
  reconfig :: bool
  pOld :: "rat option"
  pNew :: "rat option"
  sock :: int
  zh_state :: int

section \<open>The next server\<close>

definition get_next_server_in_reconfig ::
  "rat \<Rightarrow> 'a server_state_scheme \<Rightarrow> (int \<times> 'a server_state_scheme) exec" where
  "get_next_server_in_reconfig drand zh =
     (let take_new = (case pNew zh of None \<Rightarrow> False | Some p \<Rightarrow> drand \<le> p) in
      if addrvec_hasnext (addrs_new zh) \<and> (take_new \<or> \<not> addrvec_hasnext (addrs_old zh)) then
        bind_exec (addrvec_next (addrs_new zh))
          (\<lambda>(a, v). Ret (0, zh\<lparr> addrs_new := v, addr_cur := a \<rparr>))
      else if addrvec_hasnext (addrs_old zh) then
        bind_exec (addrvec_next (addrs_old zh))
          (\<lambda>(a, v). Ret (0, zh\<lparr> addrs_old := v, addr_cur := a \<rparr>))
      else Ret (1, zh\<lparr> addr_cur := zero_addr \<rparr>))"

definition zoo_cycle_next_server :: "rat \<Rightarrow> 'a server_state_scheme \<Rightarrow> 'a server_state_scheme exec" where
  "zoo_cycle_next_server drand zh0 =
     (let zh = zh0\<lparr> addr_cur := zero_addr \<rparr>;
          round_robin = (\<lambda>zh. bind_exec (addrvec_next (addrs zh))
             (\<lambda>(a, v). Ret (zh\<lparr> addrs := v, addr_cur := a \<rparr>))) in
      if reconfig zh then
        bind_exec (get_next_server_in_reconfig drand zh)
          (\<lambda>(rc, zh'). if rc = 0 then Ret zh' else round_robin (zh'\<lparr> reconfig := False \<rparr>))
      else round_robin zh)"

section \<open>A new list of servers\<close>

text \<open>The loop that divides the resolved addresses; \<^verbatim>\<open>mem\<close> is the memory of its appends.\<close>

fun split_loop ::
  "bool \<Rightarrow> sockaddr list \<Rightarrow> 'a server_state_scheme \<Rightarrow> (int \<times> 'a server_state_scheme) exec" where
  "split_loop mem [] zh = Ret (ZOK, zh)"
| "split_loop mem (a # as) zh =
     (if addrvec_contains (Some (addrs zh)) (Some a) then
        bind_exec (addrvec_append mem (addrs_old zh) a)
          (\<lambda>(rc, v). if rc \<noteq> ZOK then Ret (rc, zh\<lparr> addrs_old := v \<rparr>)
                     else split_loop mem as (zh\<lparr> addrs_old := v \<rparr>))
      else
        bind_exec (addrvec_append mem (addrs_new zh) a)
          (\<lambda>(rc, v). if rc \<noteq> ZOK then Ret (rc, zh\<lparr> addrs_new := v \<rparr>)
                     else split_loop mem as (zh\<lparr> addrs_new := v \<rparr>)))"

definition fraction :: "u32 \<Rightarrow> u32 \<Rightarrow> rat option" where
  "fraction n d = (if d = 0 then None else Some (of_nat (unat n) / of_nat (unat d)))"

text \<open>
  The decision of \<^verbatim>\<open>update_addrs\<close>. The sums, differences and products of counts are unsigned.
\<close>

definition choose_probabilities :: "rat \<Rightarrow> bool \<Rightarrow> 'a server_state_scheme \<Rightarrow> 'a server_state_scheme" where
  "choose_probabilities drand found_current zh =
     (let num_old = av_count (addrs_old zh); num_new = av_count (addrs_new zh); cnt = av_count (addrs zh) in
      if num_old + num_new > cnt then
        (if found_current then
           (case fraction cnt (num_old + num_new) of
              Some f \<Rightarrow> if drand \<le> 1 - f then zh\<lparr> pNew := Some 1, pOld := Some 0 \<rparr> else zh\<lparr> reconfig := False \<rparr>
            | None \<Rightarrow> zh\<lparr> reconfig := False \<rparr>)
         else zh\<lparr> pNew := Some 1, pOld := Some 0 \<rparr>)
      else
        (if found_current then zh\<lparr> reconfig := False \<rparr>
         else let po = fraction (num_old * (cnt - (num_old + num_new))) ((num_old + num_new) * (cnt - num_old))
              in zh\<lparr> pOld := po, pNew := map_option (\<lambda>p. 1 - p) po \<rparr>))"

definition close_zsock :: "'a server_state_scheme \<Rightarrow> 'a server_state_scheme" where
  "close_zsock zh = (if sock zh \<noteq> -1 then zh\<lparr> sock := -1 \<rparr> else zh)"

definition update_addrs ::
  "bool \<Rightarrow> bool \<Rightarrow> (string \<Rightarrow> int \<times> addrvec) \<Rightarrow> rat \<Rightarrow> 'a server_state_scheme option \<Rightarrow>
   (int \<times> 'a server_state_scheme option) exec" where
  "update_addrs dup_ok mem resolve drand h =
     (case h of None \<Rightarrow> Ret (ZBADARGUMENTS, None)
      | Some zh \<Rightarrow>
          (case hostname zh of None \<Rightarrow> Ret (ZSYSTEMERROR, h)
           | Some hosts \<Rightarrow>
               if \<not> dup_ok then Ret (ZSYSTEMERROR, h)
               else case resolve hosts of (rc, resolved) \<Rightarrow>
                 if rc \<noteq> ZOK then Ret (rc, h)
                 else if addrvec_eq (addrs zh) resolved then Ret (rc, h)
                 else
                   let found_current = addrvec_contains (Some resolved) (Some (addr_cur zh));
                       zh1 = zh\<lparr> reconfig := True, addrs_old := the (addrvec_free (Some (addrs_old zh))),
                                addrs_new := the (addrvec_free (Some (addrs_new zh))) \<rparr>
                   in bind_exec (split_loop mem (take (unat (av_count resolved)) (av_data resolved)) zh1)
                       (\<lambda>(rc, zh2).
                          if rc \<noteq> ZOK then Ret (rc, Some zh2)
                          else
                            let zh3 = (choose_probabilities drand found_current zh2)\<lparr> addrs := resolved \<rparr>;
                                zh4 = (if reconfig zh3 \<and> sock zh3 \<noteq> -1
                                       then (close_zsock zh3)\<lparr> zh_state := ZOO_NOTCONNECTED_STATE \<rparr> else zh3)
                            in Ret (rc, Some zh4))))"

definition zoo_set_servers ::
  "bool \<Rightarrow> bool \<Rightarrow> (string \<Rightarrow> int \<times> addrvec) \<Rightarrow> rat \<Rightarrow> 'a server_state_scheme \<Rightarrow> string option \<Rightarrow>
   (int \<times> 'a server_state_scheme option) exec" where
  "zoo_set_servers dup_ok mem resolve drand zh hosts =
     (case hosts of None \<Rightarrow> Ret (ZBADARGUMENTS, Some zh)
      | Some h \<Rightarrow> update_addrs dup_ok mem resolve drand (Some (zh\<lparr> hostname := (if dup_ok then Some h else None) \<rparr>)))"

section \<open>Reconfig mode tries every server once\<close>

text \<open>The servers of a list that the cursor has not reached yet.\<close>

definition untried :: "addrvec \<Rightarrow> sockaddr list" where
  "untried v = drop (unat (av_next v)) (addresses v)"

lemma hasnext_untried: "av_ok v \<Longrightarrow> addrvec_hasnext v \<longleftrightarrow> untried v \<noteq> []"
  using addresses_length [of v]
  by (auto simp: addrvec_hasnext_def untried_def word_less_nat_alt)

lemma next_untried:
  assumes "av_ok v" "untried v \<noteq> []"
  obtains v' where "addrvec_next v = Ret (hd (untried v), v')" "untried v' = tl (untried v)" "av_ok v'"
proof -
  have h: "0 < av_count v" "av_next v < av_count v"
    using assms hasnext_untried by (auto simp: addrvec_hasnext_def)
  obtain v' where v': "addrvec_next v = Ret (addresses v ! unat (av_next v), v')"
      "v' = v\<lparr> av_next := word_of_nat (Suc (unat (av_next v))) \<rparr>" "unat (av_next v') = Suc (unat (av_next v))"
      "unat (av_next v) < length (addresses v)"
    using addrvec_next_spec [OF assms(1) h(1)] h(2) by auto
  have "addresses v' = addresses v" "av_ok v'" using assms(1) v'(2) by (simp_all add: addresses_def av_ok_def)
  then show thesis
    using that [of v'] v'(1,3,4) by (simp add: untried_def hd_drop_conv_nth drop_Suc tl_drop)
qed

fun cycle_run ::
  "(nat \<Rightarrow> rat) \<Rightarrow> nat \<Rightarrow> 'a server_state_scheme \<Rightarrow> (sockaddr list \<times> 'a server_state_scheme) exec" where
  "cycle_run drand 0 zh = Ret ([], zh)"
| "cycle_run drand (Suc n) zh =
     bind_exec (zoo_cycle_next_server (drand n) zh)
      (\<lambda>zh1. bind_exec (cycle_run drand n zh1) (\<lambda>(as, zh2). Ret (addr_cur zh1 # as, zh2)))"

definition servers_ok :: "'a server_state_scheme \<Rightarrow> bool" where
  "servers_ok zh \<longleftrightarrow> av_ok (addrs zh) \<and> av_ok (addrs_old zh) \<and> av_ok (addrs_new zh)"

definition to_try :: "'a server_state_scheme \<Rightarrow> sockaddr multiset" where
  "to_try zh = mset (untried (addrs_new zh)) + mset (untried (addrs_old zh))"

lemma cycle_in_reconfig:
  assumes "servers_ok zh" "reconfig zh" "to_try zh \<noteq> {#}"
  obtains zh' where "zoo_cycle_next_server d zh = Ret zh'" "servers_ok zh'" "reconfig zh'"
    "to_try zh = add_mset (addr_cur zh') (to_try zh')" "addrs zh' = addrs zh"
proof -
  have ok: "av_ok (addrs_new zh)" "av_ok (addrs_old zh)" using assms(1) by (simp_all add: servers_ok_def)
  show thesis
  proof (cases "addrvec_hasnext (addrs_new zh) \<and> ((case pNew zh of None \<Rightarrow> False | Some p \<Rightarrow> d \<le> p) \<or> \<not> addrvec_hasnext (addrs_old zh))")
    case True
    then have ne: "untried (addrs_new zh) \<noteq> []" using hasnext_untried [OF ok(1)] by simp
    obtain v where v: "addrvec_next (addrs_new zh) = Ret (hd (untried (addrs_new zh)), v)"
        "untried v = tl (untried (addrs_new zh))" "av_ok v"
      using next_untried [OF ok(1) ne] .
    show ?thesis
      using that [of "zh\<lparr> addr_cur := hd (untried (addrs_new zh)), addrs_new := v \<rparr>"] True v assms ne
      by (cases "untried (addrs_new zh)")
        (simp_all add: zoo_cycle_next_server_def get_next_server_in_reconfig_def Let_def servers_ok_def to_try_def)
  next
    case False
    then have ne: "untried (addrs_old zh) \<noteq> []"
      using hasnext_untried [OF ok(1)] hasnext_untried [OF ok(2)] assms(3) by (auto simp: to_try_def)
    then have h: "addrvec_hasnext (addrs_old zh)" using hasnext_untried [OF ok(2)] by simp
    obtain v where v: "addrvec_next (addrs_old zh) = Ret (hd (untried (addrs_old zh)), v)"
        "untried v = tl (untried (addrs_old zh))" "av_ok v"
      using next_untried [OF ok(2) ne] .
    have "zoo_cycle_next_server d zh = Ret (zh\<lparr> addr_cur := hd (untried (addrs_old zh)), addrs_old := v \<rparr>)"
      using False h v(1) assms(2)
      by (auto simp: zoo_cycle_next_server_def get_next_server_in_reconfig_def Let_def)
    then show ?thesis
      using that v assms ne by (cases "untried (addrs_old zh)") (simp_all add: servers_ok_def to_try_def)
  qed
qed

lemma cycle_run_all:
  assumes "servers_ok zh" "reconfig zh" "n = size (to_try zh)"
  shows "\<exists>as zh'. cycle_run drand n zh = Ret (as, zh') \<and> mset as = to_try zh \<and> reconfig zh' \<and>
    servers_ok zh' \<and> to_try zh' = {#} \<and> addrs zh' = addrs zh"
  using assms
proof (induction n arbitrary: zh)
  case (Suc n)
  then have "to_try zh \<noteq> {#}" by auto
  from cycle_in_reconfig [OF Suc.prems(1,2) this, of "drand n"] obtain zh1 where
    z: "zoo_cycle_next_server (drand n) zh = Ret zh1" "servers_ok zh1" "reconfig zh1"
      "to_try zh = add_mset (addr_cur zh1) (to_try zh1)" "addrs zh1 = addrs zh" by blast
  have "n = size (to_try zh1)" using Suc.prems(3) z(4) by simp
  from Suc.IH [OF z(2,3) this] obtain as zh' where
    r: "cycle_run drand n zh1 = Ret (as, zh')" "mset as = to_try zh1" "reconfig zh'" "servers_ok zh'"
      "to_try zh' = {#}" "addrs zh' = addrs zh1" by blast
  then show ?case using z by auto
qed auto

section \<open>The split of a new list\<close>

lemma contains_loop_iff: "contains_loop ds a \<longleftrightarrow> (\<exists>d \<in> set ds. same_address d a)"
  by (induction ds) auto

lemma addrvec_contains_iff:
  "addrvec_contains (Some v) (Some a) \<longleftrightarrow> (\<exists>d \<in> set (addresses v). same_address d a)"
  by (simp add: addrvec_contains_def contains_loop_iff addresses_def)

definition av_room :: "nat \<Rightarrow> addrvec \<Rightarrow> bool" where
  "av_room n v \<longleftrightarrow> av_ok v \<and> unat (av_capacity v) + 16 * n < 2 ^ 32"

lemma av_room_append:
  assumes "av_room (Suc n) v"
  obtains v' where "addrvec_append True v a = Ret (0, v')" "av_room n v'" "addresses v' = addresses v @ [a]"
    "av_next v' = av_next v"
proof -
  have r: "av_ok v" "unat (av_capacity v) + 16 < 2 ^ 32" using assms by (simp_all add: av_room_def)
  obtain rc v' where s: "addrvec_append True v a = Ret (rc, v')" "av_ok v'" "av_next v' = av_next v"
      "rc = 0 \<Longrightarrow> addresses v' = addresses v @ [a]" "rc = 0"
    using addrvec_append_spec [OF r, of True a] by blast
  obtain g where g: "addrvec_grow_if_full True v = (0, g)" "av_capacity v' = av_capacity g"
    using s(1,5) by (auto simp: addrvec_append_def split: prod.splits if_splits)
  have "unat (av_capacity g) \<le> unat (av_capacity v) + 16"
    using g(1) r addrvec_grow_spec(5) [OF r(1), of 16 True 0 g]
    by (auto simp: addrvec_grow_if_full_def addrvec_grow_default_def split: if_splits)
  then have "av_room n v'" using s(2) g(2) assms by (auto simp: av_room_def)
  then show thesis using that s by simp
qed

lemma split_loop_spec:
  assumes "av_room (length as) (addrs_old zh)" "av_room (length as) (addrs_new zh)"
  shows "\<exists>zh'. split_loop True as zh = Ret (ZOK, zh') \<and>
    addresses (addrs_old zh') = addresses (addrs_old zh) @ filter (\<lambda>a. addrvec_contains (Some (addrs zh)) (Some a)) as \<and>
    addresses (addrs_new zh') = addresses (addrs_new zh) @ filter (\<lambda>a. \<not> addrvec_contains (Some (addrs zh)) (Some a)) as \<and>
    av_ok (addrs_old zh') \<and> av_ok (addrs_new zh') \<and> addrs zh' = addrs zh \<and> reconfig zh' = reconfig zh \<and>
    sock zh' = sock zh \<and> zh_state zh' = zh_state zh \<and> av_next (addrs_old zh') = av_next (addrs_old zh) \<and>
    av_next (addrs_new zh') = av_next (addrs_new zh)"
  using assms
proof (induction as arbitrary: zh)
  case Nil
  then show ?case by (simp add: av_room_def)
next
  case (Cons a as)
  have mono: "av_room (Suc n) v \<Longrightarrow> av_room n v" for n v by (simp add: av_room_def)
  show ?case
  proof (cases "addrvec_contains (Some (addrs zh)) (Some a)")
    case True
    obtain v where v: "addrvec_append True (addrs_old zh) a = Ret (0, v)" "av_next v = av_next (addrs_old zh)"
        "av_room (length as) v" "addresses v = addresses (addrs_old zh) @ [a]"
      using av_room_append [of "length as" "addrs_old zh" a] Cons.prems(1) by auto
    show ?thesis
      using Cons.IH [of "zh\<lparr> addrs_old := v \<rparr>"] Cons.prems mono True v by simp
  next
    case False
    obtain v where v: "addrvec_append True (addrs_new zh) a = Ret (0, v)" "av_next v = av_next (addrs_new zh)"
        "av_room (length as) v" "addresses v = addresses (addrs_new zh) @ [a]"
      using av_room_append [of "length as" "addrs_new zh" a] Cons.prems(2) by auto
    show ?thesis
      using Cons.IH [of "zh\<lparr> addrs_new := v \<rparr>"] Cons.prems mono False v by simp
  qed
qed

lemma choose_probabilities_fields [simp]:
  "addrs_old (choose_probabilities d f zh) = addrs_old zh" "addrs_new (choose_probabilities d f zh) = addrs_new zh"
  "sock (choose_probabilities d f zh) = sock zh" "zh_state (choose_probabilities d f zh) = zh_state zh"
  "reconfig (choose_probabilities d False zh) = reconfig zh"
  by (auto simp: choose_probabilities_def Let_def split: option.splits)

section \<open>Properties\<close>

text \<open>
  Property C35: in reconfig mode, whatever the random draws, the next calls of
  \<^verbatim>\<open>zoo_cycle_next_server\<close> try every server of the old and of the new list exactly once; the call
  after that leaves reconfig mode and goes on with the round robin.
\<close>

theorem reconfig_tries_every_server:
  assumes "servers_ok zh" "reconfig zh" "addrvec_next (addrs zh) = Ret (a, v)"
  shows "\<exists>as zh' zh''. cycle_run drand (size (to_try zh)) zh = Ret (as, zh') \<and> mset as = to_try zh \<and>
     reconfig zh' \<and> zoo_cycle_next_server d zh' = Ret zh'' \<and> \<not> reconfig zh'' \<and> addr_cur zh'' = a"
proof -
  obtain as zh' where r: "cycle_run drand (size (to_try zh)) zh = Ret (as, zh')" "mset as = to_try zh"
      "reconfig zh'" "servers_ok zh'" "to_try zh' = {#}" "addrs zh' = addrs zh"
    using cycle_run_all [OF assms(1,2) refl] by blast
  have "\<not> addrvec_hasnext (addrs_new zh')" "\<not> addrvec_hasnext (addrs_old zh')"
    using r(4,5) hasnext_untried by (auto simp: servers_ok_def to_try_def)
  then have "zoo_cycle_next_server d zh' = Ret (zh'\<lparr> addr_cur := zero_addr, reconfig := False, addrs := v, addr_cur := a \<rparr>)"
    using r(3,6) assms(3) by (simp add: zoo_cycle_next_server_def get_next_server_in_reconfig_def Let_def)
  then show ?thesis using r by auto
qed

text \<open>A handle for the concrete runs below: two servers known, one of them current.\<close>

definition example_servers :: "zk_hashtable \<Rightarrow> server_state" where
  "example_servers ht = \<lparr> zh_watcher = 0, zh_context = 0, chroot = None, active_node_watchers = ht,
     active_exist_watchers = ht, active_child_watchers = ht, hostname = Some ''h1,h2'',
     addr_cur = AF_INET [10, 0, 0, 1] 2181, addrs = two_servers, addrs_old = two_servers,
     addrs_new = two_servers\<lparr> av_data := [AF_INET [10, 0, 0, 3] 2181, AF_INET [10, 0, 0, 4] 2181] \<rparr>,
     reconfig = True, pOld = Some 0, pNew = Some 1, sock = 5, zh_state = ZOO_CONNECTED_STATE \<rparr>"

theorem reconfig_tries_every_server_witness:
  "\<forall>ht. \<exists>as zh'. cycle_run (\<lambda>_. 1 / 2) 4 (example_servers ht) = Ret (as, zh') \<and> length as = 4"
proof
  fix ht
  have ok: "servers_ok (example_servers ht)" "reconfig (example_servers ht)"
    by (simp_all add: servers_ok_def example_servers_def av_ok_def two_servers_def)
  have n: "addrvec_next (addrs (example_servers ht)) = Ret (AF_INET [10, 0, 0, 1] 2181, two_servers\<lparr> av_next := 1 \<rparr>)"
    by (simp add: example_servers_def two_servers_def addrvec_next_def addrvec_atend_def addrvec_hasnext_def Let_def)
  have s: "size (to_try (example_servers ht)) = 4"
    by (simp add: to_try_def untried_def addresses_def example_servers_def two_servers_def)
  from reconfig_tries_every_server [OF ok n, of "\<lambda>_. 1 / 2" 0] obtain as zh' where
    r: "cycle_run (\<lambda>_. 1 / 2) 4 (example_servers ht) = Ret (as, zh')" "mset as = to_try (example_servers ht)"
    unfolding s by blast
  then have "length as = 4" using s by (metis size_mset)
  then show "\<exists>as zh'. cycle_run (\<lambda>_. 1 / 2) 4 (example_servers ht) = Ret (as, zh') \<and> length as = 4"
    using r(1) by blast
qed

text \<open>
  A new list of servers replaces the old one and is divided, without loss, into the
  servers that were known (by address) and the others; when the current server is not in the new
  list the client enters reconfig mode and an open connection is closed.
\<close>

theorem update_addrs_splits:
  assumes "hostname zh = Some hosts" "resolve hosts = (ZOK, resolved)" "av_ok resolved"
    and "16 * unat (av_count resolved) < 2 ^ 32" "\<not> addrvec_eq (addrs zh) resolved"
  shows "\<exists>zh'. update_addrs True True resolve drand (Some zh) = Ret (ZOK, Some zh') \<and> addrs zh' = resolved \<and>
     addresses (addrs_old zh') = filter (\<lambda>a. addrvec_contains (Some (addrs zh)) (Some a)) (addresses resolved) \<and>
     addresses (addrs_new zh') = filter (\<lambda>a. \<not> addrvec_contains (Some (addrs zh)) (Some a)) (addresses resolved) \<and>
     (\<not> addrvec_contains (Some resolved) (Some (addr_cur zh)) \<longrightarrow> reconfig zh' \<and> sock zh' = -1 \<and>
        (sock zh \<noteq> -1 \<longrightarrow> zh_state zh' = ZOO_NOTCONNECTED_STATE))"
proof -
  let ?zh = "zh\<lparr> reconfig := True, addrs_old := the (addrvec_free (Some (addrs_old zh))),
      addrs_new := the (addrvec_free (Some (addrs_new zh))) \<rparr>"
  let ?as = "take (unat (av_count resolved)) (av_data resolved)"
  have len: "length ?as = unat (av_count resolved)" using count_fits [OF assms(3)] by simp
  have room: "av_room (length ?as) (addrs_old ?zh)" "av_room (length ?as) (addrs_new ?zh)"
    unfolding len using assms(4) by (simp_all add: av_room_def addrvec_free_def av_ok_def)
  have e: "addresses (addrs_old ?zh) = []" "addresses (addrs_new ?zh) = []"
    by (simp_all add: addrvec_free_def addresses_def)
  from split_loop_spec [OF room] obtain zh2 where z: "split_loop True ?as ?zh = Ret (ZOK, zh2)"
      "addresses (addrs_old zh2) = filter (\<lambda>a. addrvec_contains (Some (addrs zh)) (Some a)) ?as"
      "addresses (addrs_new zh2) = filter (\<lambda>a. \<not> addrvec_contains (Some (addrs zh)) (Some a)) ?as"
      "reconfig zh2" "sock zh2 = sock zh" "zh_state zh2 = zh_state zh"
    using e by auto
  let ?f = "addrvec_contains (Some resolved) (Some (addr_cur zh))"
  show ?thesis
    using assms(1,2,5) z by (auto simp: update_addrs_def Let_def close_zsock_def addresses_def)
qed

theorem update_addrs_splits_witness:
  "\<forall>ht. \<exists>zh'. update_addrs True True (\<lambda>_. (ZOK, two_servers\<lparr> av_data := [AF_INET [10, 0, 0, 2] 2181, AF_INET [10, 0, 0, 3] 2181] \<rparr>))
      0 (Some (example_servers ht)) = Ret (ZOK, Some zh') \<and> reconfig zh' \<and> sock zh' = -1"
proof
  fix ht
  let ?r = "two_servers\<lparr> av_data := [AF_INET [10, 0, 0, 2] 2181, AF_INET [10, 0, 0, 3] 2181] \<rparr>"
  have "hostname (example_servers ht) = Some ''h1,h2''" by (simp add: example_servers_def)
  moreover have "av_ok ?r" "16 * unat (av_count ?r) < 2 ^ 32" by (simp_all add: av_ok_def two_servers_def)
  moreover have "\<not> addrvec_eq (addrs (example_servers ht)) ?r"
    "\<not> addrvec_contains (Some ?r) (Some (addr_cur (example_servers ht)))"
    by (simp_all add: addrvec_eq_def addrvec_contains_def two_servers_def example_servers_def)
  ultimately show "\<exists>zh'. update_addrs True True (\<lambda>_. (ZOK, ?r)) 0 (Some (example_servers ht)) = Ret (ZOK, Some zh') \<and>
      reconfig zh' \<and> sock zh' = -1"
    using update_addrs_splits [of "example_servers ht" "''h1,h2''" "\<lambda>_. (ZOK, ?r)" ?r 0] by blast
qed

text \<open>
  The probabilities that \<^verbatim>\<open>update_addrs\<close> computes when the current server has disappeared
  and the cluster did not grow are between 0 and 1 and sum up to 1, unless their denominator is 0.
\<close>

theorem update_addrs_probabilities:
  assumes "unat (av_count (addrs_old zh)) \<le> unat (av_count (addrs zh))"
    and "unat (av_count (addrs_old zh)) + unat (av_count (addrs_new zh)) \<le> unat (av_count (addrs zh))"
    and "unat (av_count (addrs zh)) < 2 ^ 16"
    and "zh' = choose_probabilities drand False zh" "pOld zh' = Some p"
  shows "0 \<le> p \<and> p \<le> 1 \<and> pNew zh' = Some (1 - p)"
proof -
  let ?o = "av_count (addrs_old zh)" and ?n = "av_count (addrs_new zh)" and ?c = "av_count (addrs zh)"
  have sq: "unat a * unat b < 2 ^ 32" if "unat a < 2 ^ 16" "unat b < 2 ^ 16" for a b :: u32
    using mult_strict_mono [OF that] by simp
  have s: "unat (?o + ?n) = unat ?o + unat ?n" using assms(2,3) by (simp add: unat_word_ariths)
  have d: "unat (?c - (?o + ?n)) = unat ?c - unat (?o + ?n)" "unat (?c - ?o) = unat ?c - unat ?o"
    using assms(1,2) s by (simp_all add: unat_sub word_le_nat_alt)
  have m1: "unat (?o * (?c - (?o + ?n))) = unat ?o * unat (?c - (?o + ?n))"
    using sq [of ?o "?c - (?o + ?n)"] assms(1,3) d by (simp add: unat_word_ariths)
  have m2: "unat ((?o + ?n) * (?c - ?o)) = unat (?o + ?n) * unat (?c - ?o)"
    using sq [of "?o + ?n" "?c - ?o"] assms(2,3) d s by (simp add: unat_word_ariths)
  have le: "unat ?o * (unat ?c - (unat ?o + unat ?n)) \<le> (unat ?o + unat ?n) * (unat ?c - unat ?o)"
    by (intro mult_mono) auto
  have ngt: "\<not> ?o + ?n > ?c" using assms(2) s by (simp add: word_less_nat_alt)
  have p: "fraction (?o * (?c - (?o + ?n))) ((?o + ?n) * (?c - ?o)) = Some p" "pNew zh' = Some (1 - p)"
    using assms(4,5) ngt by (auto simp: choose_probabilities_def Let_def)
  then have p': "p = of_nat (unat ?o * (unat ?c - (unat ?o + unat ?n))) / of_nat ((unat ?o + unat ?n) * (unat ?c - unat ?o))"
    unfolding fraction_def m1 m2 d s by (simp split: if_splits)
  have "0 \<le> p" unfolding p' by (intro divide_nonneg_nonneg of_nat_0_le_iff)
  moreover have "p \<le> 1"
  proof -
    have "a / b \<le> 1" if "0 \<le> b" "a \<le> b" for a b :: rat
      using that by (cases "b = 0") (auto simp: divide_le_eq_1)
    then show ?thesis unfolding p' using le of_nat_le_iff of_nat_0_le_iff by blast
  qed
  ultimately show ?thesis using p(2) by simp
qed

theorem update_addrs_probabilities_witness:
  "\<forall>ht. pNew (choose_probabilities 0 False
      ((example_servers ht)\<lparr> addrs_old := two_servers\<lparr> av_count := 1 \<rparr>, addrs_new := two_servers\<lparr> av_count := 1 \<rparr> \<rparr>)) = Some 1"
proof
  fix ht
  let ?zh = "(example_servers ht)\<lparr> addrs_old := two_servers\<lparr> av_count := 1 \<rparr>, addrs_new := two_servers\<lparr> av_count := 1 \<rparr> \<rparr>"
  have "pOld (choose_probabilities 0 False ?zh) = Some 0"
    by (simp add: choose_probabilities_def fraction_def example_servers_def two_servers_def)
  from update_addrs_probabilities [OF _ _ _ refl this]
  show "pNew (choose_probabilities 0 False ?zh) = Some 1"
    by (simp add: example_servers_def two_servers_def)
qed

end
