(* ===== verification/Zk_Queue.thy ===== *)
theory Zk_Queue
  imports Zk_Const
begin

text \<open>
  The singly linked queues of \<^verbatim>\<open>zookeeper.c\<close> (buffers to send and to process, outstanding requests,
  completions), with their head and last pointers, on an explicit store of nodes. The locale
  \<^verbatim>\<open>list_queue\<close> is what the rest of the client relies on: the pointers represent a list, to which one
  appends at either end and of which one takes the first element. Both implementations in the
  source (\<^verbatim>\<open>queue_buffer\<close>, which tests the head, and \<^verbatim>\<open>queue_completion_nolock\<close>, which tests the last
  pointer) are instances, so the later theories treat these queues as lists.
\<close>

section \<open>Data\<close>

record 'a node =
  nval :: 'a
  nnext :: addr

type_synonym 'a store = "addr \<Rightarrow> 'a node option"

record qhead =
  qh_head :: addr
  qh_last :: addr

section \<open>Operations\<close>

definition dequeue_buffer :: "'a store \<times> qhead \<Rightarrow> (addr \<times> 'a store \<times> qhead) exec" where
  "dequeue_buffer = (\<lambda>(hp, list).
     let b = qh_head list in
     if b = NULL then Ret (b, hp, list)
     else case hp b of None \<Rightarrow> UB
       | Some nd \<Rightarrow>
           let list' = list\<lparr> qh_head := nnext nd \<rparr> in
           if qh_head list' = NULL then
             if b \<noteq> qh_last list' then UB else Ret (b, hp, list'\<lparr> qh_last := NULL \<rparr>)
           else Ret (b, hp, list'))"

text \<open>\<^verbatim>\<open>free_buffer\<close> takes the node out of the store.\<close>

definition remove_buffer :: "'a store \<times> qhead \<Rightarrow> (int \<times> 'a store \<times> qhead) exec" where
  "remove_buffer st = bind_exec (dequeue_buffer st)
     (\<lambda>(b, hp, list). if b = NULL then Ret (0, hp, list) else Ret (1, hp(b := None), list))"

definition queue_buffer :: "'a store \<times> qhead \<Rightarrow> addr \<Rightarrow> bool \<Rightarrow> ('a store \<times> qhead) exec" where
  "queue_buffer = (\<lambda>(hp, list) b add_to_front.
     case hp b of None \<Rightarrow> UB
     | Some nd \<Rightarrow>
         let hp' = hp(b \<mapsto> nd\<lparr> nnext := NULL \<rparr>) in
         if qh_head list \<noteq> NULL then
           if qh_last list = NULL then UB
           else if add_to_front then
             Ret (hp'(b \<mapsto> nd\<lparr> nnext := qh_head list \<rparr>), list\<lparr> qh_head := b \<rparr>)
           else case hp' (qh_last list) of None \<Rightarrow> UB
             | Some l \<Rightarrow> Ret (hp'(qh_last list \<mapsto> l\<lparr> nnext := b \<rparr>), list\<lparr> qh_last := b \<rparr>)
         else Ret (hp', list\<lparr> qh_head := b, qh_last := b \<rparr>))"

definition dequeue_completion :: "'a store \<times> qhead \<Rightarrow> (addr \<times> 'a store \<times> qhead) exec" where
  "dequeue_completion = (\<lambda>(hp, list).
     let cptr = qh_head list in
     if cptr = NULL then Ret (cptr, hp, list)
     else case hp cptr of None \<Rightarrow> UB
       | Some nd \<Rightarrow>
           let list' = list\<lparr> qh_head := nnext nd \<rparr> in
           if qh_head list' = NULL then
             if qh_last list' \<noteq> cptr then UB else Ret (cptr, hp, list'\<lparr> qh_last := NULL \<rparr>)
           else Ret (cptr, hp, list'))"

definition queue_completion_nolock :: "'a store \<times> qhead \<Rightarrow> addr \<Rightarrow> bool \<Rightarrow> ('a store \<times> qhead) exec" where
  "queue_completion_nolock = (\<lambda>(hp, list) c add_to_front.
     case hp c of None \<Rightarrow> UB
     | Some nd \<Rightarrow>
         let hp' = hp(c \<mapsto> nd\<lparr> nnext := NULL \<rparr>) in
         if qh_last list \<noteq> NULL then
           if qh_head list = NULL then UB
           else if \<not> add_to_front then
             case hp' (qh_last list) of None \<Rightarrow> UB
             | Some l \<Rightarrow> Ret (hp'(qh_last list \<mapsto> l\<lparr> nnext := c \<rparr>), list\<lparr> qh_last := c \<rparr>)
           else Ret (hp'(c \<mapsto> nd\<lparr> nnext := qh_head list \<rparr>), list\<lparr> qh_head := c \<rparr>)
         else if qh_head list \<noteq> NULL then UB
         else Ret (hp', list\<lparr> qh_head := c, qh_last := c \<rparr>))"

text \<open>The loops over a whole queue end only if its links do: the result is \<^verbatim>\<open>None\<close> otherwise.\<close>

partial_function (option) queue_len_loop :: "'a store \<Rightarrow> addr \<Rightarrow> nat \<Rightarrow> nat exec option" where
  "queue_len_loop hp p i =
     (if p = NULL then Some (Ret i)
      else case hp p of None \<Rightarrow> Some UB | Some nd \<Rightarrow> queue_len_loop hp (nnext nd) (Suc i))"

partial_function (option) free_loop :: "'a store \<times> qhead \<Rightarrow> ('a store \<times> qhead) exec option" where
  "free_loop st =
     (case remove_buffer st of UB \<Rightarrow> Some UB
      | Ret (rc, st') \<Rightarrow> if rc \<noteq> 0 then free_loop st' else Some (Ret st'))"

section \<open>The list that a queue represents\<close>

fun linked :: "'a store \<Rightarrow> addr \<Rightarrow> addr list \<Rightarrow> bool" where
  "linked hp p [] \<longleftrightarrow> p = NULL"
| "linked hp p (q # qs) \<longleftrightarrow> p = q \<and> p \<noteq> NULL \<and> (\<exists>nd. hp p = Some nd \<and> linked hp (nnext nd) qs)"

definition represents :: "'a store \<times> qhead \<Rightarrow> addr list \<Rightarrow> bool" where
  "represents = (\<lambda>(hp, q) ps. linked hp (qh_head q) ps \<and> distinct ps \<and>
     qh_last q = (if ps = [] then NULL else last ps))"

definition allocated :: "'a store \<times> qhead \<Rightarrow> addr \<Rightarrow> bool" where
  "allocated = (\<lambda>(hp, q) b. b \<noteq> NULL \<and> hp b \<noteq> None)"

lemma linked_frame: "linked hp p ps \<Longrightarrow> b \<notin> set ps \<Longrightarrow> linked (hp(b := x)) p ps"
  by (induction ps arbitrary: p) auto

lemma linked_mem: "linked hp p ps \<Longrightarrow> q \<in> set ps \<Longrightarrow> q \<noteq> NULL \<and> hp q \<noteq> None"
  by (induction ps arbitrary: p) auto

lemma linked_head: "linked hp p ps \<Longrightarrow> p = (case ps of [] \<Rightarrow> NULL | q # _ \<Rightarrow> q)"
  by (cases ps) auto

lemma linked_snoc:
  assumes "linked hp p ps" "ps \<noteq> []" "distinct ps" "b \<notin> set ps" "b \<noteq> NULL"
    "hp (last ps) = Some l" "hp b = Some nd" "nnext nd = NULL"
  shows "linked (hp(last ps \<mapsto> l\<lparr> nnext := b \<rparr>)) p (ps @ [b])"
  using assms(1-4,6,7)
proof (induction ps arbitrary: p)
  case (Cons q qs)
  show ?case
  proof (cases "qs = []")
    case True
    then show ?thesis using Cons.prems assms(5,8) by auto
  next
    case False
    then obtain n where n: "hp q = Some n" "linked hp (nnext n) qs" "p = q" "q \<noteq> NULL" using Cons.prems(1) by auto
    have "q \<noteq> last qs" using Cons.prems(3) False by auto
    moreover have "linked (hp(last qs \<mapsto> l\<lparr> nnext := b \<rparr>)) (nnext n) (qs @ [b])"
      using Cons.prems False by (intro Cons.IH n(2)) auto
    ultimately show ?thesis using n False by (auto simp del: fun_upd_apply intro: exI [of _ n] simp: fun_upd_other)
  qed
qed simp

text \<open>The two results of an insertion, shared by both implementations.\<close>

lemma represents_front:
  assumes "represents (hp, q) ps" "allocated (hp, q) b" "b \<notin> set ps" "hp b = Some nd" "ps \<noteq> []"
  shows "represents (hp(b \<mapsto> nd\<lparr> nnext := qh_head q \<rparr>), q\<lparr> qh_head := b \<rparr>) (b # ps)"
  using assms linked_frame [of hp "qh_head q" ps b] by (auto simp: represents_def allocated_def)

lemma represents_back:
  assumes "represents (hp, q) ps" "allocated (hp, q) b" "b \<notin> set ps" "hp b = Some nd" "ps \<noteq> []" "hp (last ps) = Some l"
  shows "represents (hp(b \<mapsto> nd\<lparr> nnext := NULL \<rparr>, last ps \<mapsto> l\<lparr> nnext := b \<rparr>), q\<lparr> qh_last := b \<rparr>) (ps @ [b])"
proof -
  let ?hp = "hp(b \<mapsto> nd\<lparr> nnext := NULL \<rparr>)"
  have ne: "last ps \<noteq> b" using assms(3,5) by auto
  have "linked ?hp (qh_head q) ps" using assms(1,3) by (simp add: represents_def linked_frame)
  from linked_snoc [OF this assms(5) _ assms(3), of l "nd\<lparr> nnext := NULL \<rparr>"]
  show ?thesis using assms ne by (auto simp: represents_def allocated_def)
qed

lemma represents_single:
  "hp b = Some nd \<Longrightarrow> b \<noteq> NULL \<Longrightarrow> represents (hp(b \<mapsto> nd\<lparr> nnext := NULL \<rparr>), q\<lparr> qh_head := b, qh_last := b \<rparr>) [b]"
  by (simp add: represents_def)

lemma represents_ends:
  assumes "represents (hp, q) ps"
  shows "qh_head q = NULL \<longleftrightarrow> ps = []" "qh_last q = NULL \<longleftrightarrow> ps = []"
    "ps \<noteq> [] \<Longrightarrow> qh_last q = last ps \<and> (\<exists>l. hp (last ps) = Some l)"
  using assms linked_mem [of hp "qh_head q" ps] linked_head [of hp "qh_head q" ps]
  by (auto simp: represents_def split: list.splits)

lemma represents_pop:
  assumes "represents (hp, q) (p # ps)" "hp p = Some nd"
  shows "qh_head q = p" "p \<noteq> NULL" "nnext nd = NULL \<longleftrightarrow> ps = []"
    "ps = [] \<Longrightarrow> qh_last q = p" "represents (hp, q\<lparr> qh_head := nnext nd, qh_last := (if ps = [] then NULL else qh_last q) \<rparr>) ps"
  using assms linked_head [of hp "nnext nd" ps] linked_mem [of hp "nnext nd" ps]
  by (auto simp: represents_def split: list.splits)

section \<open>The interface\<close>

locale list_queue =
  fixes enq :: "'s \<Rightarrow> addr \<Rightarrow> bool \<Rightarrow> 's exec"
    and deq :: "'s \<Rightarrow> (addr \<times> 's) exec"
    and rep :: "'s \<Rightarrow> addr list \<Rightarrow> bool"
    and alive :: "'s \<Rightarrow> addr \<Rightarrow> bool"
  assumes enq_rep: "rep s ps \<Longrightarrow> alive s b \<Longrightarrow> b \<notin> set ps \<Longrightarrow>
      \<exists>s'. enq s b front = Ret s' \<and> rep s' (if front then b # ps else ps @ [b]) \<and> (\<forall>x. alive s x \<longrightarrow> alive s' x)"
    and deq_rep: "rep s ps \<Longrightarrow>
      \<exists>s'. deq s = Ret (case ps of [] \<Rightarrow> NULL | p # _ \<Rightarrow> p, s') \<and> rep s' (tl ps) \<and> (\<forall>x. alive s x \<longrightarrow> alive s' x)"
begin

text \<open>Appending a list of nodes one after the other.\<close>

fun enq_all :: "'s \<Rightarrow> addr list \<Rightarrow> 's exec" where
  "enq_all s [] = Ret s"
| "enq_all s (b # bs) = bind_exec (enq s b False) (\<lambda>s'. enq_all s' bs)"

fun deq_all :: "nat \<Rightarrow> 's \<Rightarrow> (addr list \<times> 's) exec" where
  "deq_all 0 s = Ret ([], s)"
| "deq_all (Suc n) s = bind_exec (deq s) (\<lambda>(b, s'). bind_exec (deq_all n s') (\<lambda>(bs, s''). Ret (b # bs, s'')))"

lemma enq_all_rep:
  assumes "rep s ps" "\<forall>b \<in> set bs. alive s b" "distinct bs" "set ps \<inter> set bs = {}"
  shows "\<exists>s'. enq_all s bs = Ret s' \<and> rep s' (ps @ bs)"
  using assms
proof (induction bs arbitrary: s ps)
  case (Cons b bs)
  obtain s1 where s1: "enq s b False = Ret s1" "rep s1 (ps @ [b])" "\<forall>x. alive s x \<longrightarrow> alive s1 x"
    using enq_rep [OF Cons.prems(1), of b False] Cons.prems by auto
  from Cons.IH [OF s1(2)] s1 Cons.prems show ?case by auto
qed simp

lemma deq_all_rep: "rep s (bs @ ps) \<Longrightarrow> \<exists>s'. deq_all (length bs) s = Ret (bs, s') \<and> rep s' ps"
proof (induction bs arbitrary: s)
  case (Cons b bs)
  obtain s1 where s1: "deq s = Ret (b, s1)" "rep s1 (bs @ ps)"
    using deq_rep [OF Cons.prems] by auto
  from Cons.IH [OF s1(2)] s1(1) show ?case by auto
qed auto

text \<open>First in, first out.\<close>

lemma fifo:
  assumes "rep s []" "\<forall>b \<in> set bs. alive s b" "distinct bs"
  shows "\<exists>s' s''. enq_all s bs = Ret s' \<and> deq_all (length bs) s' = Ret (bs, s'') \<and> rep s'' []"
proof -
  obtain s' where s': "enq_all s bs = Ret s'" "rep s' bs"
    using enq_all_rep [OF assms(1) assms(2,3)] by auto
  with deq_all_rep [of s' bs "[]"] show ?thesis by auto
qed

end

interpretation buffers: list_queue queue_buffer dequeue_buffer represents allocated
proof
  fix s :: "'a store \<times> qhead" and ps b front
  assume r: "represents s ps" and a: "allocated s b" and b: "b \<notin> set ps"
  obtain hp q where s: "s = (hp, q)" by fastforce
  obtain nd where nd: "hp b = Some nd" "b \<noteq> NULL" using a s by (auto simp: allocated_def)
  show "\<exists>s'. queue_buffer s b front = Ret s' \<and> represents s' (if front then b # ps else ps @ [b]) \<and>
      (\<forall>x. allocated s x \<longrightarrow> allocated s' x)"
  proof (cases "ps = []")
    case True
    then show ?thesis using represents_ends [of hp q ps] represents_single [of hp b nd q, OF nd] r s nd
      by (auto simp: queue_buffer_def Let_def allocated_def)
  next
    case False
    obtain l where l: "hp (last ps) = Some l" "qh_last q = last ps" "qh_head q \<noteq> NULL" "qh_last q \<noteq> NULL"
      using represents_ends [of hp q ps] r s False by auto
    have ne: "last ps \<noteq> b" using b False by auto
    show ?thesis
      using represents_front [OF r [unfolded s] a [unfolded s] b nd(1) False]
        represents_back [OF r [unfolded s] a [unfolded s] b nd(1) False l(1)] l ne nd s
      by (auto simp: queue_buffer_def Let_def allocated_def)
  qed
next
  fix s :: "'a store \<times> qhead" and ps
  assume r: "represents s ps"
  obtain hp q where s: "s = (hp, q)" by fastforce
  show "\<exists>s'. dequeue_buffer s = Ret (case ps of [] \<Rightarrow> NULL | p # _ \<Rightarrow> p, s') \<and> represents s' (tl ps) \<and>
      (\<forall>x. allocated s x \<longrightarrow> allocated s' x)"
  proof (cases ps)
    case Nil
    then show ?thesis using r s represents_ends [of hp q ps] by (auto simp: dequeue_buffer_def allocated_def)
  next
    case (Cons p qs)
    then obtain nd where nd: "hp p = Some nd" using r s by (auto simp: represents_def)
    note pop = represents_pop [OF r [unfolded s Cons] nd]
    show ?thesis using pop nd s Cons by (cases "qs = []") (auto simp: dequeue_buffer_def Let_def allocated_def)
  qed
qed

interpretation completions: list_queue queue_completion_nolock dequeue_completion represents allocated
proof
  fix s :: "'a store \<times> qhead" and ps b front
  assume r: "represents s ps" and a: "allocated s b" and b: "b \<notin> set ps"
  obtain hp q where s: "s = (hp, q)" by fastforce
  obtain nd where nd: "hp b = Some nd" "b \<noteq> NULL" using a s by (auto simp: allocated_def)
  show "\<exists>s'. queue_completion_nolock s b front = Ret s' \<and> represents s' (if front then b # ps else ps @ [b]) \<and>
      (\<forall>x. allocated s x \<longrightarrow> allocated s' x)"
  proof (cases "ps = []")
    case True
    then show ?thesis using represents_ends [of hp q ps] represents_single [of hp b nd q, OF nd] r s nd
      by (auto simp: queue_completion_nolock_def Let_def allocated_def)
  next
    case False
    obtain l where l: "hp (last ps) = Some l" "qh_last q = last ps" "qh_head q \<noteq> NULL" "qh_last q \<noteq> NULL"
      using represents_ends [of hp q ps] r s False by auto
    have ne: "last ps \<noteq> b" using b False by auto
    show ?thesis
      using represents_front [OF r [unfolded s] a [unfolded s] b nd(1) False]
        represents_back [OF r [unfolded s] a [unfolded s] b nd(1) False l(1)] l ne nd s
      by (auto simp: queue_completion_nolock_def Let_def allocated_def)
  qed
next
  fix s :: "'a store \<times> qhead" and ps
  assume r: "represents s ps"
  obtain hp q where s: "s = (hp, q)" by fastforce
  show "\<exists>s'. dequeue_completion s = Ret (case ps of [] \<Rightarrow> NULL | p # _ \<Rightarrow> p, s') \<and> represents s' (tl ps) \<and>
      (\<forall>x. allocated s x \<longrightarrow> allocated s' x)"
  proof (cases ps)
    case Nil
    then show ?thesis using r s represents_ends [of hp q ps] by (auto simp: dequeue_completion_def allocated_def)
  next
    case (Cons p qs)
    then obtain nd where nd: "hp p = Some nd" using r s by (auto simp: represents_def)
    note pop = represents_pop [OF r [unfolded s Cons] nd]
    show ?thesis using pop nd s Cons by (cases "qs = []") (auto simp: dequeue_completion_def Let_def allocated_def)
  qed
qed

section \<open>Properties\<close>

text \<open>
  Property C26: the pointer code of \<^verbatim>\<open>queue_buffer\<close> and \<^verbatim>\<open>dequeue_buffer\<close> implements a list: an insertion puts
  the node at the chosen end, a removal takes the first node, no assertion fails, and the last
  pointer is right again after the queue has become empty.
\<close>

theorem queue_buffer_refines_list:
  assumes "represents s ps" "allocated s b" "b \<notin> set ps"
  shows "\<exists>s' s''. queue_buffer s b front = Ret s' \<and> represents s' (if front then b # ps else ps @ [b]) \<and>
     dequeue_buffer s' = Ret (hd (if front then b # ps else ps @ [b]), s'') \<and>
     represents s'' (tl (if front then b # ps else ps @ [b]))"
proof -
  obtain s' where s': "queue_buffer s b front = Ret s'" "represents s' (if front then b # ps else ps @ [b])"
    using buffers.enq_rep [OF assms, of front] by blast
  have "(case (if front then b # ps else ps @ [b]) of [] \<Rightarrow> NULL | p # _ \<Rightarrow> p) = hd (if front then b # ps else ps @ [b])"
    by (cases ps) auto
  then show ?thesis using s' buffers.deq_rep [OF s'(2)] by metis
qed

theorem queue_buffer_refines_list_witness:
  "\<exists>s'. queue_buffer ((\<lambda>a. if a = 7 then Some \<lparr> nval = ''x'', nnext = 0 \<rparr> else None), \<lparr> qh_head = 0, qh_last = 0 \<rparr>) 7 False = Ret s' \<and>
     represents s' [7]"
proof -
  let ?s = "((\<lambda>a. if a = 7 then Some \<lparr> nval = ''x'', nnext = 0 \<rparr> else None), \<lparr> qh_head = 0, qh_last = 0 \<rparr>)"
  have "represents ?s []" "allocated ?s 7" by (simp_all add: represents_def allocated_def)
  from queue_buffer_refines_list [OF this, of False] show ?thesis by auto
qed

text \<open>
  The queue of completions, whose code tests the other pointer, is first in, first out:
  completions that are appended one after the other are taken off in the same order, and the queue
  is empty afterwards.
\<close>

theorem completions_fifo:
  assumes "represents s []" "\<forall>b \<in> set bs. allocated s b" "distinct bs"
  shows "\<exists>s' s''. completions.enq_all s bs = Ret s' \<and> completions.deq_all (length bs) s' = Ret (bs, s'') \<and> represents s'' []"
  using assms by (rule completions.fifo)

theorem completions_fifo_witness:
  "\<exists>s' s''. completions.enq_all ((\<lambda>a. if a \<in> {7, 8} then Some \<lparr> nval = ''x'', nnext = 0 \<rparr> else None), \<lparr> qh_head = 0, qh_last = 0 \<rparr>) [7, 8] = Ret s' \<and>
     completions.deq_all 2 s' = Ret ([7, 8], s'')"
proof -
  let ?s = "((\<lambda>a. if a \<in> {7, 8} then Some \<lparr> nval = ''x'', nnext = 0 \<rparr> else None), \<lparr> qh_head = 0, qh_last = 0 \<rparr>)"
  have "represents ?s []" "\<forall>b \<in> set [7, 8]. allocated ?s b" by (simp_all add: represents_def allocated_def)
  from completions_fifo [OF this] show ?thesis by (auto simp: numeral_2_eq_2)
qed

text \<open>
  \<^verbatim>\<open>free_buffers\<close> terminates on every well-formed queue, frees each of its nodes and leaves the
  others alone.
\<close>

theorem free_buffers_frees_all:
  assumes "represents (hp, q) ps"
  shows "\<exists>q'. free_loop (hp, q) = Some (Ret ((\<lambda>a. if a \<in> set ps then None else hp a), q')) \<and>
     represents ((\<lambda>a. if a \<in> set ps then None else hp a), q') []"
  using assms
proof (induction ps arbitrary: hp q)
  case Nil
  then have "dequeue_buffer (hp, q) = Ret (NULL, hp, q)"
    using represents_ends(1) [OF Nil] by (simp add: dequeue_buffer_def)
  then show ?case using Nil by (subst free_loop.simps) (simp add: remove_buffer_def)
next
  case (Cons p ps)
  obtain nd where nd: "hp p = Some nd" using Cons.prems by (auto simp: represents_def)
  note pop = represents_pop [OF Cons.prems nd]
  let ?q = "q\<lparr> qh_head := nnext nd, qh_last := (if ps = [] then NULL else qh_last q) \<rparr>"
  have d: "remove_buffer (hp, q) = Ret (1, hp(p := None), ?q)"
    using pop nd by (cases "ps = []") (auto simp: remove_buffer_def dequeue_buffer_def Let_def)
  have "p \<notin> set ps" using Cons.prems by (simp add: represents_def)
  then have "represents (hp(p := None), ?q) ps"
    using pop(5) linked_frame by (fastforce simp: represents_def)
  from Cons.IH [OF this] obtain q' where
    q': "free_loop (hp(p := None), ?q) = Some (Ret ((\<lambda>a. if a \<in> set ps then None else (hp(p := None)) a), q'))"
      "represents ((\<lambda>a. if a \<in> set ps then None else (hp(p := None)) a), q') []" by blast
  have "(\<lambda>a. if a \<in> set ps then None else (hp(p := None)) a) = (\<lambda>a. if a \<in> set (p # ps) then None else hp a)"
    by auto
  then show ?case using q' d by (subst free_loop.simps) simp
qed

theorem free_buffers_frees_all_witness:
  "\<exists>q'. free_loop ((\<lambda>a. if a = 7 then Some \<lparr> nval = ''x'', nnext = 0 \<rparr> else None), \<lparr> qh_head = 7, qh_last = 7 \<rparr>) = Some (Ret (Map.empty, q'))"
proof -
  have "represents ((\<lambda>a. if a = 7 then Some \<lparr> nval = ''x'', nnext = 0 \<rparr> else None), \<lparr> qh_head = 7, qh_last = 7 \<rparr>) [7]"
    by (simp add: represents_def)
  from free_buffers_frees_all [OF this] show ?thesis by (auto cong: if_cong)
qed

end
