(* ===== verification/Cppzk.thy ===== *)
theory Cppzk
  imports Zk_Path
begin

text \<open>
  The C++ client \<^verbatim>\<open>zk::cppzk\<close> (\<^verbatim>\<open>src/src/cppzk\<close>): creation of a path with all its prefixes, recursive
  deletion, reading and writing values, removal of watches, in their synchronous and asynchronous forms.

  The calls into the ZooKeeper client reach a server, which is not part of the sources: they are a
  record of functions over an abstract service state, an argument of every operation. What the
  operations rely on is stated of such a record by the predicates \<^verbatim>\<open>create_contract\<close>,
  \<^verbatim>\<open>children_contract\<close> and \<^verbatim>\<open>delete_contract\<close>, which say what \<^verbatim>\<open>zookeeper.h\<close> documents for these calls.

  An \<^verbatim>\<open>std::error_code\<close> of the category \<^verbatim>\<open>zk::category()\<close> is its value; an exception is the left summand.
\<close>

section \<open>Vocabulary (cppzk\_redeclare.h)\<close>

text \<open>The enumerations with a fixed underlying type hold any \<^verbatim>\<open>int\<close>, which the code casts into them.\<close>

definition zk_dummy_event :: int where [simp]: "zk_dummy_event = 0"

definition zk_created_event :: int where [simp]: "zk_created_event = 1"

definition zk_deleted_event :: int where [simp]: "zk_deleted_event = 2"

definition zk_changed_event :: int where [simp]: "zk_changed_event = 3"

definition zk_child_event :: int where [simp]: "zk_child_event = 4"

definition zk_session_event :: int where [simp]: "zk_session_event = -1"

definition zk_notwatching_event :: int where [simp]: "zk_notwatching_event = -2"

definition zk_persistent :: int where [simp]: "zk_persistent = 0"

definition zk_persistent_with_ttl :: int where [simp]: "zk_persistent_with_ttl = 5"

definition zk_persistent_sequential_with_ttl :: int where [simp]: "zk_persistent_sequential_with_ttl = 6"

datatype zk_acl = zk_open_acl_unsafe | zk_read_acl_unsafe | zk_creator_all_acl

definition is_no_node :: "int \<Rightarrow> bool" where
  "is_no_node err \<longleftrightarrow> err = ZNONODE"

definition is_node_exist :: "int \<Rightarrow> bool" where
  "is_node_exist err \<longleftrightarrow> err = ZNODEEXISTS"

definition is_dummy_event :: "int \<Rightarrow> bool" where
  [simp]: "is_dummy_event eve \<longleftrightarrow> eve = zk_dummy_event"

definition is_create_event :: "int \<Rightarrow> bool" where
  [simp]: "is_create_event eve \<longleftrightarrow> eve = zk_created_event"

definition is_delete_event :: "int \<Rightarrow> bool" where
  [simp]: "is_delete_event eve \<longleftrightarrow> eve = zk_deleted_event"

definition is_changed_event :: "int \<Rightarrow> bool" where
  [simp]: "is_changed_event eve \<longleftrightarrow> eve = zk_changed_event"

datatype cpp_exn = Runtime_error string | Invalid_argument string | Length_error

section \<open>The calls of the ZooKeeper client\<close>

text \<open>
  \<^verbatim>\<open>c_submit\<close> is the code with which an asynchronous call returns at once; only after \<^verbatim>\<open>ZOK\<close> is the
  request sent and its completion called. The other fields are what a request does at the server:
  the code of the reply and what comes with it.
\<close>

record 's zk_calls =
  c_submit :: "'s \<Rightarrow> int"
  c_create :: "string \<Rightarrow> string option \<Rightarrow> zk_acl \<Rightarrow> int \<Rightarrow> int \<Rightarrow> 's \<Rightarrow> int \<times> string \<times> 's"
  c_delete :: "string \<Rightarrow> int \<Rightarrow> 's \<Rightarrow> int \<times> 's"
  c_set :: "string \<Rightarrow> string \<Rightarrow> int \<Rightarrow> 's \<Rightarrow> int \<times> 's"
  c_get :: "string \<Rightarrow> 's \<Rightarrow> int \<times> string option \<times> int \<times> 's"
  c_children :: "string \<Rightarrow> 's \<Rightarrow> int \<times> string list \<times> 's"
  c_remove_all_watches :: "string \<Rightarrow> int \<Rightarrow> 's \<Rightarrow> int \<times> 's"

text \<open>
  What the synchronous calls copy into the buffer of their caller (\<^verbatim>\<open>process_sync_completion\<close>): at
  most its length of data, with \<^verbatim>\<open>-1\<close> for a node without data, and a path with its terminating NUL.
\<close>

definition sync_data :: "string option \<Rightarrow> int \<Rightarrow> int \<times> string" where
  "sync_data d buff_len =
     (let data_len = (case d of None \<Rightarrow> -1 | Some v \<Rightarrow> int (length v));
          len = (if data_len \<le> buff_len then data_len else buff_len)
      in if len = -1 then (-1, []) else (len, take (nat len) (case d of None \<Rightarrow> [] | Some v \<Rightarrow> v)))"

definition sync_path :: "string \<Rightarrow> int \<Rightarrow> string" where
  "sync_path client_path str_len =
     (let len = int (length client_path) + 1;
          len' = (if len > str_len then str_len else len)
      in if len' > 0 then take (nat (len' - 1)) client_path else [])"

section \<open>Paths\<close>

definition find_last_of :: "string \<Rightarrow> char \<Rightarrow> nat option" where
  "find_last_of s c =
     (if c \<in> set s then Some (length s - 1 - length (takeWhile (\<lambda>x. x \<noteq> c) (rev s))) else None)"

lemma find_last_of_append: "c \<notin> set t \<Longrightarrow> find_last_of (s @ c # t) c = Some (length s)"
  by (simp add: find_last_of_def takeWhile_append)

lemma find_last_of_None: "find_last_of s c = None \<longleftrightarrow> c \<notin> set s"
  by (simp add: find_last_of_def)

lemma find_last_of_Some:
  assumes "find_last_of s c = Some i"
  shows "i < length s" "\<exists>t. s = take i s @ c # t \<and> c \<notin> set t"
proof -
  have "c \<in> set s" using assms by (auto simp: find_last_of_def split: if_splits)
  then obtain u v where s: "s = u @ c # v" "c \<notin> set v"
    by (meson split_list_last)
  then have "i = length u" using assms by (simp add: find_last_of_append)
  then show "i < length s" "\<exists>t. s = take i s @ c # t \<and> c \<notin> set t" using s by auto
qed

function split_loop_path :: "string \<Rightarrow> string list \<Rightarrow> string list" where
  "split_loop_path path acc =
     (case find_last_of path (CHR ''/'') of None \<Rightarrow> acc
      | Some pos \<Rightarrow> split_loop_path (take pos path) (take pos path # acc))"
  by pat_completeness auto
termination
  by (relation "measure (\<lambda>(path, _). length path)") (auto dest: find_last_of_Some(1))

declare split_loop_path.simps [simp del]

definition split_path :: "string \<Rightarrow> cpp_exn + string list" where
  "split_path path =
     (let c = count_list path (CHR ''/'') in
      if c = 0 then Inl (Invalid_argument ''no / found in path'')
      else if c = 1 then Inr [path]
      else Inr (tl (split_loop_path path []) @ [path]))"

text \<open>The prefixes of a path that end before a slash, shortest first.\<close>

fun slash_prefixes :: "string \<Rightarrow> string list" where
  "slash_prefixes [] = []"
| "slash_prefixes (c # s) = (if c = CHR ''/'' then [[]] else []) @ map ((#) c) (slash_prefixes s)"

lemma slash_prefixes_append:
  "slash_prefixes (s @ t) = slash_prefixes s @ map ((@) s) (slash_prefixes t)"
  by (induction s) auto

lemma slash_prefixes_none: "CHR ''/'' \<notin> set s \<Longrightarrow> slash_prefixes s = []"
  by (induction s) auto

lemma split_loop_prefixes: "split_loop_path path acc = slash_prefixes path @ acc"
proof (induction path acc rule: split_loop_path.induct)
  case (1 path acc)
  show ?case
  proof (cases "find_last_of path (CHR ''/'')")
    case None
    have "slash_prefixes path = []" by (rule slash_prefixes_none [OF iffD1 [OF find_last_of_None None]])
    then show ?thesis by (simp add: split_loop_path.simps [of path] None)
  next
    case (Some pos)
    obtain t where t: "path = take pos path @ CHR ''/'' # t" "CHR ''/'' \<notin> set t"
      using find_last_of_Some(2) [OF Some] by blast
    have "slash_prefixes path = slash_prefixes (take pos path) @ [take pos path]"
      by (subst t(1)) (simp add: slash_prefixes_append slash_prefixes_none [OF t(2)])
    then show ?thesis using 1 [OF Some] Some by (simp add: split_loop_path.simps [of path])
  qed
qed

lemma length_slash_prefixes: "length (slash_prefixes s) = count_list s (CHR ''/'')"
  by (induction s) auto

lemma split_path_eq:
  "split_path path = (if CHR ''/'' \<in> set path then Inr (tl (slash_prefixes path) @ [path])
                      else Inl (Invalid_argument ''no / found in path''))"
proof -
  have "count_list path (CHR ''/'') = 1 \<Longrightarrow> tl (slash_prefixes path) = []"
    using length_slash_prefixes [of path] by (cases "slash_prefixes path") auto
  then show ?thesis
    by (auto simp: split_path_def Let_def split_loop_prefixes count_list_0_iff)
qed

section \<open>Creating a path\<close>

fun create_prefixes :: "'s zk_calls \<Rightarrow> zk_acl \<Rightarrow> string list \<Rightarrow> 's \<Rightarrow> int option \<times> 's" where
  "create_prefixes C acl [] s = (None, s)"
| "create_prefixes C acl (p # ps) s =
     (case c_create C p None acl ZOO_PERSISTENT (-1) s of (rc, _, s') \<Rightarrow>
        if rc \<noteq> ZOK \<and> rc \<noteq> ZNODEEXISTS then (Some rc, s') else create_prefixes C acl ps s')"

definition ttl_missing :: "int \<Rightarrow> int \<Rightarrow> bool" where
  "ttl_missing mode ttl \<longleftrightarrow>
     (mode = zk_persistent_sequential_with_ttl \<or> mode = zk_persistent_with_ttl) \<and> ttl < 0"

definition create_path ::
  "'s zk_calls \<Rightarrow> string \<Rightarrow> string option \<Rightarrow> int \<Rightarrow> int \<Rightarrow> zk_acl \<Rightarrow> 's \<Rightarrow> (cpp_exn + int \<times> string) \<times> 's" where
  "create_path C path value mode ttl acl s =
     (if ttl_missing mode ttl then (Inl (Runtime_error ''enable_ttl, ttl must > 0''), s)
      else case split_path path of Inl e \<Rightarrow> (Inl e, s)
      | Inr sp_path \<Rightarrow>
          (case create_prefixes C acl (butlast sp_path) s of
             (Some rc, s1) \<Rightarrow> (Inr (rc, []), s1)
           | (None, s1) \<Rightarrow>
               (case c_create C path value acl mode ttl s1 of (ret, new_path, s2) \<Rightarrow>
                  (Inr (ret, if ret = ZOK then sync_path new_path (int (length path + 16)) else []), s2))))"

text \<open>
  The asynchronous form: the first request, and the completion that issues the next one until the
  whole path is created or an error stops it. \<^verbatim>\<open>Inl\<close> is a further request, \<^verbatim>\<open>Inr\<close> the call of the user's
  callback.
\<close>

record create_userdata =
  split_paths :: "string list"
  cud_value :: "string option"
  cud_mode :: int
  cud_ttl :: int
  cud_acl :: zk_acl

record create_request =
  cr_path :: string
  cr_value :: "string option"
  cr_acl :: zk_acl
  cr_mode :: int
  cr_ttl :: int

definition create_completion ::
  "int \<Rightarrow> string option \<Rightarrow> create_userdata \<Rightarrow> create_request \<times> create_userdata + int \<times> string" where
  "create_completion rc str cud =
     (let sp_path = tl (split_paths cud);
          cud' = cud\<lparr> split_paths := sp_path \<rparr>;
          create_error = (rc \<noteq> ZOK \<and> rc \<noteq> ZNODEEXISTS)
      in if create_error \<or> sp_path = [] then Inr (rc, case str of None \<Rightarrow> [] | Some x \<Rightarrow> x)
      else if length sp_path = 1 then
        Inl (\<lparr> cr_path = sp_path ! 0, cr_value = cud_value cud, cr_acl = cud_acl cud, cr_mode = cud_mode cud,
               cr_ttl = cud_ttl cud \<rparr>, cud')
      else
        Inl (\<lparr> cr_path = sp_path ! 0, cr_value = None, cr_acl = cud_acl cud, cr_mode = ZOO_PERSISTENT,
               cr_ttl = -1 \<rparr>, cud'))"

definition async_create_path ::
  "string \<Rightarrow> string option \<Rightarrow> int \<Rightarrow> int \<Rightarrow> zk_acl \<Rightarrow> cpp_exn + create_request \<times> create_userdata option" where
  "async_create_path path value mode ttl acl =
     (if ttl_missing mode ttl then Inl (Runtime_error ''enable_ttl, ttl must > 0'')
      else case split_path path of Inl e \<Rightarrow> Inl e
      | Inr sp_path \<Rightarrow>
          if length sp_path = 1 then
            Inr (\<lparr> cr_path = path, cr_value = value, cr_acl = acl, cr_mode = mode, cr_ttl = ttl \<rparr>, None)
          else
            Inr (\<lparr> cr_path = sp_path ! 0, cr_value = None, cr_acl = acl, cr_mode = ZOO_PERSISTENT, cr_ttl = -1 \<rparr>,
                 Some \<lparr> split_paths = sp_path, cud_value = value, cud_mode = mode, cud_ttl = ttl, cud_acl = acl \<rparr>))"

text \<open>
  The request and its completions, run against the service: the arguments of the user's callback,
  or \<^verbatim>\<open>None\<close> when it is never called. A request that is not accepted has no completion, and the code
  ignores the code that says so. The reply carries a path only when it is a success.
\<close>

definition issue_create :: "'s zk_calls \<Rightarrow> create_request \<Rightarrow> 's \<Rightarrow> (int \<times> string option) option \<times> 's" where
  "issue_create C r s =
     (if c_submit C s \<noteq> ZOK then (None, s)
      else case c_create C (cr_path r) (cr_value r) (cr_acl r) (cr_mode r) (cr_ttl r) s of (rc, np, s') \<Rightarrow>
        (Some (rc, if rc = ZOK then Some np else None), s'))"

lemma tl_shorter: "tl xs \<noteq> [] \<Longrightarrow> length xs - Suc 0 < length xs"
  by (cases xs) auto

function run_create :: "'s zk_calls \<Rightarrow> create_request \<Rightarrow> create_userdata \<Rightarrow> 's \<Rightarrow> (int \<times> string) option \<times> 's" where
  "run_create C r cud s =
     (case issue_create C r s of (None, s') \<Rightarrow> (None, s')
      | (Some (rc, str), s') \<Rightarrow>
          (case create_completion rc str cud of Inr answer \<Rightarrow> (Some answer, s')
           | Inl (r', cud') \<Rightarrow> run_create C r' cud' s'))"
  by pat_completeness auto
termination
  by (relation "measure (\<lambda>(_, _, cud, _). length (split_paths cud))")
     (auto simp: create_completion_def Let_def intro: tl_shorter split: if_splits)

declare run_create.simps [simp del]

definition run_async_create ::
  "'s zk_calls \<Rightarrow> string \<Rightarrow> string option \<Rightarrow> int \<Rightarrow> int \<Rightarrow> zk_acl \<Rightarrow> 's \<Rightarrow> (cpp_exn + (int \<times> string) option) \<times> 's" where
  "run_async_create C path value mode ttl acl s =
     (case async_create_path path value mode ttl acl of Inl e \<Rightarrow> (Inl e, s)
      | Inr (r, None) \<Rightarrow>
          (case issue_create C r s of (None, s') \<Rightarrow> (Inr None, s')
           | (Some (rc, str), s') \<Rightarrow> (Inr (Some (rc, case str of None \<Rightarrow> [] | Some x \<Rightarrow> x)), s'))
      | Inr (r, Some cud) \<Rightarrow> (case run_create C r cud s of (a, s') \<Rightarrow> (Inr a, s')))"

subsection \<open>The asynchronous chain does what the loop does\<close>

lemma run_create_chain:
  assumes submit: "\<And>s. c_submit C s = ZOK"
  shows "ps \<noteq> [] \<Longrightarrow> last ps = path \<Longrightarrow>
    run_create C \<lparr> cr_path = p, cr_value = None, cr_acl = acl, cr_mode = ZOO_PERSISTENT, cr_ttl = -1 \<rparr>
      \<lparr> split_paths = p # ps, cud_value = v, cud_mode = m, cud_ttl = ttl, cud_acl = acl \<rparr> s =
    (case create_prefixes C acl (butlast (p # ps)) s of
       (Some rc, s1) \<Rightarrow> (Some (rc, []), s1)
     | (None, s1) \<Rightarrow> (case c_create C path v acl m ttl s1 of (rc, np, s2) \<Rightarrow>
         (Some (rc, if rc = ZOK then np else []), s2)))"
proof (induction ps arbitrary: p s)
  case (Cons q qs)
  obtain rc np s' where c: "c_create C p None acl ZOO_PERSISTENT (-1) s = (rc, np, s')"
    by (cases "c_create C p None acl ZOO_PERSISTENT (-1) s") auto
  show ?case
  proof (cases "rc \<noteq> ZOK \<and> rc \<noteq> ZNODEEXISTS")
    case True
    then show ?thesis using c
      by (subst run_create.simps) (auto simp: issue_create_def submit create_completion_def)
  next
    case ok: False
    show ?thesis
    proof (cases "qs = []")
      case True
      then show ?thesis using c ok Cons.prems
        by (subst run_create.simps, subst run_create.simps)
           (auto simp: issue_create_def submit create_completion_def split: prod.splits)
    next
      case False
      then show ?thesis using c ok Cons.IH [of q s'] Cons.prems
        by (subst run_create.simps) (auto simp: issue_create_def submit create_completion_def)
    qed
  qed
qed simp

lemma split_path_parts:
  "split_path path = Inr sp \<Longrightarrow> sp \<noteq> [] \<and> last sp = path \<and> (length sp = 1 \<longrightarrow> sp = [path])"
  by (auto simp: split_path_eq length_Suc_conv split: if_splits)

lemma sync_path_fits: "int (length np) < n \<Longrightarrow> sync_path np n = np"
  by (auto simp: sync_path_def Let_def)

text \<open>
  Property C30: creating a path asynchronously does the same as creating it synchronously. When the
  requests are accepted, and the server names the node by at most the 10 digits of a sequence
  number more, the chain of completions calls the user's callback, with the code and the name that
  \<^verbatim>\<open>create_path\<close> returns, leaves the server in the same state, and throws the same exceptions.
\<close>

theorem async_create_equivalent:
  assumes "\<And>s. c_submit C s = ZOK"
    and "\<And>s. length (fst (snd (c_create C path value acl mode ttl s))) \<le> length path + 10"
  shows "run_async_create C path value mode ttl acl s =
    (case create_path C path value mode ttl acl s of (r, s') \<Rightarrow> (map_sum id Some r, s'))"
proof (cases "ttl_missing mode ttl")
  case False
  have fits: "int (length np) < int (length path) + 16" if "c_create C path value acl mode ttl s' = (rc, np, s2)" for s' rc np s2
    using assms(2) [of s'] that by auto
  show ?thesis
  proof (cases "split_path path")
    case (Inr sp)
    then obtain p ps where sp: "sp = p # ps" by (cases sp) (auto dest: split_path_parts)
    show ?thesis
    proof (cases "ps = []")
      case True
      then have "p = path" using split_path_parts [OF Inr] sp by auto
      then show ?thesis using False Inr sp True assms(1)
        by (auto simp: run_async_create_def async_create_path_def create_path_def issue_create_def
            sync_path_fits [OF fits] split: prod.splits)
    next
      case more: False
      then have lst: "last ps = path" using split_path_parts [OF Inr] sp by auto
      obtain o1 s1 where pre: "create_prefixes C acl (butlast (p # ps)) s = (o1, s1)" by fastforce
      obtain rc np s2 where c: "c_create C path value acl mode ttl s1 = (rc, np, s2)" by (metis prod_cases3)
      show ?thesis using False Inr more pre c fits [OF c] run_create_chain [OF assms(1) more lst, of p acl "value" mode ttl s]
        by (cases o1) (auto simp: sp run_async_create_def async_create_path_def create_path_def sync_path_fits
            simp del: butlast.simps)
    qed
  qed (use False in \<open>simp add: run_async_create_def async_create_path_def create_path_def\<close>)
qed (simp add: run_async_create_def async_create_path_def create_path_def)

section \<open>What the service promises\<close>

text \<open>
  Node names and paths: a path is the names of its components, each behind a slash. The names
  exclude what \<^verbatim>\<open>zookeeper.h\<close> and the server reserve.
\<close>

definition node_name :: "string \<Rightarrow> bool" where
  "node_name c \<longleftrightarrow> c \<noteq> [] \<and> c \<noteq> ''.'' \<and> c \<noteq> ''..'' \<and> c \<noteq> ''zookeeper'' \<and>
     list_all (\<lambda>x. x \<noteq> CHR ''/'' \<and> 0x20 \<le> (of_char x :: nat) \<and> (of_char x :: nat) < 0x7f) c"

definition path_of :: "string list \<Rightarrow> string" where
  "path_of cs = concat (map ((#) (CHR ''/'')) cs)"

text \<open>
  Creating a persistent node: \<^verbatim>\<open>ZNODEEXISTS\<close> when it is there, \<^verbatim>\<open>ZNONODE\<close> when its parent is not, and
  otherwise the node exists afterwards, under the requested name.
\<close>

definition create_contract :: "'s zk_calls \<Rightarrow> ('s \<Rightarrow> string set) \<Rightarrow> bool" where
  "create_contract C nodes \<longleftrightarrow> (\<forall>cs v acl s. cs \<noteq> [] \<and> (\<forall>c \<in> set cs. node_name c) \<longrightarrow>
     (case c_create C (path_of cs) v acl ZOO_PERSISTENT (-1) s of (rc, np, s') \<Rightarrow>
        if path_of cs \<in> nodes s then rc = ZNODEEXISTS \<and> nodes s' = nodes s
        else if butlast cs = [] \<or> path_of (butlast cs) \<in> nodes s
             then rc = ZOK \<and> np = path_of cs \<and> nodes s' = insert (path_of cs) (nodes s)
             else rc = ZNONODE \<and> nodes s' = nodes s))"

lemma node_name_no_slash: "node_name c \<Longrightarrow> CHR ''/'' \<notin> set c"
  by (auto simp: node_name_def list_all_iff)

lemma path_of_simps [simp]:
  "path_of [] = []" "path_of (c # cs) = CHR ''/'' # c @ path_of cs" "path_of (xs @ ys) = path_of xs @ path_of ys"
  by (simp_all add: path_of_def)

lemma slash_prefixes_path_of:
  "\<forall>c \<in> set cs. node_name c \<Longrightarrow> slash_prefixes (path_of cs) = map (\<lambda>i. path_of (take i cs)) [0..<length cs]"
proof (induction cs rule: rev_induct)
  case (snoc c cs)
  then show ?case
    by (simp add: slash_prefixes_append slash_prefixes_none node_name_no_slash)
qed simp

lemma split_path_path_of:
  assumes "cs \<noteq> []" "\<forall>c \<in> set cs. node_name c"
  shows "split_path (path_of cs) = Inr (map (\<lambda>i. path_of (take i cs)) [1..<length cs] @ [path_of cs])"
proof -
  have "CHR ''/'' \<in> set (path_of cs)" using assms(1) by (cases cs) auto
  moreover have "tl [0..<length cs] = [1..<length cs]" using assms(1) by (cases cs) (simp_all add: upt_rec)
  ultimately show ?thesis using assms by (simp add: split_path_eq slash_prefixes_path_of flip: map_tl)
qed

lemma length_path_of_take:
  "i < length cs \<Longrightarrow> length (path_of (take i cs)) < length (path_of cs)"
proof -
  assume "i < length cs"
  then have "path_of cs = path_of (take i cs) @ path_of (drop i cs)" "drop i cs \<noteq> []"
    by (simp_all flip: path_of_simps(3))
  then show ?thesis by (cases "drop i cs") auto
qed

lemma create_step:
  assumes "create_contract C nodes" "cs \<noteq> []" "\<forall>c \<in> set cs. node_name c"
    "butlast cs = [] \<or> path_of (butlast cs) \<in> nodes s"
    "c_create C (path_of cs) v acl ZOO_PERSISTENT (-1) s = (rc, np, s')"
  shows "nodes s' = insert (path_of cs) (nodes s)"
    "rc = (if path_of cs \<in> nodes s then ZNODEEXISTS else ZOK)" "path_of cs \<notin> nodes s \<Longrightarrow> np = path_of cs"
proof -
  have "case c_create C (path_of cs) v acl ZOO_PERSISTENT (-1) s of (rc, np, s') \<Rightarrow>
        if path_of cs \<in> nodes s then rc = ZNODEEXISTS \<and> nodes s' = nodes s
        else if butlast cs = [] \<or> path_of (butlast cs) \<in> nodes s
             then rc = ZOK \<and> np = path_of cs \<and> nodes s' = insert (path_of cs) (nodes s)
             else rc = ZNONODE \<and> nodes s' = nodes s"
    by (rule assms(1) [unfolded create_contract_def, THEN spec, THEN spec, THEN spec, THEN spec, THEN mp])
       (use assms(2,3) in simp)
  then show "nodes s' = insert (path_of cs) (nodes s)"
    "rc = (if path_of cs \<in> nodes s then ZNODEEXISTS else ZOK)" "path_of cs \<notin> nodes s \<Longrightarrow> np = path_of cs"
    using assms(4,5) by (auto split: if_splits)
qed

lemma create_prefixes_from:
  assumes "create_contract C nodes" "\<forall>c \<in> set cs. node_name c"
  shows "0 < k \<Longrightarrow> k \<le> length cs \<Longrightarrow> (k = 1 \<or> path_of (take (k - 1) cs) \<in> nodes s) \<Longrightarrow>
    \<exists>s'. create_prefixes C acl (map (\<lambda>i. path_of (take i cs)) [k..<length cs]) s = (None, s') \<and>
      nodes s' = nodes s \<union> (\<lambda>i. path_of (take i cs)) ` {k..<length cs} \<and>
      (length cs = 1 \<or> path_of (take (length cs - 1) cs) \<in> nodes s')"
proof (induction "length cs - k" arbitrary: k s)
  case 0
  then show ?case by (cases "k = length cs") auto
next
  case (Suc n)
  then have k: "k < length cs" by simp
  let ?cs = "take k cs"
  obtain rc np s1 where c: "c_create C (path_of ?cs) None acl ZOO_PERSISTENT (-1) s = (rc, np, s1)"
    by (metis prod_cases3)
  have bl: "butlast ?cs = [] \<or> path_of (butlast ?cs) \<in> nodes s"
    using Suc.prems k by (auto simp: butlast_take)
  have names: "\<forall>c \<in> set ?cs. node_name c" using assms(2) by (auto dest: in_set_takeD)
  have ne: "?cs \<noteq> []" using Suc.prems(1) k by auto
  have st: "nodes s1 = insert (path_of ?cs) (nodes s)" "rc = (if path_of ?cs \<in> nodes s then ZNODEEXISTS else ZOK)"
    using create_step(1,2) [OF assms(1) ne names bl c] by auto
  obtain s' where s': "create_prefixes C acl (map (\<lambda>i. path_of (take i cs)) [Suc k..<length cs]) s1 = (None, s')"
      "nodes s' = nodes s1 \<union> (\<lambda>i. path_of (take i cs)) ` {Suc k..<length cs}"
      "length cs = 1 \<or> path_of (take (length cs - 1) cs) \<in> nodes s'"
  proof -
    have "n = length cs - Suc k" "Suc k \<le> length cs" "path_of (take (Suc k - 1) cs) \<in> nodes s1"
      using Suc.hyps(2) k st(1) by auto
    then show ?thesis using Suc.hyps(1) [of "Suc k" s1] that by blast
  qed
  have "{k..<length cs} = insert k {Suc k..<length cs}" using k by auto
  then show ?case using s' c st k by (auto simp: upt_conv_Cons split: if_splits)
qed

text \<open>
  Property C17: \<^verbatim>\<open>create_path\<close> creates the whole path. With the documented behaviour of the server
  it reports success and returns the name when the node was not there, reports \<^verbatim>\<open>ZNODEEXISTS\<close> when it was,
  and in both cases afterwards the node and all its prefixes exist, and nothing else was created.
\<close>

theorem create_path_creates_prefixes:
  assumes "create_contract C nodes" "cs \<noteq> []" "\<forall>c \<in> set cs. node_name c"
  shows "\<exists>s'. create_path C (path_of cs) v zk_persistent (-1) acl s =
      (Inr (if path_of cs \<in> nodes s then (ZNODEEXISTS, []) else (ZOK, path_of cs)), s') \<and>
    nodes s' = nodes s \<union> (\<lambda>i. path_of (take i cs)) ` {1..length cs}"
proof -
  have pos: "1 \<le> length cs" using assms(2) by (cases cs) auto
  obtain s1 where s1: "create_prefixes C acl (map (\<lambda>i. path_of (take i cs)) [1..<length cs]) s = (None, s1)"
      "nodes s1 = nodes s \<union> (\<lambda>i. path_of (take i cs)) ` {1..<length cs}"
      "length cs = 1 \<or> path_of (take (length cs - 1) cs) \<in> nodes s1"
    using create_prefixes_from [OF assms(1,3), of 1 s acl] pos by auto
  obtain rc np s2 where c: "c_create C (path_of cs) v acl ZOO_PERSISTENT (-1) s1 = (rc, np, s2)"
    by (metis prod_cases3)
  have bl: "butlast cs = [] \<or> path_of (butlast cs) \<in> nodes s1"
    using s1(3) assms(2) by (auto simp: butlast_conv_take)
  have same: "path_of cs \<in> nodes s1 \<longleftrightarrow> path_of cs \<in> nodes s"
  proof -
    have "path_of cs \<noteq> path_of (take i cs)" if "i < length cs" for i
      using length_path_of_take [OF that] by auto
    then have "path_of cs \<notin> (\<lambda>i. path_of (take i cs)) ` {1..<length cs}" by (meson atLeastLessThan_iff imageE)
    then show ?thesis using s1(2) by simp
  qed
  have "{1..length cs} = insert (length cs) {1..<length cs}" using pos by auto
  then have "nodes s2 = nodes s \<union> (\<lambda>i. path_of (take i cs)) ` {1..length cs}"
    using create_step(1) [OF assms(1-3) bl c] s1(2) by auto
  moreover have "rc = (if path_of cs \<in> nodes s then ZNODEEXISTS else ZOK)" "path_of cs \<notin> nodes s \<Longrightarrow> np = path_of cs"
    using create_step(2,3) [OF assms(1-3) bl c] same by auto
  ultimately show ?thesis using s1(1) c
    by (auto simp: create_path_def ttl_missing_def split_path_path_of [OF assms(2,3)] sync_path_fits)
qed

section \<open>Children, and deleting a path with everything below it\<close>

definition get_sub_path :: "'s zk_calls \<Rightarrow> string \<Rightarrow> 's \<Rightarrow> int \<times> string list \<times> 's" where
  "get_sub_path C path s =
     (case c_children C path s of (rc, strings, s') \<Rightarrow>
        if rc \<noteq> ZOK then (rc, [], s')
        else (rc, map (\<lambda>x. path @ ''/'' @ x) strings, s'))"

text \<open>
  The recursion of \<^verbatim>\<open>recursive_get_sub_path\<close>, as one loop over the siblings that are left: it ends
  only if the tree does, so the result is \<^verbatim>\<open>None\<close> otherwise.
\<close>

partial_function (option) sub_loop ::
  "'s zk_calls \<Rightarrow> string list \<Rightarrow> string list \<Rightarrow> 's \<Rightarrow> (int \<times> string list \<times> 's) option" where
  "sub_loop C sub_paths subs s =
     (case sub_paths of [] \<Rightarrow> Some (ZOK, subs, s)
      | sub # rest \<Rightarrow>
          Option.bind
            (case get_sub_path C sub s of (ec, kids, s1) \<Rightarrow>
               if ec \<noteq> ZOK then Some (ec, subs, s1) else sub_loop C kids subs s1)
            (\<lambda>(rec, subs1, s2). if rec \<noteq> ZOK then Some (rec, subs1, s2) else sub_loop C rest (subs1 @ [sub]) s2))"

definition recursive_get_sub_path ::
  "'s zk_calls \<Rightarrow> string \<Rightarrow> string list \<Rightarrow> 's \<Rightarrow> (int \<times> string list \<times> 's) option" where
  "recursive_get_sub_path C path subs s =
     (case get_sub_path C path s of (ec, sub_paths, s1) \<Rightarrow>
        if ec \<noteq> ZOK then Some (ec, subs, s1) else sub_loop C sub_paths subs s1)"

fun delete_loop :: "'s zk_calls \<Rightarrow> string list \<Rightarrow> 's \<Rightarrow> int \<times> 's" where
  "delete_loop C [] s = (ZOK, s)"
| "delete_loop C (sub # subs) s =
     (case c_delete C sub (-1) s of (rc, s') \<Rightarrow> if rc \<noteq> ZOK then (rc, s') else delete_loop C subs s')"

definition delete_path :: "'s zk_calls \<Rightarrow> string \<Rightarrow> 's \<Rightarrow> (int \<times> 's) option" where
  "delete_path C path s =
     Option.bind (recursive_get_sub_path C path [] s) (\<lambda>(ec, sub_paths, s1).
       if ec \<noteq> ZOK then Some (ec, s1) else Some (delete_loop C (sub_paths @ [path]) s1))"

text \<open>The asynchronous form: the request for the children, its completion, and the chain of deletions.\<close>

definition async_recursive_completion ::
  "'s zk_calls \<Rightarrow> string \<Rightarrow> int \<Rightarrow> string list option \<Rightarrow> 's \<Rightarrow> (int \<times> string list \<times> 's) option" where
  "async_recursive_completion C prefix_path rc strings s =
     (if rc \<noteq> ZOK then Some (rc, [], s)
      else let sub_paths = (case strings of None \<Rightarrow> [] | Some xs \<Rightarrow> xs)
      in Option.bind (sub_loop C (map (\<lambda>sub. prefix_path @ ''/'' @ sub) sub_paths) [] s) (\<lambda>(ec, subs, s').
           if ec \<noteq> ZOK then Some (ec, [], s') else Some (rc, subs, s')))"

definition delete_completion :: "int \<Rightarrow> string list \<Rightarrow> string \<times> string list + int" where
  "delete_completion rc subs =
     (let subs' = tl subs in if rc \<noteq> 0 \<or> subs' = [] then Inr rc else Inl (subs' ! 0, subs'))"

function run_delete :: "'s zk_calls \<Rightarrow> string \<Rightarrow> string list \<Rightarrow> 's \<Rightarrow> int option \<times> 's" where
  "run_delete C p subs s =
     (if c_submit C s \<noteq> ZOK then (None, s)
      else case c_delete C p (-1) s of (rc, s') \<Rightarrow>
        (case delete_completion rc subs of Inr rc' \<Rightarrow> (Some rc', s')
         | Inl (p', subs') \<Rightarrow> run_delete C p' subs' s'))"
  by pat_completeness auto
termination
  by (relation "measure (\<lambda>(_, _, subs, _). length subs)")
     (auto simp: delete_completion_def Let_def intro: tl_shorter split: if_splits)

declare run_delete.simps [simp del]

text \<open>\<^verbatim>\<open>None\<close> is a run that does not end, \<^verbatim>\<open>Some (None, _)\<close> one in which the callback is never called.\<close>

definition async_delete_path :: "'s zk_calls \<Rightarrow> string \<Rightarrow> 's \<Rightarrow> (int option \<times> 's) option" where
  "async_delete_path C path s =
     (if c_submit C s \<noteq> ZOK then Some (None, s)
      else case c_children C path s of (rc, strings, s1) \<Rightarrow>
        Option.bind (async_recursive_completion C path rc (if rc = ZOK then Some strings else None) s1)
          (\<lambda>(ec, subs, s2).
             if ec \<noteq> ZOK then Some (Some ec, s2)
             else let subs' = subs @ [path] in Some (run_delete C (subs' ! 0) subs' s2)))"

section \<open>Values and watches\<close>

definition set_path_value :: "'s zk_calls \<Rightarrow> string \<Rightarrow> string \<Rightarrow> 's \<Rightarrow> int \<times> 's" where
  "set_path_value C path val s = c_set C path val (-1) s"

definition async_set_path_value :: "'s zk_calls \<Rightarrow> string \<Rightarrow> string \<Rightarrow> 's \<Rightarrow> int option \<times> 's" where
  "async_set_path_value C path val s =
     (if c_submit C s \<noteq> ZOK then (None, s)
      else case c_set C path val (-1) s of (rc, s') \<Rightarrow> (Some rc, s'))"

text \<open>
  Reading a value: a first call with a buffer of 1024 bytes, and a second one with a buffer of the
  length that the first call reported when it was too small. The buffer is zeroed before; a
  \<^verbatim>\<open>std::string\<close> of a negative length is \<^verbatim>\<open>std::length_error\<close>.
\<close>

definition zoo_get :: "'s zk_calls \<Rightarrow> string \<Rightarrow> int \<Rightarrow> 's \<Rightarrow> int \<times> int \<times> string \<times> int \<times> 's" where
  "zoo_get C path buffer_len s =
     (case c_get C path s of (rc, d, data_length, s') \<Rightarrow>
        if rc = ZOK then (case sync_data d buffer_len of (len, cs) \<Rightarrow> (rc, len, cs, data_length, s'))
        else (rc, buffer_len, [], data_length, s'))"

definition zeroed_buffer :: "string \<Rightarrow> int \<Rightarrow> string" where
  "zeroed_buffer cs n = cs @ replicate (nat n - length cs) NUL"

definition get_path_value :: "'s zk_calls \<Rightarrow> string \<Rightarrow> 's \<Rightarrow> (cpp_exn + int \<times> string option) \<times> 's" where
  "get_path_value C path s =
     (let sz = 1024 in
      case zoo_get C path sz s of (rc, len, buf, data_length, s1) \<Rightarrow>
        if rc \<noteq> ZOK \<or> len = -1 then (Inr (rc, None), s1)
        else let real_len = data_length in
        if real_len \<le> sz then
          (if real_len < 0 then (Inl Length_error, s1)
           else (Inr (rc, Some (take (nat real_len) (zeroed_buffer buf sz))), s1))
        else
          (case zoo_get C path real_len s1 of (rc2, real_len2, ptr, _, s2) \<Rightarrow>
             if rc2 \<noteq> ZOK then (Inr (rc2, None), s2)
             else if real_len2 < 0 then (Inl Length_error, s2)
             else (Inr (rc2, Some (take (nat real_len2) (zeroed_buffer ptr real_len))), s2)))"

fun remove_loop :: "'s zk_calls \<Rightarrow> string \<Rightarrow> string list \<Rightarrow> 's \<Rightarrow> int \<times> 's" where
  "remove_loop C path [] s = (ZOK, s)"
| "remove_loop C path (sub # subs) s =
     (case c_remove_all_watches C (path @ ''/'' @ sub) ZWATCHTYPE_DATA s of (rc, s') \<Rightarrow>
        if rc \<noteq> 0 then (rc, s') else remove_loop C path subs s')"

definition remove_watches :: "'s zk_calls \<Rightarrow> string \<Rightarrow> int \<Rightarrow> 's \<Rightarrow> int \<times> 's" where
  "remove_watches C path watch_type s =
     (if watch_type = 0 then c_remove_all_watches C path ZWATCHTYPE_DATA s
      else case get_sub_path C path s of (ec, sub_paths, s1) \<Rightarrow>
        if ec \<noteq> ZOK then (ec, s1)
        else (case remove_loop C path sub_paths s1 of (rc, s2) \<Rightarrow>
          if rc \<noteq> ZOK then (rc, s2) else c_remove_all_watches C path ZWATCHTYPE_CHILD s2))"

text \<open>The asynchronous removal: each completion, whatever its code, issues the request for the next path.\<close>

definition remove_completion :: "int \<Rightarrow> string list \<Rightarrow> (string \<times> int) \<times> string list + int" where
  "remove_completion rc subs =
     (let subs' = tl subs in
      if subs' = [] then Inr rc
      else if length subs' = 1 then Inl ((subs' ! 0, ZWATCHTYPE_ANY), subs')
      else Inl ((subs' ! 0, ZWATCHTYPE_DATA), subs'))"

function run_remove :: "'s zk_calls \<Rightarrow> string \<times> int \<Rightarrow> string list \<Rightarrow> 's \<Rightarrow> int option \<times> 's" where
  "run_remove C r subs s =
     (if c_submit C s \<noteq> ZOK then (None, s)
      else case c_remove_all_watches C (fst r) (snd r) s of (rc, s') \<Rightarrow>
        (case remove_completion rc subs of Inr rc' \<Rightarrow> (Some rc', s')
         | Inl (r', subs') \<Rightarrow> run_remove C r' subs' s'))"
  by pat_completeness auto
termination
  by (relation "measure (\<lambda>(_, _, subs, _). length subs)")
     (auto simp: remove_completion_def Let_def intro: tl_shorter split: if_splits)

declare run_remove.simps [simp del]

text \<open>
  With no children the request names the string \<^verbatim>\<open>p\<close> that has just been moved from. In the lambda,
  which is not \<^verbatim>\<open>mutable\<close>, \<^verbatim>\<open>p\<close> is constant, so that the move is a copy and the name is still the path.
\<close>

definition async_remove_watches :: "'s zk_calls \<Rightarrow> string \<Rightarrow> int \<Rightarrow> 's \<Rightarrow> int option \<times> 's" where
  "async_remove_watches C path watch_type s =
     (if c_submit C s \<noteq> ZOK then (None, s)
      else if watch_type = 0 then
        (case c_remove_all_watches C path ZWATCHTYPE_DATA s of (rc, s') \<Rightarrow> (Some rc, s'))
      else case c_children C path s of (ec, strings, s1) \<Rightarrow>
        if ec \<noteq> ZOK then (Some ec, s1)
        else let sub_paths = map (\<lambda>sub. path @ ''/'' @ sub) strings @ [path] in
          if length sub_paths = 1 then run_remove C (path, ZWATCHTYPE_ANY) sub_paths s1
          else run_remove C (sub_paths ! 0, ZWATCHTYPE_DATA) sub_paths s1)"

section \<open>Deletion of a tree\<close>

definition below :: "string \<Rightarrow> string \<Rightarrow> bool" where
  "below p q \<longleftrightarrow> (\<exists>r. q = p @ CHR ''/'' # r)"

definition subtree :: "string set \<Rightarrow> string \<Rightarrow> string set" where
  "subtree N p = {q \<in> N. q = p \<or> below p q}"

text \<open>
  The nodes of a server: finitely many, with the parent of each node, and without empty names. The
  contract of the calls: the children of a node are listed, each once; a node is deleted when it
  has no children.
\<close>

definition tree_nodes :: "string set \<Rightarrow> bool" where
  "tree_nodes N \<longleftrightarrow> finite N \<and>
     (\<forall>q \<in> N. \<forall>p r. q = p @ CHR ''/'' # r \<longrightarrow> (p = [] \<or> p \<in> N) \<and> r \<noteq> [] \<and> hd r \<noteq> CHR ''/'')"

definition children_contract :: "'s zk_calls \<Rightarrow> ('s \<Rightarrow> string set) \<Rightarrow> bool" where
  "children_contract C nodes \<longleftrightarrow> (\<forall>p s. p \<in> nodes s \<longrightarrow>
     (case c_children C p s of (rc, names, s') \<Rightarrow> rc = ZOK \<and> nodes s' = nodes s \<and> distinct names \<and>
        set names = {c. CHR ''/'' \<notin> set c \<and> p @ CHR ''/'' # c \<in> nodes s}))"

definition delete_contract :: "'s zk_calls \<Rightarrow> ('s \<Rightarrow> string set) \<Rightarrow> bool" where
  "delete_contract C nodes \<longleftrightarrow> (\<forall>p s. case c_delete C p (-1) s of (rc, s') \<Rightarrow>
     if p \<notin> nodes s then rc = ZNONODE \<and> nodes s' = nodes s
     else if \<exists>q \<in> nodes s. below p q then rc = ZNOTEMPTY \<and> nodes s' = nodes s
     else rc = ZOK \<and> nodes s' = nodes s - {p})"

text \<open>Siblings: the nodes directly below one path. Their subtrees are disjoint.\<close>

definition siblings :: "string \<Rightarrow> string list \<Rightarrow> bool" where
  "siblings par ps \<longleftrightarrow> (\<forall>p \<in> set ps. \<exists>c. CHR ''/'' \<notin> set c \<and> p = par @ CHR ''/'' # c)"

lemma below_length: "below p q \<Longrightarrow> length p < length q"
  by (auto simp: below_def)

lemma below_trans: "below p q \<Longrightarrow> below q r \<Longrightarrow> below p r"
  by (auto simp: below_def)

lemma name_unique:
  assumes "c @ x = d @ y" "CHR ''/'' \<notin> set c" "CHR ''/'' \<notin> set d"
    "x = [] \<or> hd x = CHR ''/''" "y = [] \<or> hd y = CHR ''/''"
  shows "c = d"
proof -
  have tw: "takeWhile (\<lambda>a. a \<noteq> CHR ''/'') (c @ x) = c" if "CHR ''/'' \<notin> set c" "x = [] \<or> hd x = CHR ''/''" for c x
    using that by (cases x) (auto simp: takeWhile_append)
  show ?thesis using tw [OF assms(2,4)] tw [OF assms(3,5)] assms(1) by simp
qed

lemma siblings_disjoint:
  assumes "siblings par ps" "p \<in> set ps" "p' \<in> set ps" "q = p \<or> below p q" "q = p' \<or> below p' q"
  shows "p = p'"
proof -
  obtain c d where c: "CHR ''/'' \<notin> set c" "p = par @ CHR ''/'' # c" "CHR ''/'' \<notin> set d" "p' = par @ CHR ''/'' # d"
    using assms(1-3) unfolding siblings_def by meson
  obtain x where x: "q = par @ CHR ''/'' # c @ x" "x = [] \<or> hd x = CHR ''/''"
    using assms(4) c(2) by (auto simp: below_def)
  obtain y where y: "q = par @ CHR ''/'' # d @ y" "y = [] \<or> hd y = CHR ''/''"
    using assms(5) c(4) by (auto simp: below_def)
  have "c = d" using name_unique [of c x d y] c x y by auto
  then show ?thesis using c by simp
qed

lemma below_through_child:
  assumes "tree_nodes N" "q \<in> N" "below p q"
  shows "\<exists>c. CHR ''/'' \<notin> set c \<and> p @ CHR ''/'' # c \<in> N \<and> (q = p @ CHR ''/'' # c \<or> below (p @ CHR ''/'' # c) q)"
proof -
  obtain r where r: "q = p @ CHR ''/'' # r" using assms(3) by (auto simp: below_def)
  show ?thesis
  proof (cases "CHR ''/'' \<in> set r")
    case True
    then obtain c d where d: "r = c @ CHR ''/'' # d" "CHR ''/'' \<notin> set c" by (meson split_list_first)
    then have q: "q = (p @ CHR ''/'' # c) @ CHR ''/'' # d" using r by simp
    then have "p @ CHR ''/'' # c \<in> N" using assms(1,2) unfolding tree_nodes_def by blast
    then show ?thesis using d q by (auto simp: below_def)
  next
    case False
    then show ?thesis using r assms(2) by auto
  qed
qed

lemma get_sub_path_children:
  assumes "children_contract C nodes" "p \<in> nodes s"
  shows "\<exists>kids s'. get_sub_path C p s = (ZOK, kids, s') \<and> nodes s' = nodes s \<and> distinct kids \<and> siblings p kids \<and>
    set kids = {q \<in> nodes s. \<exists>c. CHR ''/'' \<notin> set c \<and> q = p @ CHR ''/'' # c}"
proof -
  obtain rc names s' where c: "c_children C p s = (rc, names, s')" by (metis prod_cases3)
  then have "rc = ZOK" "nodes s' = nodes s" "distinct names"
    "set names = {c. CHR ''/'' \<notin> set c \<and> p @ CHR ''/'' # c \<in> nodes s}"
    using assms unfolding children_contract_def by fastforce+
  then show ?thesis using c by (auto simp: get_sub_path_def siblings_def distinct_map inj_on_def)
qed

lemma subtree_kids:
  assumes "tree_nodes N" "set kids = {q \<in> N. \<exists>c. CHR ''/'' \<notin> set c \<and> q = p @ CHR ''/'' # c}"
  shows "\<Union> (subtree N ` set kids) = {q \<in> N. below p q}"
proof (intro equalityI subsetI)
  fix q assume "q \<in> \<Union> (subtree N ` set kids)"
  then show "q \<in> {q \<in> N. below p q}" using assms(2) by (auto simp: subtree_def below_def)
next
  fix q assume "q \<in> {q \<in> N. below p q}"
  then show "q \<in> \<Union> (subtree N ` set kids)"
    using below_through_child [OF assms(1), of q p] assms(2) by (auto simp: subtree_def)
qed

text \<open>
  The order of the listing: no node comes before a node below it.
\<close>

definition leaves_first :: "string list \<Rightarrow> bool" where
  "leaves_first L \<longleftrightarrow> distinct L \<and> sorted_wrt (\<lambda>y z. \<not> below y z) L"

lemma leaves_first_node:
  assumes "leaves_first K" "set K = {q \<in> N. below p q}"
  shows "leaves_first (K @ [p])"
  using assms by (auto simp: leaves_first_def sorted_wrt_append dest: below_length below_trans)

lemma leaves_first_append:
  assumes "leaves_first K" "leaves_first L" "siblings par (p # ps)" "p \<notin> set ps"
    "set K = subtree N p" "set L = \<Union> (subtree N ` set ps)"
  shows "leaves_first (K @ L)"
proof -
  have apart: False if "y = p \<or> below p y" "p' \<in> set ps" "y = p' \<or> below p' y" for y p'
    using siblings_disjoint [OF assms(3), of p p' y] that assms(4) by auto
  have "set K \<inter> set L = {}" using apart assms(5,6) by (auto simp: subtree_def)
  moreover have "\<not> below y z" if "y \<in> set K" "z \<in> set L" for y z
    using that apart [of z] assms(5,6) below_trans [of p y z] by (auto simp: subtree_def)
  ultimately show ?thesis using assms(1,2) by (auto simp: leaves_first_def sorted_wrt_append)
qed

lemma sub_loop_Nil: "sub_loop C [] subs s = Some (ZOK, subs, s)"
  by (simp add: sub_loop.simps)

lemma sub_loop_Cons:
  "sub_loop C (sub # rest) subs s =
     Option.bind (recursive_get_sub_path C sub subs s)
       (\<lambda>(rec, subs1, s2). if rec \<noteq> ZOK then Some (rec, subs1, s2) else sub_loop C rest (subs1 @ [sub]) s2)"
  by (subst sub_loop.simps) (simp add: recursive_get_sub_path_def)

lemma sub_loop_lists_tree:
  assumes cc: "children_contract C nodes" and tn: "tree_nodes N" and bound: "\<And>q. q \<in> N \<Longrightarrow> length q < M"
  shows "nodes s = N \<Longrightarrow> set ps \<subseteq> N \<Longrightarrow> distinct ps \<Longrightarrow> siblings par ps \<Longrightarrow> \<forall>p \<in> set ps. M \<le> length p + n \<Longrightarrow>
    \<exists>L s'. sub_loop C ps subs s = Some (ZOK, subs @ L, s') \<and> nodes s' = N \<and>
      leaves_first L \<and> set L = \<Union> (subtree N ` set ps)"
proof (induction n arbitrary: ps par subs s)
  case 0
  then have "ps = []" using bound by (cases ps) fastforce+
  then show ?case using 0 by (simp add: sub_loop_Nil leaves_first_def)
next
  case (Suc n)
  note outer = Suc.IH
  show ?case using Suc.prems
  proof (induction ps arbitrary: subs s)
    case Nil
    then show ?case by (simp add: sub_loop_Nil leaves_first_def)
  next
    case (Cons p ps)
    obtain kids s1 where kids: "get_sub_path C p s = (ZOK, kids, s1)" "nodes s1 = N" "distinct kids" "siblings p kids"
        "set kids = {q \<in> N. \<exists>c. CHR ''/'' \<notin> set c \<and> q = p @ CHR ''/'' # c}"
      using get_sub_path_children [OF cc, of p s] Cons.prems(1,2) by auto
    have "\<forall>q \<in> set kids. M \<le> length q + n" using kids(5) Cons.prems(5) by auto
    then obtain K s2 where K: "sub_loop C kids subs s1 = Some (ZOK, subs @ K, s2)" "nodes s2 = N" "leaves_first K"
        "set K = {q \<in> N. below p q}"
      using outer [of s1 kids p subs] kids subtree_kids [OF tn kids(5)] by auto
    have sibs: "siblings par ps" using Cons.prems(4) by (simp add: siblings_def)
    obtain L s3 where L: "sub_loop C ps ((subs @ K) @ [p]) s2 = Some (ZOK, ((subs @ K) @ [p]) @ L, s3)" "nodes s3 = N"
        "leaves_first L" "set L = \<Union> (subtree N ` set ps)"
      using Cons.IH [of s2 "(subs @ K) @ [p]"] Cons.prems K(2) sibs by auto
    have set_Kp: "set (K @ [p]) = subtree N p" using K(4) Cons.prems(2) by (auto simp: subtree_def)
    have "leaves_first ((K @ [p]) @ L)"
      using leaves_first_append [OF leaves_first_node [OF K(3,4)] L(3) Cons.prems(4) _ set_Kp L(4)] Cons.prems(3) by simp
    moreover have "set ((K @ [p]) @ L) = \<Union> (subtree N ` set (p # ps))" using set_Kp L(4) by auto
    moreover have "sub_loop C (p # ps) subs s = Some (ZOK, subs @ ((K @ [p]) @ L), s3)"
      using kids(1) K(1) L(1) by (simp add: sub_loop_Cons recursive_get_sub_path_def)
    ultimately show ?case using L(2) by blast
  qed
qed

lemma recursive_get_sub_path_lists_tree:
  assumes "children_contract C nodes" "tree_nodes (nodes s)" "p \<in> nodes s"
  shows "\<exists>L s'. recursive_get_sub_path C p [] s = Some (ZOK, L, s') \<and> nodes s' = nodes s \<and>
    leaves_first L \<and> set L = {q \<in> nodes s. below p q}"
proof -
  obtain kids s1 where kids: "get_sub_path C p s = (ZOK, kids, s1)" "nodes s1 = nodes s" "distinct kids" "siblings p kids"
      "set kids = {q \<in> nodes s. \<exists>c. CHR ''/'' \<notin> set c \<and> q = p @ CHR ''/'' # c}"
    using get_sub_path_children [OF assms(1,3)] by auto
  have fin: "finite (nodes s)" using assms(2) by (simp add: tree_nodes_def)
  have "length q < Suc (Max (length ` nodes s))" if "q \<in> nodes s" for q
    using that fin by (simp add: less_Suc_eq_le)
  from sub_loop_lists_tree [OF assms(1,2) this, of s1 kids p "Suc (Max (length ` nodes s))" "[]"]
  show ?thesis using kids subtree_kids [OF assms(2) kids(5)] by (auto simp: recursive_get_sub_path_def)
qed

lemma delete_loop_deletes:
  assumes "delete_contract C nodes"
  shows "leaves_first L \<Longrightarrow> set L \<subseteq> nodes s \<Longrightarrow> (\<forall>y \<in> set L. \<forall>q \<in> nodes s. below y q \<longrightarrow> q \<in> set L) \<Longrightarrow>
    \<exists>s'. delete_loop C L s = (ZOK, s') \<and> nodes s' = nodes s - set L"
proof (induction L arbitrary: s)
  case (Cons y L)
  obtain rc s1 where c: "c_delete C y (-1) s = (rc, s1)" by fastforce
  have "\<not> (\<exists>q \<in> nodes s. below y q)"
    using Cons.prems by (auto simp: leaves_first_def dest: below_length)
  moreover have "if y \<notin> nodes s then rc = ZNONODE \<and> nodes s1 = nodes s
     else if \<exists>q \<in> nodes s. below y q then rc = ZNOTEMPTY \<and> nodes s1 = nodes s
     else rc = ZOK \<and> nodes s1 = nodes s - {y}"
    using assms [unfolded delete_contract_def, THEN spec, THEN spec, of y s] c by simp
  ultimately have "rc = ZOK" "nodes s1 = nodes s - {y}" using Cons.prems(2) by auto
  note y = this
  have "leaves_first L" "set L \<subseteq> nodes s1" "\<forall>z \<in> set L. \<forall>q \<in> nodes s1. below z q \<longrightarrow> q \<in> set L"
    using Cons.prems y(2) by (auto simp: leaves_first_def)
  from Cons.IH [OF this] obtain s' where "delete_loop C L s1 = (ZOK, s')" "nodes s' = nodes s1 - set L" by blast
  then show ?case using c y by auto
qed simp

text \<open>
  Property C18: \<^verbatim>\<open>delete_path\<close> deletes a path and everything below it. Against a server that holds a
  finite tree of nodes, the recursion ends, every node is deleted after the nodes below it, so that
  no deletion is refused, the call reports success, and afterwards exactly the subtree is gone.
\<close>

theorem delete_path_deletes_subtree:
  assumes "children_contract C nodes" "delete_contract C nodes" "tree_nodes (nodes s)" "path \<in> nodes s"
  shows "\<exists>s'. delete_path C path s = Some (ZOK, s') \<and> nodes s' = nodes s - {q. q = path \<or> below path q}"
proof -
  obtain L s1 where L: "recursive_get_sub_path C path [] s = Some (ZOK, L, s1)" "nodes s1 = nodes s"
      "leaves_first L" "set L = {q \<in> nodes s. below path q}"
    using recursive_get_sub_path_lists_tree [OF assms(1,3,4)] by auto
  have "\<forall>y \<in> set (L @ [path]). \<forall>q \<in> nodes s1. below y q \<longrightarrow> q \<in> set (L @ [path])"
    using L(2,4) below_trans by auto
  moreover have "set (L @ [path]) \<subseteq> nodes s1" using L(2,4) assms(4) by auto
  ultimately obtain s' where "delete_loop C (L @ [path]) s1 = (ZOK, s')" "nodes s' = nodes s1 - set (L @ [path])"
    using delete_loop_deletes [OF assms(2) leaves_first_node [OF L(3,4)], of s1] by blast
  then show ?thesis using L by (auto simp: delete_path_def)
qed

lemma run_delete_loop:
  assumes "\<And>s. c_submit C s = ZOK"
  shows "run_delete C p (p # subs) s = (case delete_loop C (p # subs) s of (rc, s') \<Rightarrow> (Some rc, s'))"
proof (induction subs arbitrary: p s)
  case Nil
  then show ?case using assms by (subst run_delete.simps) (auto simp: delete_completion_def split: prod.splits)
next
  case (Cons q subs)
  obtain rc s' where "c_delete C p (-1) s = (rc, s')" by fastforce
  then show ?case using assms Cons.IH [of q s'] by (subst run_delete.simps) (auto simp: delete_completion_def)
qed

text \<open>
  The asynchronous deletion does the same as the synchronous one: when the requests are
  accepted, the callback is called with the code that \<^verbatim>\<open>delete_path\<close> returns, the server ends in the
  same state, and the one ends exactly when the other does.
\<close>

theorem async_delete_equivalent:
  assumes "\<And>s. c_submit C s = ZOK"
  shows "async_delete_path C path s = map_option (\<lambda>(rc, s'). (Some rc, s')) (delete_path C path s)"
proof -
  obtain rc names s1 where c: "c_children C path s = (rc, names, s1)" by (metis prod_cases3)
  show ?thesis
  proof (cases "rc = ZOK")
    case True
    let ?kids = "map (\<lambda>x. path @ ''/'' @ x) names"
    have run: "run_delete C ((subs @ [path]) ! 0) (subs @ [path]) s2 =
        (case delete_loop C (subs @ [path]) s2 of (rc, s') \<Rightarrow> (Some rc, s'))" for subs s2
      using run_delete_loop [OF assms] by (cases subs) auto
    show ?thesis
      using c True assms
      by (cases "sub_loop C ?kids [] s1")
         (auto simp: async_delete_path_def delete_path_def async_recursive_completion_def
           recursive_get_sub_path_def get_sub_path_def run)
  qed (use c assms in \<open>simp add: async_delete_path_def delete_path_def async_recursive_completion_def
      recursive_get_sub_path_def get_sub_path_def\<close>)
qed

section \<open>Reading a value\<close>

lemma sync_data_fits:
  "int (length v) \<le> n \<Longrightarrow> sync_data (Some v) n = (int (length v), v)"
  by (simp add: sync_data_def)

text \<open>
  \<^verbatim>\<open>get_path_value\<close> returns exactly the value of the node, of any length, when the node
  does not change between its two calls and its status has the length of its data; a node without
  data gives an empty result, and an error of the server is passed on.
\<close>

theorem get_path_value_exact:
  assumes "\<And>s. c_get C path s = (rc, d, case d of None \<Rightarrow> 0 | Some v \<Rightarrow> int (length v), s)"
  shows "get_path_value C path s = (Inr (rc, if rc = ZOK then d else None), s)"
proof (cases d)
  case None
  then show ?thesis using assms by (simp add: get_path_value_def zoo_get_def sync_data_def)
next
  case (Some v)
  have len: "sync_data d 1024 = (min (int (length v)) 1024, take 1024 v)" using Some by (auto simp: sync_data_def Let_def)
  have big: "sync_data d (int (length v)) = (int (length v), v)" using Some by (simp add: sync_data_fits)
  show ?thesis using Some assms len big
    by (auto simp: get_path_value_def zoo_get_def zeroed_buffer_def Let_def)
qed

text \<open>
  The value may be torn. When a node of more than 1024 bytes grows between the two
  calls, \<^verbatim>\<open>get_path_value\<close> reports success with a proper prefix of the new value; when its data becomes
  null, it throws \<^verbatim>\<open>std::length_error\<close>.
\<close>

theorem get_path_value_torn:
  assumes "c_get C path s = (ZOK, Some v, int (length v), s1)" "1024 < length v"
    and "c_get C path s1 = (ZOK, w, n, s2)" "w = None \<or> w = Some (v @ x # xs)"
  shows "get_path_value C path s = (if w = None then Inl Length_error else Inr (ZOK, Some v), s2)"
  using assms by (auto simp: get_path_value_def zoo_get_def sync_data_def zeroed_buffer_def Let_def)

section \<open>Removing watches\<close>

text \<open>The requests of a removal, one after the other: the code of the last one and the state after all of them.\<close>

fun remove_all :: "'s zk_calls \<Rightarrow> (string \<times> int) list \<Rightarrow> int \<Rightarrow> 's \<Rightarrow> int \<times> 's" where
  "remove_all C [] rc s = (rc, s)"
| "remove_all C (r # rs) rc s = (case c_remove_all_watches C (fst r) (snd r) s of (rc', s') \<Rightarrow> remove_all C rs rc' s')"

lemma run_remove_chain:
  assumes "\<And>s. c_submit C s = ZOK"
  shows "run_remove C (p, if subs = [] then ZWATCHTYPE_ANY else ZWATCHTYPE_DATA) (p # subs) s =
    (case remove_all C (map (\<lambda>q. (q, ZWATCHTYPE_DATA)) (butlast (p # subs)) @ [(last (p # subs), ZWATCHTYPE_ANY)]) rc s
     of (rc', s') \<Rightarrow> (Some rc', s'))"
proof (induction subs arbitrary: p rc s)
  case Nil
  then show ?case using assms by (subst run_remove.simps) (auto simp: remove_completion_def split: prod.splits)
next
  case (Cons q subs)
  obtain rc1 s' where "c_remove_all_watches C p ZWATCHTYPE_DATA s = (rc1, s')" by fastforce
  then show ?case using assms Cons.IH [of q s' rc1]
    by (subst run_remove.simps) (auto simp: remove_completion_def split: if_splits)
qed

text \<open>
  The asynchronous removal of the watches of the children of a path asks the server for
  the data watches of every child and for all watches of the path itself, whatever the answers to
  the requests before, and then calls the callback, with the answer to the last request.
\<close>

theorem async_remove_watches_complete:
  assumes "\<And>s. c_submit C s = ZOK" "c_children C path s = (ZOK, names, s1)"
  shows "async_remove_watches C path 1 s =
    (case remove_all C (map (\<lambda>x. (path @ ''/'' @ x, ZWATCHTYPE_DATA)) names @ [(path, ZWATCHTYPE_ANY)]) ZOK s1
     of (rc, s') \<Rightarrow> (Some rc, s'))"
proof (cases names)
  case Nil
  then show ?thesis using assms run_remove_chain [OF assms(1), of path "[]" s1 ZOK]
    by (simp add: async_remove_watches_def)
next
  case (Cons x xs)
  let ?kids = "map (\<lambda>x. path @ ''/'' @ x) xs"
  have "butlast ((path @ ''/'' @ x) # ?kids @ [path]) = (path @ ''/'' @ x) # ?kids"
    "last ((path @ ''/'' @ x) # ?kids @ [path]) = path" by (simp_all add: butlast_append)
  then show ?thesis using assms Cons run_remove_chain [OF assms(1), of "path @ ''/'' @ x" "?kids @ [path]" s1 ZOK]
    by (simp add: async_remove_watches_def comp_def del: butlast.simps last.simps)
qed

text \<open>
  The synchronous removal asks for the wrong paths. \<^verbatim>\<open>get_sub_path\<close> already returns full
  paths, and \<^verbatim>\<open>remove_watches\<close> puts the path in front of them once more. When the server knows no
  watch of that name, the first child ends the call with \<^verbatim>\<open>ZNOWATCHER\<close>, and no watch is removed.
\<close>

theorem remove_watches_wrong_path:
  assumes "c_children C path s = (ZOK, x # xs, s1)"
    and "c_remove_all_watches C (path @ ''/'' @ path @ ''/'' @ x) ZWATCHTYPE_DATA s1 = (ZNOWATCHER, s1)"
  shows "remove_watches C path 1 s = (ZNOWATCHER, s1)"
  using assms by (simp add: remove_watches_def get_sub_path_def)

section \<open>A service that satisfies the contracts\<close>

text \<open>
  For the witnesses: a server that keeps its nodes in a list, and the watched paths beside them.
\<close>

type_synonym tree_state = "(string \<times> string option) list \<times> (string \<times> int) list"

definition tree_set :: "tree_state \<Rightarrow> string set" where
  "tree_set st = fst ` set (fst st)"

definition parent_path :: "string \<Rightarrow> string" where
  "parent_path p = (case find_last_of p (CHR ''/'') of None \<Rightarrow> [] | Some i \<Rightarrow> take i p)"

definition is_below :: "string \<Rightarrow> string \<Rightarrow> bool" where
  "is_below p q \<longleftrightarrow> take (length p) q = p \<and> length p < length q \<and> q ! length p = CHR ''/''"

definition tree_calls :: "tree_state zk_calls" where
  "tree_calls = \<lparr>
     c_submit = (\<lambda>st. ZOK),
     c_create = (\<lambda>p v acl mode ttl (ns, ws).
       if p \<in> fst ` set ns then (ZNODEEXISTS, [], (ns, ws))
       else if parent_path p = [] \<or> parent_path p \<in> fst ` set ns then (ZOK, p, ((p, v) # ns, ws))
       else (ZNONODE, [], (ns, ws))),
     c_delete = (\<lambda>p ver (ns, ws).
       if p \<notin> fst ` set ns then (ZNONODE, (ns, ws))
       else if \<exists>q \<in> set ns. is_below p (fst q) then (ZNOTEMPTY, (ns, ws))
       else (ZOK, (filter (\<lambda>q. fst q \<noteq> p) ns, ws))),
     c_set = (\<lambda>p v ver (ns, ws).
       if p \<notin> fst ` set ns then (ZNONODE, (ns, ws))
       else (ZOK, (map (\<lambda>q. if fst q = p then (p, Some v) else q) ns, ws))),
     c_get = (\<lambda>p (ns, ws). case map_of ns p of None \<Rightarrow> (ZNONODE, None, 0, (ns, ws))
       | Some d \<Rightarrow> (ZOK, d, case d of None \<Rightarrow> 0 | Some v \<Rightarrow> int (length v), (ns, ws))),
     c_children = (\<lambda>p (ns, ws).
       if p \<notin> fst ` set ns then (ZNONODE, [], (ns, ws))
       else (ZOK, remdups (map (\<lambda>q. drop (Suc (length p)) (fst q))
         (filter (\<lambda>q. is_below p (fst q) \<and> CHR ''/'' \<notin> set (drop (Suc (length p)) (fst q))) ns)), (ns, ws))),
     c_remove_all_watches = (\<lambda>p t (ns, ws).
       if (p, t) \<in> set ws then (ZOK, (ns, filter (\<lambda>w. w \<noteq> (p, t)) ws)) else (ZNOWATCHER, (ns, ws))) \<rparr>"

lemma is_below_iff: "is_below p q \<longleftrightarrow> below p q"
proof
  assume b: "is_below p q"
  then have "drop (length p) q = CHR ''/'' # drop (Suc (length p)) q"
    by (simp add: is_below_def flip: Cons_nth_drop_Suc)
  then show "below p q"
    using b append_take_drop_id [of "length p" q] unfolding is_below_def below_def by metis
qed (auto simp: is_below_def below_def)

lemma parent_path_of:
  assumes "cs \<noteq> []" "\<forall>c \<in> set cs. node_name c"
  shows "parent_path (path_of cs) = path_of (butlast cs)"
proof -
  obtain ds c where cs: "cs = ds @ [c]" using assms(1) by (cases cs rule: rev_cases) auto
  then have "CHR ''/'' \<notin> set c" using assms(2) by (auto dest: node_name_no_slash)
  then show ?thesis using cs by (simp add: parent_path_def find_last_of_append)
qed

lemma path_of_Nil_iff [simp]: "path_of cs = [] \<longleftrightarrow> cs = []"
  by (cases cs) auto

lemma tree_calls_create: "create_contract tree_calls tree_set"
  unfolding create_contract_def by (auto simp: tree_calls_def tree_set_def parent_path_of)

lemma tree_calls_children: "children_contract tree_calls tree_set"
  unfolding children_contract_def
  by (auto simp: tree_calls_def tree_set_def is_below_iff) (force simp: below_def image_iff)+

lemma tree_calls_delete: "delete_contract tree_calls tree_set"
  unfolding delete_contract_def by (auto simp: tree_calls_def tree_set_def is_below_iff)

section \<open>Witnesses\<close>

text \<open>The server of the examples: two nodes, the second below the first, and a watch on its data.\<close>

definition example_tree :: tree_state where
  "example_tree = ([(''/a'', None), (''/a/b'', Some ''x'')], [(''/a/b'', 2), (''/a'', 3)])"

lemma tree_calls_submit [simp]: "c_submit tree_calls s = ZOK"
  by (simp add: tree_calls_def)

lemma example_tree_nodes: "tree_nodes (tree_set example_tree)"
  by (auto simp: tree_nodes_def tree_set_def example_tree_def Cons_eq_append_conv append_eq_Cons_conv)

theorem async_create_equivalent_witness:
  "run_async_create tree_calls ''/a/c/d'' (Some ''v'') zk_persistent (-1) zk_open_acl_unsafe example_tree =
    (case create_path tree_calls ''/a/c/d'' (Some ''v'') zk_persistent (-1) zk_open_acl_unsafe example_tree of
       (r, s') \<Rightarrow> (map_sum id Some r, s'))"
  by (rule async_create_equivalent) (auto simp: tree_calls_def)

theorem create_path_creates_prefixes_witness:
  "\<exists>s'. create_path tree_calls (path_of [''a'', ''c'', ''d'']) None zk_persistent (-1) zk_open_acl_unsafe example_tree =
      (Inr (ZOK, ''/a/c/d''), s') \<and>
    tree_set s' = tree_set example_tree \<union> (\<lambda>i. path_of (take i [''a'', ''c'', ''d''])) ` {1..3}"
  using create_path_creates_prefixes [OF tree_calls_create, of "[''a'', ''c'', ''d'']" None zk_open_acl_unsafe example_tree]
  by (simp add: node_name_def tree_set_def example_tree_def eval_nat_numeral)

theorem delete_path_deletes_subtree_witness:
  "\<exists>s'. delete_path tree_calls ''/a'' example_tree = Some (ZOK, s') \<and>
    tree_set s' = tree_set example_tree - {q. q = ''/a'' \<or> below ''/a'' q}"
  by (rule delete_path_deletes_subtree [OF tree_calls_children tree_calls_delete example_tree_nodes])
     (simp add: tree_set_def example_tree_def)

theorem async_delete_equivalent_witness:
  "async_delete_path tree_calls ''/a'' example_tree =
    map_option (\<lambda>(rc, s'). (Some rc, s')) (delete_path tree_calls ''/a'' example_tree)"
  by (rule async_delete_equivalent) simp

text \<open>A service whose node never changes, and one whose node grows or loses its data after the first call.\<close>

definition still_node :: "unit zk_calls" where
  "still_node = \<lparr> c_submit = (\<lambda>_. ZOK), c_create = (\<lambda>p v a m t s. (ZNODEEXISTS, [], s)), c_delete = (\<lambda>p v s. (ZNOAUTH, s)),
     c_set = (\<lambda>p v n s. (ZNOAUTH, s)), c_get = (\<lambda>p s. (ZOK, Some (replicate 2000 CHR ''x''), 2000, s)),
     c_children = (\<lambda>p s. (ZOK, [], s)), c_remove_all_watches = (\<lambda>p t s. (ZNOWATCHER, s)) \<rparr>"

definition growing_node :: "bool zk_calls" where
  "growing_node = \<lparr> c_submit = (\<lambda>_. ZOK), c_create = (\<lambda>p v a m t s. (ZNODEEXISTS, [], s)), c_delete = (\<lambda>p v s. (ZNOAUTH, s)),
     c_set = (\<lambda>p v n s. (ZNOAUTH, s)),
     c_get = (\<lambda>p s. if s then (ZOK, Some (replicate 2000 CHR ''x'' @ ''y''), 2001, True)
                   else (ZOK, Some (replicate 2000 CHR ''x''), 2000, True)),
     c_children = (\<lambda>p s. (ZOK, [], s)), c_remove_all_watches = (\<lambda>p t s. (ZNOWATCHER, s)) \<rparr>"

theorem get_path_value_exact_witness:
  "get_path_value still_node ''/a'' () = (Inr (ZOK, Some (replicate 2000 CHR ''x'')), ())"
  using get_path_value_exact [of still_node "''/a''" ZOK "Some (replicate 2000 CHR ''x'')" "()"]
  by (simp add: still_node_def)

theorem get_path_value_torn_witness:
  "get_path_value growing_node ''/a'' False = (Inr (ZOK, Some (replicate 2000 CHR ''x'')), True)"
  using get_path_value_torn [of growing_node "''/a''" False "replicate 2000 CHR ''x''" True
      "Some (replicate 2000 CHR ''x'' @ ''y'')" 2001 True "CHR ''y''" "[]"]
  by (simp add: growing_node_def)

theorem async_remove_watches_complete_witness:
  "async_remove_watches tree_calls ''/a'' 1 example_tree =
    (case remove_all tree_calls [(''/a/b'', ZWATCHTYPE_DATA), (''/a'', ZWATCHTYPE_ANY)] ZOK example_tree of
       (rc, s') \<Rightarrow> (Some rc, s'))"
  using async_remove_watches_complete [of tree_calls "''/a''" example_tree "[''b'']" example_tree]
  by (simp add: tree_calls_def example_tree_def is_below_def)

theorem remove_watches_wrong_path_witness:
  "remove_watches tree_calls ''/a'' 1 example_tree = (ZNOWATCHER, example_tree)"
  using remove_watches_wrong_path [of tree_calls "''/a''" example_tree "''b''" "[]" example_tree]
  by (simp add: tree_calls_def example_tree_def is_below_def)

end
