(* ===== verification/Config_Monitor.thy ===== *)
theory Config_Monitor
  imports Cppzk
begin

text \<open>
  The library's own interface, \<^verbatim>\<open>cm::config_monitor\<close> (\<^verbatim>\<open>src/src/config_monitor.hpp\<close>), on top of the watch
  functions of \<^verbatim>\<open>zk::cppzk\<close>: watching the value of a path, watching the children of a path, removing
  watches, and setting all watches again after the session has expired.

  The first part models the callbacks as functions from what they are called with to what they do.
  The second runs the callbacks of \<^verbatim>\<open>watch_path\<close> against a server that may change the node at any time,
  with requests and answers on their way in both directions, as a state machine. The server is a
  parameter; \<^verbatim>\<open>node_contract\<close> says what ZooKeeper documents about one node and its one-time watch.
\<close>

section \<open>Watch functions of cppzk\<close>

text \<open>
  \<^verbatim>\<open>watch_path_event\<close>: the watcher remembers the event and asks again whether the node exists, which
  sets the next watch; the completion hands the code and the remembered event to the callback.
  Session events are left to the watcher of the connection.
\<close>

record exists_userdata =
  eud_eve :: int

definition exists_wfn :: "int \<Rightarrow> exists_userdata \<Rightarrow> exists_userdata \<times> bool" where
  "exists_wfn eve eud = (if eve = ZOO_SESSION_EVENT then (eud, False) else (eud\<lparr> eud_eve := eve \<rparr>, True))"

definition exists_completion :: "int \<Rightarrow> exists_userdata \<Rightarrow> int \<times> int" where
  "exists_completion rc d = (rc, eud_eve d)"

text \<open>
  \<^verbatim>\<open>async_get_path_value<true>\<close>: the watcher of the data of a path. A deletion ends the monitoring and
  releases the user data; any other event asks for the data again, with the watch.
\<close>

record wget_userdata =
  wud_eve :: int
  wud_path :: string

datatype wget_action =
    Wget_ignore
  | Wget_deleted "int \<times> int \<times> string \<times> string option"
  | Wget_again wget_userdata

definition wget_wfn :: "int \<Rightarrow> string \<Rightarrow> wget_userdata \<Rightarrow> wget_action" where
  "wget_wfn eve path d =
     (if eve = ZOO_SESSION_EVENT then Wget_ignore
      else if eve = ZOO_DELETED_EVENT then Wget_deleted (ZNONODE, ZOO_DELETED_EVENT, path, None)
      else Wget_again (d\<lparr> wud_path := path, wud_eve := eve \<rparr>))"

definition wget_completion :: "int \<Rightarrow> string option \<Rightarrow> wget_userdata \<Rightarrow> int \<times> int \<times> string \<times> string option" where
  "wget_completion rc val d = (rc, wud_eve d, wud_path d, val)"

text \<open>\<^verbatim>\<open>async_get_sub_path<true>\<close>: the same for the children of a path, whose callback sees no event.\<close>

datatype children_action = Children_ignore | Children_release | Children_again

definition children_wfn :: "int \<Rightarrow> children_action" where
  "children_wfn eve =
     (if eve = ZOO_SESSION_EVENT then Children_ignore
      else if eve = ZOO_DELETED_EVENT then Children_release
      else Children_again)"

definition children_completion :: "int \<Rightarrow> string list option \<Rightarrow> int \<times> string list" where
  "children_completion rc strings = (rc, case strings of None \<Rightarrow> [] | Some xs \<Rightarrow> xs)"

section \<open>Callbacks of config\_monitor\<close>

datatype path_event = changed | del

datatype watch_action = Watch_notify path_event "string option" | Watch_get | Watch_nothing

definition watch_path_cb :: "int \<Rightarrow> int \<Rightarrow> watch_action" where
  "watch_path_cb ec eve =
     (if ec \<noteq> 0 \<and> is_delete_event eve then Watch_notify del None
      else if is_dummy_event eve \<or> is_create_event eve \<or> is_changed_event eve then Watch_get
      else Watch_nothing)"

definition watch_get_cb :: "int \<Rightarrow> string option \<Rightarrow> (path_event \<times> string option) list" where
  "watch_get_cb ec val = (if ec = 0 then [(changed, val)] else [])"

text \<open>
  \<^verbatim>\<open>watch_sub_path\<close>: the callback of the watched path asks for its children when the path is there; the
  callback of the children starts a monitor for each child that is not in the last list; the
  callback of a monitor reports changes and the deletion. The maps are \<^verbatim>\<open>last_sub_path_\<close> and the lists
  of monitors that are started, in order.
\<close>

definition watch_sub_path_cb :: "int \<Rightarrow> int \<Rightarrow> bool" where
  "watch_sub_path_cb ec eve = (if ec \<noteq> 0 then False else is_dummy_event eve \<or> is_create_event eve)"

definition sub_paths_cb ::
  "string \<Rightarrow> int \<Rightarrow> string list \<Rightarrow> (string \<rightharpoonup> string set) \<Rightarrow> string list \<times> (string \<rightharpoonup> string set)" where
  "sub_paths_cb pre ec sub_paths last_sub_path =
     (if ec \<noteq> 0 then ([], last_sub_path)
      else case last_sub_path pre of
        None \<Rightarrow> (map (\<lambda>p. pre @ ''/'' @ p) sub_paths, last_sub_path(pre \<mapsto> set sub_paths))
      | Some old \<Rightarrow>
          (map (\<lambda>p. pre @ ''/'' @ p) (filter (\<lambda>p. p \<notin> old) sub_paths), last_sub_path(pre \<mapsto> set sub_paths)))"

definition monitor_cb :: "int \<times> int \<times> string \<times> string option \<Rightarrow> (path_event \<times> string \<times> string option) list" where
  "monitor_cb = (\<lambda>(ec, eve, path, val).
     if ec \<noteq> 0 \<and> is_delete_event eve then [(del, path, None)]
     else if ec = 0 then [(changed, path, val)] else [])"

section \<open>A path that is watched, and its server\<close>

text \<open>
  The server of one node: what the node holds (\<^verbatim>\<open>None\<close>: it does not exist; \<^verbatim>\<open>Some None\<close>: it has no data),
  whether the client's watch is set, and what a request for existence, a request for the data and
  a change by somebody else do. A change that triggers the watch yields an event.
\<close>

record 's node_server =
  n_value :: "'s \<Rightarrow> string option option"
  n_armed :: "'s \<Rightarrow> bool"
  n_exists :: "'s \<Rightarrow> int \<times> 's"
  n_get :: "'s \<Rightarrow> int \<times> string option \<times> 's"
  n_write :: "string option option \<Rightarrow> 's \<Rightarrow> int option \<times> 's"

fun write_event :: "string option option \<Rightarrow> string option option \<Rightarrow> int option" where
  "write_event None None = None"
| "write_event None (Some _) = Some ZOO_CREATED_EVENT"
| "write_event (Some _) None = Some ZOO_DELETED_EVENT"
| "write_event (Some _) (Some _) = Some ZOO_CHANGED_EVENT"

text \<open>
  What the ZooKeeper programmer's guide documents: a request for existence reports whether the node
  is there and sets the watch in either case; a request for data reads the node; a change triggers
  a set watch once.
\<close>

definition node_contract :: "'s node_server \<Rightarrow> bool" where
  "node_contract S \<longleftrightarrow>
     (\<forall>s. fst (n_exists S s) = (if n_value S s = None then ZNONODE else ZOK) \<and>
          n_value S (snd (n_exists S s)) = n_value S s \<and> n_armed S (snd (n_exists S s))) \<and>
     (\<forall>s. fst (n_get S s) = (if n_value S s = None then ZNONODE else ZOK) \<and>
          fst (snd (n_get S s)) = (case n_value S s of None \<Rightarrow> None | Some d \<Rightarrow> d) \<and>
          n_value S (snd (snd (n_get S s))) = n_value S s \<and>
          n_armed S (snd (snd (n_get S s))) = n_armed S s) \<and>
     (\<forall>v s. n_value S (snd (n_write S v s)) = v \<and>
          fst (n_write S v s) = (if n_armed S s then write_event (n_value S s) v else None) \<and>
          n_armed S (snd (n_write S v s)) = (n_armed S s \<and> write_event (n_value S s) v = None))"

text \<open>
  The whole system: the server, the requests and the messages on their way (each in the order in
  which they were sent, as the connection and the queue of completions keep them), the user data of
  the watch, and what the user's callback has been told.
\<close>

datatype request = R_exists | R_get

datatype message = M_exists int | M_get int "string option" | M_event int

record 's watch_sys =
  srv :: 's
  outbox :: "request list"
  inbox :: "message list"
  eud :: exists_userdata
  told :: "(path_event \<times> string option) list"

definition watch_path_init :: "'s \<Rightarrow> 's watch_sys" where
  "watch_path_init s = \<lparr> srv = s, outbox = [R_exists], inbox = [], eud = \<lparr> eud_eve = zk_dummy_event \<rparr>, told = [] \<rparr>"

text \<open>
  A step: the server answers the first request, somebody changes the node, the connection reports a
  session event, the connection is lost under the first request, or the client's completion thread
  takes the first message.
\<close>

datatype label = Serve | Write "string option option" | Session | Lose | Deliver

fun serve :: "'s node_server \<Rightarrow> request \<Rightarrow> 's \<Rightarrow> message \<times> 's" where
  "serve S R_exists s = (M_exists (fst (n_exists S s)), snd (n_exists S s))"
| "serve S R_get s = (M_get (fst (n_get S s)) (fst (snd (n_get S s))), snd (snd (n_get S s)))"

fun lost :: "request \<Rightarrow> message" where
  "lost R_exists = M_exists ZCONNECTIONLOSS"
| "lost R_get = M_get ZCONNECTIONLOSS None"

fun deliver :: "message \<Rightarrow> 's watch_sys \<Rightarrow> 's watch_sys" where
  "deliver (M_event eve) sys =
     (case exists_wfn eve (eud sys) of (d, again) \<Rightarrow>
        sys\<lparr> eud := d, outbox := outbox sys @ (if again then [R_exists] else []) \<rparr>)"
| "deliver (M_exists rc) sys =
     (case exists_completion rc (eud sys) of (ec, eve) \<Rightarrow>
        (case watch_path_cb ec eve of
           Watch_notify e v \<Rightarrow> sys\<lparr> told := told sys @ [(e, v)] \<rparr>
         | Watch_get \<Rightarrow> sys\<lparr> outbox := outbox sys @ [R_get] \<rparr>
         | Watch_nothing \<Rightarrow> sys))"
| "deliver (M_get rc v) sys = sys\<lparr> told := told sys @ watch_get_cb rc v \<rparr>"

fun watch_do :: "'s node_server \<Rightarrow> label \<Rightarrow> 's watch_sys \<Rightarrow> 's watch_sys option" where
  "watch_do S Serve sys =
     (case outbox sys of [] \<Rightarrow> None
      | r # rs \<Rightarrow> (case serve S r (srv sys) of (m, s') \<Rightarrow>
          Some (sys\<lparr> srv := s', outbox := rs, inbox := inbox sys @ [m] \<rparr>)))"
| "watch_do S (Write v) sys =
     (case n_write S v (srv sys) of (e, s') \<Rightarrow>
        Some (sys\<lparr> srv := s', inbox := inbox sys @ (case e of None \<Rightarrow> [] | Some eve \<Rightarrow> [M_event eve]) \<rparr>))"
| "watch_do S Session sys = Some (sys\<lparr> inbox := inbox sys @ [M_event ZOO_SESSION_EVENT] \<rparr>)"
| "watch_do S Lose sys =
     (case outbox sys of [] \<Rightarrow> None | r # rs \<Rightarrow> Some (sys\<lparr> outbox := rs, inbox := inbox sys @ [lost r] \<rparr>))"
| "watch_do S Deliver sys =
     (case inbox sys of [] \<Rightarrow> None | m # ms \<Rightarrow> Some (deliver m (sys\<lparr> inbox := ms \<rparr>)))"

fun watch_run :: "'s node_server \<Rightarrow> label list \<Rightarrow> 's watch_sys \<Rightarrow> 's watch_sys option" where
  "watch_run S [] sys = Some sys"
| "watch_run S (l # ls) sys = Option.bind (watch_do S l sys) (watch_run S ls)"

text \<open>The states that are reached while the connection holds.\<close>

inductive watch_reach :: "'s node_server \<Rightarrow> 's watch_sys \<Rightarrow> bool" for S where
  start: "\<not> n_armed S s \<Longrightarrow> watch_reach S (watch_path_init s)"
| step: "watch_reach S sys \<Longrightarrow> l \<noteq> Lose \<Longrightarrow> watch_do S l sys = Some sys' \<Longrightarrow> watch_reach S sys'"

definition quiet :: "'s watch_sys \<Rightarrow> bool" where
  "quiet sys \<longleftrightarrow> outbox sys = [] \<and> inbox sys = []"

section \<open>The invariant of a watched path\<close>



text \<open>
  The messages on their way, without the session events, and the requests have one of finitely many
  shapes; \<^verbatim>\<open>late\<close> is an answer to an older request for the data.
\<close>

definition late :: "message list \<Rightarrow> bool" where
  "late g \<longleftrightarrow> g = [] \<or> (\<exists>rc d. g = [M_get rc d])"


definition no_session :: "message list \<Rightarrow> message list" where
  "no_session ms = filter (\<lambda>m. m \<noteq> M_event ZOO_SESSION_EVENT) ms"


lemma no_session_append [simp]: "no_session (xs @ ys) = no_session xs @ no_session ys"
  by (simp add: no_session_def)

lemma no_session_simps [simp]:
  "no_session [] = []" "no_session (M_exists rc # ms) = M_exists rc # no_session ms"
  "no_session (M_get rc d # ms) = M_get rc d # no_session ms"
  "no_session (M_event e # ms) = (if e = ZOO_SESSION_EVENT then [] else [M_event e]) @ no_session ms"
  by (simp_all add: no_session_def)



lemma late_simps [simp]: "late []" "late (x # g) \<longleftrightarrow> g = [] \<and> (\<exists>rc d. x = M_get rc d)"
  by (auto simp: late_def)














section \<open>Notifications that are lost\<close>

lemma node_laws:
  assumes "node_contract S"
  shows "fst (n_exists S s) = (if n_value S s = None then ZNONODE else ZOK)"
    "n_value S (snd (n_exists S s)) = n_value S s" "n_armed S (snd (n_exists S s))"
    "fst (n_get S s) = (if n_value S s = None then ZNONODE else ZOK)"
    "fst (snd (n_get S s)) = (case n_value S s of None \<Rightarrow> None | Some d \<Rightarrow> d)"
    "n_value S (snd (snd (n_get S s))) = n_value S s" "n_armed S (snd (snd (n_get S s))) = n_armed S s"
    "n_value S (snd (n_write S v s)) = v"
    "fst (n_write S v s) = (if n_armed S s then write_event (n_value S s) v else None)"
    "n_armed S (snd (n_write S v s)) = (n_armed S s \<and> write_event (n_value S s) v = None)"
  using assms unfolding node_contract_def by blast+

lemma watch_do_Write:
  "watch_do S (Write v) sys = Some (sys\<lparr> srv := snd (n_write S v (srv sys)),
     inbox := inbox sys @ (case fst (n_write S v (srv sys)) of None \<Rightarrow> [] | Some eve \<Rightarrow> [M_event eve]) \<rparr>)"
  by (simp split: prod.splits)

lemma watch_run_reach:
  "watch_reach S sys \<Longrightarrow> Lose \<notin> set ls \<Longrightarrow> watch_run S ls sys = Some sys' \<Longrightarrow> watch_reach S sys'"
proof (induction ls arbitrary: sys)
  case (Cons l ls)
  then obtain y where y: "watch_do S l sys = Some y" "watch_run S ls y = Some sys'" by (auto simp: bind_eq_Some_conv)
  have "watch_reach S y" by (rule watch_reach.step [OF Cons.prems(1) _ y(1)]) (use Cons.prems(2) in auto)
  then show ?case using Cons.IH Cons.prems(2) y(2) by simp
qed simp

lemmas watch_run_simps = watch_do_Write node_laws watch_path_init_def exists_wfn_def exists_completion_def
  watch_path_cb_def watch_get_cb_def quiet_def

text \<open>
  A deletion can go unnoticed. When a node is changed and deleted before the client has
  asked again, the code sees the event of the change together with the answer that there is no
  node, asks for the data, gets none and tells the user nothing: with nothing on its way, the node is
  gone, and the user's last notification is the old data.
\<close>

theorem watch_path_misses_delete:
  assumes "node_contract S" "\<not> n_armed S s" "n_value S s = Some d"
  shows "\<exists>sys. watch_reach S sys \<and> quiet sys \<and> n_value S (srv sys) = None \<and> told sys = [(changed, d)]"
proof -
  let ?ls = "[Serve, Deliver, Serve, Deliver, Write (Some d), Write None, Deliver, Serve, Deliver, Serve, Deliver]"
  have "\<exists>sys. watch_run S ?ls (watch_path_init s) = Some sys \<and> quiet sys \<and>
      n_value S (srv sys) = None \<and> told sys = [(changed, d)]"
    using assms by (simp add: watch_run_simps del: watch_do.simps(2))
  then show ?thesis using watch_run_reach [OF watch_reach.start [OF assms(2)], of ?ls] by auto
qed

text \<open>
  A new node can go unnoticed. When a node is deleted and created again before the
  client has asked, the code sees the event of the deletion together with the answer that the node
  is there, and does nothing: the user keeps the data of the deleted node until the next change.
\<close>

theorem watch_path_misses_recreation:
  assumes "node_contract S" "\<not> n_armed S s" "n_value S s = Some d"
  shows "\<exists>sys. watch_reach S sys \<and> quiet sys \<and> n_value S (srv sys) = Some e \<and> told sys = [(changed, d)]"
proof -
  let ?ls = "[Serve, Deliver, Serve, Deliver, Write None, Write (Some e), Deliver, Serve, Deliver]"
  have "\<exists>sys. watch_run S ?ls (watch_path_init s) = Some sys \<and> quiet sys \<and>
      n_value S (srv sys) = Some e \<and> told sys = [(changed, d)]"
    using assms by (simp add: watch_run_simps del: watch_do.simps(2))
  then show ?thesis using watch_run_reach [OF watch_reach.start [OF assms(2)], of ?ls] by auto
qed


section \<open>Watching the children of a path\<close>

text \<open>
  The lists of children that a watched path receives one after the other, and the monitors that they
  start. The first list of a path starts a monitor for every child.
\<close>

fun sub_paths_run :: "string \<Rightarrow> string list list \<Rightarrow> (string \<rightharpoonup> string set) \<Rightarrow> string list list \<times> (string \<rightharpoonup> string set)" where
  "sub_paths_run pre [] m = ([], m)"
| "sub_paths_run pre (l # ls) m =
     (case sub_paths_cb pre ZOK l m of (started, m') \<Rightarrow>
        (case sub_paths_run pre ls m' of (rest, m'') \<Rightarrow> (started # rest, m'')))"

lemma sub_paths_run_from:
  "m pre = Some old \<Longrightarrow> sub_paths_run pre ls m =
    (map (\<lambda>(l0, l). map (\<lambda>p. pre @ ''/'' @ p) (filter (\<lambda>p. p \<notin> l0) l)) (zip (old # map set ls) ls),
     m(pre \<mapsto> (if ls = [] then old else set (last ls))))"
  by (induction ls arbitrary: m old) (auto simp: sub_paths_cb_def fun_upd_idem)

text \<open>
  Property C29: every child is monitored from the first list that contains it, and not a second time
  while it stays listed: a list of children starts a monitor for exactly those children that are not
  in the list before, and for all of them when it is the first; the last list is remembered, and the
  entries of other paths are left alone.
\<close>

theorem sub_path_monitors_new_children:
  assumes "m pre = None" "ls \<noteq> []"
  shows "sub_paths_run pre ls m =
    (map (\<lambda>(l0, l). map (\<lambda>p. pre @ ''/'' @ p) (filter (\<lambda>p. p \<notin> l0) l)) (zip ({} # map set ls) ls),
     m(pre \<mapsto> set (last ls)))"
proof (cases ls)
  case (Cons l rest)
  then show ?thesis using assms sub_paths_run_from [of "m(pre \<mapsto> set l)" pre "set l" rest]
    by (auto simp: sub_paths_cb_def)
qed (use assms in simp)

text \<open>
  A child that is deleted and created again between two lists is not monitored any more.
  Its data watch reports the deletion and ends, and the next list, which contains the child again,
  starts no monitor for it because the list before contained it too.
\<close>

theorem sub_path_recreated_child_unmonitored:
  assumes "m pre = Some old" "p \<in> old"
  shows "wget_wfn ZOO_DELETED_EVENT (pre @ ''/'' @ p) d = Wget_deleted (ZNONODE, ZOO_DELETED_EVENT, pre @ ''/'' @ p, None) \<and>
    monitor_cb (ZNONODE, ZOO_DELETED_EVENT, pre @ ''/'' @ p, None) = [(del, pre @ ''/'' @ p, None)] \<and>
    pre @ ''/'' @ p \<notin> set (fst (sub_paths_cb pre ZOK l m))"
  using assms by (auto simp: wget_wfn_def monitor_cb_def sub_paths_cb_def)

section \<open>The session, and setting the watches again\<close>

text \<open>
  The state of the object: the flags of \<^verbatim>\<open>cppzk\<close> and the records of \<^verbatim>\<open>config_monitor\<close>. A hash map is a list
  of its entries, in the order in which a loop visits them. \<^verbatim>\<open>calls\<close> lists the calls into the client.
\<close>

datatype client_call = Close_handle | Init_handle | Exists_watch string | Exists_sub_watch string | Probe string

record 'cb monitor_state =
  is_connected :: bool
  need_detect :: bool
  session_timeout_ms :: int
  last_sub_path :: "(string \<times> string set) list"
  watch_record :: "(string \<times> 'cb) list"
  watch_sub_record :: "(string \<times> 'cb) list"
  calls :: "client_call list"

fun put :: "'k \<Rightarrow> 'v \<Rightarrow> ('k \<times> 'v) list \<Rightarrow> ('k \<times> 'v) list" where
  "put k v [] = [(k, v)]"
| "put k v ((k', v') # kvs) = (if k = k' then (k, v) # kvs else (k', v') # put k v kvs)"

definition emit :: "client_call \<Rightarrow> 'cb monitor_state \<Rightarrow> 'cb monitor_state" where
  "emit c st = st\<lparr> calls := calls st @ [c] \<rparr>"

definition session_watcher :: "int \<Rightarrow> int \<Rightarrow> 'cb monitor_state \<Rightarrow> 'cb monitor_state" where
  "session_watcher ty state self =
     (if state = ZOO_CONNECTED_STATE \<and> ty = ZOO_SESSION_EVENT then self\<lparr> is_connected := True \<rparr>
      else if state = ZOO_EXPIRED_SESSION_STATE \<and> ty = ZOO_SESSION_EVENT
      then self\<lparr> need_detect := False, is_connected := False \<rparr> else self)"

text \<open>
  Waiting for the connection: the events that arrive meanwhile, until the flag is set; \<^verbatim>\<open>None\<close> when it
  never is.
\<close>

fun wait_connected :: "(int \<times> int) list \<Rightarrow> 'cb monitor_state \<Rightarrow> 'cb monitor_state option" where
  "wait_connected [] st = (if is_connected st then Some st else None)"
| "wait_connected ((ty, state) # evs) st =
     (if is_connected st then Some st else wait_connected evs (session_watcher ty state st))"

record connect_args =
  ca_schema :: string
  ca_credential :: string
  ca_init_ok :: bool
  ca_auth_rc :: int
  ca_recv_timeout :: int

definition connect_server ::
  "connect_args \<Rightarrow> (int \<times> int) list \<Rightarrow> 'cb monitor_state \<Rightarrow> (cpp_exn + 'cb monitor_state) option" where
  "connect_server a evs st =
     (if \<not> ca_init_ok a then Some (Inl (Runtime_error ''zookeeper_init error''))
      else Option.bind (wait_connected evs (emit Init_handle st)) (\<lambda>st1.
        if ca_schema a \<noteq> [] \<and> ca_credential a \<noteq> [] \<and> ca_auth_rc a \<noteq> ZOK
        then Some (Inl (Runtime_error ''zoo_add_auth error: ''))
        else Some (Inr (st1\<lparr> need_detect := True, session_timeout_ms := ca_recv_timeout a \<rparr>))))"

definition watch_path :: "string \<Rightarrow> 'cb \<Rightarrow> 'cb monitor_state \<Rightarrow> 'cb monitor_state" where
  "watch_path path callback st =
     emit (Exists_watch path) (st\<lparr> watch_record := put path callback (watch_record st) \<rparr>)"

definition watch_sub_path :: "string \<Rightarrow> 'cb \<Rightarrow> 'cb monitor_state \<Rightarrow> 'cb monitor_state" where
  "watch_sub_path path callback st =
     emit (Exists_sub_watch path) (st\<lparr> watch_sub_record := put path callback (watch_sub_record st) \<rparr>)"

definition expired_cb ::
  "connect_args \<Rightarrow> (int \<times> int) list \<Rightarrow> 'cb monitor_state \<Rightarrow> (cpp_exn + 'cb monitor_state) option" where
  "expired_cb a evs st =
     Option.bind (connect_server a evs ((emit Close_handle st)\<lparr> last_sub_path := [] \<rparr>)) (\<lambda>r.
       case r of Inl e \<Rightarrow> Some (Inl e)
       | Inr st1 \<Rightarrow>
           let moved = watch_record st1; moved_sub = watch_sub_record st1;
               st2 = st1\<lparr> watch_record := [], watch_sub_record := [] \<rparr>
           in Some (Inr (fold (\<lambda>(p, cb). watch_sub_path p cb) moved_sub
                     (fold (\<lambda>(p, cb). watch_path p cb) moved st2))))"

text \<open>One round of the thread that looks after the session.\<close>

definition detect_expired_session ::
  "connect_args \<Rightarrow> (int \<times> int) list \<Rightarrow> 'cb monitor_state \<Rightarrow> (cpp_exn + 'cb monitor_state) option" where
  "detect_expired_session a evs st =
     (let st1 = (if need_detect st then emit (Probe ''/zookeeper'') st else st) in
      if \<not> is_connected st1 then expired_cb a evs st1 else Some (Inr st1))"

text \<open>Removing the watches of a path: the completion of the requests takes the path out of the records.\<close>

definition remove_watches_completion :: "bool \<Rightarrow> string \<Rightarrow> 'cb monitor_state \<Rightarrow> 'cb monitor_state" where
  "remove_watches_completion sub p st =
     (if \<not> sub then st\<lparr> watch_record := filter (\<lambda>kv. fst kv \<noteq> p) (watch_record st) \<rparr>
      else st\<lparr> last_sub_path := filter (\<lambda>kv. fst kv \<noteq> p) (last_sub_path st),
               watch_sub_record := filter (\<lambda>kv. fst kv \<noteq> p) (watch_sub_record st) \<rparr>)"

lemma put_new: "k \<notin> fst ` set kvs \<Longrightarrow> put k v kvs = kvs @ [(k, v)]"
  by (induction kvs) auto

lemma map_of_put: "map_of (put k v kvs) = (map_of kvs)(k \<mapsto> v)"
  by (induction kvs) (auto simp: fun_eq_iff)

lemma fold_watch_path:
  "distinct (map fst (watch_record st @ kvs)) \<Longrightarrow> fold (\<lambda>(p, cb). watch_path p cb) kvs st =
    st\<lparr> watch_record := watch_record st @ kvs, calls := calls st @ map (\<lambda>kv. Exists_watch (fst kv)) kvs \<rparr>"
  by (induction kvs arbitrary: st) (auto simp: watch_path_def emit_def put_new)

lemma fold_watch_sub_path:
  "distinct (map fst (watch_sub_record st @ kvs)) \<Longrightarrow> fold (\<lambda>(p, cb). watch_sub_path p cb) kvs st =
    st\<lparr> watch_sub_record := watch_sub_record st @ kvs, calls := calls st @ map (\<lambda>kv. Exists_sub_watch (fst kv)) kvs \<rparr>"
  by (induction kvs arbitrary: st) (auto simp: watch_sub_path_def emit_def put_new)

lemma session_watcher_keeps [simp]:
  "watch_record (session_watcher ty state st) = watch_record st"
  "watch_sub_record (session_watcher ty state st) = watch_sub_record st"
  "last_sub_path (session_watcher ty state st) = last_sub_path st" "calls (session_watcher ty state st) = calls st"
  by (simp_all add: session_watcher_def)

lemma wait_connected_keeps:
  "wait_connected evs st = Some st' \<Longrightarrow> is_connected st' \<and> watch_record st' = watch_record st \<and>
    watch_sub_record st' = watch_sub_record st \<and> last_sub_path st' = last_sub_path st \<and> calls st' = calls st"
  by (induction evs st rule: wait_connected.induct) (auto split: if_splits)

lemma wait_connected_ends:
  "(ZOO_SESSION_EVENT, ZOO_CONNECTED_STATE) \<in> set evs \<Longrightarrow> \<exists>st'. wait_connected evs st = Some st'"
proof (induction evs arbitrary: st)
  case (Cons ev evs)
  show ?case
  proof (cases "ev = (ZOO_SESSION_EVENT, ZOO_CONNECTED_STATE)")
    case True
    then show ?thesis by (cases evs) (auto simp: session_watcher_def)
  next
    case False
    then show ?thesis using Cons by (cases ev) auto
  qed
qed simp

text \<open>
  Property C21: an expired session is replaced with all its watches. When the session has expired and
  the new handle reports its connection, the round of the detecting thread returns: the old handle is
  closed before the new one is opened, the object is connected again, every watch that was recorded
  is requested exactly once on the new handle, its callback stays recorded, and the remembered
  children are forgotten, so that all children are monitored anew.
\<close>

theorem expiry_restores_watches:
  assumes "distinct (map fst (watch_record st))" "distinct (map fst (watch_sub_record st))"
    and "ca_init_ok a" "ca_auth_rc a = ZOK" "(ZOO_SESSION_EVENT, ZOO_CONNECTED_STATE) \<in> set evs"
  shows "\<exists>st'. detect_expired_session a evs (session_watcher ZOO_SESSION_EVENT ZOO_EXPIRED_SESSION_STATE st) = Some (Inr st') \<and>
    is_connected st' \<and> need_detect st' \<and> last_sub_path st' = [] \<and>
    watch_record st' = watch_record st \<and> watch_sub_record st' = watch_sub_record st \<and>
    calls st' = calls st @ [Close_handle, Init_handle] @
      map (\<lambda>kv. Exists_watch (fst kv)) (watch_record st) @ map (\<lambda>kv. Exists_sub_watch (fst kv)) (watch_sub_record st)"
proof -
  let ?st = "session_watcher ZOO_SESSION_EVENT ZOO_EXPIRED_SESSION_STATE st"
  let ?st1 = "emit Init_handle ((emit Close_handle ?st)\<lparr> last_sub_path := [] \<rparr>)"
  obtain st2 where w: "wait_connected evs ?st1 = Some st2" using wait_connected_ends [OF assms(5)] by blast
  have k: "is_connected st2" "watch_record st2 = watch_record st" "watch_sub_record st2 = watch_sub_record st"
    "last_sub_path st2 = []" "calls st2 = calls st @ [Close_handle, Init_handle]"
    using wait_connected_keeps [OF w] by (auto simp: emit_def)
  have down: "\<not> is_connected ?st" "\<not> need_detect ?st" by (simp_all add: session_watcher_def)
  show ?thesis using assms(1-4) w k down
    by (auto simp: detect_expired_session_def expired_cb_def connect_server_def fold_watch_path fold_watch_sub_path Let_def)
qed

text \<open>
  Without an expired session the records and the watches are left alone: as long as the
  events are not that of an expired session, the round of the detecting thread only probes the server.
\<close>

theorem no_expiry_no_reset:
  assumes "is_connected st" "\<forall>(ty, state) \<in> set evs. state \<noteq> ZOO_EXPIRED_SESSION_STATE"
  shows "\<exists>probe. detect_expired_session a evs' (fold (\<lambda>(ty, state). session_watcher ty state) evs st) =
    Some (Inr (st\<lparr> calls := calls st @ probe \<rparr>)) \<and> set probe \<subseteq> {Probe ''/zookeeper''}"
proof -
  have one: "session_watcher ty state st = st" if "state \<noteq> ZOO_EXPIRED_SESSION_STATE" for ty state
    using assms(1) that by (cases st) (simp add: session_watcher_def)
  have "fold (\<lambda>(ty, state). session_watcher ty state) evs st = st"
    using assms(2) by (induction evs) (auto simp: one)
  then show ?thesis using assms(1)
    by (cases "need_detect st") (auto simp: detect_expired_session_def emit_def Let_def intro: exI [of _ "[]"])
qed

section \<open>Witnesses\<close>

text \<open>A server of one node that satisfies the contract: the node and the watch.\<close>

definition one_node :: "(string option option \<times> bool) node_server" where
  "one_node = \<lparr> n_value = fst, n_armed = snd,
     n_exists = (\<lambda>(v, a). (if v = None then ZNONODE else ZOK, (v, True))),
     n_get = (\<lambda>(v, a). (if v = None then ZNONODE else ZOK, case v of None \<Rightarrow> None | Some d \<Rightarrow> d, (v, a))),
     n_write = (\<lambda>w (v, a). (if a then write_event v w else None, (w, a \<and> write_event v w = None))) \<rparr>"

lemma one_node_contract: "node_contract one_node"
  by (auto simp: node_contract_def one_node_def split: option.splits)





theorem watch_path_misses_delete_witness:
  "\<exists>sys. watch_reach one_node sys \<and> quiet sys \<and> n_value one_node (srv sys) = None \<and> told sys = [(changed, Some ''x'')]"
  using watch_path_misses_delete [OF one_node_contract, of "(Some (Some ''x''), False)" "Some ''x''"]
  by (simp add: one_node_def)

theorem watch_path_misses_recreation_witness:
  "\<exists>sys. watch_reach one_node sys \<and> quiet sys \<and> n_value one_node (srv sys) = Some (Some ''y'') \<and>
    told sys = [(changed, Some ''x'')]"
  using watch_path_misses_recreation [OF one_node_contract, of "(Some (Some ''x''), False)" "Some ''x''" "Some ''y''"]
  by (simp add: one_node_def)


theorem sub_path_monitors_new_children_witness:
  "sub_paths_run ''/s'' [[''a''], [''b'', ''a''], [''b'']] Map.empty =
    ([[''/s/a''], [''/s/b''], []], [''/s'' \<mapsto> {''b''}])"
  using sub_path_monitors_new_children [of Map.empty "''/s''" "[[''a''], [''b'', ''a''], [''b'']]"] by simp

theorem sub_path_recreated_child_unmonitored_witness:
  "wget_wfn ZOO_DELETED_EVENT ''/s/a'' \<lparr> wud_eve = 0, wud_path = ''/s/a'' \<rparr> =
      Wget_deleted (ZNONODE, ZOO_DELETED_EVENT, ''/s/a'', None) \<and>
    monitor_cb (ZNONODE, ZOO_DELETED_EVENT, ''/s/a'', None) = [(del, ''/s/a'', None)] \<and>
    ''/s/a'' \<notin> set (fst (sub_paths_cb ''/s'' ZOK [''a''] [''/s'' \<mapsto> {''a''}]))"
  using sub_path_recreated_child_unmonitored [of "[''/s'' \<mapsto> {''a''}]" "''/s''" "{''a''}" "''a''"
      "\<lparr> wud_eve = 0, wud_path = ''/s/a'' \<rparr>" "[''a'']"] by simp

definition example_monitor :: "nat monitor_state" where
  "example_monitor = \<lparr> is_connected = True, need_detect = True, session_timeout_ms = 3000, last_sub_path = [(''/s'', {''a''})],
     watch_record = [(''/a'', 1), (''/b'', 2)], watch_sub_record = [(''/s'', 3)], calls = [] \<rparr>"

definition example_args :: connect_args where
  "example_args = \<lparr> ca_schema = [], ca_credential = [], ca_init_ok = True, ca_auth_rc = ZOK, ca_recv_timeout = 3000 \<rparr>"

theorem expiry_restores_watches_witness:
  "\<exists>st'. detect_expired_session example_args [(ZOO_SESSION_EVENT, ZOO_CONNECTED_STATE)]
      (session_watcher ZOO_SESSION_EVENT ZOO_EXPIRED_SESSION_STATE example_monitor) = Some (Inr st') \<and>
    calls st' = [Close_handle, Init_handle, Exists_watch ''/a'', Exists_watch ''/b'', Exists_sub_watch ''/s'']"
  using expiry_restores_watches [of example_monitor example_args "[(ZOO_SESSION_EVENT, ZOO_CONNECTED_STATE)]"]
  by (auto simp: example_monitor_def example_args_def)

theorem no_expiry_no_reset_witness:
  "\<exists>probe. detect_expired_session example_args [] (fold (\<lambda>(ty, state). session_watcher ty state)
      [(ZOO_SESSION_EVENT, ZOO_CONNECTING_STATE)] example_monitor) =
    Some (Inr (example_monitor\<lparr> calls := calls example_monitor @ probe \<rparr>)) \<and> set probe \<subseteq> {Probe ''/zookeeper''}"
  by (rule no_expiry_no_reset) (simp_all add: example_monitor_def)

end
