(* ===== verification/Local_File.thy ===== *)
theory Local_File
  imports Cppzk
begin

text \<open>
  The file based provider \<^verbatim>\<open>loc::loc_file\<close> (\<^verbatim>\<open>src/src/local_file\<close>): a thread runs queued tasks and polls
  the files that are monitored. The file system is a list of paths with their entries, in the order in
  which a directory is listed; the state of the object has its six maps and the task queue; callbacks
  are names, and their calls are collected in order.

  One round of the thread is a function; other processes change the files between rounds.
\<close>

section \<open>Vocabulary (local\_file\_declare.hpp)\<close>

datatype file_error = ok | not_exist | already_exist | already_used

datatype file_event = dummy_event | created_event | deleted_event | changed_event | child_event

definition persistent_with_ttl :: int where [simp]: "persistent_with_ttl = 5"

definition persistent_sequential_with_ttl :: int where [simp]: "persistent_sequential_with_ttl = 6"

fun message :: "file_error \<Rightarrow> string" where
  "message ok = ''ok''"
| "message not_exist = ''file not exist''"
| "message already_exist = ''file already_exist''"
| "message _ = ''unrecognized error''"

section \<open>Files\<close>

text \<open>A regular file has its bytes and the time of its last change. Every existing file can be opened.\<close>

datatype entry = Regular string int | Directory

type_synonym files = "(string \<times> entry) list"

fun set_entry :: "string \<Rightarrow> entry \<Rightarrow> files \<Rightarrow> files" where
  "set_entry p e [] = [(p, e)]"
| "set_entry p e ((q, e') # fs) = (if p = q then (q, e) # fs else (q, e') # set_entry p e fs)"

definition exists :: "files \<Rightarrow> string \<Rightarrow> bool" where
  "exists fs p \<longleftrightarrow> map_of fs p \<noteq> None"

definition strip_slashes :: "string \<Rightarrow> string" where
  "strip_slashes s = rev (dropWhile (\<lambda>c. c = CHR ''/'') (rev s))"

definition fs_parent_path :: "string \<Rightarrow> string" where
  "fs_parent_path p = (case find_last_of p (CHR ''/'') of None \<Rightarrow> []
     | Some i \<Rightarrow> let q = strip_slashes (take i p) in if q = [] then ''/'' else q)"

text \<open>The exceptions that end the thread: an error of the file system, a call of an empty function.\<close>

datatype loc_exn = Filesystem_error | Bad_function_call

function create_directories :: "files \<Rightarrow> string \<Rightarrow> loc_exn + files" where
  "create_directories fs p =
     (if p = [] then Inl Filesystem_error
      else case map_of fs p of
        Some Directory \<Rightarrow> Inr fs
      | Some (Regular _ _) \<Rightarrow> Inl Filesystem_error
      | None \<Rightarrow>
          if length (fs_parent_path p) < length p then
            (if fs_parent_path p = [] then Inr (set_entry p Directory fs)
             else case create_directories fs (fs_parent_path p) of Inl e \<Rightarrow> Inl e
               | Inr fs' \<Rightarrow> Inr (set_entry p Directory fs'))
          else Inr (set_entry p Directory fs))"
  by pat_completeness auto
termination
  by (relation "measure (\<lambda>(_, p). length p)") auto

declare create_directories.simps [simp del]

text \<open>\<^verbatim>\<open>file_size\<close> of a directory throws. A file is created only in a directory that exists.\<close>

definition get_file_value :: "files \<Rightarrow> string \<Rightarrow> loc_exn + file_error \<times> string" where
  "get_file_value fs p =
     (case map_of fs p of None \<Rightarrow> Inr (not_exist, [])
      | Some Directory \<Rightarrow> Inl Filesystem_error
      | Some (Regular v _) \<Rightarrow> Inr (ok, v))"

definition can_create :: "files \<Rightarrow> string \<Rightarrow> bool" where
  "can_create fs p \<longleftrightarrow>
     (case map_of fs p of Some Directory \<Rightarrow> False | Some (Regular _ _) \<Rightarrow> True
      | None \<Rightarrow> fs_parent_path p = [] \<or> map_of fs (fs_parent_path p) = Some Directory)"

definition set_file_value :: "int \<Rightarrow> files \<Rightarrow> string \<Rightarrow> string \<Rightarrow> file_error \<times> files" where
  "set_file_value now fs p v =
     (if can_create fs p then (ok, set_entry p (Regular v now) fs) else (not_exist, fs))"

text \<open>The time of a directory is a parameter of the file system that the model sets to 0.\<close>

definition file_modify_time :: "files \<Rightarrow> string \<Rightarrow> file_error \<times> int" where
  "file_modify_time fs p =
     (case map_of fs p of None \<Rightarrow> (not_exist, 0) | Some Directory \<Rightarrow> (ok, 0) | Some (Regular _ t) \<Rightarrow> (ok, t))"

definition get_path_children :: "files \<Rightarrow> string \<Rightarrow> string list" where
  "get_path_children fs p =
     (if map_of fs p \<noteq> Some Directory then []
      else map (\<lambda>q. drop (Suc (length p)) (fst q))
        (filter (\<lambda>q. is_below p (fst q) \<and> CHR ''/'' \<notin> set (drop (Suc (length p)) (fst q)) \<and> snd q \<noteq> Directory) fs))"

section \<open>The object\<close>

datatype 'cb call =
    Op_call 'cb file_error
  | Create_call 'cb file_error string
  | Exists_call 'cb file_error file_event
  | Get_call 'cb file_error "string option"
  | Children_call 'cb file_error file_event "string list"

datatype 'cb task =
    Create_task string string 'cb
  | Delete_task string 'cb
  | Set_task string string 'cb
  | Call_task "'cb call"
  | Remove_task string int 'cb

record 'cb loc_file =
  last_existed_status :: "(string \<times> bool) list"
  monitor_exist_path :: "(string \<times> 'cb) list"
  last_changed_time :: "(string \<times> int) list"
  monitor_get_path :: "(string \<times> 'cb) list"
  last_path_children :: "(string \<times> string list) list"
  monitor_sub_path :: "(string \<times> 'cb) list"
  task_queue :: "'cb task list"

text \<open>Operations of a hash map: \<^verbatim>\<open>emplace\<close> keeps a present entry, \<^verbatim>\<open>operator[]\<close> assigns, \<^verbatim>\<open>erase\<close> removes.\<close>

definition emplace :: "'k \<Rightarrow> 'v \<Rightarrow> ('k \<times> 'v) list \<Rightarrow> ('k \<times> 'v) list" where
  "emplace k v m = (if map_of m k = None then m @ [(k, v)] else m)"

fun assign :: "'k \<Rightarrow> 'v \<Rightarrow> ('k \<times> 'v) list \<Rightarrow> ('k \<times> 'v) list" where
  "assign k v [] = [(k, v)]"
| "assign k v ((k', v') # m) = (if k = k' then (k, v) # m else (k', v') # assign k v m)"

definition erase :: "'k \<Rightarrow> ('k \<times> 'v) list \<Rightarrow> ('k \<times> 'v) list" where
  "erase k m = filter (\<lambda>kv. fst kv \<noteq> k) m"

definition add_task :: "'cb task \<Rightarrow> 'cb loc_file \<Rightarrow> 'cb loc_file" where
  "add_task t st = st\<lparr> task_queue := task_queue st @ [t] \<rparr>"

definition remove_monitor_get_path :: "string \<Rightarrow> 'cb loc_file \<Rightarrow> 'cb loc_file" where
  "remove_monitor_get_path p st =
     st\<lparr> last_changed_time := erase p (last_changed_time st), monitor_get_path := erase p (monitor_get_path st) \<rparr>"

definition remove_monitor_exist_path :: "string \<Rightarrow> 'cb loc_file \<Rightarrow> 'cb loc_file" where
  "remove_monitor_exist_path p st =
     st\<lparr> last_existed_status := erase p (last_existed_status st), monitor_exist_path := erase p (monitor_exist_path st) \<rparr>"

definition remove_monitor_sub_path :: "string \<Rightarrow> 'cb loc_file \<Rightarrow> 'cb loc_file" where
  "remove_monitor_sub_path p st =
     st\<lparr> last_path_children := erase p (last_path_children st), monitor_sub_path := erase p (monitor_sub_path st) \<rparr>"

definition update_last_existed_status :: "string \<Rightarrow> bool \<Rightarrow> 'cb loc_file \<Rightarrow> 'cb loc_file" where
  "update_last_existed_status p b st = st\<lparr> last_existed_status := assign p b (last_existed_status st) \<rparr>"

definition update_last_changed_time :: "string \<Rightarrow> int \<Rightarrow> 'cb loc_file \<Rightarrow> 'cb loc_file" where
  "update_last_changed_time p t st = st\<lparr> last_changed_time := assign p t (last_changed_time st) \<rparr>"

definition updata_path_children :: "string \<Rightarrow> string list \<Rightarrow> 'cb loc_file \<Rightarrow> 'cb loc_file" where
  "updata_path_children p c st = st\<lparr> last_path_children := assign p c (last_path_children st) \<rparr>"

subsection \<open>Calls from other threads\<close>

definition create_path_file :: "string \<Rightarrow> string \<Rightarrow> int \<Rightarrow> 'cb \<Rightarrow> int \<Rightarrow> 'cb loc_file \<Rightarrow> cpp_exn + 'cb loc_file" where
  "create_path_file path val mode ccb ttl st =
     (let enable_ttl = (mode = persistent_sequential_with_ttl \<or> mode = persistent_with_ttl) in
      if enable_ttl \<and> ttl < 0 then Inl (Runtime_error ''enable_ttl, ttl must > 0'')
      else Inr (add_task (Create_task path val ccb) st))"

definition delete_path_file :: "string \<Rightarrow> 'cb \<Rightarrow> 'cb loc_file \<Rightarrow> 'cb loc_file" where
  "delete_path_file path dcb = add_task (Delete_task path dcb)"

definition set_path_value_file :: "string \<Rightarrow> string \<Rightarrow> 'cb \<Rightarrow> 'cb loc_file \<Rightarrow> 'cb loc_file" where
  "set_path_value_file path val scb = add_task (Set_task path val scb)"

definition exists_path :: "files \<Rightarrow> string \<Rightarrow> 'cb \<Rightarrow> 'cb loc_file \<Rightarrow> 'cb loc_file" where
  "exists_path fs path ecb st =
     (let existed = exists fs path;
          st1 = add_task (Call_task (Exists_call ecb (if existed then ok else not_exist) dummy_event)) st
      in st1\<lparr> monitor_exist_path := emplace path ecb (monitor_exist_path st1),
              last_existed_status := emplace path existed (last_existed_status st1) \<rparr>)"

definition get_path_value_file :: "files \<Rightarrow> string \<Rightarrow> 'cb \<Rightarrow> 'cb loc_file \<Rightarrow> loc_exn + 'cb loc_file" where
  "get_path_value_file fs path gcb st =
     (case get_file_value fs path of Inl e \<Rightarrow> Inl e
      | Inr (err, val) \<Rightarrow>
          if err \<noteq> ok then Inr (add_task (Call_task (Get_call gcb not_exist None)) st)
          else let st1 = add_task (Call_task (Get_call gcb ok (Some val))) st;
                   timestamp = snd (file_modify_time fs path)
               in Inr (st1\<lparr> monitor_get_path := emplace path gcb (monitor_get_path st1),
                           last_changed_time := emplace path timestamp (last_changed_time st1) \<rparr>))"

definition get_sub_path_file :: "files \<Rightarrow> string \<Rightarrow> 'cb \<Rightarrow> 'cb loc_file \<Rightarrow> 'cb loc_file" where
  "get_sub_path_file fs path gccb st =
     (if \<not> exists fs path then add_task (Call_task (Children_call gccb not_exist dummy_event [])) st
      else let children = get_path_children fs path;
               st1 = add_task (Call_task (Children_call gccb ok dummy_event children)) st
           in st1\<lparr> monitor_sub_path := emplace path gccb (monitor_sub_path st1),
                   last_path_children := emplace path children (last_path_children st1) \<rparr>)"

definition remove_watches_file :: "string \<Rightarrow> int \<Rightarrow> 'cb \<Rightarrow> 'cb loc_file \<Rightarrow> 'cb loc_file" where
  "remove_watches_file path watch_type cb = add_task (Remove_task path watch_type cb)"

subsection \<open>Tasks\<close>

text \<open>\<^verbatim>\<open>remove_all\<close> succeeds on every file that exists, with everything below it.\<close>

definition remove_all_files :: "files \<Rightarrow> string \<Rightarrow> files" where
  "remove_all_files fs p = filter (\<lambda>q. fst q \<noteq> p \<and> \<not> is_below p (fst q)) fs"

fun run_task :: "int \<Rightarrow> 'cb task \<Rightarrow> files \<Rightarrow> 'cb loc_file \<Rightarrow> loc_exn + 'cb call \<times> files \<times> 'cb loc_file" where
  "run_task now (Create_task p v cb) fs st =
     (if exists fs p then Inr (Create_call cb already_exist [], fs, st)
      else case create_directories fs (fs_parent_path p) of Inl e \<Rightarrow> Inl e
      | Inr fs1 \<Rightarrow> (case set_file_value now fs1 p v of (err, fs2) \<Rightarrow> Inr (Create_call cb err p, fs2, st)))"
| "run_task now (Delete_task p cb) fs st =
     (if \<not> exists fs p then Inr (Op_call cb not_exist, fs, st)
      else Inr (Op_call cb ok, remove_all_files fs p, st))"
| "run_task now (Set_task p v cb) fs st =
     (if \<not> exists fs p then Inr (Op_call cb not_exist, fs, st)
      else case set_file_value now fs p v of (err, fs1) \<Rightarrow> Inr (Op_call cb err, fs1, st))"
| "run_task now (Call_task c) fs st = Inr (c, fs, st)"
| "run_task now (Remove_task p watch_type cb) fs st =
     Inr (Op_call cb ok, fs,
       if watch_type = 0 then remove_monitor_get_path p (remove_monitor_exist_path p st)
       else fold (\<lambda>child. remove_monitor_get_path (p @ ''/'' @ child)) (get_path_children fs p)
              (remove_monitor_sub_path p (remove_monitor_exist_path p st)))"

fun run_tasks :: "int \<Rightarrow> 'cb task list \<Rightarrow> files \<Rightarrow> 'cb loc_file \<Rightarrow> loc_exn + 'cb call list \<times> files \<times> 'cb loc_file" where
  "run_tasks now [] fs st = Inr ([], fs, st)"
| "run_tasks now (t # ts) fs st =
     (case run_task now t fs st of Inl e \<Rightarrow> Inl e
      | Inr (c, fs1, st1) \<Rightarrow>
          (case run_tasks now ts fs1 st1 of Inl e \<Rightarrow> Inl e
           | Inr (cs, fs2, st2) \<Rightarrow> Inr (c # cs, fs2, st2)))"

subsection \<open>Polling\<close>

fun handle_monitor_exist ::
  "files \<Rightarrow> (string \<times> bool) list \<Rightarrow> (string \<times> 'cb) list \<Rightarrow> 'cb loc_file \<Rightarrow> loc_exn + 'cb call list \<times> 'cb loc_file" where
  "handle_monitor_exist fs [] monitor st = Inr ([], st)"
| "handle_monitor_exist fs ((path, last_status) # rest) monitor st =
     (let this_status = exists fs path in
      if last_status = this_status then handle_monitor_exist fs rest monitor st
      else let st1 = update_last_existed_status path this_status st in
      case map_of monitor path of None \<Rightarrow> Inl Bad_function_call
      | Some cb \<Rightarrow>
          (case handle_monitor_exist fs rest monitor st1 of Inl e \<Rightarrow> Inl e
           | Inr (cs, st2) \<Rightarrow>
               Inr ((if last_status then Exists_call cb not_exist deleted_event else Exists_call cb ok created_event) # cs, st2)))"

fun handle_monitor_get ::
  "files \<Rightarrow> (string \<times> int) list \<Rightarrow> (string \<times> 'cb) list \<Rightarrow> 'cb loc_file \<Rightarrow> loc_exn + 'cb call list \<times> 'cb loc_file" where
  "handle_monitor_get fs [] monitor st = Inr ([], st)"
| "handle_monitor_get fs ((path, last_timestamp) # rest) monitor st =
     (let this_timestamp = snd (file_modify_time fs path) in
      if last_timestamp = this_timestamp then handle_monitor_get fs rest monitor st
      else case get_file_value fs path of Inl e \<Rightarrow> Inl e
      | Inr (err, val) \<Rightarrow>
          (case map_of monitor path of None \<Rightarrow> Inl Bad_function_call
           | Some cb \<Rightarrow>
               let st1 = (if err \<noteq> ok then remove_monitor_get_path path st
                          else update_last_changed_time path this_timestamp st);
                   c = (if err \<noteq> ok then Get_call cb not_exist None else Get_call cb ok (Some val))
               in (case handle_monitor_get fs rest monitor st1 of Inl e \<Rightarrow> Inl e
                   | Inr (cs, st2) \<Rightarrow> Inr (c # cs, st2))))"

fun handle_monitor_sub ::
  "files \<Rightarrow> (string \<times> string list) list \<Rightarrow> (string \<times> 'cb) list \<Rightarrow> 'cb loc_file \<Rightarrow> loc_exn + 'cb call list \<times> 'cb loc_file" where
  "handle_monitor_sub fs [] monitor st = Inr ([], st)"
| "handle_monitor_sub fs ((path, last_children) # rest) monitor st =
     (let this_children = get_path_children fs path in
      if last_children = this_children then handle_monitor_sub fs rest monitor st
      else let st1 = updata_path_children path this_children st in
      case map_of monitor path of None \<Rightarrow> Inl Bad_function_call
      | Some cb \<Rightarrow>
          (case handle_monitor_sub fs rest monitor st1 of Inl e \<Rightarrow> Inl e
           | Inr (cs, st2) \<Rightarrow> Inr (Children_call cb ok child_event this_children # cs, st2)))"

text \<open>
  One round of the thread: the queue and the six maps are copied, the tasks run, and then the copies are polled.
\<close>

definition poll_round :: "int \<Rightarrow> files \<Rightarrow> 'cb loc_file \<Rightarrow> loc_exn + 'cb call list \<times> files \<times> 'cb loc_file" where
  "poll_round now fs st =
     (case run_tasks now (task_queue st) fs (st\<lparr> task_queue := [] \<rparr>) of Inl e \<Rightarrow> Inl e
      | Inr (c0, fs1, st1) \<Rightarrow>
     (case handle_monitor_exist fs1 (last_existed_status st) (monitor_exist_path st) st1 of Inl e \<Rightarrow> Inl e
      | Inr (c1, st2) \<Rightarrow>
     (case handle_monitor_get fs1 (last_changed_time st) (monitor_get_path st) st2 of Inl e \<Rightarrow> Inl e
      | Inr (c2, st3) \<Rightarrow>
     (case handle_monitor_sub fs1 (last_path_children st) (monitor_sub_path st) st3 of Inl e \<Rightarrow> Inl e
      | Inr (c3, st4) \<Rightarrow> Inr (c0 @ c1 @ c2 @ c3, fs1, st4)))))"

section \<open>Creating a file\<close>

lemma map_of_set_entry: "map_of (set_entry p e fs) = (map_of fs)(p \<mapsto> e)"
  by (induction fs) (auto simp: fun_eq_iff)

lemma strip_slashes_length: "length (strip_slashes s) \<le> length s"
  using length_dropWhile_le [of _ "rev s"] by (simp add: strip_slashes_def)

lemma fs_parent_path_length: "length (fs_parent_path p) \<le> length p"
  using strip_slashes_length [of "take i p" for i] find_last_of_Some(1)
  by (fastforce simp: fs_parent_path_def Let_def split: option.splits)

function ancestors :: "string \<Rightarrow> string list" where
  "ancestors p = (if length (fs_parent_path p) < length p \<and> fs_parent_path p \<noteq> []
     then fs_parent_path p # ancestors (fs_parent_path p) else [])"
  by pat_completeness auto
termination
  by (relation "measure length") auto

declare ancestors.simps [simp del]

definition no_file_above :: "files \<Rightarrow> string \<Rightarrow> bool" where
  "no_file_above fs p \<longleftrightarrow> (\<forall>q \<in> set (ancestors p). \<forall>v t. map_of fs q \<noteq> Some (Regular v t))"

lemma create_directories_ok:
  assumes "p \<noteq> []" "\<forall>q \<in> set (p # ancestors p). \<forall>v t. map_of fs q \<noteq> Some (Regular v t)"
  shows "\<exists>fs'. create_directories fs p = Inr fs' \<and> map_of fs' p = Some Directory \<and>
    (\<forall>q. map_of fs q \<noteq> None \<longrightarrow> map_of fs' q = map_of fs q) \<and>
    (\<forall>q. map_of fs' q \<noteq> map_of fs q \<longrightarrow> q \<in> set (p # ancestors p) \<and> map_of fs' q = Some Directory)"
  using assms
proof (induction fs p rule: create_directories.induct)
  case (1 fs p)
  show ?case
  proof (cases "map_of fs p")
    case (Some e)
    then show ?thesis using 1(2,3) by (cases e) (auto simp: create_directories.simps [of fs p])
  next
    case None
    show ?thesis
    proof (cases "length (fs_parent_path p) < length p \<and> fs_parent_path p \<noteq> []")
      case True
      then have anc: "ancestors p = fs_parent_path p # ancestors (fs_parent_path p)" by (simp add: ancestors.simps [of p])
      then obtain fs' where fs': "create_directories fs (fs_parent_path p) = Inr fs'"
          "\<forall>q. map_of fs q \<noteq> None \<longrightarrow> map_of fs' q = map_of fs q"
          "\<forall>q. map_of fs' q \<noteq> map_of fs q \<longrightarrow> q \<in> set (ancestors p) \<and> map_of fs' q = Some Directory"
        using 1(1) [OF 1(2) None] True 1(3) by auto
      then show ?thesis using True 1(2) None by (auto simp: create_directories.simps [of fs p] map_of_set_entry)
    next
      case False
      then show ?thesis using 1(2) None by (auto simp: create_directories.simps [of fs p] map_of_set_entry)
    qed
  qed
qed

text \<open>
  A file that is created can be read. When the path does not exist and no directory
  above it is a regular file, the creation task makes the missing directories, reports success,
  and reading the path then gives the value; the files that existed before are unchanged.
\<close>

theorem create_file_roundtrip:
  assumes "\<not> exists fs p" "fs_parent_path p \<noteq> []" "length (fs_parent_path p) < length p" "no_file_above fs p"
  shows "\<exists>fs'. run_task now (Create_task p v cb) fs st = Inr (Create_call cb ok p, fs', st) \<and>
    get_file_value fs' p = Inr (ok, v) \<and> map_of fs' (fs_parent_path p) = Some Directory \<and>
    (\<forall>q. map_of fs q \<noteq> None \<longrightarrow> map_of fs' q = map_of fs q)"
proof -
  have anc: "ancestors p = fs_parent_path p # ancestors (fs_parent_path p)"
    using assms(2,3) by (simp add: ancestors.simps [of p])
  have up: "q \<in> set (ancestors r) \<Longrightarrow> length q < length r" for q r
    by (induction r rule: ancestors.induct) (subst (asm) (2) ancestors.simps, auto split: if_splits)
  obtain fs1 where fs1: "create_directories fs (fs_parent_path p) = Inr fs1" "map_of fs1 (fs_parent_path p) = Some Directory"
      "\<forall>q. map_of fs q \<noteq> None \<longrightarrow> map_of fs1 q = map_of fs q"
      "\<forall>q. map_of fs1 q \<noteq> map_of fs q \<longrightarrow> q \<in> set (ancestors p)"
    using create_directories_ok [OF assms(2), of fs] assms(4) anc by (auto simp: no_file_above_def)
  have none: "map_of fs p = None" using assms(1) by (simp add: exists_def)
  then have "map_of fs1 p = None" using fs1(4) up [of p p] by (cases "map_of fs1 p") force+
  then have "set_file_value now fs1 p v = (ok, set_entry p (Regular v now) fs1)"
    using fs1(2) by (simp add: set_file_value_def can_create_def)
  moreover have "fs_parent_path p \<noteq> p" using assms(3) by auto
  ultimately show ?thesis using assms(1) fs1 none by (auto simp: get_file_value_def map_of_set_entry)
qed

section \<open>The monitors\<close>

text \<open>
  The maps of last states and of callbacks belong together: the same paths, each once.
\<close>

definition paired :: "(string \<times> 'a) list \<Rightarrow> (string \<times> 'b) list \<Rightarrow> bool" where
  "paired m n \<longleftrightarrow> distinct (map fst m) \<and> distinct (map fst n) \<and> fst ` set m = fst ` set n"

definition loc_wf :: "'cb loc_file \<Rightarrow> bool" where
  "loc_wf st \<longleftrightarrow> paired (last_existed_status st) (monitor_exist_path st) \<and>
     paired (last_changed_time st) (monitor_get_path st) \<and> paired (last_path_children st) (monitor_sub_path st)"

lemma map_of_None_keys: "map_of m k = None \<longleftrightarrow> k \<notin> fst ` set m"
  by (simp add: map_of_eq_None_iff)

lemma paired_emplace: "paired m n \<Longrightarrow> paired (emplace k v m) (emplace k w n)"
  by (auto simp: paired_def emplace_def map_of_None_keys)

lemma paired_erase: "paired m n \<Longrightarrow> paired (erase k m) (erase k n)"
  by (auto simp: paired_def erase_def distinct_map_filter image_iff)

lemma keys_erase: "fst ` set (erase k m) = fst ` set m - {k}"
  by (auto simp: erase_def)

lemma keys_assign: "k \<in> fst ` set m \<Longrightarrow> map fst (assign k v m) = map fst m"
  by (induction m) force+

lemma paired_assign: "paired m n \<Longrightarrow> k \<in> fst ` set m \<Longrightarrow> paired (assign k v m) n"
  unfolding paired_def using keys_assign [of k m v] by (metis list.set_map)

lemma assign_middle: "k \<notin> fst ` set xs \<Longrightarrow> assign k v (xs @ (k, w) # ys) = xs @ (k, v) # ys"
  by (induction xs) auto

text \<open>The calls that keep the maps paired, from other threads and in tasks.\<close>

lemma loc_wf_calls [wf_intros]:
  "loc_wf st \<Longrightarrow> loc_wf (add_task t st)"
  "loc_wf st \<Longrightarrow> loc_wf (exists_path fs p cb st)"
  "loc_wf st \<Longrightarrow> get_path_value_file fs p cb st = Inr st' \<Longrightarrow> loc_wf st'"
  "loc_wf st \<Longrightarrow> loc_wf (get_sub_path_file fs p cb st)"
  "loc_wf st \<Longrightarrow> loc_wf (remove_monitor_get_path p st)"
  "loc_wf st \<Longrightarrow> loc_wf (remove_monitor_exist_path p st)"
  "loc_wf st \<Longrightarrow> loc_wf (remove_monitor_sub_path p st)"
  by (auto simp: loc_wf_def add_task_def exists_path_def get_path_value_file_def get_sub_path_file_def Let_def
      remove_monitor_get_path_def remove_monitor_exist_path_def remove_monitor_sub_path_def
      intro!: paired_emplace paired_erase split: sum.splits if_splits)

lemma handle_monitor_exist_spec:
  assumes "\<forall>k \<in> fst ` set snap. map_of monitor k \<noteq> None" "distinct (map fst snap)" "fst ` set pre \<inter> fst ` set snap = {}"
    "last_existed_status st = pre @ snap"
  shows "handle_monitor_exist fs snap monitor st =
    Inr (map (\<lambda>(p, b). if b then Exists_call (the (map_of monitor p)) not_exist deleted_event
                       else Exists_call (the (map_of monitor p)) ok created_event)
           (filter (\<lambda>(p, b). b \<noteq> exists fs p) snap),
         st\<lparr> last_existed_status := pre @ map (\<lambda>(p, b). (p, exists fs p)) snap \<rparr>)"
  using assms
proof (induction snap arbitrary: pre st)
  case (Cons kv snap)
  obtain p b where kv: "kv = (p, b)" by fastforce
  then obtain cb where cb: "map_of monitor p = Some cb" using Cons.prems(1) by auto
  let ?st = "if b = exists fs p then st else update_last_existed_status p (exists fs p) st"
  have st: "?st = st\<lparr> last_existed_status := (pre @ [(p, exists fs p)]) @ snap \<rparr>"
    using Cons.prems(3,4) kv by (auto simp: update_last_existed_status_def assign_middle)
  have "handle_monitor_exist fs snap monitor ?st =
    Inr (map (\<lambda>(p, b). if b then Exists_call (the (map_of monitor p)) not_exist deleted_event
                       else Exists_call (the (map_of monitor p)) ok created_event)
           (filter (\<lambda>(p, b). b \<noteq> exists fs p) snap),
         ?st\<lparr> last_existed_status := (pre @ [(p, exists fs p)]) @ map (\<lambda>(p, b). (p, exists fs p)) snap \<rparr>)"
    using Cons.prems st kv by (intro Cons.IH) auto
  then show ?case using kv cb st by (auto simp: Let_def split: if_splits)
qed simp

text \<open>
  Polling for existence reports exactly the changes. For every monitored path whose
  existence differs from the remembered one the callback is called once, with the event that
  happened, in order; no other callback is called, and afterwards every path is remembered as it is.
\<close>

theorem exist_monitor_exact:
  assumes "paired (last_existed_status st) (monitor_exist_path st)"
  shows "handle_monitor_exist fs (last_existed_status st) (monitor_exist_path st) st =
    Inr (map (\<lambda>(p, b). if b then Exists_call (the (map_of (monitor_exist_path st) p)) not_exist deleted_event
                       else Exists_call (the (map_of (monitor_exist_path st) p)) ok created_event)
           (filter (\<lambda>(p, b). b \<noteq> exists fs p) (last_existed_status st)),
         st\<lparr> last_existed_status := map (\<lambda>(p, b). (p, exists fs p)) (last_existed_status st) \<rparr>)"
  using handle_monitor_exist_spec [of "last_existed_status st" "monitor_exist_path st" "[]" st fs] assms
  by (auto simp: paired_def map_of_None_keys)

text \<open>What polling the values keeps: the pairing of all maps, and the two other pairs of maps as they are.\<close>

definition get_safe :: "'cb loc_file \<Rightarrow> loc_exn + 'cb call list \<times> 'cb loc_file \<Rightarrow> bool" where
  "get_safe st r \<longleftrightarrow> (case r of Inl e \<Rightarrow> e \<noteq> Bad_function_call
     | Inr (cs, st') \<Rightarrow> loc_wf st' \<and> last_existed_status st' = last_existed_status st \<and>
         monitor_exist_path st' = monitor_exist_path st \<and> last_path_children st' = last_path_children st \<and>
         monitor_sub_path st' = monitor_sub_path st)"

lemma get_safe_Cons: "get_safe st r \<Longrightarrow> get_safe st (case r of Inl e \<Rightarrow> Inl e | Inr (cs, st2) \<Rightarrow> Inr (c # cs, st2))"
  by (auto simp: get_safe_def split: sum.splits)

lemma get_safe_updates [simp]:
  "get_safe (remove_monitor_get_path p st) r \<longleftrightarrow> get_safe st r"
  "get_safe (update_last_changed_time p t st) r \<longleftrightarrow> get_safe st r"
  by (auto simp: get_safe_def remove_monitor_get_path_def update_last_changed_time_def split: sum.split)

lemma handle_monitor_get_safe:
  assumes "\<forall>k \<in> fst ` set snap. map_of monitor k \<noteq> None" "distinct (map fst snap)"
    "fst ` set snap \<subseteq> fst ` set (last_changed_time st)" "loc_wf st"
  shows "get_safe st (handle_monitor_get fs snap monitor st)"
  using assms
proof (induction snap arbitrary: st)
  case (Cons kv snap)
  obtain p t where kv: "kv = (p, t)" by fastforce
  let ?t = "snd (file_modify_time fs p)"
  have del: "loc_wf (remove_monitor_get_path p st)"
    "fst ` set snap \<subseteq> fst ` set (last_changed_time (remove_monitor_get_path p st))"
  proof -
    show "loc_wf (remove_monitor_get_path p st)" using loc_wf_calls(5) Cons.prems(4) .
    have "p \<notin> fst ` set snap" "fst ` set snap \<subseteq> fst ` set (last_changed_time st)" using Cons.prems(2,3) kv by auto
    then show "fst ` set snap \<subseteq> fst ` set (last_changed_time (remove_monitor_get_path p st))"
      by (auto simp: remove_monitor_get_path_def keys_erase simp del: set_map image_subset_iff)
  qed
  have in_t: "p \<in> fst ` set (last_changed_time st)" using Cons.prems(3) kv by auto
  have keys: "fst ` set (assign p ?t (last_changed_time st)) = fst ` set (last_changed_time st)"
    using keys_assign [OF in_t] by (metis list.set_map)
  have upd: "loc_wf (update_last_changed_time p ?t st)"
    "fst ` set snap \<subseteq> fst ` set (last_changed_time (update_last_changed_time p ?t st))"
    using Cons.prems kv in_t keys by (auto simp: loc_wf_def update_last_changed_time_def intro: paired_assign)
  have pre: "\<forall>k \<in> fst ` set snap. map_of monitor k \<noteq> None" "distinct (map fst snap)" "fst ` set snap \<subseteq> fst ` set (last_changed_time st)"
    using Cons.prems kv by auto
  obtain cb where cb: "map_of monitor p = Some cb" using Cons.prems(1) kv by auto
  note ih = Cons.IH [OF pre(1,2) del(2,1)] Cons.IH [OF pre(1,2) upd(2,1)] Cons.IH [OF pre Cons.prems(4)]
  show ?case
  proof (cases "t = ?t")
    case True
    then show ?thesis using ih(3) kv by simp
  next
    case False
    then show ?thesis using get_safe_Cons [OF ih(1) [simplified]] get_safe_Cons [OF ih(2) [simplified]] kv cb
      by (auto simp: get_file_value_def get_safe_def split: option.splits entry.splits)
  qed
qed (simp add: get_safe_def)

lemma handle_monitor_sub_safe:
  assumes "\<forall>k \<in> fst ` set snap. map_of monitor k \<noteq> None"
    "fst ` set snap \<subseteq> fst ` set (last_path_children st)" "loc_wf st"
  shows "\<exists>cs st'. handle_monitor_sub fs snap monitor st = Inr (cs, st') \<and> loc_wf st'"
  using assms
proof (induction snap arbitrary: st)
  case (Cons kv snap)
  obtain p c where kv: "kv = (p, c)" by fastforce
  let ?st = "updata_path_children p (get_path_children fs p) st"
  have in_c: "p \<in> fst ` set (last_path_children st)" using Cons.prems(2) kv by auto
  have "loc_wf ?st" "fst ` set (last_path_children ?st) = fst ` set (last_path_children st)"
    using Cons.prems(3) in_c keys_assign [OF in_c, of "get_path_children fs p"]
    by (auto simp: loc_wf_def updata_path_children_def intro: paired_assign simp flip: set_map)
  then show ?case using Cons.IH [of ?st] Cons.IH [of st] Cons.prems kv by (auto simp: Let_def)
qed simp

fun is_remove :: "'cb task \<Rightarrow> bool" where
  "is_remove (Remove_task _ _ _) = True"
| "is_remove _ = False"

lemma run_tasks_keep:
  assumes "\<forall>t \<in> set ts. \<not> is_remove t"
  shows "run_tasks now ts fs st \<noteq> Inl Bad_function_call \<and>
    (\<forall>cs fs' st'. run_tasks now ts fs st = Inr (cs, fs', st') \<longrightarrow> st' = st)"
  using assms
proof (induction ts arbitrary: fs)
  case (Cons t ts)
  have dirs: "create_directories fs p \<noteq> Inl Bad_function_call" for fs p
    by (induction fs p rule: create_directories.induct)
       (subst create_directories.simps, auto split: option.splits entry.splits sum.splits)
  have "run_task now t fs st \<noteq> Inl Bad_function_call \<and> (\<forall>c fs' st'. run_task now t fs st = Inr (c, fs', st') \<longrightarrow> st' = st)"
    using Cons.prems dirs by (cases t) (auto split: sum.splits prod.splits)
  then show ?case using Cons by (fastforce split: sum.splits)
qed simp

text \<open>
  Property C31: a round calls no empty function and keeps the monitors well formed, as long as no task
  of the round removes a monitor.
\<close>

theorem poll_round_safe:
  assumes "loc_wf st" "\<forall>t \<in> set (task_queue st). \<not> is_remove t"
  shows "poll_round now fs st \<noteq> Inl Bad_function_call \<and>
    (\<forall>cs fs' st'. poll_round now fs st = Inr (cs, fs', st') \<longrightarrow> loc_wf st')"
proof (cases "run_tasks now (task_queue st) fs (st\<lparr> task_queue := [] \<rparr>)")
  case (Inl e)
  then show ?thesis using run_tasks_keep [OF assms(2), of now fs "st\<lparr> task_queue := [] \<rparr>"] by (auto simp: poll_round_def)
next
  case (Inr r)
  then obtain c0 fs1 where r: "r = (c0, fs1, st\<lparr> task_queue := [] \<rparr>)"
    using run_tasks_keep [OF assms(2), of now fs "st\<lparr> task_queue := [] \<rparr>"] by (cases r) auto
  let ?st1 = "st\<lparr> task_queue := [] \<rparr>"
  have ex: "\<forall>k \<in> fst ` set (last_existed_status st). map_of (monitor_exist_path st) k \<noteq> None"
    and gt: "\<forall>k \<in> fst ` set (last_changed_time st). map_of (monitor_get_path st) k \<noteq> None"
    and sb: "\<forall>k \<in> fst ` set (last_path_children st). map_of (monitor_sub_path st) k \<noteq> None"
    and ds: "distinct (map fst (last_existed_status st))" "distinct (map fst (last_changed_time st))"
    using assms(1) by (auto simp: loc_wf_def paired_def map_of_None_keys)
  obtain c1 st2 where h1: "handle_monitor_exist fs1 (last_existed_status st) (monitor_exist_path st) ?st1 = Inr (c1, st2)"
      "st2 = ?st1\<lparr> last_existed_status := map (\<lambda>(p, b). (p, exists fs1 p)) (last_existed_status st) \<rparr>"
    using handle_monitor_exist_spec [OF ex ds(1), of "[]" ?st1 fs1] by auto
  have keys: "map fst (map (\<lambda>(p, b). (p, exists fs1 p)) m) = map fst m" for m :: "(string \<times> bool) list"
    by (induction m) auto
  have "paired (map (\<lambda>(p, b). (p, exists fs1 p)) (last_existed_status st)) (monitor_exist_path st)"
    using assms(1) unfolding loc_wf_def paired_def set_map [symmetric] keys by simp
  then have wf2: "loc_wf st2" using assms(1) h1(2) by (simp add: loc_wf_def)
  have g: "get_safe st2 (handle_monitor_get fs1 (last_changed_time st) (monitor_get_path st) st2)"
    using h1(2) by (intro handle_monitor_get_safe [OF gt ds(2) _ wf2]) simp
  show ?thesis
  proof (cases "handle_monitor_get fs1 (last_changed_time st) (monitor_get_path st) st2")
    case (Inl e)
    then show ?thesis using Inr r h1(1) g by (simp add: poll_round_def get_safe_def)
  next
    case gr: (Inr r2)
    obtain c2 st3 where r2: "r2 = (c2, st3)" by fastforce
    have "loc_wf st3" "last_path_children st3 = last_path_children st"
      using g h1(2) unfolding gr r2 by (simp_all add: get_safe_def)
    then obtain c3 st4 where "handle_monitor_sub fs1 (last_path_children st) (monitor_sub_path st) st3 = Inr (c3, st4)" "loc_wf st4"
      using handle_monitor_sub_safe [OF sb, of st3 fs1] by auto
    then show ?thesis using Inr r h1(1) gr r2 by (simp add: poll_round_def)
  qed
qed

text \<open>
  Removing a monitor can end the process. When the task that removes the monitor of a file
  runs in a round that also finds the file changed, the callback is still called, from the copy of
  the maps, and the time of the file is entered again, without a callback; the next change of the
  file calls an empty function, which is an exception that nobody catches.
\<close>

theorem removed_monitor_crashes:
  assumes "map_of fs p = Some (Regular v t')" "t' \<noteq> t" "map_of fs2 p = Some (Regular w t2)" "t2 \<noteq> t'"
    and "st = \<lparr> last_existed_status = [], monitor_exist_path = [], last_changed_time = [(p, t)], monitor_get_path = [(p, cb)],
               last_path_children = [], monitor_sub_path = [], task_queue = [Remove_task p 0 cb2] \<rparr>"
  shows "\<exists>st'. poll_round now fs st = Inr ([Op_call cb2 ok, Get_call cb ok (Some v)], fs, st') \<and>
    poll_round later fs2 st' = Inl Bad_function_call"
  using assms by (simp add: poll_round_def remove_monitor_get_path_def remove_monitor_exist_path_def erase_def
      file_modify_time_def get_file_value_def update_last_changed_time_def)

section \<open>Witnesses\<close>

definition example_files :: files where
  "example_files = [(''/'', Directory), (''/d'', Directory), (''/d/f'', Regular ''x'' 10)]"

theorem exist_monitor_exact_witness:
  "handle_monitor_exist example_files [(''/d/f'', False), (''/q'', True), (''/d'', True)] [(''/d/f'', 1::nat), (''/q'', 2), (''/d'', 3)]
      \<lparr> last_existed_status = [(''/d/f'', False), (''/q'', True), (''/d'', True)],
        monitor_exist_path = [(''/d/f'', 1), (''/q'', 2), (''/d'', 3)], last_changed_time = [], monitor_get_path = [],
        last_path_children = [], monitor_sub_path = [], task_queue = [] \<rparr> =
    Inr ([Exists_call 1 ok created_event, Exists_call 2 not_exist deleted_event],
      \<lparr> last_existed_status = [(''/d/f'', True), (''/q'', False), (''/d'', True)],
        monitor_exist_path = [(''/d/f'', 1), (''/q'', 2), (''/d'', 3)], last_changed_time = [], monitor_get_path = [],
        last_path_children = [], monitor_sub_path = [], task_queue = [] \<rparr>)"
  using exist_monitor_exact [of "\<lparr> last_existed_status = [(''/d/f'', False), (''/q'', True), (''/d'', True)],
        monitor_exist_path = [(''/d/f'', 1::nat), (''/q'', 2), (''/d'', 3)], last_changed_time = [], monitor_get_path = [],
        last_path_children = [], monitor_sub_path = [], task_queue = [] \<rparr>" example_files]
  by (simp add: paired_def exists_def example_files_def)

definition example_loc :: "nat loc_file" where
  "example_loc = \<lparr> last_existed_status = [(''/d/f'', False)], monitor_exist_path = [(''/d/f'', 1)],
     last_changed_time = [(''/d/f'', 5)], monitor_get_path = [(''/d/f'', 2)],
     last_path_children = [(''/d'', [])], monitor_sub_path = [(''/d'', 3)], task_queue = [Create_task ''/d/g'' ''v'' 4] \<rparr>"

theorem create_file_roundtrip_witness:
  "\<exists>fs'. run_task 20 (Create_task ''/d/e/g'' ''v'' (7::nat)) example_files example_loc =
      Inr (Create_call 7 ok ''/d/e/g'', fs', example_loc) \<and>
    get_file_value fs' ''/d/e/g'' = Inr (ok, ''v'') \<and> map_of fs' ''/d/e'' = Some Directory \<and>
    map_of fs' ''/d/f'' = Some (Regular ''x'' 10)"
proof -
  have "fs_parent_path ''/d/e/g'' = ''/d/e''" "fs_parent_path ''/d/e'' = ''/d''" "fs_parent_path ''/d'' = ''/''"
    "fs_parent_path ''/'' = ''/''"
    by (simp_all add: fs_parent_path_def find_last_of_def strip_slashes_def)
  note parents = this
  have "ancestors ''/d/e/g'' = [''/d/e'', ''/d'', ''/'']"
    by (simp add: ancestors.simps [of "''/d/e/g''"] ancestors.simps [of "''/d/e''"] ancestors.simps [of "''/d''"]
        ancestors.simps [of "''/''"] parents)
  then show ?thesis
    using create_file_roundtrip [of example_files "''/d/e/g''" 20 "''v''" 7 example_loc]
    by (fastforce simp: parents exists_def no_file_above_def example_files_def)
qed

theorem poll_round_safe_witness:
  "case poll_round 20 example_files example_loc of Inl e \<Rightarrow> e \<noteq> Bad_function_call | Inr (cs, fs', st') \<Rightarrow> loc_wf st'"
proof -
  have "loc_wf example_loc" by (simp add: example_loc_def loc_wf_def paired_def)
  moreover have "\<forall>t \<in> set (task_queue example_loc). \<not> is_remove t" by (simp add: example_loc_def)
  ultimately show ?thesis using poll_round_safe [of example_loc 20 example_files]
    by (auto split: sum.splits prod.splits)
qed

theorem removed_monitor_crashes_witness:
  "\<exists>st'. poll_round 20 [(''/f'', Regular ''x'' 10)] \<lparr> last_existed_status = [], monitor_exist_path = [],
        last_changed_time = [(''/f'', 5)], monitor_get_path = [(''/f'', 1::nat)], last_path_children = [],
        monitor_sub_path = [], task_queue = [Remove_task ''/f'' 0 2] \<rparr> =
      Inr ([Op_call 2 ok, Get_call 1 ok (Some ''x'')], [(''/f'', Regular ''x'' 10)], st') \<and>
    poll_round 30 [(''/f'', Regular ''y'' 25)] st' = Inl Bad_function_call"
  by (rule removed_monitor_crashes [of _ _ "''x''" 10 5 _ "''y''" 25]) simp_all

end
