(* ===== verification/Zk_Frame.thy ===== *)
theory Zk_Frame
  imports Jute "HOL-Library.Signed_Division"
begin

text \<open>
  Packets on the connection (\<^verbatim>\<open>zookeeper.c\<close>): a packet is a length of four bytes and that many bytes.
  \<^verbatim>\<open>send_buffer\<close> and \<^verbatim>\<open>recv_buffer\<close> move it through a socket that may take or give any part of it per
  call; the handshake has fixed formats of its own. What the socket does is an argument: the results
  of the calls that are made, in order.

  The lemmas show that the packet arrives complete and exact however it is cut, and the case in which
  the reading of the handshake goes wrong.
\<close>

section \<open>Packets\<close>

record buffer_list =
  bl_buffer :: "byte list option"
  bl_len :: i32
  bl_off :: int

definition sizeof_buffer_list :: int where
  "sizeof_buffer_list = 24"

definition allocate_buffer :: "bool \<Rightarrow> byte list option \<Rightarrow> int \<Rightarrow> buffer_list option" where
  "allocate_buffer ok buff len =
     (if \<not> ok then None
      else Some \<lparr> bl_buffer = buff, bl_len = word_of_int (if len = 0 then sizeof_buffer_list else len), bl_off = 0 \<rparr>)"

text \<open>
  The results of \<^verbatim>\<open>send\<close>: a number of bytes taken, at most those offered; not now; an error. The bytes
  that are on the wire are collected. When no result is left the socket blocks.
\<close>

datatype send_result = Sent nat | Send_again | Send_error

type_synonym wire = "send_result list \<times> byte list"

fun zookeeper_send :: "byte list \<Rightarrow> wire \<Rightarrow> send_result \<times> wire" where
  "zookeeper_send bs ([], out) = (Send_again, ([], out))"
| "zookeeper_send bs (Sent n # rs, out) = (Sent (min n (length bs)), (rs, out @ take n bs))"
| "zookeeper_send bs (r # rs, out) = (r, (rs, out))"

definition send_payload :: "buffer_list \<Rightarrow> wire \<Rightarrow> int \<times> buffer_list \<times> wire" where
  "send_payload buff w =
     (let len = sint (bl_len buff); off = bl_off buff - 4;
          bs = drop (nat off) (case bl_buffer buff of None \<Rightarrow> [] | Some b \<Rightarrow> take (nat len) b)
      in case zookeeper_send bs w of
           (Send_error, w') \<Rightarrow> (-1, buff, w')
         | (Send_again, w') \<Rightarrow> (if bl_off buff = len + 4 then 1 else 0, buff, w')
         | (Sent n, w') \<Rightarrow>
             let buff' = buff\<lparr> bl_off := bl_off buff + int n \<rparr>
             in (if bl_off buff' = len + 4 then 1 else 0, buff', w'))"

definition send_buffer :: "buffer_list \<Rightarrow> wire \<Rightarrow> int \<times> buffer_list \<times> wire" where
  "send_buffer buff w =
     (if bl_off buff < 4 then
        (case zookeeper_send (drop (nat (bl_off buff)) (bytes32 (htonl (bl_len buff)))) w of
           (Send_error, w') \<Rightarrow> (-1, buff, w')
         | (Send_again, w') \<Rightarrow> (0, buff, w')
         | (Sent n, w') \<Rightarrow>
             let buff' = buff\<lparr> bl_off := bl_off buff + int n \<rparr>
             in if bl_off buff' \<ge> 4 then send_payload buff' w'
                else (if bl_off buff' = sint (bl_len buff) + 4 then 1 else 0, buff', w'))
      else send_payload buff w)"

text \<open>
  The results of \<^verbatim>\<open>recv\<close>: some bytes of the stream, of which a call takes at most as many as it asks
  for; no bytes at all are the end of the stream; not now; an error.
\<close>

datatype recv_result = Data "byte list" | Recv_again | Recv_error

fun zookeeper_recv :: "nat \<Rightarrow> recv_result list \<Rightarrow> recv_result \<times> recv_result list" where
  "zookeeper_recv n [] = (Recv_again, [])"
| "zookeeper_recv n (Data bs # rs) =
     (if length bs \<le> n then (Data bs, rs) else (Data (take n bs), Data (drop n bs) # rs))"
| "zookeeper_recv n (r # rs) = (r, rs)"

definition put_bytes :: "byte list \<Rightarrow> nat \<Rightarrow> byte list \<Rightarrow> byte list" where
  "put_bytes old off bs = take off old @ bs @ drop (off + length bs) old"

text \<open>The second half of \<^verbatim>\<open>recv_buffer\<close>; \<^verbatim>\<open>primer\<close> says that the buffer is that of the handshake.\<close>

definition recv_payload ::
  "bool \<Rightarrow> buffer_list \<Rightarrow> recv_result list \<Rightarrow> int \<times> buffer_list \<times> recv_result list" where
  "recv_payload primer buff rs =
     (let full = (\<lambda>b. if bl_off b = sint (bl_len b) + 4 then 1 else 0) in
      case bl_buffer buff of None \<Rightarrow> (full buff, buff, rs)
      | Some b \<Rightarrow>
          let off = bl_off buff - 4; want = sint (bl_len buff) - off in
          (case zookeeper_recv (nat (want mod 2 ^ 64)) rs of
             (Recv_error, rs') \<Rightarrow> (-1, buff, rs')
           | (Recv_again, rs') \<Rightarrow> (full buff, buff, rs')
           | (Data bs, rs') \<Rightarrow>
               let n = int (length bs);
                   rc = (if primer \<and> n = sint (bl_len buff) - 1 then n + 1 else n)
               in if rc = 0 then (-1, buff, rs')
                  else let buff' = buff\<lparr> bl_buffer := Some (put_bytes b (nat off) bs), bl_off := bl_off buff + rc \<rparr>
                       in (full buff', buff', rs')))"

definition recv_buffer ::
  "(int \<Rightarrow> bool) \<Rightarrow> bool \<Rightarrow> buffer_list \<Rightarrow> recv_result list \<Rightarrow> int \<times> buffer_list \<times> recv_result list" where
  "recv_buffer mem primer buff rs =
     (if bl_off buff < 4 then
        (case zookeeper_recv (nat (4 - bl_off buff)) rs of
           (Recv_error, rs') \<Rightarrow> (-1, buff, rs')
         | (Recv_again, rs') \<Rightarrow> (0, buff, rs')
         | (Data bs, rs') \<Rightarrow>
             if bs = [] then (-1, buff, rs')
             else
               let lb = put_bytes (bytes32 (bl_len buff)) (nat (bl_off buff)) bs;
                   buff' = buff\<lparr> bl_len := word32 lb, bl_off := bl_off buff + int (length bs) \<rparr>
               in if bl_off buff' = 4
                  then let len = htonl (bl_len buff');
                           n = sint len mod 2 ^ 64
                       in recv_payload primer
                            (buff'\<lparr> bl_len := len, bl_buffer := (if mem n then Some (replicate (nat n) 0) else None) \<rparr>) rs'
                  else recv_payload primer buff' rs')
      else recv_payload primer buff rs)"

section \<open>Times\<close>

record timeval =
  tv_sec :: int
  tv_usec :: int

text \<open>The interval in milliseconds is converted to \<^verbatim>\<open>int\<close>.\<close>

definition calculate_interval :: "timeval \<Rightarrow> timeval \<Rightarrow> int" where
  "calculate_interval start finish =
     to_int ((tv_sec finish - tv_sec start) * 1000 + (tv_usec finish - tv_usec start) sdiv 1000)"

definition get_timeval :: "int \<Rightarrow> timeval" where
  "get_timeval interval =
     (let i = (if interval < 0 then 0 else interval)
      in \<lparr> tv_sec = i sdiv 1000, tv_usec = (i smod 1000) * 1000 \<rparr>)"

section \<open>The handshake\<close>

record connect_req =
  cr_protocolVersion :: i32
  cr_lastZxidSeen :: i64
  cr_timeOut :: i32
  cr_sessionId :: i64
  cr_passwd_len :: i32
  cr_passwd :: "byte list"
  cr_readOnly :: byte

text \<open>
  The fields are converted in place and copied one behind the other; \<^verbatim>\<open>memcpy\<close> of the password copies
  the 16 bytes of the array.
\<close>

definition serialize_prime_connect :: "connect_req \<Rightarrow> byte list" where
  "serialize_prime_connect req =
     bytes32 (htonl (cr_protocolVersion req)) @ bytes64 (zoo_htonll (cr_lastZxidSeen req)) @
     bytes32 (htonl (cr_timeOut req)) @ bytes64 (zoo_htonll (cr_sessionId req)) @
     bytes32 (htonl (cr_passwd_len req)) @ cr_passwd req @ [cr_readOnly req]"

record prime_struct =
  ps_len :: i32
  ps_protocolVersion :: i32
  ps_timeOut :: i32
  ps_sessionId :: i64
  ps_passwd_len :: i32
  ps_passwd :: "byte list"
  ps_readOnly :: byte

definition field_at :: "nat \<Rightarrow> nat \<Rightarrow> byte list \<Rightarrow> byte list" where
  "field_at off n buf = take n (drop off buf)"

definition deserialize_prime_response :: "byte list \<Rightarrow> prime_struct" where
  "deserialize_prime_response buf =
     \<lparr> ps_len = htonl (word32 (field_at 0 4 buf)),
       ps_protocolVersion = htonl (word32 (field_at 4 4 buf)),
       ps_timeOut = htonl (word32 (field_at 8 4 buf)),
       ps_sessionId = zoo_htonll (word64 (field_at 12 8 buf)),
       ps_passwd_len = htonl (word32 (field_at 20 4 buf)),
       ps_passwd = field_at 24 16 buf,
       ps_readOnly = hd (field_at 40 1 buf) \<rparr>"

definition HANDSHAKE_REQ_SIZE :: nat where
  "HANDSHAKE_REQ_SIZE = 45"

definition primer_size :: nat where
  "primer_size = 41"

section \<open>Reading a packet from any pieces\<close>

definition chunks_ok :: "recv_result list \<Rightarrow> bool" where
  "chunks_ok rs \<longleftrightarrow> (\<forall>r \<in> set rs. r \<noteq> Recv_error \<and> r \<noteq> Data [])"

fun data_of :: "recv_result list \<Rightarrow> byte list" where
  "data_of [] = []"
| "data_of (Data bs # rs) = bs @ data_of rs"
| "data_of (_ # rs) = data_of rs"

fun work :: "recv_result list \<Rightarrow> nat" where
  "work [] = 0"
| "work (Data bs # rs) = Suc (length bs) + work rs"
| "work (_ # rs) = Suc (work rs)"

lemma recv_cases:
  assumes "chunks_ok rs" "0 < n"
  obtains (again) rs' where "zookeeper_recv n rs = (Recv_again, rs')" "chunks_ok rs'" "data_of rs' = data_of rs"
      "rs = [] \<or> work rs' < work rs"
  | (data) bs rs' where "zookeeper_recv n rs = (Data bs, rs')" "chunks_ok rs'" "bs \<noteq> []" "length bs \<le> n"
      "data_of rs = bs @ data_of rs'" "work rs' < work rs"
proof (cases rs)
  case Nil
  then show thesis using again [of "[]"] by (simp add: chunks_ok_def)
next
  case (Cons r rest)
  then show thesis
  proof (cases r)
    case (Data bs)
    show thesis
    proof (cases "length bs \<le> n")
      case True
      then show thesis using data [of bs rest] assms(1) Cons Data by (auto simp: chunks_ok_def)
    next
      case False
      then show thesis using data [of "take n bs" "Data (drop n bs) # rest"] assms Cons Data
        by (auto simp: chunks_ok_def)
    qed
  qed (use again [of rest] assms(1) Cons in \<open>auto simp: chunks_ok_def\<close>)
qed

text \<open>What a buffer holds after \<^verbatim>\<open>k\<close> bytes of a packet.\<close>

definition holds :: "byte list \<Rightarrow> nat \<Rightarrow> buffer_list \<Rightarrow> bool" where
  "holds payload k b \<longleftrightarrow> bl_off b = int k \<and> k \<le> 4 + length payload \<and>
     (if k < 4
      then bl_buffer b = None \<and> take k (bytes32 (bl_len b)) = take k (enc_int (word_of_nat (length payload))) \<and>
           drop 3 (bytes32 (bl_len b)) = [0]
      else bl_len b = word_of_nat (length payload) \<and>
           bl_buffer b = Some (take (k - 4) payload @ replicate (length payload + 4 - k) 0))"

lemma put_bytes_append: "length old = off + length bs + n \<Longrightarrow> put_bytes old off bs = take off old @ bs @ drop (length old - n) old"
  by (simp add: put_bytes_def)

lemma recv_payload_step:
  assumes "holds payload k b" "4 \<le> k" "k < 4 + length payload" "length payload < 2 ^ 31" "chunks_ok rs"
    "data_of rs = drop k (enc_int (word_of_nat (length payload)) @ payload @ rest)"
  obtains k' b' rs' where "recv_payload False b rs = (if k' = 4 + length payload then 1 else 0, b', rs')"
    "holds payload k' b'" "k \<le> k'" "chunks_ok rs'" "data_of rs' = drop k' (enc_int (word_of_nat (length payload)) @ payload @ rest)"
    "rs = [] \<or> work rs' < work rs"
proof -
  have b: "bl_off b = int k" "bl_len b = word_of_nat (length payload)"
    "bl_buffer b = Some (take (k - 4) payload @ replicate (length payload + 4 - k) 0)"
    using assms(1,2) by (auto simp: holds_def)
  have len: "sint (bl_len b) = int (length payload)" using b(2) assms(4) by (simp add: sint_i32_of_nat)
  let ?n = "length payload + 4 - k"
  have "(sint (bl_len b) - (bl_off b - 4)) mod 2 ^ 64 = sint (bl_len b) - (bl_off b - 4)"
    using len b(1) assms(2,3,4) by (intro mod_pos_pos_trivial) simp_all
  then have want: "nat ((sint (bl_len b) - (bl_off b - 4)) mod 2 ^ 64) = ?n" "0 < ?n"
    "nat (int (length payload) - (int k - 4)) = ?n" using len b(1) assms(2,3) by auto
  show thesis using assms(5) want(2)
  proof (cases rule: recv_cases)
    case (again rs')
    then show thesis using that [of k b rs'] assms(1,3,6) b len want by (auto simp: recv_payload_def Let_def)
  next
    case (data bs rs')
    let ?k = "k + length bs"
    have pl: "bs @ data_of rs' = drop (k - 4) payload @ rest" using data(5) assms(2,3,6) by simp
    have bs: "bs = take (length bs) (drop (k - 4) payload)"
      using arg_cong [OF pl, of "take (length bs)"] data(4) assms(2) by simp
    have tk: "take (?k - 4) payload = take (k - 4) payload @ bs"
    proof -
      have "?k - 4 = (k - 4) + length bs" using assms(2) by simp
      then show ?thesis using bs by (simp add: take_add)
    qed
    let ?b = "b\<lparr> bl_buffer := Some (put_bytes (take (k - 4) payload @ replicate ?n 0) (k - 4) bs), bl_off := int ?k \<rparr>"
    have "put_bytes (take (k - 4) payload @ replicate ?n 0) (k - 4) bs = take (?k - 4) payload @ replicate (?n - length bs) 0"
      using tk assms(2,3) data(4) by (simp add: put_bytes_def)
    then have h: "holds payload ?k ?b" using b data(4) assms(2,3) by (auto simp: holds_def)
    have "data_of rs' = drop (length bs) (data_of rs)" using data(5) by simp
    then have rest: "data_of rs' = drop ?k (enc_int (word_of_nat (length payload)) @ payload @ rest)"
      by (simp add: assms(6) add.commute del: drop_append)
    have "recv_payload False b rs = (if ?k = 4 + length payload then 1 else 0, ?b, rs')"
      using data(1,3) b len want assms(2) by (auto simp: recv_payload_def Let_def nat_diff_distrib')
    then show thesis using that [of ?k ?b rs'] h rest data(2,6) by auto
  qed
qed

lemma top_byte_zero:
  assumes "length lb = 4" "drop 3 lb = [0]"
  shows "0 \<le> sint (word32 lb)"
proof -
  obtain a b c where "lb = [a, b, c, 0]"
    using assms by (auto simp: numeral_eq_Suc length_Suc_conv)
  then have "bytes_int lb = uint a + 256 * uint b + 65536 * uint c" by simp
  moreover have "uint a < 256" "uint b < 256" "uint c < 256" using uint_lt2p [of a] uint_lt2p [of b] uint_lt2p [of c] by simp_all
  ultimately have "0 \<le> bytes_int lb" "bytes_int lb < 2 ^ 31" by auto
  then show ?thesis by (simp add: word32_def sint_i32_of_int)
qed

lemma recv_buffer_step:
  assumes "holds payload k b" "k < 4 + length payload" "0 < length payload" "length payload < 2 ^ 31" "chunks_ok rs"
    "data_of rs = drop k (enc_int (word_of_nat (length payload)) @ payload @ rest)" "\<And>n. mem n"
  obtains k' b' rs' where "recv_buffer mem False b rs = (if k' = 4 + length payload then 1 else 0, b', rs')"
    "holds payload k' b'" "k \<le> k'" "chunks_ok rs'" "data_of rs' = drop k' (enc_int (word_of_nat (length payload)) @ payload @ rest)"
    "rs = [] \<or> work rs' < work rs"
proof (cases "4 \<le> k")
  case True
  then have "recv_buffer mem False b rs = recv_payload False b rs" using assms(1) by (simp add: recv_buffer_def holds_def)
  then show thesis using recv_payload_step [OF assms(1) True assms(2,4,5,6)] that by metis
next
  case False
  let ?w = "word_of_nat (length payload) :: i32"
  have k: "k < 4" "0 < 4 - k" "nat (4 - bl_off b) = 4 - k" using False assms(1) by (auto simp: holds_def)
  have b: "bl_off b = int k" "bl_buffer b = None" "take k (bytes32 (bl_len b)) = take k (enc_int ?w)" "drop 3 (bytes32 (bl_len b)) = [0]"
    using assms(1) False by (auto simp: holds_def)
  show thesis using assms(5) k(2)
  proof (cases rule: recv_cases)
    case (again rs')
    then show thesis using that [of k b rs'] assms(1,6) k b by (auto simp: recv_buffer_def)
  next
    case (data bs rs')
    let ?k = "k + length bs" and ?lb = "put_bytes (bytes32 (bl_len b)) k bs"
    have hdr: "bs @ data_of rs' = drop k (enc_int ?w) @ payload @ rest" using data(5) assms(6) k(1) by simp
    have bs: "bs = take (length bs) (drop k (enc_int ?w))"
      using arg_cong [OF hdr, of "take (length bs)"] data(4) by simp
    have lb: "length ?lb = 4" "take ?k ?lb = take ?k (enc_int ?w)"
      using data(4) k(1) b(3) bs by (simp_all add: put_bytes_def take_add)
    have "data_of rs' = drop (length bs) (data_of rs)" using data(5) by simp
    then have rest: "data_of rs' = drop ?k (enc_int ?w @ payload @ rest)" by (simp add: assms(6) add.commute del: drop_append)
    let ?b = "b\<lparr> bl_len := word32 ?lb, bl_off := int ?k \<rparr>"
    show thesis
    proof (cases "?k = 4")
      case True
      then have "?lb = rev (bytes32 ?w)" using lb by (simp add: enc_int_def)
      then have len: "htonl (word32 ?lb) = ?w" by (simp flip: htonl_bytes)
      let ?c = "b\<lparr> bl_off := int k + int (length bs), bl_len := ?w, bl_buffer := Some (replicate (length payload) 0) \<rparr>"
      have h: "holds payload 4 ?c" using True by (auto simp: holds_def)
      have dat: "data_of rs' = drop 4 (enc_int ?w @ payload @ rest)" using rest True by simp
      have "sint ?w = int (length payload)" using assms(4) by (simp add: sint_i32_of_nat)
      then have "recv_buffer mem False b rs = recv_payload False ?c rs'"
        using data(1,3) b(1) k True len assms(4,7) by (simp add: recv_buffer_def Let_def)
      moreover obtain k' b' rs2 where "recv_payload False ?c rs' = (if k' = 4 + length payload then 1 else 0, b', rs2)"
        "holds payload k' b'" "4 \<le> k'" "chunks_ok rs2" "data_of rs2 = drop k' (enc_int ?w @ payload @ rest)"
        "rs' = [] \<or> work rs2 < work rs'"
        using recv_payload_step [OF h _ _ assms(4) data(2) dat] assms(3) by auto
      moreover have "work rs2 < work rs" if "rs' = []"
      proof -
        have "rs2 = []" using that \<open>recv_payload False ?c rs' = _\<close> by (auto simp: recv_payload_def Let_def)
        then show ?thesis using data(6) that by simp
      qed
      ultimately show thesis using that [of k' b' rs2] k data(6) by force
    next
      case f: False
      then have k4: "?k < 4" using data(4) k(1) by simp
      have top: "drop 3 ?lb = [0]"
        using k4 b(4) data(4) by (simp add: put_bytes_def drop_drop [symmetric] del: drop_drop) (simp add: numeral_eq_Suc)
      have h: "holds payload ?k ?b" using b k4 lb top data(4) by (simp add: holds_def)
      have "0 \<le> sint (word32 ?lb)" using top_byte_zero [OF lb(1) top] .
      then have "recv_buffer mem False b rs = (0, ?b, rs')"
        using data(1,3) b(1,2) k k4 f by (auto simp: recv_buffer_def recv_payload_def Let_def)
      then show thesis using that [of ?k ?b rs'] h rest data(2,6) k4 by auto
    qed
  qed
qed

fun recv_run ::
  "(int \<Rightarrow> bool) \<Rightarrow> bool \<Rightarrow> nat \<Rightarrow> buffer_list \<Rightarrow> recv_result list \<Rightarrow> int \<times> buffer_list \<times> recv_result list" where
  "recv_run mem primer 0 b rs = (0, b, rs)"
| "recv_run mem primer (Suc n) b rs =
     (case recv_buffer mem primer b rs of (rc, b', rs') \<Rightarrow>
        if rc = 0 then recv_run mem primer n b' rs' else (rc, b', rs'))"

lemma recv_run_complete:
  assumes "0 < length payload" "length payload < 2 ^ 31" "\<And>n. mem n"
  shows "holds payload k b \<Longrightarrow> k < 4 + length payload \<Longrightarrow> chunks_ok rs \<Longrightarrow>
    data_of rs = drop k (enc_int (word_of_nat (length payload)) @ payload @ rest) \<Longrightarrow>
    \<exists>n b' rs'. recv_run mem False n b rs = (1, b', rs') \<and> holds payload (4 + length payload) b' \<and> data_of rs' = rest"
proof (induction "work rs" arbitrary: k b rs rule: less_induct)
  case less
  obtain k' b' rs' where s: "recv_buffer mem False b rs = (if k' = 4 + length payload then 1 else 0, b', rs')"
      "holds payload k' b'" "k \<le> k'" "chunks_ok rs'" "data_of rs' = drop k' (enc_int (word_of_nat (length payload)) @ payload @ rest)"
      "rs = [] \<or> work rs' < work rs"
    using recv_buffer_step [OF less.prems(1,2) assms(1,2) less.prems(3,4) assms(3)] .
  have "rs \<noteq> []"
  proof
    assume "rs = []"
    then have "length (drop k (enc_int (word_of_nat (length payload)) @ payload @ rest)) = 0"
      unfolding less.prems(4) [symmetric] by simp
    then show False using less.prems(2) by simp
  qed
  then have w: "work rs' < work rs" using s(6) by simp
  have k': "k' \<le> 4 + length payload" using s(2) by (simp add: holds_def)
  show ?case
  proof (cases "k' = 4 + length payload")
    case True
    then have "recv_run mem False 1 b rs = (1, b', rs')" using s(1) by simp
    moreover have "holds payload (4 + length payload) b'" "data_of rs' = rest" using s(2,5) True by simp_all
    ultimately show ?thesis by blast
  next
    case False
    then obtain n c rs2 where "recv_run mem False n b' rs' = (1, c, rs2)" "holds payload (4 + length payload) c" "data_of rs2 = rest"
      using less.hyps [OF w s(2) _ s(4,5)] k' by auto
    moreover have "recv_run mem False (Suc n) b rs = recv_run mem False n b' rs'" using s(1) False by simp
    ultimately show ?thesis by metis
  qed
qed

lemma fresh_holds:
  assumes "allocate_buffer True None 0 = Some b"
  shows "holds payload 0 b"
proof -
  have four: "(4 :: nat) = Suc (Suc (Suc (Suc 0)))" by simp
  have "bytes32 24 = [24, 0, 0, 0]" by (simp only: bytes32_def four int_bytes.simps) simp
  then show ?thesis using assms by (auto simp: holds_def allocate_buffer_def sizeof_buffer_list_def)
qed

text \<open>
  A packet arrives complete and exact. Whatever the pieces in which the socket gives the stream, and
  however often it has nothing to give, repeated calls of \<^verbatim>\<open>recv_buffer\<close> on a fresh buffer
  end with the payload of the packet, and leave what follows it in the stream.
\<close>

theorem recv_buffer_any_pieces:
  assumes "0 < length payload" "length payload < 2 ^ 31" "\<And>n. mem n"
    and "chunks_ok rs" "data_of rs = enc_int (word_of_nat (length payload)) @ payload @ rest"
    and "allocate_buffer True None 0 = Some b"
  shows "\<exists>n b' rs'. recv_run mem False n b rs = (1, b', rs') \<and> bl_buffer b' = Some payload \<and> data_of rs' = rest"
proof -
  obtain n b' rs' where "recv_run mem False n b rs = (1, b', rs')" "holds payload (4 + length payload) b'" "data_of rs' = rest"
    using recv_run_complete [of payload mem, OF assms(1-3), of 0 b rs rest] fresh_holds [OF assms(6), of payload] assms(4,5) by auto
  then show ?thesis by (auto simp: holds_def)
qed

section \<open>Sending a packet in any pieces\<close>

definition packet :: "byte list \<Rightarrow> byte list" where
  "packet payload = enc_int (word_of_nat (length payload)) @ payload"

text \<open>
  The message of a buffer, which may be shorter than the block it is in, and the bytes of its packet
  that are still to be sent.
\<close>

definition payload_of :: "buffer_list \<Rightarrow> byte list" where
  "payload_of b = (case bl_buffer b of None \<Rightarrow> [] | Some blk \<Rightarrow> take (nat (sint (bl_len b))) blk)"

definition buffer_ok :: "buffer_list \<Rightarrow> bool" where
  "buffer_ok b \<longleftrightarrow> 0 < sint (bl_len b) \<and> length (payload_of b) = nat (sint (bl_len b)) \<and>
     0 \<le> bl_off b \<and> bl_off b \<le> sint (bl_len b) + 4"

definition unsent :: "buffer_list \<Rightarrow> byte list" where
  "unsent b = drop (nat (bl_off b)) (packet (payload_of b))"

lemma length_packet [simp]: "length (packet p) = 4 + length p"
  by (simp add: packet_def)

lemma length_unsent: "buffer_ok b \<Longrightarrow> int (length (unsent b)) = sint (bl_len b) + 4 - bl_off b"
  by (auto simp: unsent_def buffer_ok_def)

lemma len_payload: "buffer_ok b \<Longrightarrow> word_of_nat (length (payload_of b)) = bl_len b"
  by (simp add: buffer_ok_def of_nat_nat)

text \<open>A call sends the first \<^verbatim>\<open>n\<close> of the bytes that are left; its code says whether these are all.\<close>

definition sends :: "buffer_list \<Rightarrow> byte list \<Rightarrow> nat \<Rightarrow> int \<Rightarrow> buffer_list \<Rightarrow> byte list \<Rightarrow> bool" where
  "sends b out n rc b' out' \<longleftrightarrow> n \<le> length (unsent b) \<and> b' = b\<lparr> bl_off := bl_off b + int n \<rparr> \<and>
     out' = out @ take n (unsent b) \<and> (rc = 1 \<longrightarrow> n = length (unsent b)) \<and> (rc = 0 \<longrightarrow> n < length (unsent b)) \<and>
     -1 \<le> rc \<and> rc \<le> 1"

lemma advanced:
  assumes "buffer_ok b" "n \<le> length (unsent b)"
  shows "buffer_ok (b\<lparr> bl_off := bl_off b + int n \<rparr>)" "payload_of (b\<lparr> bl_off := x \<rparr>) = payload_of b"
    "unsent (b\<lparr> bl_off := bl_off b + int n \<rparr>) = drop n (unsent b)"
proof -
  show p: "payload_of (b\<lparr> bl_off := x \<rparr>) = payload_of b" for x by (simp add: payload_of_def split: option.split)
  show "buffer_ok (b\<lparr> bl_off := bl_off b + int n \<rparr>)"
    using assms length_unsent [OF assms(1)] p by (auto simp: buffer_ok_def)
  have "nat (bl_off b + int n) = n + nat (bl_off b)" using assms(1) by (simp add: buffer_ok_def nat_add_distrib)
  then show "unsent (b\<lparr> bl_off := bl_off b + int n \<rparr>) = drop n (unsent b)" by (simp add: unsent_def p)
qed

lemma send_cases:
  assumes "zookeeper_send bs (rs, out) = (r, w)"
  shows "case r of Sent n \<Rightarrow> n \<le> length bs \<and> snd w = out @ take n bs | _ \<Rightarrow> snd w = out"
  using assms by (cases "(bs, rs, out)" rule: zookeeper_send.cases) (auto simp: min_def)

lemma send_payload_step:
  assumes "buffer_ok b" "4 \<le> bl_off b" "send_payload b (rs, out) = (rc, b', w')"
  shows "\<exists>n. sends b out n rc b' (snd w')"
proof -
  obtain blk where blk: "bl_buffer b = Some blk" "payload_of b = take (nat (sint (bl_len b))) blk"
    using assms(1) by (auto simp: buffer_ok_def payload_of_def split: option.splits)
  have off: "nat (bl_off b) = 4 + nat (bl_off b - 4)" using assms(2) by simp
  have u: "drop (nat (bl_off b - 4)) (payload_of b) = unsent b"
    unfolding unsent_def off by (simp add: packet_def)
  obtain r w1 where r: "zookeeper_send (unsent b) (rs, out) = (r, w1)"
    by (cases "zookeeper_send (unsent b) (rs, out)") auto
  note c = send_cases [OF r]
  have full: "bl_off b + int n = sint (bl_len b) + 4 \<longleftrightarrow> n = length (unsent b)" for n
    using length_unsent [OF assms(1)] by auto
  note full0 = full [of 0, simplified]
  have s: "send_payload b (rs, out) = (case (r, w1) of
      (Send_error, w') \<Rightarrow> (-1, b, w')
    | (Send_again, w') \<Rightarrow> (if bl_off b = sint (bl_len b) + 4 then 1 else 0, b, w')
    | (Sent n, w') \<Rightarrow> (if bl_off b + int n = sint (bl_len b) + 4 then 1 else 0, b\<lparr> bl_off := bl_off b + int n \<rparr>, w'))"
    unfolding send_payload_def Let_def blk(1) option.case blk(2) [symmetric] u r by (cases r) simp_all
  show ?thesis
  proof (cases r)
    case (Sent n)
    then show ?thesis using assms(3) s c full by (intro exI [of _ n]) (auto simp: sends_def split: if_splits)
  next
    case Send_again
    then show ?thesis using assms(3) s c full0 by (intro exI [of _ 0]) (auto simp: sends_def split: if_splits)
  next
    case Send_error
    then show ?thesis using assms(3) s c by (intro exI [of _ 0]) (auto simp: sends_def)
  qed
qed

lemma send_buffer_step:
  assumes "buffer_ok b" "send_buffer b (rs, out) = (rc, b', w')"
  shows "\<exists>n. sends b out n rc b' (snd w')"
proof (cases "4 \<le> bl_off b")
  case True
  then show ?thesis using send_payload_step [OF assms(1)] assms(2) by (simp add: send_buffer_def)
next
  case False
  let ?k = "nat (bl_off b)" and ?h = "bytes32 (htonl (bl_len b))"
  have k: "0 \<le> bl_off b" "?k < 4" using assms(1) False by (auto simp: buffer_ok_def)
  have h: "?h = enc_int (bl_len b)" by (simp add: enc_int_def htonl_bytes)
  have u: "unsent b = drop ?k ?h @ payload_of b"
    using k by (simp add: unsent_def packet_def h len_payload [OF assms(1)])
  obtain r w1 where r: "zookeeper_send (drop ?k ?h) (rs, out) = (r, w1)"
    by (cases "zookeeper_send (drop ?k ?h) (rs, out)") auto
  note c = send_cases [OF r]
  have lu: "4 - ?k < length (unsent b)" using length_unsent [OF assms(1)] k assms(1) by (auto simp: buffer_ok_def)
  show ?thesis
  proof (cases r)
    case (Sent n)
    have n: "n \<le> 4 - ?k" "snd w1 = out @ take n (unsent b)" using c Sent u by auto
    let ?b = "b\<lparr> bl_off := bl_off b + int n \<rparr>"
    have le: "n \<le> length (unsent b)" using n(1) lu by simp
    note adv = advanced [OF assms(1) le]
    show ?thesis
    proof (cases "n = 4 - ?k")
      case True
      then have "4 \<le> bl_off b + int n" using k by simp
      then have "send_payload ?b w1 = (rc, b', w')"
        using assms(2) False r Sent by (simp add: send_buffer_def Let_def)
      moreover obtain rs1 where "w1 = (rs1, snd w1)" by (metis prod.collapse)
      ultimately obtain m where "sends ?b (snd w1) m rc b' (snd w')"
        using send_payload_step [OF adv(1)] \<open>4 \<le> bl_off b + int n\<close> by (metis (no_types, lifting) buffer_list.select_convs(3) buffer_list.surjective buffer_list.update_convs(3))
      then have "sends b out (n + m) rc b' (snd w')"
        using n(2) le by (auto simp: sends_def adv(3) take_add)
      then show ?thesis ..
    next
      case False
      then have "bl_off b + int n < 4" using n(1) k by linarith
      then have "(rc, b', w') = (0, ?b, w1)"
        using assms r Sent \<open>\<not> 4 \<le> bl_off b\<close> by (simp add: send_buffer_def Let_def buffer_ok_def split: if_splits)
      then show ?thesis using n lu by (intro exI [of _ n]) (simp add: sends_def)
    qed
  next
    case Send_again
    then show ?thesis using assms(2) False r c lu by (intro exI [of _ 0]) (auto simp: sends_def send_buffer_def)
  next
    case Send_error
    then show ?thesis using assms(2) False r c by (intro exI [of _ 0]) (auto simp: sends_def send_buffer_def)
  qed
qed

fun send_run :: "nat \<Rightarrow> buffer_list \<Rightarrow> wire \<Rightarrow> int \<times> buffer_list \<times> wire" where
  "send_run 0 b w = (0, b, w)"
| "send_run (Suc n) b w = (case send_buffer b w of (rc, b', w') \<Rightarrow> if rc = 0 then send_run n b' w' else (rc, b', w'))"

lemma send_run_sends:
  "buffer_ok b \<Longrightarrow> send_run i b (rs, out) = (rc, b', w') \<Longrightarrow>
    \<exists>n \<le> length (unsent b). snd w' = out @ take n (unsent b) \<and> (rc = 1 \<longrightarrow> n = length (unsent b))"
proof (induction i arbitrary: b rs out)
  case 0
  then show ?case by (intro exI [of _ 0]) auto
next
  case (Suc i)
  obtain r c v where s: "send_buffer b (rs, out) = (r, c, v)" by (metis prod_cases3)
  obtain n where n: "sends b out n r c (snd v)" using send_buffer_step [OF Suc.prems(1) s] by blast
  then have le: "n \<le> length (unsent b)" and c: "c = b\<lparr> bl_off := bl_off b + int n \<rparr>" by (simp_all add: sends_def)
  note adv = advanced [OF Suc.prems(1) le]
  show ?case
  proof (cases "r = 0")
    case True
    then have "send_run i c (fst v, snd v) = (rc, b', w')" using Suc.prems(2) s by simp
    from Suc.IH [OF _ this] obtain m where m: "m \<le> length (unsent c)" "snd w' = snd v @ take m (unsent c)" "rc = 1 \<longrightarrow> m = length (unsent c)"
      using adv(1) c by auto
    then show ?thesis using n le adv(3) c
      by (intro exI [of _ "n + m"]) (auto simp: sends_def take_add)
  next
    case False
    then show ?thesis using Suc.prems(2) s n le by (intro exI [of _ n]) (auto simp: sends_def)
  qed
qed

text \<open>
  However the socket cuts what it takes, the wire only ever holds what was there before and a first
  part of the packet; when \<^verbatim>\<open>send_buffer\<close> reports success it is the whole packet, once.
\<close>

lemma send_buffer_any_pieces:
  assumes "0 < length payload" "length payload < 2 ^ 31"
    and "allocate_buffer True (Some payload) (int (length payload)) = Some b"
    and "send_run n b (rs, pre) = (rc, b', (rs', out))"
  shows "\<exists>k. out = pre @ take k (packet payload) \<and> (rc = 1 \<longrightarrow> out = pre @ packet payload)"
proof -
  have "b = \<lparr> bl_buffer = Some payload, bl_len = word_of_nat (length payload), bl_off = 0 \<rparr>"
    using assms(1,3) by (auto simp: allocate_buffer_def)
  moreover have "sint (word_of_nat (length payload) :: i32) = int (length payload)" using assms(2) by (simp add: sint_i32_of_nat)
  ultimately have "buffer_ok b" "unsent b = packet payload" using assms(1) by (simp_all add: buffer_ok_def payload_of_def unsent_def)
  then obtain k where "out = pre @ take k (packet payload)" "rc = 1 \<longrightarrow> k = length (packet payload)"
    using send_run_sends [OF _ assms(4)] by auto
  then show ?thesis by (intro exI [of _ k]) (auto simp del: length_packet)
qed

text \<open>
  Property C27: a packet crosses the connection exactly. When the sender's \<^verbatim>\<open>send_buffer\<close> has reported success,
  in however many calls, a receiver that reads the stream in any other pieces gets the payload that
  was sent, and what was sent after it is still in the stream.
\<close>

theorem packet_roundtrip:
  assumes "0 < length payload" "length payload < 2 ^ 31" "\<And>n. mem n"
    and "allocate_buffer True (Some payload) (int (length payload)) = Some b"
    and "send_run m b (ws, []) = (1, b', (ws', out))"
    and "chunks_ok rs" "data_of rs = out @ rest"
    and "allocate_buffer True None 0 = Some c"
  shows "\<exists>n c' rs'. recv_run mem False n c rs = (1, c', rs') \<and> bl_buffer c' = Some payload \<and> data_of rs' = rest"
proof -
  have "out = packet payload" using send_buffer_any_pieces [OF assms(1,2,4,5)] by auto
  then show ?thesis using recv_buffer_any_pieces [OF assms(1-3,6) _ assms(8)] assms(7) by (simp add: packet_def)
qed

section \<open>The handshake\<close>

lemma enc_int_htonl: "bytes32 (htonl w) = enc_int w"
  by (simp add: enc_int_def htonl_bytes)

lemma enc_long_htonll: "bytes64 (zoo_htonll v) = enc_long v"
  by (simp add: enc_long_def zoo_htonll_bytes)

lemma htonl_enc_int [simp]: "htonl (word32 (enc_int v)) = v"
  by (simp add: enc_int_def flip: htonl_bytes)

lemma htonll_enc_long [simp]: "zoo_htonll (word64 (enc_long v)) = v"
  by (simp add: enc_long_def flip: zoo_htonll_bytes)

lemma serialize_prime_connect_format:
  "serialize_prime_connect req =
     enc_int (cr_protocolVersion req) @ enc_long (cr_lastZxidSeen req) @ enc_int (cr_timeOut req) @
     enc_long (cr_sessionId req) @ enc_int (cr_passwd_len req) @ cr_passwd req @ [cr_readOnly req]"
  by (simp add: serialize_prime_connect_def enc_int_htonl enc_long_htonll)

lemma length_serialize_prime_connect:
  "length (cr_passwd req) = 16 \<Longrightarrow> length (serialize_prime_connect req) = HANDSHAKE_REQ_SIZE"
  by (simp add: serialize_prime_connect_format HANDSHAKE_REQ_SIZE_def)

text \<open>The answer of a server that has the read-only flag: its length, and 37 bytes.\<close>

definition prime_answer :: "prime_struct \<Rightarrow> byte list" where
  "prime_answer ps =
     enc_int (ps_len ps) @ enc_int (ps_protocolVersion ps) @ enc_int (ps_timeOut ps) @ enc_long (ps_sessionId ps) @
     enc_int (ps_passwd_len ps) @ ps_passwd ps @ [ps_readOnly ps]"

lemma length_prime_answer: "length (ps_passwd ps) = 16 \<Longrightarrow> length (prime_answer ps) = primer_size"
  by (simp add: prime_answer_def primer_size_def)

lemma deserialize_prime_answer:
  assumes "length (ps_passwd ps) = 16"
  shows "deserialize_prime_response (prime_answer ps) = ps"
  using assms by (simp add: deserialize_prime_response_def field_at_def prime_answer_def)

definition primer_buffer :: buffer_list where
  "primer_buffer = \<lparr> bl_buffer = Some (replicate primer_size 0), bl_len = word_of_nat primer_size, bl_off = 4 \<rparr>"

lemma recv_primer:
  assumes "bl_off b = 4 + int k" "bl_len b = 41" "bl_buffer b = Some old" "k < 41" "bs \<noteq> []" "k + length bs \<le> 41"
  shows "recv_buffer mem True b (Data bs # rs) =
    (let n = (if length bs = 40 then 41 else length bs) in
     (if k + n = 41 then 1 else 0,
      b\<lparr> bl_buffer := Some (put_bytes old k bs), bl_off := 4 + int (k + n) \<rparr>, rs))"
proof -
  have w: "(41 - int k) mod 18446744073709551616 = 41 - int k" using assms(4) by (intro mod_pos_pos_trivial) auto
  have "nat (41 - int k) = 41 - k" by simp
  moreover have "length bs \<le> 41 - k" using assms(4,6) by simp
  ultimately have r: "zookeeper_recv (nat (41 - int k)) (Data bs # rs) = (Data bs, rs)" by simp
  have l: "(int (length bs) = 40) = (length bs = 40)" "0 < length bs" "int (length bs) \<noteq> 0" using assms(5) by auto
  show ?thesis
    using assms(1-3) by (simp add: recv_buffer_def recv_payload_def w r l Let_def assms(5) del: zookeeper_recv.simps)
qed


text \<open>
  The answer to the handshake that arrives in two pieces. It is read completely and exactly unless one
  piece has 40 bytes. When the first has 40, the reading reports success before the last byte, the
  read-only flag, has come: the byte is taken as 0 and stays in the stream, in front of the next
  packet. When the second has 40, the offset passes the end of the buffer and the reading does not
  finish.
\<close>

theorem primer_two_pieces:
  assumes "length (a @ b) = primer_size" "a \<noteq> []" "b \<noteq> []"
  shows "recv_run mem True 2 primer_buffer [Data a, Data b] =
    (if length a = 40 then (1, primer_buffer\<lparr> bl_buffer := Some (a @ [0]), bl_off := 45 \<rparr>, [Data b])
     else if length b = 40 then (0, primer_buffer\<lparr> bl_buffer := Some (a @ b), bl_off := 46 \<rparr>, [])
     else (1, primer_buffer\<lparr> bl_buffer := Some (a @ b), bl_off := 45 \<rparr>, []))"
proof -
  have ab: "length a + length b = 41" "0 < length a" "0 < length b" using assms by (simp_all add: primer_size_def)
  have p: "bl_off primer_buffer = 4 + int 0" "bl_len primer_buffer = 41" "bl_buffer primer_buffer = Some (replicate 41 0)"
    by (simp_all add: primer_buffer_def primer_size_def)
  have pa: "put_bytes (replicate 41 0) 0 a = a @ replicate (length b) 0" using ab by (simp add: put_bytes_def)
  have pb: "put_bytes (a @ replicate (length b) 0) (length a) b = a @ b" by (simp add: put_bytes_def)
  have one: "recv_buffer mem True primer_buffer (Data a # rs) =
    (let n = (if length a = 40 then 41 else length a) in
     (if n = 41 then 1 else 0,
      primer_buffer\<lparr> bl_buffer := Some (a @ replicate (length b) 0), bl_off := 4 + int n \<rparr>, rs))" for rs
    using recv_primer [OF p, of a mem rs] ab assms(2) by (simp only: pa Let_def add_0) simp
  have la: "length a < 41" using ab by linarith
  let ?b = "primer_buffer\<lparr> bl_buffer := Some (a @ replicate (length b) 0), bl_off := 4 + int (length a) \<rparr>"
  have "recv_buffer mem True ?b (Data b # []) =
    (let n = (if length b = 40 then 41 else length b) in
     (if length a + n = 41 then 1 else 0,
      ?b\<lparr> bl_buffer := Some (put_bytes (a @ replicate (length b) 0) (length a) b), bl_off := 4 + int (length a + n) \<rparr>, []))"
    using la ab(1) assms(3) p(2) by (intro recv_primer) simp_all
  then have two: "recv_buffer mem True ?b [Data b] =
    (let n = (if length b = 40 then 41 else length b) in
     (if length a + n = 41 then 1 else 0,
      primer_buffer\<lparr> bl_buffer := Some (a @ b), bl_off := 4 + int (length a + n) \<rparr>, []))"
    by (simp add: pb Let_def)
  show ?thesis
  proof (cases "length a = 40")
    case True
    then have "replicate (length b) (0 :: byte) = [0]" using ab by (simp add: numeral_eq_Suc)
    then show ?thesis using True one [of "[Data b]"] by (simp add: numeral_2_eq_2)
  next
    case False
    have r: "recv_run mem True 2 primer_buffer [Data a, Data b] =
      (case recv_buffer mem True ?b [Data b] of (rc, b', rs') \<Rightarrow> (rc, b', rs'))"
    proof -
      have "recv_buffer mem True primer_buffer [Data a, Data b] = (0, ?b, [Data b])"
        using False la by (simp add: one Let_def)
      then show ?thesis by (simp add: numeral_2_eq_2 split: prod.splits)
    qed
    show ?thesis using False ab unfolding r two by (auto simp: Let_def)
  qed
qed

lemma primer_two_pieces_witness:
  "recv_run (\<lambda>_. True) True 2 primer_buffer [Data (replicate 40 7), Data [1]] =
     (1, primer_buffer\<lparr> bl_buffer := Some (replicate 40 7 @ [0]), bl_off := 45 \<rparr>, [Data [1]])"
  using primer_two_pieces [of "replicate 40 7" "[1]" "\<lambda>_. True"] by (simp add: primer_size_def)

text \<open>
  The handshake formats agree with each other: the client's request has the 45 bytes that
  \<^verbatim>\<open>HANDSHAKE_REQ_SIZE\<close> announces, in network order, and every field of a server's answer is read as
  it was written, whatever the values.
\<close>

theorem handshake_formats:
  assumes "length (cr_passwd req) = 16" "length (ps_passwd ps) = 16"
  shows "length (serialize_prime_connect req) = HANDSHAKE_REQ_SIZE \<and>
    length (prime_answer ps) = primer_size \<and> deserialize_prime_response (prime_answer ps) = ps"
  using assms length_serialize_prime_connect length_prime_answer deserialize_prime_answer by simp

lemma handshake_formats_witness:
  "deserialize_prime_response (prime_answer
     \<lparr> ps_len = 37, ps_protocolVersion = 0, ps_timeOut = 30000, ps_sessionId = 5, ps_passwd_len = 16,
       ps_passwd = replicate 16 9, ps_readOnly = 0 \<rparr>) =
     \<lparr> ps_len = 37, ps_protocolVersion = 0, ps_timeOut = 30000, ps_sessionId = 5, ps_passwd_len = 16,
       ps_passwd = replicate 16 9, ps_readOnly = 0 \<rparr>"
  using handshake_formats [of "\<lparr> cr_protocolVersion = 0, cr_lastZxidSeen = 0, cr_timeOut = 0, cr_sessionId = 0,
      cr_passwd_len = 16, cr_passwd = replicate 16 0, cr_readOnly = 0 \<rparr>"
    "\<lparr> ps_len = 37, ps_protocolVersion = 0, ps_timeOut = 30000, ps_sessionId = 5, ps_passwd_len = 16,
       ps_passwd = replicate 16 9, ps_readOnly = 0 \<rparr>"] by simp

lemma packet_roundtrip_witness:
  "\<exists>n c' rs'. recv_run (\<lambda>_. True) False n \<lparr> bl_buffer = None, bl_len = 24, bl_off = 0 \<rparr>
      [Data [0], Recv_again, Data [0, 0, 2, 7], Data [8]] = (1, c', rs') \<and>
    bl_buffer c' = Some [7, 8] \<and> data_of rs' = []"
proof -
  have four: "(4 :: nat) = Suc (Suc (Suc (Suc 0)))" by simp
  have h: "bytes32 (htonl 2) = [0, 0, 0, 2]"
    unfolding htonl_bytes by (simp only: bytes32_def four int_bytes.simps) simp
  have "send_run 4 \<lparr> bl_buffer = Some [7, 8], bl_len = 2, bl_off = 0 \<rparr> ([Sent 1, Sent 9, Sent 1, Send_again, Sent 5], []) =
     (1, \<lparr> bl_buffer = Some [7, 8], bl_len = 2, bl_off = 6 \<rparr>, ([], [0, 0, 0, 2, 7, 8]))"
    by (simp add: four send_buffer_def send_payload_def h)
  then show ?thesis
    by (intro packet_roundtrip) (auto simp: allocate_buffer_def sizeof_buffer_list_def chunks_ok_def)
qed

end
