(* ===== verification/Jute_Total.thy ===== *)
theory Jute_Total
  imports Jute
begin

text \<open>
  Serialising succeeds. The locale \<^verbatim>\<open>codec\<close> says what a successful serialiser has written; here it is
  shown that the serialisers of the requests do succeed, with code 0 and without undefined behaviour,
  when memory lasts and the archive stays within 2^29 bytes (beyond that, the doubling of the block
  can overflow). The locale \<^verbatim>\<open>total_codec\<close> adds this to the contract.
\<close>

section \<open>Steps that succeed\<close>

definition puts :: "buff_struct \<Rightarrow> byte list \<Rightarrow> (int \<times> buff_struct) exec \<Rightarrow> bool" where
  "puts oa bs m \<longleftrightarrow> (oa_ok oa \<longrightarrow> bs_off oa + int (length bs) \<le> 2 ^ 29 \<longrightarrow>
     (\<exists>oa'. m = Ret (0, oa') \<and> oa_ok oa' \<and> written oa' = written oa @ bs))"

named_theorems puts_intros \<open>serialisers that succeed\<close>

lemma written_length: "oa_ok oa \<Longrightarrow> int (length (written oa)) = bs_off oa"
  by (auto simp: written_def oa_ok_def)

lemma puts_then:
  assumes "puts oa b1 m" "\<And>oa'. puts oa' b2 (f oa')"
  shows "puts oa (b1 @ b2) (then_ser m f)"
  unfolding puts_def
proof (intro impI)
  assume a: "oa_ok oa" "bs_off oa + int (length (b1 @ b2)) \<le> 2 ^ 29"
  then obtain oa1 where o: "m = Ret (0, oa1)" "oa_ok oa1" "written oa1 = written oa @ b1"
    using assms(1) by (auto simp: puts_def)
  have "bs_off oa1 = bs_off oa + int (length b1)"
    using written_length [OF a(1)] written_length [OF o(2)] o(3) by simp
  then obtain oa2 where "f oa1 = Ret (0, oa2)" "oa_ok oa2" "written oa2 = written oa1 @ b2"
    using assms(2) [of oa1] a(2) o(2) by (auto simp: puts_def)
  then show "\<exists>oa'. then_ser m f = Ret (0, oa') \<and> oa_ok oa' \<and> written oa' = written oa @ b1 @ b2"
    using o by (simp add: then_ser_def)
qed

lemma puts_start: "(\<And>oa'. puts oa' b (f oa')) \<Longrightarrow> puts oa b (then_ser (oa_start_record oa) f)"
  by (simp add: then_ser_def oa_start_record_def)

lemma puts_end: "puts oa [] (oa_end_record oa)"
  by (simp add: puts_def oa_end_record_def)

lemma puts_end_vector: "puts oa b m \<Longrightarrow> puts oa b (then_ser m oa_end_vector)"
  by (auto simp: puts_def then_ser_def oa_end_vector_def)

lemma puts_bind:
  assumes "puts oa b1 m" "\<And>oa1. puts oa1 b2 (f (0, oa1))"
  shows "puts oa (b1 @ b2) (bind_exec m f)"
  unfolding puts_def
proof (intro impI)
  assume a: "oa_ok oa" "bs_off oa + int (length (b1 @ b2)) \<le> 2 ^ 29"
  then obtain oa1 where o: "m = Ret (0, oa1)" "oa_ok oa1" "written oa1 = written oa @ b1"
    using assms(1) by (auto simp: puts_def)
  have "bs_off oa1 = bs_off oa + int (length b1)"
    using written_length [OF a(1)] written_length [OF o(2)] o(3) by simp
  then show "\<exists>oa'. bind_exec m f = Ret (0, oa') \<and> oa_ok oa' \<and> written oa' = written oa @ b1 @ b2"
    using assms(2) [of oa1] a(2) o by (auto simp: puts_def)
qed

lemma puts_if_ok:
  assumes "puts oa b1 m" "\<And>oa1. puts oa1 b2 (f oa1)"
  shows "puts oa (b1 @ b2) (if_ok m f)"
proof -
  have "puts oa (b1 @ b2) (bind_exec m (\<lambda>(rc, s). if rc < 0 then Ret (rc, s) else f s))"
    using assms by (intro puts_bind) auto
  then show ?thesis by (simp add: if_ok_def)
qed

text \<open>A length below 2^29 that is 128 doubled some times is at most half of that.\<close>

lemma len_half:
  assumes "oa_ok oa" "bs_len oa < 2 ^ 29"
  shows "bs_len oa \<le> 2 ^ 28"
proof -
  obtain j :: nat where j: "bs_len oa = 128 * 2 ^ j" using assms(1) by (auto simp: oa_ok_def)
  then have "(2 :: int) ^ j < 2 ^ 22" using assms(2) by simp
  then have "j < 22" using power_less_imp_less_exp [of "2 :: int" j 22] by simp
  then have "(2 :: int) ^ j \<le> 2 ^ 21" by (intro power_increasing) auto
  then show ?thesis using j by simp
qed

lemma puts_fixed:
  assumes "\<And>n. mem n" "length bs = k" "k = 4 \<or> k = 8"
  shows "puts oa bs (if size_lt (bs_len oa - bs_off oa) (int k)
      then if_ok (resize_buffer mem oa (to_int (bs_len oa + int k))) (\<lambda>s. write_buff s bs) else write_buff oa bs)"
  unfolding puts_def
proof (intro impI)
  assume a: "oa_ok oa" "bs_off oa + int (length bs) \<le> 2 ^ 29"
  show "\<exists>oa'. (if size_lt (bs_len oa - bs_off oa) (int k)
      then if_ok (resize_buffer mem oa (to_int (bs_len oa + int k))) (\<lambda>s. write_buff s bs) else write_buff oa bs) = Ret (0, oa') \<and>
    oa_ok oa' \<and> written oa' = written oa @ bs"
  proof (cases "size_lt (bs_len oa - bs_off oa) (int k)")
    case False
    then have "bs_off oa + int k \<le> bs_len oa" using a(1) by (simp add: oa_ok_def size_lt_iff)
    then show ?thesis using write_buff_spec [OF a(1), of bs] False assms(2) by auto
  next
    case True
    have "bs_len oa < bs_off oa + int k" using True a(1) by (simp add: oa_ok_def size_lt_iff)
    then have le: "bs_len oa + int k \<le> 2 ^ 30" using len_half [OF a(1)] a(2) assms(2,3) by auto
    have t: "to_int (bs_len oa + int k) = bs_len oa + int k"
      unfolding to_int_def using le oa_len_bounds(1) [OF a(1)] by (intro sint_i32_of_int) auto
    obtain s where r: "resize_buffer mem oa (bs_len oa + int k) = Ret (0, s)"
      using resize_returns [OF a(1) _ le] assms(1) by blast
    note z = resize_buffer_spec [OF r a(1) refl]
    then have "bs_off s + int (length bs) \<le> bs_len s" using a(1) assms(2) by (simp add: oa_ok_def)
    then obtain s' where "write_buff s bs = Ret (0, s')" "oa_ok s'" "written s' = written s @ bs"
      using write_buff_spec [OF z(1)] by metis
    then show ?thesis using True r t z(2) by (simp add: if_ok_def)
  qed
qed

lemma puts_room:
  assumes "\<And>n. mem n" "n = int (length bs)"
  shows "puts oa bs (if_ok (ensure_room mem oa n) (\<lambda>s. write_buff s bs))"
  unfolding puts_def
proof (intro impI)
  assume a: "oa_ok oa" "bs_off oa + int (length bs) \<le> 2 ^ 29"
  show "\<exists>oa'. if_ok (ensure_room mem oa n) (\<lambda>s. write_buff s bs) = Ret (0, oa') \<and> oa_ok oa' \<and> written oa' = written oa @ bs"
  proof (cases "bs_len oa - bs_off oa < n")
    case False
    then have "bs_off oa + int (length bs) \<le> bs_len oa" using assms(2) by simp
    then obtain s' where "write_buff oa bs = Ret (0, s')" "oa_ok s'" "written s' = written oa @ bs"
      using write_buff_spec [OF a(1)] by metis
    then show ?thesis using False by (simp add: ensure_room_def if_ok_def)
  next
    case True
    have h: "bs_len oa \<le> 2 ^ 28" using len_half [OF a(1)] True a(2) assms(2) by auto
    have n: "n \<le> 2 ^ 29" using a assms(2) by (simp add: oa_ok_def)
    have i: "in_int (bs_len oa + n)" using h n oa_len_bounds(1) [OF a(1)] assms(2) by (simp add: in_int_def)
    obtain s where r: "resize_buffer mem oa (bs_len oa + n) = Ret (0, s)"
      using resize_returns [OF a(1), of mem "bs_len oa + n"] assms(1) h n by auto
    note z = resize_buffer_spec [OF r a(1) refl]
    then have "bs_off s + int (length bs) \<le> bs_len s" using a(1) assms(2) by (simp add: oa_ok_def)
    then obtain s' where "write_buff s bs = Ret (0, s')" "oa_ok s'" "written s' = written s @ bs"
      using write_buff_spec [OF z(1)] by metis
    then show ?thesis using True r i z(2) by (simp add: ensure_room_def if_ok_def)
  qed
qed

section \<open>The contract\<close>

locale total_codec = codec +
  assumes ser_puts: "(\<And>n. mem n) \<Longrightarrow> valid v \<Longrightarrow> puts oa (enc v) (ser mem oa v)"
begin

text \<open>In a good archive with enough room the serialiser returns 0 and appends the encoding.\<close>

lemma ser_returns:
  assumes "\<And>n. mem n" "valid v" "oa_ok oa" "bs_off oa + int (length (enc v)) \<le> 2 ^ 29"
  shows "\<exists>oa'. ser mem oa v = Ret (0, oa') \<and> oa_ok oa' \<and> written oa' = written oa @ enc v"
  using ser_puts [OF assms(1,2), of oa] assms(3,4) by (auto simp: puts_def)

lemma ser_loop_puts:
  assumes "\<And>n. mem n"
  shows "\<forall>x \<in> set xs. valid x \<Longrightarrow> puts oa (concat (map enc xs)) (ser_loop (ser mem) (Some (pre @ xs)) (length pre) (length xs) (0, oa))"
proof (induction xs arbitrary: oa pre)
  case Nil
  then show ?case by (simp add: puts_def)
next
  case (Cons x xs)
  have "puts oa1 (concat (map enc xs)) (ser_loop (ser mem) (Some (pre @ x # xs)) (Suc (length pre)) (length xs) (0, oa1))" for oa1
    using Cons.IH [of oa1 "pre @ [x]"] Cons.prems by simp
  moreover have "puts oa (enc x) (ser mem oa x)" using ser_puts [OF assms] Cons.prems by simp
  ultimately have "puts oa (enc x @ concat (map enc xs))
     (bind_exec (ser mem oa x) (ser_loop (ser mem) (Some (pre @ x # xs)) (Suc (length pre)) (length xs)))"
    by (intro puts_bind) auto
  then show ?case by simp
qed

end

section \<open>The primitives\<close>

interpretation int_total: total_codec oa_serialize_int "\<lambda>_. ia_deserialize_int" enc_int "\<lambda>_. True"
proof unfold_locales
  fix mem oa and v :: i32 assume "\<And>n :: int. mem n"
  from puts_fixed [of mem "enc_int v" 4, OF this] show "puts oa (enc_int v) (oa_serialize_int mem oa v)"
    by (simp add: oa_serialize_int_def Let_def enc_int_def htonl_bytes cong: if_cong)
qed

interpretation long_total: total_codec oa_serialize_long "\<lambda>_. ia_deserialize_long" enc_long "\<lambda>_. True"
proof unfold_locales
  fix mem oa and v :: i64 assume "\<And>n :: int. mem n"
  from puts_fixed [of mem "enc_long v" 8, OF this] show "puts oa (enc_long v) (oa_serialize_long mem oa v)"
    by (simp add: oa_serialize_long_def Let_def enc_long_def zoo_htonll_bytes cong: if_cong)
qed

interpretation bool_total: total_codec oa_serialize_bool "\<lambda>_. ia_deserialize_bool" enc_bool valid_bool
proof unfold_locales
  fix mem oa and v :: i32 assume "\<And>n :: int. mem n"
  from puts_room [of mem 1 "[if v = 0 then 0 else 1]", OF this] show "puts oa (enc_bool v) (oa_serialize_bool mem oa v)"
    by (simp add: oa_serialize_bool_def enc_bool_def)
qed

interpretation string_total: total_codec oa_serialize_string ia_deserialize_string enc_string valid_string
proof unfold_locales
  fix mem oa v assume m: "\<And>n :: int. mem n" and "valid_string v"
  then obtain t where t: "v = Some t" "length t < 2 ^ 31 - 1" by (auto simp: valid_string_def)
  have n: "sint (word_of_nat (length t) :: i32) = int (length t)" using t(2) by (simp add: sint_i32_of_nat)
  have l: "length (bytes_of_string t) = length t" by (simp add: bytes_of_string_def)
  have w: "take (nat (int (length t))) (bytes_of_string t) = bytes_of_string t" by (simp add: l)
  have "puts oa (enc_int (word_of_nat (length t)) @ bytes_of_string t)
    (if_ok (oa_serialize_int mem oa (word_of_nat (length t))) (\<lambda>p. if_ok (ensure_room mem p (int (length t))) (\<lambda>p. write_buff p (bytes_of_string t))))"
    using int_total.ser_puts [OF m] puts_room [OF m, of _ "bytes_of_string t"] l by (intro puts_if_ok) auto
  then show "puts oa (enc_string v) (oa_serialize_string mem oa v)"
    by (simp add: oa_serialize_string_def enc_string_def t(1) n l Let_def)
qed

interpretation buffer_total: total_codec "\<lambda>mem oa b. oa_serialize_buffer mem oa (Some b)" ia_deserialize_buffer enc_buffer valid_buffer
proof unfold_locales
  fix mem oa b assume m: "\<And>n :: int. mem n" and v: "valid_buffer b"
  show "puts oa (enc_buffer b) (oa_serialize_buffer mem oa (Some b))"
  proof (cases "b_buff b")
    case None
    have "puts oa1 [] (Ret (0, oa1))" for oa1 by (simp add: puts_def)
    then have "puts oa (enc_int (-1) @ []) (if_ok (oa_serialize_int mem oa (-1)) (\<lambda>s. Ret (0, s)))"
      using int_total.ser_puts [OF m] by (intro puts_if_ok) auto
    then show ?thesis using None v by (simp add: oa_serialize_buffer_def enc_buffer_def valid_buffer_def)
  next
    case (Some bs)
    then have b: "length bs < 2 ^ 31" "b_len b = word_of_nat (length bs)" using v by (simp_all add: valid_buffer_def)
    have n: "sint (word_of_nat (length bs) :: i32) = int (length bs)" using b(1) by (simp add: sint_i32_of_nat)
    have ne: "(word_of_nat (length bs) :: i32) \<noteq> -1" proof
      assume "(word_of_nat (length bs) :: i32) = -1"
      then have "int (length bs) = -1" using n by simp
      then show False by simp
    qed
    have z: "(word_of_nat (length bs) :: i32) = 0 \<longleftrightarrow> bs = []" proof
      assume "(word_of_nat (length bs) :: i32) = 0"
      then have "int (length bs) = 0" using n by simp
      then show "bs = []" by simp
    qed simp
    have w: "puts oa1 bs (if_ok (ensure_room mem oa1 (int (length bs))) (\<lambda>s. if bs = [] then Ret (0, s) else write_buff s bs))" for oa1
    proof -
      have "(\<lambda>s. if bs = [] then Ret (0, s) else write_buff s bs) = (\<lambda>s. write_buff s bs)"
        by (auto simp: write_buff_def)
      then show ?thesis using puts_room [OF m, of "int (length bs)" bs oa1] by simp
    qed
    have "puts oa (enc_int (b_len b) @ bs)
      (if_ok (oa_serialize_int mem oa (b_len b)) (\<lambda>p. if_ok (ensure_room mem p (int (length bs))) (\<lambda>s. if bs = [] then Ret (0, s) else write_buff s bs)))"
      using int_total.ser_puts [OF m] w by (intro puts_if_ok) auto
    then show ?thesis using Some b
      by (simp add: oa_serialize_buffer_def enc_buffer_def n ne z cong: if_cong)
  qed
qed

lemmas [puts_intros] = int_total.ser_puts long_total.ser_puts bool_total.ser_puts string_total.ser_puts buffer_total.ser_puts

section \<open>The records that the client sends\<close>

interpretation Id_total: total_codec serialize_Id deserialize_Id enc_Id valid_Id
  by unfold_locales (unfold serialize_Id_def enc_Id_def valid_Id_def,
    (intro puts_start puts_then puts_end puts_intros; simp))

lemmas [puts_intros] = Id_total.ser_puts

interpretation ACL_total: total_codec serialize_ACL deserialize_ACL enc_ACL valid_ACL
  by unfold_locales (unfold serialize_ACL_def enc_ACL_def valid_ACL_def,
    (intro puts_start puts_then puts_end puts_intros; simp))

lemmas [puts_intros] = ACL_total.ser_puts

interpretation String_vector_total: total_codec serialize_String_vector deserialize_String_vector enc_String_vector valid_String_vector
proof unfold_locales
  fix mem oa v assume m: "\<And>n :: int. mem n" and "valid_String_vector v"
  then obtain xs where xs: "String_vector_data v = Some xs" "length xs < 2 ^ 31"
      "String_vector_count v = word_of_nat (length xs)" "\<forall>x \<in> set xs. valid_string x"
    by (auto simp: valid_String_vector_def list_all_iff)
  have n: "nat (sint (String_vector_count v)) = length xs" using xs(2,3) by (simp add: sint_i32_of_nat)
  show "puts oa (enc_String_vector v) (serialize_String_vector mem oa v)"
    unfolding serialize_String_vector_def enc_String_vector_def oa_start_vector_def n xs(1) option.sel
    using int_total.ser_puts [OF m] string_total.ser_loop_puts [OF m xs(4), where pre = "[]"]
    by (intro puts_end_vector puts_bind) auto
qed

lemmas [puts_intros] = String_vector_total.ser_puts

interpretation ACL_vector_total: total_codec serialize_ACL_vector deserialize_ACL_vector enc_ACL_vector valid_ACL_vector
proof unfold_locales
  fix mem oa v assume m: "\<And>n :: int. mem n" and "valid_ACL_vector v"
  then obtain xs where xs: "ACL_vector_data v = Some xs" "length xs < 2 ^ 31"
      "ACL_vector_count v = word_of_nat (length xs)" "\<forall>x \<in> set xs. valid_ACL x"
    by (auto simp: valid_ACL_vector_def list_all_iff)
  have n: "nat (sint (ACL_vector_count v)) = length xs" using xs(2,3) by (simp add: sint_i32_of_nat)
  show "puts oa (enc_ACL_vector v) (serialize_ACL_vector mem oa v)"
    unfolding serialize_ACL_vector_def enc_ACL_vector_def oa_start_vector_def n xs(1) option.sel
    using int_total.ser_puts [OF m] ACL_total.ser_loop_puts [OF m xs(4), where pre = "[]"]
    by (intro puts_end_vector puts_bind) auto
qed

lemmas [puts_intros] = ACL_vector_total.ser_puts

interpretation SetWatches_total: total_codec serialize_SetWatches deserialize_SetWatches enc_SetWatches valid_SetWatches
  by unfold_locales (unfold serialize_SetWatches_def enc_SetWatches_def valid_SetWatches_def,
    (intro puts_start puts_then puts_end puts_intros; simp))

lemmas [puts_intros] = SetWatches_total.ser_puts

interpretation RequestHeader_total: total_codec serialize_RequestHeader deserialize_RequestHeader enc_RequestHeader valid_RequestHeader
  by unfold_locales (unfold serialize_RequestHeader_def enc_RequestHeader_def valid_RequestHeader_def,
    (intro puts_start puts_then puts_end puts_intros; simp))

lemmas [puts_intros] = RequestHeader_total.ser_puts

interpretation MultiHeader_total: total_codec serialize_MultiHeader deserialize_MultiHeader enc_MultiHeader valid_MultiHeader
  by unfold_locales (unfold serialize_MultiHeader_def enc_MultiHeader_def valid_MultiHeader_def,
    (intro puts_start puts_then puts_end puts_intros; simp))

lemmas [puts_intros] = MultiHeader_total.ser_puts

interpretation AuthPacket_total: total_codec serialize_AuthPacket deserialize_AuthPacket enc_AuthPacket valid_AuthPacket
  by unfold_locales (unfold serialize_AuthPacket_def enc_AuthPacket_def valid_AuthPacket_def,
    (intro puts_start puts_then puts_end puts_intros; simp))

lemmas [puts_intros] = AuthPacket_total.ser_puts

interpretation ReplyHeader_total: total_codec serialize_ReplyHeader deserialize_ReplyHeader enc_ReplyHeader valid_ReplyHeader
  by unfold_locales (unfold serialize_ReplyHeader_def enc_ReplyHeader_def valid_ReplyHeader_def,
    (intro puts_start puts_then puts_end puts_intros; simp))

lemmas [puts_intros] = ReplyHeader_total.ser_puts

interpretation WatcherEvent_total: total_codec serialize_WatcherEvent deserialize_WatcherEvent enc_WatcherEvent valid_WatcherEvent
  by unfold_locales (unfold serialize_WatcherEvent_def enc_WatcherEvent_def valid_WatcherEvent_def,
    (intro puts_start puts_then puts_end puts_intros; simp))

lemmas [puts_intros] = WatcherEvent_total.ser_puts

interpretation GetDataRequest_total: total_codec serialize_GetDataRequest deserialize_GetDataRequest enc_GetDataRequest valid_GetDataRequest
  by unfold_locales (unfold serialize_GetDataRequest_def enc_GetDataRequest_def valid_GetDataRequest_def,
    (intro puts_start puts_then puts_end puts_intros; simp))

lemmas [puts_intros] = GetDataRequest_total.ser_puts

interpretation SetDataRequest_total: total_codec serialize_SetDataRequest deserialize_SetDataRequest enc_SetDataRequest valid_SetDataRequest
  by unfold_locales (unfold serialize_SetDataRequest_def enc_SetDataRequest_def valid_SetDataRequest_def,
    (intro puts_start puts_then puts_end puts_intros; simp))

lemmas [puts_intros] = SetDataRequest_total.ser_puts

interpretation ReconfigRequest_total: total_codec serialize_ReconfigRequest deserialize_ReconfigRequest enc_ReconfigRequest valid_ReconfigRequest
  by unfold_locales (unfold serialize_ReconfigRequest_def enc_ReconfigRequest_def valid_ReconfigRequest_def,
    (intro puts_start puts_then puts_end puts_intros; simp))

lemmas [puts_intros] = ReconfigRequest_total.ser_puts

interpretation CreateRequest_total: total_codec serialize_CreateRequest deserialize_CreateRequest enc_CreateRequest valid_CreateRequest
  by unfold_locales (unfold serialize_CreateRequest_def enc_CreateRequest_def valid_CreateRequest_def,
    (intro puts_start puts_then puts_end puts_intros; simp))

lemmas [puts_intros] = CreateRequest_total.ser_puts

interpretation CreateTTLRequest_total: total_codec serialize_CreateTTLRequest deserialize_CreateTTLRequest enc_CreateTTLRequest valid_CreateTTLRequest
  by unfold_locales (unfold serialize_CreateTTLRequest_def enc_CreateTTLRequest_def valid_CreateTTLRequest_def,
    (intro puts_start puts_then puts_end puts_intros; simp))

lemmas [puts_intros] = CreateTTLRequest_total.ser_puts

interpretation DeleteRequest_total: total_codec serialize_DeleteRequest deserialize_DeleteRequest enc_DeleteRequest valid_DeleteRequest
  by unfold_locales (unfold serialize_DeleteRequest_def enc_DeleteRequest_def valid_DeleteRequest_def,
    (intro puts_start puts_then puts_end puts_intros; simp))

lemmas [puts_intros] = DeleteRequest_total.ser_puts

interpretation GetChildrenRequest_total: total_codec serialize_GetChildrenRequest deserialize_GetChildrenRequest enc_GetChildrenRequest valid_GetChildrenRequest
  by unfold_locales (unfold serialize_GetChildrenRequest_def enc_GetChildrenRequest_def valid_GetChildrenRequest_def,
    (intro puts_start puts_then puts_end puts_intros; simp))

lemmas [puts_intros] = GetChildrenRequest_total.ser_puts

interpretation GetChildren2Request_total: total_codec serialize_GetChildren2Request deserialize_GetChildren2Request enc_GetChildren2Request valid_GetChildren2Request
  by unfold_locales (unfold serialize_GetChildren2Request_def enc_GetChildren2Request_def valid_GetChildren2Request_def,
    (intro puts_start puts_then puts_end puts_intros; simp))

lemmas [puts_intros] = GetChildren2Request_total.ser_puts

interpretation CheckVersionRequest_total: total_codec serialize_CheckVersionRequest deserialize_CheckVersionRequest enc_CheckVersionRequest valid_CheckVersionRequest
  by unfold_locales (unfold serialize_CheckVersionRequest_def enc_CheckVersionRequest_def valid_CheckVersionRequest_def,
    (intro puts_start puts_then puts_end puts_intros; simp))

lemmas [puts_intros] = CheckVersionRequest_total.ser_puts

interpretation SyncRequest_total: total_codec serialize_SyncRequest deserialize_SyncRequest enc_SyncRequest valid_SyncRequest
  by unfold_locales (unfold serialize_SyncRequest_def enc_SyncRequest_def valid_SyncRequest_def,
    (intro puts_start puts_then puts_end puts_intros; simp))

lemmas [puts_intros] = SyncRequest_total.ser_puts

interpretation GetACLRequest_total: total_codec serialize_GetACLRequest deserialize_GetACLRequest enc_GetACLRequest valid_GetACLRequest
  by unfold_locales (unfold serialize_GetACLRequest_def enc_GetACLRequest_def valid_GetACLRequest_def,
    (intro puts_start puts_then puts_end puts_intros; simp))

lemmas [puts_intros] = GetACLRequest_total.ser_puts

interpretation SetACLRequest_total: total_codec serialize_SetACLRequest deserialize_SetACLRequest enc_SetACLRequest valid_SetACLRequest
  by unfold_locales (unfold serialize_SetACLRequest_def enc_SetACLRequest_def valid_SetACLRequest_def,
    (intro puts_start puts_then puts_end puts_intros; simp))

lemmas [puts_intros] = SetACLRequest_total.ser_puts

interpretation ExistsRequest_total: total_codec serialize_ExistsRequest deserialize_ExistsRequest enc_ExistsRequest valid_ExistsRequest
  by unfold_locales (unfold serialize_ExistsRequest_def enc_ExistsRequest_def valid_ExistsRequest_def,
    (intro puts_start puts_then puts_end puts_intros; simp))

lemmas [puts_intros] = ExistsRequest_total.ser_puts

interpretation CheckWatchesRequest_total: total_codec serialize_CheckWatchesRequest deserialize_CheckWatchesRequest enc_CheckWatchesRequest valid_CheckWatchesRequest
  by unfold_locales (unfold serialize_CheckWatchesRequest_def enc_CheckWatchesRequest_def valid_CheckWatchesRequest_def,
    (intro puts_start puts_then puts_end puts_intros; simp))

lemmas [puts_intros] = CheckWatchesRequest_total.ser_puts

interpretation RemoveWatchesRequest_total: total_codec serialize_RemoveWatchesRequest deserialize_RemoveWatchesRequest enc_RemoveWatchesRequest valid_RemoveWatchesRequest
  by unfold_locales (unfold serialize_RemoveWatchesRequest_def enc_RemoveWatchesRequest_def valid_RemoveWatchesRequest_def,
    (intro puts_start puts_then puts_end puts_intros; simp))

lemmas [puts_intros] = RemoveWatchesRequest_total.ser_puts

end
