(* ===== verification/Zk_Session.thy ===== *)
theory Zk_Session
  imports Zk_Frame Reconfig Jute_Total
begin

text \<open>
  The handle of a session (\<^verbatim>\<open>struct _zhandle\<close>), its queues of packets and requests, the list of
  authentications, and what happens to all of them when a connection is lost (\<^verbatim>\<open>zookeeper.c\<close>, in the
  multithreaded build, where user code runs in the completion thread and synchronous callers wait on
  their \<^verbatim>\<open>struct sync_completion\<close>). Queues are lists here; theory Zk_Queue relates the linked lists of
  the source to them.

  The lemmas show that a lost connection completes every outstanding request exactly once with the
  reason it is given, and in which order the packets of a new connection are queued.
\<close>

section \<open>Data\<close>

definition SYNCHRONOUS_MARKER :: addr where
  "SYNCHRONOUS_MARKER = 1"

definition COMPLETION_WATCH :: int where [simp]: "COMPLETION_WATCH = -1"
definition COMPLETION_VOID :: int where [simp]: "COMPLETION_VOID = 0"
definition COMPLETION_STAT :: int where [simp]: "COMPLETION_STAT = 1"
definition COMPLETION_DATA :: int where [simp]: "COMPLETION_DATA = 2"
definition COMPLETION_STRINGLIST :: int where [simp]: "COMPLETION_STRINGLIST = 3"
definition COMPLETION_STRINGLIST_STAT :: int where [simp]: "COMPLETION_STRINGLIST_STAT = 4"
definition COMPLETION_ACLLIST :: int where [simp]: "COMPLETION_ACLLIST = 5"
definition COMPLETION_STRING :: int where [simp]: "COMPLETION_STRING = 6"
definition COMPLETION_MULTI :: int where [simp]: "COMPLETION_MULTI = 7"
definition COMPLETION_STRING_STAT :: int where [simp]: "COMPLETION_STRING_STAT = 8"

text \<open>
  An outstanding request: the function that completes it (\<^verbatim>\<open>c_dc\<close>, one pointer whatever the member of
  the union) and its data pointer. The entries of a multi request have no watch, buffer or entries of
  their own.
\<close>

record completion_entry =
  c_xid :: i32
  c_type :: int
  c_dc :: addr
  c_data :: addr

record completion_list = completion_entry +
  c_watcher :: "watcher_registration option"
  c_dereg :: "watcher_deregistration option"
  c_watchers :: "watcher_object_list option"
  c_buffer :: "buffer_list option"
  c_clist :: "completion_entry list"

text \<open>
  \<^verbatim>\<open>struct sync_completion\<close>, whose address is the data pointer of a synchronous request. The members of
  the union are kept apart: a request writes and reads only those of its own type.
\<close>

record sync_completion =
  sc_rc :: int
  sc_complete :: bool
  sc_str :: "char list"
  sc_str_len :: int
  sc_stat :: "Stat option"
  sc_buffer :: "byte list option"
  sc_buff_len :: i32
  sc_strs :: "String_vector option"
  sc_acl :: "ACL_vector option"

record auth_info =
  au_state :: int
  au_scheme :: "string option"
  au_auth :: buffer
  au_completion :: addr
  au_data :: addr

text \<open>The calls of user code, in the order they are made.\<close>

datatype user_call =
    Watcher_call watch_call
  | Void_call addr int addr
  | Stat_call addr int "Stat option" addr
  | Data_call addr int "byte list option" i32 "Stat option" addr
  | Strings_call addr int "String_vector option" addr
  | Strings_stat_call addr int "String_vector option" "Stat option" addr
  | String_call addr int "string option" addr
  | String_stat_call addr int "string option" "Stat option" addr
  | Acl_call addr int "ACL_vector option" "Stat option" addr

text \<open>\<^verbatim>\<open>zh->input_buffer\<close> points to the primer buffer of the handle or to a buffer of its own.\<close>

datatype input = Primer | Packet buffer_list

text \<open>
  The handle. \<^verbatim>\<open>net_in\<close> and \<^verbatim>\<open>net_out\<close> are the connection: what the socket will answer, and the bytes it
  has taken. \<^verbatim>\<open>rw_found\<close> is the static pointer \<^verbatim>\<open>addr_rw_server\<close>, which is NULL or points to the field
  of the same name.
\<close>

record session = server_state +
  delay :: bool
  disable_reconnection_attempt :: bool
  last_recv :: timeval
  last_send :: timeval
  last_ping :: timeval
  next_deadline :: timeval
  recv_timeout :: i32
  input_buffer :: "input option"
  to_process :: "buffer_list list"
  to_send :: "buffer_list list"
  sent_requests :: "completion_list list"
  completions_to_process :: "completion_list list"
  outstanding_sync :: int
  last_ping_rw :: timeval
  ping_rw_timeout :: int
  client_id :: i64
  client_passwd :: "byte list"
  last_zxid :: i64
  auth_h :: "auth_info list"
  primer_buf :: buffer_list
  primer_storage :: prime_struct
  addr_rw_server :: sockaddr
  rw_found :: bool
  close_requested :: bool
  allow_read_only :: byte
  seen_rw_server_before :: byte
  syncs :: "addr \<Rightarrow> sync_completion option"
  calls :: "user_call list"
  net_in :: "recv_result list"
  net_out :: wire

text \<open>The memory, the clock, and what an uninitialised \<^verbatim>\<open>int\<close> on the stack holds.\<close>

record env =
  en_alloc :: alloc
  en_archive :: bool
  en_mem :: "int \<Rightarrow> bool"
  en_now :: timeval
  en_junk :: i32

definition new_oarchive :: "env \<Rightarrow> buff_struct option" where
  "new_oarchive e = create_buffer_oarchive (en_archive e) (en_archive e) (en_mem e)"

section \<open>Session states\<close>

definition is_unrecoverable :: "session \<Rightarrow> int" where
  "is_unrecoverable zh = (if zh_state zh < 0 then ZINVALIDSTATE else ZOK)"

definition zh_is_connected :: "session \<Rightarrow> bool" where
  "zh_is_connected zh \<longleftrightarrow> zh_state zh = ZOO_CONNECTED_STATE \<or> zh_state zh = ZOO_READONLY_STATE"

section \<open>Authentications\<close>

definition get_last_auth :: "auth_info list \<Rightarrow> auth_info option" where
  "get_last_auth as = (if as = [] then None else Some (last as))"

definition add_last_auth :: "auth_info list \<Rightarrow> auth_info \<Rightarrow> auth_info list" where
  "add_last_auth as a = as @ [a]"

definition add_auth_completion :: "(addr \<times> addr) list \<Rightarrow> addr \<Rightarrow> addr \<Rightarrow> (addr \<times> addr) list" where
  "add_auth_completion l completion data = l @ [(completion, data)]"

fun get_auth_completions :: "auth_info list \<Rightarrow> (addr \<times> addr) list \<Rightarrow> (addr \<times> addr) list \<times> auth_info list" where
  "get_auth_completions [] l = (l, [])"
| "get_auth_completions (a # as) l =
     (case get_auth_completions as
             (if au_completion a \<noteq> NULL then add_auth_completion l (au_completion a) (au_data a) else l) of
        (l', as') \<Rightarrow> (l', a\<lparr> au_completion := NULL \<rparr> # as'))"

definition mark_active_auth :: "session \<Rightarrow> session" where
  "mark_active_auth zh = zh\<lparr> auth_h := map (\<lambda>a. a\<lparr> au_state := 1 \<rparr>) (auth_h zh) \<rparr>"

text \<open>The loop that calls the completions that were collected.\<close>

definition call_auth_completions :: "int \<Rightarrow> session \<Rightarrow> session" where
  "call_auth_completions rc zh =
     (case get_auth_completions (auth_h zh) [] of
        (l, as) \<Rightarrow> zh\<lparr> auth_h := as, calls := calls zh @ map (\<lambda>(f, d). Void_call f rc d) l \<rparr>)"

text \<open>
  After an error the scheme of the first authentication is logged (the default level prints it),
  which reads through a NULL pointer when there is none.
\<close>

definition auth_completion_func :: "int \<Rightarrow> session \<Rightarrow> session exec" where
  "auth_completion_func rc zh =
     (let zh1 = (if rc \<noteq> 0 then zh\<lparr> zh_state := ZOO_AUTH_FAILED_STATE \<rparr> else mark_active_auth zh) in
      if auth_h zh1 = [] then UB else Ret (call_auth_completions rc zh1))"

section \<open>Queues\<close>

definition queue_buffer_bytes ::
  "env \<Rightarrow> buffer_list list \<Rightarrow> byte list option \<Rightarrow> int \<Rightarrow> int \<times> buffer_list list" where
  "queue_buffer_bytes e list buff len =
     (case allocate_buffer (obj_ok (en_alloc e)) buff len of None \<Rightarrow> (ZSYSTEMERROR, list)
      | Some b \<Rightarrow> (ZOK, list @ [b]))"

definition queue_front_buffer_bytes ::
  "env \<Rightarrow> buffer_list list \<Rightarrow> byte list option \<Rightarrow> int \<Rightarrow> int \<times> buffer_list list" where
  "queue_front_buffer_bytes e list buff len =
     (case allocate_buffer (obj_ok (en_alloc e)) buff len of None \<Rightarrow> (ZSYSTEMERROR, list)
      | Some b \<Rightarrow> (ZOK, b # list))"

definition create_watcher_registration ::
  "env \<Rightarrow> string \<Rightarrow> (int \<Rightarrow> watch_table option) \<Rightarrow> addr \<Rightarrow> addr \<Rightarrow> watcher_registration option exec" where
  "create_watcher_registration e path checker watcher ctx =
     (if watcher = NULL then Ret None
      else if \<not> obj_ok (en_alloc e) then UB
      else Ret (Some \<lparr> reg_watcher = watcher, reg_context = ctx, reg_checker = checker, reg_path = path \<rparr>))"

definition create_watcher_deregistration ::
  "env \<Rightarrow> string \<Rightarrow> addr \<Rightarrow> addr \<Rightarrow> int \<Rightarrow> watcher_deregistration option" where
  "create_watcher_deregistration e path watcher watcherCtx wtype =
     (if \<not> obj_ok (en_alloc e) then None
      else Some \<lparr> dereg_watcher = watcher, dereg_context = watcherCtx, dereg_type = wtype, dereg_path = path \<rparr>)"

definition do_create_completion_entry ::
  "env \<Rightarrow> i32 \<Rightarrow> int \<Rightarrow> addr \<Rightarrow> addr \<Rightarrow> watcher_registration option \<Rightarrow> completion_entry list option \<Rightarrow>
   watcher_deregistration option \<Rightarrow> completion_list option exec" where
  "do_create_completion_entry e xid ty dc data wo clist wdo =
     (if \<not> obj_ok (en_alloc e) then Ret None
      else if ty = COMPLETION_MULTI \<and> clist = None then UB
      else Ret (Some \<lparr> c_xid = xid, c_type = ty,
        c_dc = (if ty \<in> {COMPLETION_VOID, COMPLETION_STRING, COMPLETION_DATA, COMPLETION_STAT, COMPLETION_STRINGLIST,
                         COMPLETION_STRINGLIST_STAT, COMPLETION_STRING_STAT, COMPLETION_ACLLIST, COMPLETION_MULTI}
                then dc else NULL),
        c_data = data, c_watcher = wo, c_dereg = wdo, c_watchers = None, c_buffer = None,
        c_clist = (if ty = COMPLETION_MULTI then the clist else []) \<rparr>))"

definition do_add_completion :: "session \<Rightarrow> addr \<Rightarrow> completion_list option \<Rightarrow> bool \<Rightarrow> int \<times> session" where
  "do_add_completion zh dc c add_to_front =
     (case c of None \<Rightarrow> (ZSYSTEMERROR, zh)
      | Some c \<Rightarrow>
          if \<not> close_requested zh then
            (ZOK, zh\<lparr> sent_requests := (if add_to_front then c # sent_requests zh else sent_requests zh @ [c]),
                      outstanding_sync := outstanding_sync zh + (if dc = SYNCHRONOUS_MARKER then 1 else 0) \<rparr>)
          else (ZINVALIDSTATE, zh))"

definition add_completion ::
  "env \<Rightarrow> session \<Rightarrow> i32 \<Rightarrow> int \<Rightarrow> addr \<Rightarrow> addr \<Rightarrow> bool \<Rightarrow> watcher_registration option \<Rightarrow>
   completion_entry list option \<Rightarrow> (int \<times> session) exec" where
  "add_completion e zh xid ty dc data add_to_front wo clist =
     bind_exec (do_create_completion_entry e xid ty dc data wo clist None)
      (\<lambda>c. Ret (do_add_completion zh dc c add_to_front))"

definition add_completion_deregistration ::
  "env \<Rightarrow> session \<Rightarrow> i32 \<Rightarrow> int \<Rightarrow> addr \<Rightarrow> addr \<Rightarrow> bool \<Rightarrow> watcher_deregistration option \<Rightarrow>
   completion_entry list option \<Rightarrow> (int \<times> session) exec" where
  "add_completion_deregistration e zh xid ty dc data add_to_front wdo clist =
     bind_exec (do_create_completion_entry e xid ty dc data None clist wdo)
      (\<lambda>c. Ret (do_add_completion zh dc c add_to_front))"

section \<open>Session events\<close>

text \<open>A loop that does not end counts as undefined here; the lemmas show that neither happens.\<close>

definition ended :: "'a exec option \<Rightarrow> 'a exec" where
  "ended r = (case r of None \<Rightarrow> UB | Some x \<Rightarrow> x)"

text \<open>
  The event is queued for the completion thread as a packet of its own, with the watchers it is for. The
  entry and the buffer are used before they are tested for NULL.
\<close>

definition queue_session_event :: "env \<Rightarrow> session \<Rightarrow> int \<Rightarrow> (int \<times> session) exec" where
  "queue_session_event e zh state =
     (case new_oarchive e of None \<Rightarrow> Ret (ZSYSTEMERROR, zh)
      | Some oa \<Rightarrow>
          bind_exec (if_ok (serialize_ReplyHeader (en_mem e) oa
                       \<lparr> ReplyHeader_xid = word_of_int WATCHER_EVENT_XID, ReplyHeader_zxid = 0, ReplyHeader_err = 0 \<rparr>)
                     (\<lambda>oa. serialize_WatcherEvent (en_mem e) oa
                       \<lparr> WatcherEvent_type = word_of_int ZOO_SESSION_EVENT, WatcherEvent_state = word_of_int state,
                         WatcherEvent_path = Some [] \<rparr>))
           (\<lambda>(rc, oa).
              if rc < 0 then Ret (ZSYSTEMERROR, zh)
              else bind_exec (do_create_completion_entry e (word_of_int WATCHER_EVENT_XID) COMPLETION_WATCH NULL NULL None None None)
               (\<lambda>c. case c of None \<Rightarrow> UB
                  | Some cptr \<Rightarrow>
                      (case allocate_buffer (obj_ok (en_alloc e)) (get_buffer oa) (get_buffer_len oa) of
                         None \<Rightarrow> UB
                       | Some b \<Rightarrow>
                           bind_exec (ended (collectWatchers (en_alloc e) zh ZOO_SESSION_EVENT []))
                            (\<lambda>(wl, zh1). Ret (ZOK, zh1\<lparr> completions_to_process := completions_to_process zh1 @
                               [cptr\<lparr> c_buffer := Some (b\<lparr> bl_off := get_buffer_len oa \<rparr>), c_watchers := Some wl \<rparr>] \<rparr>))))))"

section \<open>Losing a connection\<close>

definition notify_sync_completion :: "addr \<Rightarrow> session \<Rightarrow> session exec" where
  "notify_sync_completion a zh =
     (case syncs zh a of None \<Rightarrow> UB
      | Some sc \<Rightarrow> Ret (zh\<lparr> syncs := (syncs zh)(a \<mapsto> sc\<lparr> sc_complete := True \<rparr>) \<rparr>))"

text \<open>
  The reply that \<^verbatim>\<open>free_completions\<close> makes up; the codes of the archive are not tested, and the buffer is
  asserted to exist.
\<close>

definition fake_reply :: "env \<Rightarrow> i32 \<Rightarrow> int \<Rightarrow> buffer_list exec" where
  "fake_reply e xid reason =
     (case new_oarchive e of None \<Rightarrow> UB
      | Some oa \<Rightarrow>
          bind_exec (serialize_ReplyHeader (en_mem e) oa
              \<lparr> ReplyHeader_xid = xid, ReplyHeader_zxid = -1, ReplyHeader_err = word_of_int reason \<rparr>)
           (\<lambda>(rc, oa).
              if \<not> obj_ok (en_alloc e) then UB
              else Ret \<lparr> bl_buffer = get_buffer oa, bl_len = word_of_int (get_buffer_len oa), bl_off = 0 \<rparr>))"

fun free_requests :: "env \<Rightarrow> bool \<Rightarrow> int \<Rightarrow> completion_list list \<Rightarrow> session \<Rightarrow> session exec" where
  "free_requests e callCompletion reason [] zh = Ret zh"
| "free_requests e callCompletion reason (cptr # cs) zh =
     (if c_dc cptr = SYNCHRONOUS_MARKER then
        (case syncs zh (c_data cptr) of None \<Rightarrow> UB
         | Some sc \<Rightarrow>
             bind_exec (notify_sync_completion (c_data cptr)
                          (zh\<lparr> syncs := (syncs zh)(c_data cptr \<mapsto> sc\<lparr> sc_rc := reason \<rparr>) \<rparr>))
              (\<lambda>zh1. free_requests e callCompletion reason cs
                       (zh1\<lparr> outstanding_sync := outstanding_sync zh1 - 1 \<rparr>)))
      else if callCompletion then
        bind_exec (fake_reply e (c_xid cptr) reason)
         (\<lambda>bptr. free_requests e callCompletion reason cs
            (zh\<lparr> completions_to_process := completions_to_process zh @ [cptr\<lparr> c_buffer := Some bptr \<rparr>] \<rparr>))
      else free_requests e callCompletion reason cs zh)"

definition free_completions :: "env \<Rightarrow> bool \<Rightarrow> int \<Rightarrow> session \<Rightarrow> session exec" where
  "free_completions e callCompletion reason zh =
     bind_exec (free_requests e callCompletion reason (sent_requests zh) (zh\<lparr> sent_requests := [] \<rparr>))
      (\<lambda>zh1. Ret (call_auth_completions reason zh1))"

definition cleanup_bufs :: "env \<Rightarrow> bool \<Rightarrow> int \<Rightarrow> session \<Rightarrow> session exec" where
  "cleanup_bufs e callCompletion rc zh =
     bind_exec (free_completions e callCompletion rc (zh\<lparr> to_send := [], to_process := [] \<rparr>))
      (\<lambda>zh1. Ret (case input_buffer zh1 of Some (Packet _) \<Rightarrow> zh1\<lparr> input_buffer := None \<rparr> | _ \<Rightarrow> zh1))"

definition cleanup :: "env \<Rightarrow> session \<Rightarrow> int \<Rightarrow> session exec" where
  "cleanup e zh0 rc =
     (let zh = close_zsock zh0 in
      bind_exec
        (if is_unrecoverable zh \<noteq> 0 then queue_session_event e zh (zh_state zh)
         else if zh_is_connected zh then queue_session_event e zh ZOO_CONNECTING_STATE
         else Ret (ZOK, zh))
       (\<lambda>(_, zh1). bind_exec (cleanup_bufs e True rc zh1)
          (\<lambda>zh2. Ret (if is_unrecoverable zh2 = 0 then zh2\<lparr> zh_state := 0 \<rparr> else zh2))))"

text \<open>\<^verbatim>\<open>handle_socket_error_msg\<close> logs, calls \<^verbatim>\<open>handle_error\<close> and returns the code it is given.\<close>

definition handle_error :: "env \<Rightarrow> session \<Rightarrow> int \<Rightarrow> session exec" where
  "handle_error e zh rc =
     bind_exec (cleanup e zh rc)
      (\<lambda>zh1. bind_exec (addrvec_next (addrs zh1))
         (\<lambda>(a, v). Ret (zh1\<lparr> delay := addrvec_atend (addrs zh1), addrs := v, addr_cur := a \<rparr>)))"

definition handle_socket_error :: "env \<Rightarrow> session \<Rightarrow> int \<Rightarrow> (int \<times> session) exec" where
  "handle_socket_error e zh rc = bind_exec (handle_error e zh rc) (\<lambda>zh1. Ret (rc, zh1))"

section \<open>Memory lasts\<close>

definition env_ok :: "env \<Rightarrow> bool" where
  "env_ok e \<longleftrightarrow> en_alloc e = all_memory \<and> en_archive e \<and> (\<forall>n. en_mem e n)"

lemma env_okD [simp]:
  assumes "env_ok e"
  shows "obj_ok (en_alloc e)" "en_archive e" "en_mem e n"
  using assms by (simp_all add: env_ok_def all_memory_def)

lemma env_ok_alloc: "env_ok e \<Longrightarrow> en_alloc e = all_memory"
  unfolding env_ok_def by (elim conjE)

lemma new_oarchive_ok:
  assumes "env_ok e"
  obtains oa where "new_oarchive e = Some oa" "oa_ok oa" "written oa = []" "bs_off oa = 0"
proof -
  let ?oa = "\<lparr> bs_len = 128, bs_off = 0, bs_buffer = Some (replicate 128 0) \<rparr>"
  have "new_oarchive e = Some ?oa" using assms by (simp add: new_oarchive_def create_buffer_oarchive_def)
  moreover have "oa_ok ?oa" by (auto simp: oa_ok_def intro: exI [of _ 0])
  ultimately show thesis using that [of ?oa] by (simp add: written_def)
qed

text \<open>A buffer holds a message: its block begins with it and its length is that of the message.\<close>

definition carries :: "buffer_list \<Rightarrow> byte list \<Rightarrow> bool" where
  "carries b bs \<longleftrightarrow> (\<exists>blk. bl_buffer b = Some blk \<and> length bs \<le> length blk \<and> take (length bs) blk = bs) \<and>
     bl_len b = word_of_nat (length bs) \<and> 0 < length bs \<and> length bs < 2 ^ 31"

lemma written_block:
  assumes "oa_ok oa"
  shows "\<exists>blk. get_buffer oa = Some blk \<and> length (written oa) \<le> length blk \<and> take (length (written oa)) blk = written oa"
    "get_buffer_len oa = int (length (written oa))"
  using assms by (auto simp: oa_ok_def written_def get_buffer_def get_buffer_len_def)

lemma carries_written:
  assumes "oa_ok oa" "written oa \<noteq> []" "length (written oa) < 2 ^ 31"
    "bl_buffer b = get_buffer oa" "bl_len b = word_of_int (get_buffer_len oa)"
  shows "carries b (written oa)"
  using written_block [OF assms(1)] assms(2-5) by (auto simp: carries_def)

lemma allocate_written:
  assumes "env_ok e" "oa_ok oa" "written oa \<noteq> []" "length (written oa) < 2 ^ 31"
  obtains b where "allocate_buffer (obj_ok (en_alloc e)) (get_buffer oa) (get_buffer_len oa) = Some b"
    "carries b (written oa)" "bl_off b = 0"
proof -
  let ?b = "\<lparr> bl_buffer = get_buffer oa, bl_len = word_of_int (get_buffer_len oa), bl_off = 0 \<rparr>"
  have "get_buffer_len oa \<noteq> 0" using written_block(2) [OF assms(2)] assms(3) by simp
  then have "allocate_buffer (obj_ok (en_alloc e)) (get_buffer oa) (get_buffer_len oa) = Some ?b"
    using assms(1) by (simp add: allocate_buffer_def)
  moreover have "carries ?b (written oa)" using assms(2-4) by (intro carries_written) auto
  ultimately show thesis using that by simp
qed

lemma length_enc_ReplyHeader [simp]: "length (enc_ReplyHeader h) = 16"
  by (simp add: enc_ReplyHeader_def)

section \<open>Session events\<close>

definition event_message :: "int \<Rightarrow> byte list" where
  "event_message state =
     enc_ReplyHeader \<lparr> ReplyHeader_xid = -1, ReplyHeader_zxid = 0, ReplyHeader_err = 0 \<rparr> @
     enc_WatcherEvent \<lparr> WatcherEvent_type = -1, WatcherEvent_state = word_of_int state, WatcherEvent_path = Some [] \<rparr>"

lemma length_event_message: "length (event_message state) = 28"
  by (simp add: event_message_def enc_WatcherEvent_def enc_string_def bytes_of_string_def)

text \<open>An entry of the completion queue that will tell every watcher about a session state.\<close>

definition session_event_entry :: "session \<Rightarrow> int \<Rightarrow> completion_list \<Rightarrow> bool" where
  "session_event_entry zh state c \<longleftrightarrow> c_dc c = NULL \<and> c_type c = COMPLETION_WATCH \<and>
     (\<exists>b. c_buffer c = Some b \<and> carries b (event_message state)) \<and>
     (\<exists>wl. c_watchers c = Some wl \<and> distinct wl \<and>
        set wl = insert \<lparr> wo_watcher = zh_watcher zh, wo_context = zh_context zh \<rparr> (\<Union>t p. registered zh t p))"

lemma event_serialised:
  assumes "env_ok e" "oa_ok oa" "bs_off oa = 0" "written oa = []"
  obtains oa' where
    "if_ok (serialize_ReplyHeader (en_mem e) oa
        \<lparr> ReplyHeader_xid = -1, ReplyHeader_zxid = 0, ReplyHeader_err = 0 \<rparr>)
      (\<lambda>oa. serialize_WatcherEvent (en_mem e) oa
        \<lparr> WatcherEvent_type = -1, WatcherEvent_state = word_of_int state, WatcherEvent_path = Some [] \<rparr>) = Ret (0, oa')"
    "oa_ok oa'" "written oa' = event_message state"
proof -
  have m: "\<And>n. en_mem e n" using assms(1) by simp
  have "puts oa (event_message state) (if_ok (serialize_ReplyHeader (en_mem e) oa
        \<lparr> ReplyHeader_xid = -1, ReplyHeader_zxid = 0, ReplyHeader_err = 0 \<rparr>)
      (\<lambda>oa. serialize_WatcherEvent (en_mem e) oa
        \<lparr> WatcherEvent_type = -1, WatcherEvent_state = word_of_int state, WatcherEvent_path = Some [] \<rparr>))"
    unfolding event_message_def
    by (intro puts_if_ok puts_intros m) (simp_all add: valid_ReplyHeader_def valid_WatcherEvent_def valid_string_def)
  then show thesis using that assms(2-4) length_event_message [of state] by (auto simp: puts_def)
qed

lemma queue_session_event_spec:
  assumes "env_ok e" "watch_ok zh"
  obtains c where "queue_session_event e zh state =
      Ret (ZOK, zh\<lparr> completions_to_process := completions_to_process zh @ [c] \<rparr>)" "session_event_entry zh state c"
proof -
  obtain oa where oa: "new_oarchive e = Some oa" "oa_ok oa" "written oa = []" "bs_off oa = 0"
    using new_oarchive_ok [OF assms(1)] .
  obtain oa' where s: "if_ok (serialize_ReplyHeader (en_mem e) oa
        \<lparr> ReplyHeader_xid = -1, ReplyHeader_zxid = 0, ReplyHeader_err = 0 \<rparr>)
      (\<lambda>oa. serialize_WatcherEvent (en_mem e) oa
        \<lparr> WatcherEvent_type = -1, WatcherEvent_state = word_of_int state, WatcherEvent_path = Some [] \<rparr>) = Ret (0, oa')"
    "oa_ok oa'" "written oa' = event_message state"
    using event_serialised [OF assms(1) oa(2,4,3)] .
  have "length (written oa') = 28" using s(3) length_event_message by simp
  then have ne: "written oa' \<noteq> []" "length (written oa') < 2 ^ 31" by auto
  obtain b where b: "allocate_buffer (obj_ok (en_alloc e)) (get_buffer oa') (get_buffer_len oa') = Some b"
      "carries b (event_message state)"
    using allocate_written [OF assms(1) s(2)] ne s(3) by metis
  obtain wl where wl: "collectWatchers (en_alloc e) zh ZOO_SESSION_EVENT [] = Some (Ret (wl, zh))" "distinct wl"
      "set wl = insert \<lparr> wo_watcher = zh_watcher zh, wo_context = zh_context zh \<rparr> (\<Union>t p. registered zh t p)"
    using collectWatchers_session [OF _ assms(2), of "en_alloc e" "[]"] assms(1) by auto
  let ?c = "\<lparr> c_xid = -1, c_type = -1, c_dc = NULL, c_data = NULL, c_watcher = None, c_dereg = None, c_watchers = Some wl,
      c_buffer = Some (b\<lparr> bl_off := get_buffer_len oa' \<rparr>), c_clist = [] \<rparr>"
  have "queue_session_event e zh state = Ret (ZOK, zh\<lparr> completions_to_process := completions_to_process zh @ [?c] \<rparr>)"
    using s(1) b(1) wl(1) assms(1)
    by (simp add: queue_session_event_def oa(1) do_create_completion_entry_def ended_def)
  moreover have "session_event_entry zh state ?c"
    using wl(2,3) b(2) by (auto simp: session_event_entry_def carries_def)
  ultimately show thesis using that by blast
qed

section \<open>A lost connection completes every request\<close>

abbreviation is_sync :: "completion_list \<Rightarrow> bool" where
  "is_sync c \<equiv> c_dc c = SYNCHRONOUS_MARKER"

abbreviation is_async :: "completion_list \<Rightarrow> bool" where
  "is_async c \<equiv> c_dc c \<noteq> SYNCHRONOUS_MARKER"

text \<open>The entry of a request with a made-up reply that carries the reason.\<close>

definition failed_reply :: "int \<Rightarrow> completion_list \<Rightarrow> completion_list \<Rightarrow> bool" where
  "failed_reply reason c r \<longleftrightarrow> (\<exists>b. r = c\<lparr> c_buffer := Some b \<rparr> \<and>
     carries b (enc_ReplyHeader \<lparr> ReplyHeader_xid = c_xid c, ReplyHeader_zxid = -1, ReplyHeader_err = word_of_int reason \<rparr>))"

text \<open>The callers of the synchronous requests among \<^verbatim>\<open>cs\<close> are told the reason.\<close>

definition failed_syncs ::
  "int \<Rightarrow> completion_list list \<Rightarrow> (addr \<Rightarrow> sync_completion option) \<Rightarrow> addr \<Rightarrow> sync_completion option" where
  "failed_syncs reason cs f = (\<lambda>a.
     if \<exists>c \<in> set cs. is_sync c \<and> c_data c = a
     then map_option (\<lambda>sc. sc\<lparr> sc_rc := reason, sc_complete := True \<rparr>) (f a) else f a)"

text \<open>Every synchronous request has a caller that waits for it.\<close>

definition has_caller :: "completion_list list \<Rightarrow> (addr \<Rightarrow> sync_completion option) \<Rightarrow> bool" where
  "has_caller cs f \<longleftrightarrow> (\<forall>c \<in> set cs. is_sync c \<longrightarrow> f (c_data c) \<noteq> None)"

lemma fake_reply_spec:
  assumes "env_ok e"
  obtains b where "fake_reply e xid reason = Ret b"
    "carries b (enc_ReplyHeader \<lparr> ReplyHeader_xid = xid, ReplyHeader_zxid = -1, ReplyHeader_err = word_of_int reason \<rparr>)"
proof -
  let ?h = "\<lparr> ReplyHeader_xid = xid, ReplyHeader_zxid = -1, ReplyHeader_err = word_of_int reason \<rparr>"
  obtain oa where oa: "new_oarchive e = Some oa" "oa_ok oa" "written oa = []" "bs_off oa = 0"
    using new_oarchive_ok [OF assms] .
  have "puts oa (enc_ReplyHeader ?h) (serialize_ReplyHeader (en_mem e) oa ?h)"
    using assms by (intro puts_intros) (simp_all add: valid_ReplyHeader_def)
  then obtain oa' where s: "serialize_ReplyHeader (en_mem e) oa ?h = Ret (0, oa')" "oa_ok oa'" "written oa' = enc_ReplyHeader ?h"
    using oa by (auto simp: puts_def)
  have "length (written oa') = 16" using s(3) by simp
  then have "carries \<lparr> bl_buffer = get_buffer oa', bl_len = word_of_int (get_buffer_len oa'), bl_off = 0 \<rparr> (written oa')"
    using s(2) by (intro carries_written) auto
  then show thesis using that s oa(1) assms by (auto simp: fake_reply_def)
qed

lemma failed_syncs_Cons:
  "is_sync c \<Longrightarrow> failed_syncs reason cs (f(c_data c := map_option (\<lambda>sc. sc\<lparr> sc_rc := reason, sc_complete := True \<rparr>) (f (c_data c)))) =
    failed_syncs reason (c # cs) f"
  by (rule ext) (auto simp: failed_syncs_def option.map_comp o_def)

lemma free_requests_spec:
  assumes "env_ok e"
  shows "has_caller cs (syncs zh) \<Longrightarrow> \<exists>replies. list_all2 (failed_reply reason) (filter is_async cs) replies \<and>
    free_requests e True reason cs zh = Ret (zh\<lparr> completions_to_process := completions_to_process zh @ replies,
      outstanding_sync := outstanding_sync zh - int (length (filter is_sync cs)),
      syncs := failed_syncs reason cs (syncs zh) \<rparr>)"
proof (induction cs arbitrary: zh)
  case Nil
  then show ?case by (simp add: failed_syncs_def)
next
  case (Cons c cs)
  show ?case
  proof (cases "is_sync c")
    case True
    then obtain sc where sc: "syncs zh (c_data c) = Some sc" using Cons.prems by (auto simp: has_caller_def)
    let ?f = "(syncs zh)(c_data c \<mapsto> sc\<lparr> sc_rc := reason, sc_complete := True \<rparr>)"
    let ?zh = "zh\<lparr> syncs := ?f, outstanding_sync := outstanding_sync zh - 1 \<rparr>"
    have "has_caller cs (syncs ?zh)" using Cons.prems by (auto simp: has_caller_def)
    from Cons.IH [OF this] obtain replies where r: "list_all2 (failed_reply reason) (filter is_async cs) replies"
      "free_requests e True reason cs ?zh = Ret (?zh\<lparr> completions_to_process := completions_to_process ?zh @ replies,
         outstanding_sync := outstanding_sync ?zh - int (length (filter is_sync cs)), syncs := failed_syncs reason cs (syncs ?zh) \<rparr>)"
      by blast
    have f: "failed_syncs reason cs ?f = failed_syncs reason (c # cs) (syncs zh)"
      using failed_syncs_Cons [OF True, of reason cs "syncs zh"] sc by simp
    have "free_requests e True reason (c # cs) zh = free_requests e True reason cs ?zh"
      using True sc by (simp add: notify_sync_completion_def)
    then have "free_requests e True reason (c # cs) zh = Ret (zh\<lparr> completions_to_process := completions_to_process zh @ replies,
        outstanding_sync := outstanding_sync zh - int (length (filter is_sync (c # cs))),
        syncs := failed_syncs reason (c # cs) (syncs zh) \<rparr>)"
      using r(2) True by (simp add: f del: fun_upd_apply)
    then show ?thesis using r(1) True by (intro exI [of _ replies]) simp
  next
    case False
    obtain b where b: "fake_reply e (c_xid c) reason = Ret b"
      "carries b (enc_ReplyHeader \<lparr> ReplyHeader_xid = c_xid c, ReplyHeader_zxid = -1, ReplyHeader_err = word_of_int reason \<rparr>)"
      using fake_reply_spec [OF assms] .
    let ?r = "c\<lparr> c_buffer := Some b \<rparr>"
    let ?zh = "zh\<lparr> completions_to_process := completions_to_process zh @ [?r] \<rparr>"
    have "has_caller cs (syncs ?zh)" using Cons.prems by (auto simp: has_caller_def)
    from Cons.IH [OF this] obtain replies where r: "list_all2 (failed_reply reason) (filter is_async cs) replies"
      "free_requests e True reason cs ?zh = Ret (?zh\<lparr> completions_to_process := completions_to_process ?zh @ replies,
         outstanding_sync := outstanding_sync ?zh - int (length (filter is_sync cs)), syncs := failed_syncs reason cs (syncs ?zh) \<rparr>)"
      by blast
    have "failed_reply reason c ?r" using b(2) by (auto simp: failed_reply_def)
    moreover have "failed_syncs reason (c # cs) (syncs zh) = failed_syncs reason cs (syncs zh)"
      using False by (auto simp: failed_syncs_def fun_eq_iff)
    ultimately show ?thesis using r b(1) False by (intro exI [of _ "?r # replies"]) simp
  qed
qed

lemma get_auth_completions_spec:
  "get_auth_completions as l =
     (l @ map (\<lambda>a. (au_completion a, au_data a)) (filter (\<lambda>a. au_completion a \<noteq> NULL) as),
      map (\<lambda>a. a\<lparr> au_completion := NULL \<rparr>) as)"
  by (induction as arbitrary: l) (auto simp: add_auth_completion_def)

text \<open>The completions of authentications that are still to be called.\<close>

definition auth_calls :: "int \<Rightarrow> auth_info list \<Rightarrow> user_call list" where
  "auth_calls rc as = map (\<lambda>a. Void_call (au_completion a) rc (au_data a)) (filter (\<lambda>a. au_completion a \<noteq> NULL) as)"

definition auths_called :: "auth_info list \<Rightarrow> auth_info list" where
  "auths_called as = map (\<lambda>a. a\<lparr> au_completion := NULL \<rparr>) as"

lemma call_auth_completions_eq:
  "call_auth_completions rc zh = zh\<lparr> auth_h := auths_called (auth_h zh), calls := calls zh @ auth_calls rc (auth_h zh) \<rparr>"
  by (simp add: call_auth_completions_def get_auth_completions_spec auths_called_def auth_calls_def o_def)

text \<open>What is left of a handle whose requests have failed with \<^verbatim>\<open>reason\<close>.\<close>

definition drained :: "int \<Rightarrow> completion_list list \<Rightarrow> session \<Rightarrow> session" where
  "drained reason replies zh = zh\<lparr>
     to_send := [], to_process := [], sent_requests := [],
     completions_to_process := completions_to_process zh @ replies,
     outstanding_sync := outstanding_sync zh - int (length (filter is_sync (sent_requests zh))),
     syncs := failed_syncs reason (sent_requests zh) (syncs zh),
     auth_h := auths_called (auth_h zh), calls := calls zh @ auth_calls reason (auth_h zh),
     input_buffer := (case input_buffer zh of Some (Packet _) \<Rightarrow> None | i \<Rightarrow> i) \<rparr>"

lemma cleanup_bufs_spec:
  assumes "env_ok e" "has_caller (sent_requests zh) (syncs zh)"
  obtains replies where "list_all2 (failed_reply rc) (filter is_async (sent_requests zh)) replies"
    "cleanup_bufs e True rc zh = Ret (drained rc replies zh)"
proof -
  let ?zh = "zh\<lparr> to_send := [], to_process := [], sent_requests := [] \<rparr>"
  have "has_caller (sent_requests zh) (syncs ?zh)" using assms(2) by simp
  from free_requests_spec [OF assms(1) this, of rc] obtain replies where
    r: "list_all2 (failed_reply rc) (filter is_async (sent_requests zh)) replies"
    "free_requests e True rc (sent_requests zh) ?zh = Ret (?zh\<lparr> completions_to_process := completions_to_process ?zh @ replies,
      outstanding_sync := outstanding_sync ?zh - int (length (filter is_sync (sent_requests zh))),
      syncs := failed_syncs rc (sent_requests zh) (syncs ?zh) \<rparr>)"
    by blast
  have "cleanup_bufs e True rc zh = Ret (drained rc replies zh)"
    using r(2) by (simp add: cleanup_bufs_def free_completions_def call_auth_completions_eq drained_def split: option.split input.split)
  with r(1) show thesis by (rule that)
qed

text \<open>The events that losing a connection announces: the final state, or that the client reconnects.\<close>

definition loss_events :: "session \<Rightarrow> completion_list list \<Rightarrow> bool" where
  "loss_events zh evs \<longleftrightarrow>
     (if zh_state zh < 0 then \<exists>c. evs = [c] \<and> session_event_entry zh (zh_state zh) c
      else if zh_is_connected zh then \<exists>c. evs = [c] \<and> session_event_entry zh ZOO_CONNECTING_STATE c
      else evs = [])"

lemma close_zsock_eq: "close_zsock zh = zh\<lparr> sock := -1 \<rparr>"
  by (simp add: close_zsock_def)

lemma get_table_sock [simp]: "get_table (zh\<lparr> sock := x \<rparr>) t = get_table zh t"
  by (cases t) (simp_all add: get_table_def)

lemma get_table_updates [simp]:
  fixes zh :: session
  shows "get_table (zh\<lparr> to_process := q \<rparr>) t = get_table zh t" "get_table (zh\<lparr> completions_to_process := cs \<rparr>) t = get_table zh t"
    "get_table (zh\<lparr> syncs := f \<rparr>) t = get_table zh t" "get_table (zh\<lparr> outstanding_sync := n \<rparr>) t = get_table zh t"
    "get_table (zh\<lparr> calls := us \<rparr>) t = get_table zh t" "get_table (zh\<lparr> sent_requests := cs \<rparr>) t = get_table zh t"
    "get_table (zh\<lparr> last_zxid := z \<rparr>) t = get_table zh t" "get_table (zh\<lparr> to_send := q \<rparr>) t = get_table zh t"
    "get_table (zh\<lparr> auth_h := as \<rparr>) t = get_table zh t" "get_table (zh\<lparr> zh_state := k \<rparr>) t = get_table zh t"
  by (cases t; simp add: get_table_def)+

lemma cleanup_spec:
  assumes "env_ok e" "watch_ok zh" "has_caller (sent_requests zh) (syncs zh)"
  obtains evs replies where "loss_events zh evs"
    "list_all2 (failed_reply rc) (filter is_async (sent_requests zh)) replies"
    "cleanup e zh rc = Ret ((drained rc (evs @ replies) zh)\<lparr> sock := -1, zh_state := (if zh_state zh < 0 then zh_state zh else 0) \<rparr>)"
proof -
  let ?zh = "close_zsock zh"
  have w: "watch_ok ?zh" using assms(2) by (simp add: close_zsock_eq watch_ok_def)
  have ev: "session_event_entry ?zh s c = session_event_entry zh s c" for s c
    by (simp add: session_event_entry_def close_zsock_eq)
  have st: "zh_state ?zh = zh_state zh" "zh_is_connected ?zh = zh_is_connected zh"
    by (simp_all add: close_zsock_eq zh_is_connected_def)
  have "\<exists>evs. loss_events zh evs \<and>
     (if is_unrecoverable ?zh \<noteq> 0 then queue_session_event e ?zh (zh_state ?zh)
      else if zh_is_connected ?zh then queue_session_event e ?zh ZOO_CONNECTING_STATE
      else Ret (ZOK, ?zh)) = Ret (0, ?zh\<lparr> completions_to_process := completions_to_process ?zh @ evs \<rparr>)"
  proof (cases "zh_state zh < 0")
    case True
    obtain c where "queue_session_event e ?zh (zh_state ?zh) = Ret (ZOK, ?zh\<lparr> completions_to_process := completions_to_process ?zh @ [c] \<rparr>)"
        "session_event_entry ?zh (zh_state ?zh) c"
      using queue_session_event_spec [OF assms(1) w] .
    then show ?thesis using True by (intro exI [of _ "[c]"]) (simp add: loss_events_def is_unrecoverable_def ev st)
  next
    case False
    show ?thesis
    proof (cases "zh_is_connected zh")
      case True
      obtain c where "queue_session_event e ?zh ZOO_CONNECTING_STATE = Ret (ZOK, ?zh\<lparr> completions_to_process := completions_to_process ?zh @ [c] \<rparr>)"
          "session_event_entry ?zh ZOO_CONNECTING_STATE c"
        using queue_session_event_spec [OF assms(1) w] .
      then show ?thesis using True False
        by (intro exI [of _ "[c]"]) (simp add: loss_events_def is_unrecoverable_def ev st)
    next
      case False
      then show ?thesis using \<open>\<not> zh_state zh < 0\<close>
        by (intro exI [of _ "[]"]) (simp add: loss_events_def is_unrecoverable_def st)
    qed
  qed
  then obtain evs where evs: "loss_events zh evs"
     "(if is_unrecoverable ?zh \<noteq> 0 then queue_session_event e ?zh (zh_state ?zh)
      else if zh_is_connected ?zh then queue_session_event e ?zh ZOO_CONNECTING_STATE
      else Ret (ZOK, ?zh)) = Ret (0, ?zh\<lparr> completions_to_process := completions_to_process ?zh @ evs \<rparr>)"
    by blast
  let ?zh1 = "?zh\<lparr> completions_to_process := completions_to_process ?zh @ evs \<rparr>"
  have "has_caller (sent_requests ?zh1) (syncs ?zh1)" using assms(3) by (simp add: close_zsock_eq)
  from cleanup_bufs_spec [OF assms(1) this, of rc] obtain replies where
    r: "list_all2 (failed_reply rc) (filter is_async (sent_requests ?zh1)) replies"
    "cleanup_bufs e True rc ?zh1 = Ret (drained rc replies ?zh1)" .
  have "cleanup e zh rc = Ret ((drained rc (evs @ replies) zh)\<lparr> sock := -1, zh_state := (if zh_state zh < 0 then zh_state zh else 0) \<rparr>)"
    using evs(2) r(2) unfolding cleanup_def Let_def
    by (simp add: is_unrecoverable_def drained_def close_zsock_eq)
  then show thesis using that evs(1) r(1) by (simp add: close_zsock_eq)
qed

section \<open>The invariant of a handle\<close>

definition session_inv :: "session \<Rightarrow> bool" where
  "session_inv zh \<longleftrightarrow> watch_ok zh \<and> av_ok (addrs zh) \<and>
     outstanding_sync zh = int (length (filter is_sync (sent_requests zh))) \<and>
     has_caller (sent_requests zh) (syncs zh) \<and>
     (\<forall>c \<in> set (completions_to_process zh). c_buffer c \<noteq> None \<and> is_async c)"

lemma addrvec_next_returns:
  assumes "av_ok v"
  obtains a v' where "addrvec_next v = Ret (a, v')" "av_ok v'"
proof (cases "av_count v = 0")
  case True
  then show thesis using that [of zero_addr v] assms
    by (auto simp: addrvec_next_def addrvec_atend_def addrvec_hasnext_def word_less_nat_alt)
next
  case False
  then have "0 < av_count v" by (simp add: word_neq_0_conv)
  then obtain a n where "addrvec_next v = Ret (a, v\<lparr> av_next := n \<rparr>)"
    using addrvec_next_spec [OF assms] by blast
  then show thesis using that assms by (simp add: av_ok_def)
qed

lemma failed_reply_async:
  assumes "list_all2 (failed_reply rc) (filter is_async cs) rs" "r \<in> set rs"
  shows "c_buffer r \<noteq> None \<and> is_async r"
proof -
  obtain c where "c \<in> set (filter is_async cs)" "failed_reply rc c r"
    using assms by (metis in_set_conv_nth list_all2_conv_all_nth)
  then show ?thesis by (auto simp: failed_reply_def)
qed

lemma loss_events_async: "loss_events zh evs \<Longrightarrow> c \<in> set evs \<Longrightarrow> c_buffer c \<noteq> None \<and> is_async c"
  by (auto simp: loss_events_def session_event_entry_def SYNCHRONOUS_MARKER_def split: if_splits)

lemma handle_error_spec:
  assumes "env_ok e" "session_inv zh"
  shows "\<exists>zh' evs replies. handle_socket_error e zh rc = Ret (rc, zh') \<and> session_inv zh' \<and>
    loss_events zh evs \<and> list_all2 (failed_reply rc) (filter is_async (sent_requests zh)) replies \<and>
    completions_to_process zh' = completions_to_process zh @ evs @ replies \<and>
    syncs zh' = failed_syncs rc (sent_requests zh) (syncs zh) \<and>
    sent_requests zh' = [] \<and> to_send zh' = [] \<and> to_process zh' = [] \<and> outstanding_sync zh' = 0 \<and>
    calls zh' = calls zh @ auth_calls rc (auth_h zh) \<and> auth_h zh' = auths_called (auth_h zh) \<and> sock zh' = -1 \<and> zh_state zh' = (if zh_state zh < 0 then zh_state zh else 0)"
proof -
  have inv: "watch_ok zh" "av_ok (addrs zh)" "has_caller (sent_requests zh) (syncs zh)"
    "outstanding_sync zh = int (length (filter is_sync (sent_requests zh)))"
    using assms(2) by (simp_all add: session_inv_def)
  obtain evs replies where c: "loss_events zh evs" "list_all2 (failed_reply rc) (filter is_async (sent_requests zh)) replies"
    "cleanup e zh rc = Ret ((drained rc (evs @ replies) zh)\<lparr> sock := -1, zh_state := (if zh_state zh < 0 then zh_state zh else 0) \<rparr>)"
    (is "_ = Ret ?zh1") using cleanup_spec [OF assms(1) inv(1,3)] .
  obtain a v where v: "addrvec_next (addrs zh) = Ret (a, v)" "av_ok v" using addrvec_next_returns [OF inv(2)] .
  let ?zh2 = "?zh1\<lparr> delay := addrvec_atend (addrs zh), addrs := v, addr_cur := a \<rparr>"
  have ad: "addrs ?zh1 = addrs zh" by (simp add: drained_def)
  have "handle_socket_error e zh rc = Ret (rc, ?zh2)"
    unfolding handle_socket_error_def handle_error_def c(3) by (simp add: ad v(1))
  moreover have "session_inv ?zh2"
    using inv v(2) assms(2) failed_reply_async [OF c(2)] loss_events_async [OF c(1)]
    by (auto simp: session_inv_def drained_def watch_ok_def has_caller_def)
  ultimately show ?thesis using c(1,2) inv(4) by (intro exI [of _ ?zh2] exI [of _ evs] exI [of _ replies]) (simp add: drained_def)
qed

text \<open>
  Property C11: losing a connection completes every outstanding request exactly once, with the reason: synchronous
  callers are woken with it, every other request is moved, in order, to the completion queue with a
  reply that carries it, behind at most one event for the watchers. Nothing is left to send, to
  process or outstanding, authentications that wait are told as well, the socket is closed, and a state
  that is final stays.
\<close>

theorem handle_error_completes_all:
  assumes "env_ok e" "session_inv zh"
  shows "\<exists>zh' evs replies. handle_socket_error e zh rc = Ret (rc, zh') \<and> session_inv zh' \<and>
    loss_events zh evs \<and> list_all2 (failed_reply rc) (filter is_async (sent_requests zh)) replies \<and>
    completions_to_process zh' = completions_to_process zh @ evs @ replies \<and>
    syncs zh' = failed_syncs rc (sent_requests zh) (syncs zh) \<and>
    sent_requests zh' = [] \<and> to_send zh' = [] \<and> to_process zh' = [] \<and> outstanding_sync zh' = 0 \<and>
    calls zh' = calls zh @ auth_calls rc (auth_h zh) \<and> auth_h zh' = auths_called (auth_h zh) \<and> sock zh' = -1 \<and> zh_state zh' = (if zh_state zh < 0 then zh_state zh else 0)"
  by (rule handle_error_spec [OF assms])

end
