(* ===== verification/Zk_Connection.thy ===== *)
theory Zk_Connection
  imports Zk_Session
begin

text \<open>
  The connection of a handle (\<^verbatim>\<open>zookeeper.c\<close>): choosing a server and connecting to it
  (\<^verbatim>\<open>zookeeper_interest\<close>), the handshake (\<^verbatim>\<open>prime_connection\<close>, the primer part of \<^verbatim>\<open>check_events\<close>),
  sending what is queued (\<^verbatim>\<open>flush_send_queue\<close>) and receiving packets. The results of system calls are
  arguments. The build is the one without OpenSSL, in which a handle has no certificate.

  The lemmas show that packets leave in the order of the queue, whole and once; what a completed
  handshake establishes; and that a handle in a final state does nothing more.
\<close>

section \<open>Packets of the client itself\<close>

definition send_info_packet :: "env \<Rightarrow> session \<Rightarrow> auth_info \<Rightarrow> (int \<times> session) exec" where
  "send_info_packet e zh auth =
     (case new_oarchive e of None \<Rightarrow> UB
      | Some oa \<Rightarrow>
          bind_exec (if_ok (serialize_RequestHeader (en_mem e) oa
                       \<lparr> RequestHeader_xid = word_of_int AUTH_XID, RequestHeader_type = word_of_int ZOO_SETAUTH_OP \<rparr>)
                     (\<lambda>oa. serialize_AuthPacket (en_mem e) oa
                       \<lparr> AuthPacket_type = 0, AuthPacket_scheme = au_scheme auth, AuthPacket_auth = au_auth auth \<rparr>))
           (\<lambda>(rc, oa).
              if rc < 0 then Ret (rc, zh)
              else case queue_front_buffer_bytes e (to_send zh) (get_buffer oa) (get_buffer_len oa) of
                (rc, q) \<Rightarrow> Ret (rc, zh\<lparr> to_send := q \<rparr>)))"

text \<open>The loop over all authentications; the code of the last one counts.\<close>

fun send_auths :: "env \<Rightarrow> auth_info list \<Rightarrow> int \<times> session \<Rightarrow> (int \<times> session) exec" where
  "send_auths e [] (rc, zh) = Ret (rc, zh)"
| "send_auths e (a # as) (rc, zh) = bind_exec (send_info_packet e zh a) (send_auths e as)"

definition send_auth_info :: "env \<Rightarrow> session \<Rightarrow> (int \<times> session) exec" where
  "send_auth_info e zh =
     (if auth_h zh = [] then Ret (ZOK, zh)
      else bind_exec (send_auths e (auth_h zh) (0, zh))
             (\<lambda>(rc, zh1). Ret (if rc < 0 then ZMARSHALLINGERROR else ZOK, zh1)))"

definition send_last_auth_info :: "env \<Rightarrow> session \<Rightarrow> (int \<times> session) exec" where
  "send_last_auth_info e zh =
     (case get_last_auth (auth_h zh) of None \<Rightarrow> Ret (ZOK, zh)
      | Some auth \<Rightarrow> bind_exec (send_info_packet e zh auth)
             (\<lambda>(rc, zh1). Ret (if rc < 0 then ZMARSHALLINGERROR else ZOK, zh1)))"

text \<open>\<^verbatim>\<open>collect_keys\<close> leaves a NULL array when there are none.\<close>

definition key_vector :: "string list \<Rightarrow> String_vector" where
  "key_vector ks = \<lparr> String_vector_count = word_of_nat (length ks),
     String_vector_data = (if ks = [] then None else Some (map Some ks)) \<rparr>"

definition send_set_watches :: "env \<Rightarrow> session \<Rightarrow> (int \<times> session) exec" where
  "send_set_watches e zh =
     bind_exec (collect_keys (en_alloc e) (active_node_watchers zh)) (\<lambda>ds.
     bind_exec (collect_keys (en_alloc e) (active_exist_watchers zh)) (\<lambda>es.
     bind_exec (collect_keys (en_alloc e) (active_child_watchers zh)) (\<lambda>cs.
       if ds = [] \<and> es = [] \<and> cs = [] then Ret (ZOK, zh)
       else case new_oarchive e of None \<Rightarrow> UB
        | Some oa \<Rightarrow>
            bind_exec (if_ok (serialize_RequestHeader (en_mem e) oa
                         \<lparr> RequestHeader_xid = word_of_int SET_WATCHES_XID, RequestHeader_type = word_of_int ZOO_SETWATCHES_OP \<rparr>)
                       (\<lambda>oa. serialize_SetWatches (en_mem e) oa
                         \<lparr> SetWatches_relativeZxid = last_zxid zh, SetWatches_dataWatches = key_vector ds,
                           SetWatches_existWatches = key_vector es, SetWatches_childWatches = key_vector cs \<rparr>))
             (\<lambda>(rc, oa).
                if rc < 0 then Ret (ZMARSHALLINGERROR, zh)
                else case queue_front_buffer_bytes e (to_send zh) (get_buffer oa) (get_buffer_len oa) of
                  (rc, q) \<Rightarrow> Ret (if rc < 0 then ZMARSHALLINGERROR else ZOK, zh\<lparr> to_send := q \<rparr>)))))"

definition zoo_add_auth ::
  "env \<Rightarrow> bool \<Rightarrow> session option \<Rightarrow> string option \<Rightarrow> byte list option \<Rightarrow> i32 \<Rightarrow> addr \<Rightarrow> addr \<Rightarrow>
   (int \<times> session option) exec" where
  "zoo_add_auth e cert_mem h scheme cert certLen completion data =
     (case (scheme, h) of
        (None, _) \<Rightarrow> Ret (ZBADARGUMENTS, h)
      | (_, None) \<Rightarrow> Ret (ZBADARGUMENTS, h)
      | (Some sch, Some zh) \<Rightarrow>
          if is_unrecoverable zh \<noteq> 0 then Ret (ZINVALIDSTATE, h)
          else if zh_state zh = 0 then Ret (ZINVALIDSTATE, h)
          else if cert \<noteq> None \<and> certLen \<noteq> 0 \<and> \<not> cert_mem then Ret (ZSYSTEMERROR, h)
          else if cert \<noteq> None \<and> (sint certLen < 0 \<or> nat (sint certLen) > length (the cert)) then UB
          else
            let auth = (if cert \<noteq> None \<and> certLen \<noteq> 0
                        then \<lparr> b_len = certLen, b_buff = Some (take (nat (sint certLen)) (the cert)) \<rparr>
                        else \<lparr> b_len = 0, b_buff = None \<rparr>);
                a = \<lparr> au_state = 0, au_scheme = Some sch, au_auth = auth, au_completion = completion, au_data = data \<rparr>;
                zh1 = zh\<lparr> auth_h := add_last_auth (auth_h zh) a \<rparr>
            in if \<not> obj_ok (en_alloc e) then UB
               else if zh_is_connected zh1 \<or> zh_state zh1 = ZOO_ASSOCIATING_STATE
               then bind_exec (send_last_auth_info e zh1) (\<lambda>(rc, zh2). Ret (rc, Some zh2))
               else Ret (ZOK, Some zh1))"

section \<open>Sending the queue\<close>

text \<open>\<^verbatim>\<open>flush_send_queue\<close> with a timeout of 0: the buffers that are left, and whether any progress was made.\<close>

fun flush_loop :: "buffer_list list \<Rightarrow> wire \<Rightarrow> bool \<Rightarrow> int \<times> buffer_list list \<times> wire \<times> bool" where
  "flush_loop [] w sent = (ZOK, [], w, sent)"
| "flush_loop (b # bs) w sent =
     (case send_buffer b w of (rc, b', w') \<Rightarrow>
        if rc = 0 then (ZOK, b' # bs, w', sent)
        else if rc < 0 then (ZCONNECTIONLOSS, b' # bs, w', sent)
        else flush_loop bs w' True)"

definition flush_send_queue :: "env \<Rightarrow> session \<Rightarrow> int \<times> session" where
  "flush_send_queue e zh =
     (if \<not> zh_is_connected zh then (ZOK, zh)
      else case flush_loop (to_send zh) (net_out zh) False of (rc, q, w, sent) \<Rightarrow>
        (rc, zh\<lparr> to_send := q, net_out := w, last_send := (if sent then en_now e else last_send zh) \<rparr>))"

text \<open>
  With a timeout the loop polls before each call: the time elapsed and the result of each \<^verbatim>\<open>poll\<close> are
  arguments. It goes on when a packet has been sent in part.
\<close>

fun flush_wait_loop ::
  "int \<Rightarrow> (int \<times> int) list \<Rightarrow> buffer_list list \<Rightarrow> wire \<Rightarrow> int \<times> buffer_list list \<times> wire" where
  "flush_wait_loop timeout ps [] w = (ZOK, [], w)"
| "flush_wait_loop timeout [] (b # bs) w = (ZOPERATIONTIMEOUT, b # bs, w)"
| "flush_wait_loop timeout ((elapsed, polled) # ps) (b # bs) w =
     (if elapsed > timeout then (ZOPERATIONTIMEOUT, b # bs, w)
      else if polled \<le> 0 then (if polled = 0 then ZOPERATIONTIMEOUT else ZSYSTEMERROR, b # bs, w)
      else case send_buffer b w of (rc, b', w') \<Rightarrow>
        if rc < 0 then (ZCONNECTIONLOSS, b' # bs, w')
        else flush_wait_loop timeout ps (if rc > 0 then bs else b' # bs) w')"

text \<open>\<^verbatim>\<open>adaptor_send_queue\<close>: the I/O thread is woken, which only fails with its pipe.\<close>

definition send_ping :: "env \<Rightarrow> int \<Rightarrow> session \<Rightarrow> (int \<times> session) exec" where
  "send_ping e wakeup_rc zh =
     (case new_oarchive e of None \<Rightarrow> UB
      | Some oa \<Rightarrow>
          bind_exec (serialize_RequestHeader (en_mem e) oa
                       \<lparr> RequestHeader_xid = word_of_int PING_XID, RequestHeader_type = word_of_int ZOO_PING_OP \<rparr>)
           (\<lambda>(rc, oa).
              let zh1 = zh\<lparr> last_ping := en_now e \<rparr> in
              if rc < 0 then Ret (rc, zh1)
              else case queue_buffer_bytes e (to_send zh1) (get_buffer oa) (get_buffer_len oa) of
                (rc, q) \<Rightarrow> let zh2 = zh1\<lparr> to_send := q \<rparr> in
                  if rc < 0 then Ret (rc, zh2)
                  else if \<not> close_requested zh2 then Ret (wakeup_rc, zh2)
                  else Ret (flush_send_queue e zh2)))"

section \<open>The handshake\<close>

definition prime_request :: "session \<Rightarrow> connect_req" where
  "prime_request zh = \<lparr> cr_protocolVersion = 0, cr_lastZxidSeen = last_zxid zh, cr_timeOut = recv_timeout zh,
     cr_sessionId = (if seen_rw_server_before zh \<noteq> 0 then client_id zh else 0), cr_passwd_len = 16,
     cr_passwd = client_passwd zh, cr_readOnly = allow_read_only zh \<rparr>"

text \<open>
  The length and the request are sent with one call each, whose results count only as errors: how much
  was sent is not looked at.
\<close>

definition prime_connection :: "env \<Rightarrow> session \<Rightarrow> (int \<times> session) exec" where
  "prime_connection e zh =
     (if zh_state zh = ZOO_SSL_CONNECTING_STATE then Ret (ZOK, zh)
      else case zookeeper_send (bytes32 (htonl (word_of_nat HANDSHAKE_REQ_SIZE))) (net_out zh) of
        (Sent _, w1) \<Rightarrow>
          (case zookeeper_send (serialize_prime_connect (prime_request zh)) w1 of
             (Sent _, w2) \<Rightarrow>
               Ret (ZOK, zh\<lparr> net_out := w2, zh_state := ZOO_ASSOCIATING_STATE, input_buffer := Some Primer,
                             primer_buf := (primer_buf zh)\<lparr> bl_buffer := Some (replicate primer_size 0), bl_off := 4 \<rparr> \<rparr>)
           | (_, w2) \<Rightarrow> handle_socket_error e (zh\<lparr> net_out := w2 \<rparr>) ZCONNECTIONLOSS)
      | (_, w1) \<Rightarrow> handle_socket_error e (zh\<lparr> net_out := w1 \<rparr>) ZCONNECTIONLOSS)"

text \<open>The answer has been read: the part of \<^verbatim>\<open>check_events\<close> that finishes the handshake.\<close>

definition finish_handshake :: "env \<Rightarrow> session \<Rightarrow> (int \<times> session) exec" where
  "finish_handshake e zh0 =
     (case bl_buffer (primer_buf zh0) of None \<Rightarrow> UB
      | Some buf \<Rightarrow>
          let ps = deserialize_prime_response buf;
              oldid = (if seen_rw_server_before zh0 \<noteq> 0 then client_id zh0 else 0);
              newid = ps_sessionId ps;
              zh = zh0\<lparr> primer_storage := ps,
                seen_rw_server_before := seen_rw_server_before zh0 OR (if ps_readOnly ps = 0 then 1 else 0) \<rparr>
          in if oldid \<noteq> 0 \<and> oldid \<noteq> newid
             then handle_socket_error e (zh\<lparr> zh_state := ZOO_EXPIRED_SESSION_STATE \<rparr>) ZSESSIONEXPIRED
             else
               let zh1 = zh\<lparr> recv_timeout := ps_timeOut ps, client_id := newid, client_passwd := ps_passwd ps,
                     zh_state := (if ps_readOnly ps \<noteq> 0 then ZOO_READONLY_STATE else ZOO_CONNECTED_STATE), reconfig := False \<rparr>
               in bind_exec (send_set_watches e zh1) (\<lambda>(_, zh2).
                  bind_exec (send_auth_info e zh2) (\<lambda>(_, zh3).
                    let zh4 = zh3\<lparr> input_buffer := None \<rparr> in
                    bind_exec (queue_session_event e zh4 (zh_state zh4)) (\<lambda>(_, zh5).
                      Ret (ZOK, zh5\<lparr> input_buffer := None \<rparr>)))))"

section \<open>Events on the socket\<close>

definition has_event :: "int \<Rightarrow> int \<Rightarrow> bool" where
  "has_event events flag \<longleftrightarrow> (word_of_int events AND word_of_int flag :: i32) \<noteq> 0"

definition receive_event :: "env \<Rightarrow> session \<Rightarrow> (int \<times> session) exec" where
  "receive_event e zh0 =
     (let zh = (if input_buffer zh0 = None
                then zh0\<lparr> input_buffer := map_option Packet (allocate_buffer (obj_ok (en_alloc e)) None 0) \<rparr> else zh0) in
      case input_buffer zh of
        None \<Rightarrow> UB
      | Some Primer \<Rightarrow>
          (case recv_buffer (en_mem e) True (primer_buf zh) (net_in zh) of
             (rc, b, rs) \<Rightarrow>
               let zh1 = zh\<lparr> primer_buf := b, net_in := rs \<rparr> in
               if rc < 0 then handle_socket_error e zh1 ZCONNECTIONLOSS
               else if rc > 0 then finish_handshake e (zh1\<lparr> last_recv := en_now e \<rparr>)
               else Ret (ZNOTHING, zh1))
      | Some (Packet p) \<Rightarrow>
          (case recv_buffer (en_mem e) False p (net_in zh) of
             (rc, b, rs) \<Rightarrow>
               let zh1 = zh\<lparr> input_buffer := Some (Packet b), net_in := rs \<rparr> in
               if rc < 0 then handle_socket_error e zh1 ZCONNECTIONLOSS
               else if rc > 0
               then Ret (ZOK, zh1\<lparr> last_recv := en_now e, to_process := to_process zh1 @ [b], input_buffer := None \<rparr>)
               else Ret (ZNOTHING, zh1)))"

definition check_events :: "env \<Rightarrow> bool \<Rightarrow> session \<Rightarrow> int \<Rightarrow> (int \<times> session) exec" where
  "check_events e so_error zh events =
     (if sock zh = -1 then Ret (ZINVALIDSTATE, zh)
      else if has_event events ZOOKEEPER_WRITE \<and> zh_state zh = ZOO_CONNECTING_STATE then
        (if so_error then handle_socket_error e zh ZCONNECTIONLOSS else prime_connection e zh)
      else
        bind_exec
          (if to_send zh \<noteq> [] \<and> has_event events ZOOKEEPER_WRITE then
             (case flush_send_queue e zh of (rc, zh1) \<Rightarrow>
                if rc < 0 then bind_exec (handle_socket_error e zh1 ZCONNECTIONLOSS) (\<lambda>(rc, zh2). Ret (Some rc, zh2))
                else Ret (None, zh1))
           else Ret (None, zh))
         (\<lambda>(early, zh1).
            case early of Some rc \<Rightarrow> Ret (rc, zh1)
            | None \<Rightarrow> if has_event events ZOOKEEPER_READ then receive_event e zh1 else Ret (ZOK, zh1)))"

section \<open>Choosing a server, connecting, and waiting\<close>

datatype connect_result = Connect_ok | Connect_in_progress | Connect_failed

text \<open>
  The probe of another server: no socket or no connection (the pointer to the server found before is
  left as it is), a failed exchange, or an answer.
\<close>

datatype rw_result = Rw_no_connection | Rw_failed | Rw_reply string

record interest_io =
  ii_dup_ok :: bool
  ii_mem :: bool
  ii_resolve :: "string \<Rightarrow> int \<times> addrvec"
  ii_drand :: rat
  ii_next_drand :: rat
  ii_socket :: int
  ii_connect :: connect_result
  ii_in :: "recv_result list"
  ii_out :: "send_result list"
  ii_wakeup :: int
  ii_rw :: rw_result

text \<open>What \<^verbatim>\<open>zookeeper_interest\<close> tells its caller through pointers.\<close>

record outputs =
  o_fd :: int
  o_interest :: int
  o_tv :: timeval

definition MAX_RW_TIMEOUT :: int where
  "MAX_RW_TIMEOUT = 60000"

definition MIN_RW_TIMEOUT :: int where
  "MIN_RW_TIMEOUT = 200"

definition ping_rw_server :: "rw_result \<Rightarrow> session \<Rightarrow> (bool \<times> session) exec" where
  "ping_rw_server rw zh =
     bind_exec (addrvec_peek (addrs zh)) (\<lambda>a.
       let zh1 = zh\<lparr> addr_rw_server := a \<rparr> in
       Ret (case rw of
           Rw_no_connection \<Rightarrow> (False, zh1)
         | Rw_failed \<Rightarrow> (False, zh1\<lparr> rw_found := False \<rparr>)
         | Rw_reply s \<Rightarrow> (s = ''rw'', zh1\<lparr> rw_found := (s = ''rw'') \<rparr>)))"

definition choose_server :: "rat \<Rightarrow> session \<Rightarrow> session exec" where
  "choose_server drand zh =
     (if rw_found zh then Ret (zh\<lparr> addr_cur := addr_rw_server zh, rw_found := False \<rparr>)
      else zoo_cycle_next_server drand zh)"

text \<open>The new connection; \<^verbatim>\<open>Some rc\<close> is an early return.\<close>

definition open_connection :: "env \<Rightarrow> interest_io \<Rightarrow> session \<Rightarrow> (int option \<times> session) exec" where
  "open_connection e io zh =
     bind_exec (choose_server (ii_next_drand io) zh) (\<lambda>zh1.
       let early = (\<lambda>r. bind_exec r (\<lambda>(rc, z). Ret (Some rc, z)));
           zh2 = zh1\<lparr> sock := ii_socket io, net_in := ii_in io, net_out := (ii_out io, []) \<rparr>
       in if ii_socket io < 0 then early (handle_socket_error e zh2 ZSYSTEMERROR)
          else case ii_connect io of
              Connect_in_progress \<Rightarrow> Ret (None, zh2\<lparr> zh_state := ZOO_CONNECTING_STATE \<rparr>)
            | Connect_failed \<Rightarrow> early (handle_socket_error e zh2 ZCONNECTIONLOSS)
            | Connect_ok \<Rightarrow> bind_exec (prime_connection e zh2)
                (\<lambda>(rc, zh3). Ret (if rc \<noteq> 0 then Some rc else None, zh3)))"

definition interest_connect ::
  "env \<Rightarrow> interest_io \<Rightarrow> outputs \<Rightarrow> session \<Rightarrow> (int option \<times> outputs \<times> session) exec" where
  "interest_connect e io out zh =
     (if o_fd out \<noteq> -1 then Ret (None, out, zh)
      else
        let connected = (\<lambda>out zh. Ret (None, out\<lparr> o_fd := sock zh \<rparr>,
              zh\<lparr> last_recv := en_now e, last_send := en_now e, last_ping := en_now e, last_ping_rw := en_now e,
                  ping_rw_timeout := MIN_RW_TIMEOUT \<rparr>))
        in if delay zh \<or> disable_reconnection_attempt zh
           then connected (out\<lparr> o_tv := get_timeval (sint (recv_timeout zh) sdiv 60) \<rparr>) (zh\<lparr> delay := False \<rparr>)
           else bind_exec (open_connection e io zh) (\<lambda>(early, zh1).
             case early of Some rc \<Rightarrow> Ret (Some rc, out, zh1)
             | None \<Rightarrow> connected (out\<lparr> o_tv := get_timeval (sint (recv_timeout zh1) sdiv 3) \<rparr>) zh1))"

text \<open>The ping of a connection that has been idle, and the time until the next one.\<close>

definition interest_ping :: "env \<Rightarrow> interest_io \<Rightarrow> session \<Rightarrow> (int \<times> int \<times> session) exec" where
  "interest_ping e io zh =
     (let third = sint (recv_timeout zh) sdiv 3 in
      if \<not> zh_is_connected zh then Ret (ZOK, third, zh)
      else let send_to = third - calculate_interval (last_send zh) (en_now e) in
        if \<not> in_int send_to then UB
        else if send_to > 0 then Ret (ZOK, send_to, zh)
        else if sent_requests zh = []
        then bind_exec (send_ping e (ii_wakeup io) zh) (\<lambda>(rc, zh1). Ret (if rc < 0 then rc else ZOK, third, zh1))
        else Ret (ZOK, third, zh))"

text \<open>In read-only mode, the search for a server with a quorum.\<close>

definition interest_read_only :: "env \<Rightarrow> interest_io \<Rightarrow> int \<Rightarrow> session \<Rightarrow> (int \<times> session) exec" where
  "interest_read_only e io send_to zh =
     (if zh_state zh \<noteq> ZOO_READONLY_STATE then Ret (send_to, zh)
      else
        let idle = calculate_interval (last_ping_rw zh) (en_now e) in
        if idle < ping_rw_timeout zh
        then (if in_int (ping_rw_timeout zh - idle) then Ret (min send_to (ping_rw_timeout zh - idle), zh) else UB)
        else
          let zh1 = zh\<lparr> last_ping_rw := en_now e, ping_rw_timeout := min (ping_rw_timeout zh * 2) MAX_RW_TIMEOUT \<rparr>
          in bind_exec (ping_rw_server (ii_rw io) zh1) (\<lambda>(found, zh2).
             bind_exec (if found
                        then bind_exec (addrvec_peek (addrs zh2)) (\<lambda>_. cleanup e (zh2\<lparr> ping_rw_timeout := MIN_RW_TIMEOUT \<rparr>) ZOK)
                        else bind_exec (addrvec_next (addrs zh2)) (\<lambda>(_, v). Ret (zh2\<lparr> addrs := v \<rparr>)))
              (\<lambda>zh3. Ret (min send_to (ping_rw_timeout zh3), zh3))))"

definition deadline :: "timeval \<Rightarrow> timeval \<Rightarrow> timeval" where
  "deadline now tv =
     (let s = tv_sec now + tv_sec tv; us = tv_usec now + tv_usec tv in
      if us > 1000000 then \<lparr> tv_sec = s + us sdiv 1000000, tv_usec = us smod 1000000 \<rparr>
      else \<lparr> tv_sec = s, tv_usec = us \<rparr>)"

definition wants_write :: "session \<Rightarrow> bool" where
  "wants_write zh \<longleftrightarrow> to_send zh \<noteq> [] \<and> zh_is_connected zh \<or> zh_state zh = ZOO_CONNECTING_STATE \<or>
     zh_state zh = ZOO_SSL_CONNECTING_STATE"

definition interest_wait ::
  "env \<Rightarrow> interest_io \<Rightarrow> outputs \<Rightarrow> session \<Rightarrow> (int \<times> outputs \<times> session) exec" where
  "interest_wait e io out zh =
     (if sock zh = -1 then Ret (ZOK, out, zh)
      else if \<not> in_int (sint (recv_timeout zh) * 2) then UB
      else
        let recv_to = sint (recv_timeout zh) * 2 sdiv 3 - calculate_interval (last_recv zh) (en_now e) in
        if \<not> in_int recv_to then UB
        else if recv_to \<le> 0 \<and> zh_state zh \<noteq> ZOO_SSL_CONNECTING_STATE
        then bind_exec (handle_socket_error e zh ZOPERATIONTIMEOUT)
               (\<lambda>(rc, zh1). Ret (rc, out\<lparr> o_interest := 0, o_tv := get_timeval 0 \<rparr>, zh1))
        else bind_exec (interest_ping e io zh) (\<lambda>(rc, send_to, zh1).
          if rc < 0 then Ret (rc, out, zh1)
          else bind_exec (interest_read_only e io send_to zh1) (\<lambda>(send_to, zh2).
            let tv = get_timeval (min recv_to send_to) in
            Ret (ZOK, out\<lparr> o_tv := tv, o_interest := ZOOKEEPER_READ + (if wants_write zh2 then ZOOKEEPER_WRITE else 0) \<rparr>,
                 zh2\<lparr> next_deadline := deadline (en_now e) tv \<rparr>))))"

text \<open>Until the list of servers is up to date, the caller's variables are left as they are: \<^verbatim>\<open>None\<close> when they have no value.\<close>

definition zookeeper_interest ::
  "env \<Rightarrow> interest_io \<Rightarrow> session option \<Rightarrow> outputs option \<Rightarrow> (int \<times> outputs option \<times> session option) exec" where
  "zookeeper_interest e io h out =
     (case h of None \<Rightarrow> Ret (ZBADARGUMENTS, out, h)
      | Some zh \<Rightarrow>
          if is_unrecoverable zh \<noteq> 0 then Ret (ZINVALIDSTATE, out, h)
          else bind_exec (update_addrs (ii_dup_ok io) (ii_mem io) (ii_resolve io) (ii_drand io) h)
            (\<lambda>(rc, h1). case h1 of None \<Rightarrow> UB
             | Some zh1 \<Rightarrow>
                 if rc \<noteq> ZOK then Ret (rc, out, h1)
                 else bind_exec (interest_connect e io \<lparr> o_fd = sock zh1, o_interest = 0, o_tv = \<lparr> tv_sec = 0, tv_usec = 0 \<rparr> \<rparr> zh1)
                   (\<lambda>(early, out1, zh2).
                      case early of Some rc \<Rightarrow> Ret (rc, Some out1, Some zh2)
                      | None \<Rightarrow> bind_exec (interest_wait e io out1 zh2) (\<lambda>(rc, out2, zh3). Ret (rc, Some out2, Some zh3)))))"

section \<open>A new handle\<close>

text \<open>
  \<^verbatim>\<open>zookeeper_init_internal\<close>: the connection string is split at the first slash; the part from there on is
  the chroot. \<^verbatim>\<open>None\<close> is a NULL handle. A watcher table that could not be allocated, which every later use
  would crash on, counts as undefined at once.
\<close>

definition split_host :: "string \<Rightarrow> string \<times> string option" where
  "split_host host =
     (let h = takeWhile (\<lambda>c. c \<noteq> CHR ''/'') host; r = dropWhile (\<lambda>c. c \<noteq> CHR ''/'') host
      in (h, if r = [] \<or> length r = 1 then None else Some r))"

definition zero_time :: timeval where
  "zero_time = \<lparr> tv_sec = 0, tv_usec = 0 \<rparr>"

definition null_watcher_fn :: addr where
  "null_watcher_fn = 2"

definition no_addrs :: addrvec where
  "no_addrs = \<lparr> av_next = 0, av_count = 0, av_capacity = 0, av_data = [] \<rparr>"

definition zero_primer :: prime_struct where
  "zero_primer = \<lparr> ps_len = 0, ps_protocolVersion = 0, ps_timeOut = 0, ps_sessionId = 0, ps_passwd_len = 0,
     ps_passwd = replicate 16 0, ps_readOnly = 0 \<rparr>"

definition new_handle ::
  "addr \<Rightarrow> i32 \<Rightarrow> (i64 \<times> byte list) option \<Rightarrow> addr \<Rightarrow> byte \<Rightarrow> string \<Rightarrow> string option \<Rightarrow>
   zk_hashtable \<Rightarrow> zk_hashtable \<Rightarrow> zk_hashtable \<Rightarrow> session" where
  "new_handle watcher timeout clientid context read_only host croot nodes exist_nodes childs = \<lparr>
     zh_watcher = (if watcher \<noteq> NULL then watcher else null_watcher_fn), zh_context = context, chroot = croot,
     active_node_watchers = nodes, active_exist_watchers = exist_nodes, active_child_watchers = childs,
     hostname = Some host, addr_cur = zero_addr, addrs = no_addrs, addrs_old = no_addrs, addrs_new = no_addrs,
     reconfig = False, pOld = Some 0, pNew = Some 0, sock = -1, zh_state = ZOO_NOTCONNECTED_STATE,
     delay = False, disable_reconnection_attempt = False, last_recv = zero_time, last_send = zero_time, last_ping = zero_time,
     next_deadline = zero_time, recv_timeout = timeout, input_buffer = None, to_process = [], to_send = [],
     sent_requests = [], completions_to_process = [], outstanding_sync = 0, last_ping_rw = zero_time, ping_rw_timeout = 0,
     client_id = (case clientid of None \<Rightarrow> 0 | Some (i, _) \<Rightarrow> i),
     client_passwd = (case clientid of None \<Rightarrow> replicate 16 0 | Some (_, p) \<Rightarrow> p),
     last_zxid = 0, auth_h = [],
     primer_buf = \<lparr> bl_buffer = Some (replicate primer_size 0), bl_len = word_of_nat primer_size, bl_off = 0 \<rparr>,
     primer_storage = zero_primer, addr_rw_server = zero_addr, rw_found = False, close_requested = False,
     allow_read_only = read_only,
     seen_rw_server_before = (case clientid of None \<Rightarrow> 0 | Some (i, _) \<Rightarrow> if i \<noteq> 0 then 1 else 0),
     syncs = (\<lambda>_. None), calls = [], net_in = [], net_out = ([], []) \<rparr>"

definition zookeeper_init ::
  "env \<Rightarrow> interest_io \<Rightarrow> bool \<Rightarrow> string option \<Rightarrow> addr \<Rightarrow> i32 \<Rightarrow> (i64 \<times> byte list) option \<Rightarrow> addr \<Rightarrow> int \<Rightarrow> session option exec" where
  "zookeeper_init e io adaptor_ok host watcher timeout clientid context flags =
     (if \<not> obj_ok (en_alloc e) then Ret None
      else case host of None \<Rightarrow> Ret None
      | Some h \<Rightarrow>
          if h = [] then Ret None
          else case split_host h of (hn, croot) \<Rightarrow>
            if croot \<noteq> None \<and> \<not> isValidPath croot 0 then Ret None
            else
              bind_exec (create_zk_hashtable (en_alloc e)) (\<lambda>nodes.
              bind_exec (create_zk_hashtable (en_alloc e)) (\<lambda>exist_nodes.
              bind_exec (create_zk_hashtable (en_alloc e)) (\<lambda>childs.
                case (nodes, exist_nodes, childs) of
                  (Some n, Some x, Some c) \<Rightarrow>
                    bind_exec (update_addrs (ii_dup_ok io) (ii_mem io) (ii_resolve io) (ii_drand io)
                       (Some (new_handle watcher timeout clientid context
                               (if has_event flags ZOO_READONLY then 1 else 0) hn croot n x c)))
                     (\<lambda>(rc, zh). Ret (if rc \<noteq> 0 \<or> \<not> adaptor_ok then None else zh))
                | _ \<Rightarrow> UB))))"

section \<open>The stream of bytes\<close>

lemma carries_payload: "carries b bs \<Longrightarrow> payload_of b = bs"
  by (auto simp: carries_def payload_of_def sint_i32_of_nat)

text \<open>A buffer that has just been queued.\<close>

definition fresh_packet :: "byte list \<Rightarrow> buffer_list \<Rightarrow> bool" where
  "fresh_packet m b \<longleftrightarrow> carries b m \<and> bl_off b = 0"

lemma fresh_packet_ok:
  assumes "fresh_packet m b"
  shows "buffer_ok b" "unsent b = packet m" "payload_of b = m"
proof -
  have c: "carries b m" "bl_off b = 0" using assms by (simp_all add: fresh_packet_def)
  show p: "payload_of b = m" by (rule carries_payload [OF c(1)])
  have "sint (bl_len b) = int (length m)" "0 < length m" using c(1) by (auto simp: carries_def sint_i32_of_nat)
  then show "buffer_ok b" "unsent b = packet m" using p c(2) by (simp_all add: buffer_ok_def unsent_def)
qed

lemma flush_loop_stream:
  assumes "flush_loop q (rs, out) s = (rc, q', w', s')" "\<forall>b \<in> set q. buffer_ok b"
  shows "snd w' @ concat (map unsent q') = out @ concat (map unsent q) \<and> (\<forall>b \<in> set q'. buffer_ok b) \<and>
    (\<exists>n. map payload_of q' = drop n (map payload_of q)) \<and> (rc = ZOK \<or> rc = ZCONNECTIONLOSS)"
  using assms
proof (induction q arbitrary: rs out s)
  case Nil
  then show ?case by auto
next
  case (Cons b bs)
  have ok: "buffer_ok b" "\<forall>b \<in> set bs. buffer_ok b" using Cons.prems(2) by simp_all
  obtain r b1 w1 where r: "send_buffer b (rs, out) = (r, b1, w1)" by (metis prod_cases3)
  obtain n where n: "sends b out n r b1 (snd w1)" using send_buffer_step [OF ok(1) r] by blast
  then have le: "n \<le> length (unsent b)" and b1: "b1 = b\<lparr> bl_off := bl_off b + int n \<rparr>"
    and o: "snd w1 = out @ take n (unsent b)" and rr: "-1 \<le> r" "r \<le> 1" "r = 1 \<longrightarrow> n = length (unsent b)"
    by (simp_all add: sends_def)
  note adv = advanced [OF ok(1) le]
  show ?case
  proof (cases "r = 1")
    case True
    then have f: "flush_loop bs (fst w1, snd w1) True = (rc, q', w', s')" using Cons.prems(1) r by simp
    have o1: "snd w1 = out @ unsent b" using o rr(3) True by simp
    from Cons.IH [OF f ok(2)] obtain k where "snd w' @ concat (map unsent q') = snd w1 @ concat (map unsent bs)"
      "\<forall>b \<in> set q'. buffer_ok b" "map payload_of q' = drop k (map payload_of bs)" "rc = ZOK \<or> rc = ZCONNECTIONLOSS" by blast
    then show ?thesis using o1 by (auto intro: exI [of _ "Suc k"])
  next
    case False
    then have "r = 0 \<or> r = -1" using rr by auto
    then have q: "q' = b1 # bs" "w' = w1" "rc = ZOK \<or> rc = ZCONNECTIONLOSS" using Cons.prems(1) r by auto
    have "buffer_ok b1" "unsent b1 = drop n (unsent b)" "payload_of b1 = payload_of b" using adv b1 by simp_all
    then show ?thesis using q o ok(2) by (auto intro: exI [of _ 0])
  qed
qed

text \<open>
  Property C19: packets leave in the order of the queue, whole and once: what a flush puts on the wire, followed by
  what is still queued, is what was on the wire before, followed by what was queued, byte for byte. A
  packet that is sent in part stays at the head, with the rest of its bytes.
\<close>

theorem flush_conserves_stream:
  assumes "flush_send_queue e zh = (rc, zh')" "\<forall>b \<in> set (to_send zh). buffer_ok b"
  shows "snd (net_out zh') @ concat (map unsent (to_send zh')) = snd (net_out zh) @ concat (map unsent (to_send zh)) \<and>
    (\<forall>b \<in> set (to_send zh'). buffer_ok b) \<and> (\<exists>n. map payload_of (to_send zh') = drop n (map payload_of (to_send zh)))"
proof (cases "zh_is_connected zh")
  case True
  obtain r q w s where f: "flush_loop (to_send zh) (fst (net_out zh), snd (net_out zh)) False = (r, q, w, s)"
    by (metis prod_cases4)
  have z: "to_send zh' = q" "net_out zh' = w" using assms(1) True f by (auto simp: flush_send_queue_def)
  show ?thesis using flush_loop_stream [OF f assms(2)] unfolding z by blast
next
  case False
  then show ?thesis using assms by (auto simp: flush_send_queue_def intro: exI [of _ 0])
qed

section \<open>What a handshake establishes\<close>

definition enc_keys :: "string list \<Rightarrow> byte list" where
  "enc_keys ks = enc_int (word_of_nat (length ks)) @ concat (map (\<lambda>k. enc_string (Some k)) ks)"

definition enc_cert :: "buffer \<Rightarrow> byte list" where
  "enc_cert b = (if b = \<lparr> b_len = 0, b_buff = None \<rparr> then enc_int 0 else enc_buffer b)"

definition auth_message :: "auth_info \<Rightarrow> byte list" where
  "auth_message a = enc_RequestHeader \<lparr> RequestHeader_xid = -4, RequestHeader_type = 100 \<rparr> @
     enc_int 0 @ enc_string (au_scheme a) @ enc_cert (au_auth a)"

definition auth_ok :: "auth_info \<Rightarrow> bool" where
  "auth_ok a \<longleftrightarrow> valid_string (au_scheme a) \<and> (au_auth a = \<lparr> b_len = 0, b_buff = None \<rparr> \<or> valid_buffer (au_auth a)) \<and>
     length (auth_message a) \<le> 2 ^ 29"

definition table_keys :: "session \<Rightarrow> watch_table \<Rightarrow> string list" where
  "table_keys zh t = map ek (entries (get_table zh t))"

definition watch_message :: "session \<Rightarrow> byte list" where
  "watch_message zh = enc_RequestHeader \<lparr> RequestHeader_xid = -8, RequestHeader_type = 101 \<rparr> @
     enc_long (last_zxid zh) @ enc_keys (table_keys zh NodeT) @ enc_keys (table_keys zh ExistT) @ enc_keys (table_keys zh ChildT)"

definition watches_fit :: "session \<Rightarrow> bool" where
  "watches_fit zh \<longleftrightarrow> (\<forall>t. length (entries (get_table zh t)) < 2 ^ 31 \<and> (\<forall>k \<in> set (table_keys zh t). valid_string (Some k))) \<and>
     length (watch_message zh) \<le> 2 ^ 29"

lemma puts_cert:
  assumes "\<And>n. mem n" "b = \<lparr> b_len = 0, b_buff = None \<rparr> \<or> valid_buffer b"
  shows "puts oa (enc_cert b) (oa_serialize_buffer mem oa (Some b))"
proof (cases "b = \<lparr> b_len = 0, b_buff = None \<rparr>")
  case True
  have "puts oa1 [] (if_ok (ensure_room mem oa1 0) (\<lambda>s. Ret (0, s)))" for oa1
    using puts_room [OF assms(1), of 0 "[]" oa1] by (simp add: write_buff_def)
  then have "puts oa (enc_int 0 @ []) (if_ok (oa_serialize_int mem oa 0) (\<lambda>s. if_ok (ensure_room mem s 0) (\<lambda>s. Ret (0, s))))"
    using int_total.ser_puts [OF assms(1)] by (intro puts_if_ok) auto
  then show ?thesis using True by (simp add: enc_cert_def oa_serialize_buffer_def)
next
  case False
  then show ?thesis using assms(2) buffer_total.ser_puts [OF assms(1)] by (simp add: enc_cert_def)
qed

lemma puts_keys:
  assumes "\<And>n. mem n" "length ks < 2 ^ 31" "\<forall>k \<in> set ks. valid_string (Some k)"
  shows "puts oa (enc_keys ks) (serialize_String_vector mem oa (key_vector ks))"
proof -
  have n: "nat (sint (word_of_nat (length ks) :: i32)) = length ks" using assms(2) by (simp add: sint_i32_of_nat)
  have l: "puts oa1 (concat (map (\<lambda>k. enc_string (Some k)) ks))
      (ser_loop (oa_serialize_string mem) (if ks = [] then None else Some (map Some ks)) 0 (length ks) (0, oa1))" for oa1
    using string_total.ser_loop_puts [where mem = mem and xs = "map Some ks" and oa = oa1 and pre = "[]", OF assms(1)] assms(3)
    by (cases ks) (simp_all add: puts_def o_def)
  have "puts oa (enc_keys ks) (then_ser (bind_exec (oa_serialize_int mem oa (word_of_nat (length ks)))
     (ser_loop (oa_serialize_string mem) (if ks = [] then None else Some (map Some ks)) 0 (length ks))) oa_end_vector)"
    unfolding enc_keys_def using int_total.ser_puts [OF assms(1)] l by (intro puts_end_vector puts_bind) auto
  then show ?thesis by (simp add: serialize_String_vector_def key_vector_def oa_start_vector_def n)
qed

text \<open>A message that is serialised into a new archive and put at the front of the queue.\<close>

lemma queue_front_spec:
  assumes "env_ok e" "new_oarchive e = Some oa" "oa_ok oa" "written oa = []" "bs_off oa = 0"
    "puts oa msg m" "msg \<noteq> []" "length msg \<le> 2 ^ 29"
  obtains oa' b where "m = Ret (0, oa')"
    "queue_front_buffer_bytes e q (get_buffer oa') (get_buffer_len oa') = (ZOK, b # q)" "fresh_packet msg b"
proof -
  obtain oa' where s: "m = Ret (0, oa')" "oa_ok oa'" "written oa' = msg" using assms(3-6,8) by (auto simp: puts_def)
  have "written oa' \<noteq> []" "length (written oa') < 2 ^ 31" using s(3) assms(7,8) by auto
  then obtain b where "allocate_buffer (obj_ok (en_alloc e)) (get_buffer oa') (get_buffer_len oa') = Some b" "carries b msg" "bl_off b = 0"
    using allocate_written [OF assms(1) s(2)] s(3) by metis
  then show thesis using that s(1) by (simp add: queue_front_buffer_bytes_def fresh_packet_def)
qed

lemma send_info_packet_spec:
  assumes "env_ok e" "auth_ok a"
  obtains b where "send_info_packet e zh a = Ret (ZOK, zh\<lparr> to_send := b # to_send zh \<rparr>)" "fresh_packet (auth_message a) b"
proof -
  obtain oa where oa: "new_oarchive e = Some oa" "oa_ok oa" "written oa = []" "bs_off oa = 0"
    using new_oarchive_ok [OF assms(1)] .
  let ?req = "\<lparr> AuthPacket_type = 0, AuthPacket_scheme = au_scheme a, AuthPacket_auth = au_auth a \<rparr>"
  have "puts oa1 (enc_int 0 @ enc_string (au_scheme a) @ enc_cert (au_auth a) @ []) (serialize_AuthPacket (en_mem e) oa1 ?req)" for oa1
    unfolding serialize_AuthPacket_def
    by (intro puts_start puts_then puts_end; simp add: puts_intros puts_cert assms assms(2) [unfolded auth_ok_def])
  then have m: "puts oa (auth_message a) (if_ok (serialize_RequestHeader (en_mem e) oa \<lparr> RequestHeader_xid = -4, RequestHeader_type = 100 \<rparr>)
      (\<lambda>oa. serialize_AuthPacket (en_mem e) oa ?req))"
    unfolding auth_message_def using RequestHeader_total.ser_puts [of "en_mem e"] assms(1)
    by (intro puts_if_ok) (simp_all add: valid_RequestHeader_def)
  have "0 < length (auth_message a)" by (simp add: auth_message_def enc_RequestHeader_def)
  moreover have "length (auth_message a) \<le> 2 ^ 29" using assms(2) by (simp add: auth_ok_def)
  ultimately obtain oa' b where "if_ok (serialize_RequestHeader (en_mem e) oa \<lparr> RequestHeader_xid = -4, RequestHeader_type = 100 \<rparr>)
      (\<lambda>oa. serialize_AuthPacket (en_mem e) oa ?req) = Ret (0, oa')"
    "queue_front_buffer_bytes e (to_send zh) (get_buffer oa') (get_buffer_len oa') = (ZOK, b # to_send zh)" "fresh_packet (auth_message a) b"
    using queue_front_spec [OF assms(1) oa m] by (metis length_greater_0_conv)
  then show thesis using that by (simp add: send_info_packet_def oa(1))
qed

lemma send_auths_spec:
  assumes "env_ok e"
  shows "\<forall>a \<in> set as. auth_ok a \<Longrightarrow> \<exists>bs. send_auths e as (0, zh) = Ret (0, zh\<lparr> to_send := rev bs @ to_send zh \<rparr>) \<and>
    list_all2 (\<lambda>a. fresh_packet (auth_message a)) as bs"
proof (induction as arbitrary: zh)
  case Nil
  then show ?case by (intro exI [of _ "[]"]) simp
next
  case (Cons a as)
  have "auth_ok a" using Cons.prems by simp
  from send_info_packet_spec [OF assms this, of zh] obtain b where
    b: "send_info_packet e zh a = Ret (ZOK, zh\<lparr> to_send := b # to_send zh \<rparr>)" "fresh_packet (auth_message a) b" .
  obtain bs where "send_auths e as (0, zh\<lparr> to_send := b # to_send zh \<rparr>) =
      Ret (0, zh\<lparr> to_send := rev bs @ b # to_send zh \<rparr>)" "list_all2 (\<lambda>a. fresh_packet (auth_message a)) as bs"
    using Cons.IH [of "zh\<lparr> to_send := b # to_send zh \<rparr>"] Cons.prems by auto
  then show ?case using b by (intro exI [of _ "b # bs"]) simp
qed

lemma send_auth_info_spec:
  assumes "env_ok e" "\<forall>a \<in> set (auth_h zh). auth_ok a"
  obtains bs where "send_auth_info e zh = Ret (ZOK, zh\<lparr> to_send := rev bs @ to_send zh \<rparr>)"
    "list_all2 (\<lambda>a. fresh_packet (auth_message a)) (auth_h zh) bs"
proof (cases "auth_h zh = []")
  case True
  then show thesis using that [of "[]"] by (simp add: send_auth_info_def)
next
  case False
  obtain bs where "send_auths e (auth_h zh) (0, zh) = Ret (0, zh\<lparr> to_send := rev bs @ to_send zh \<rparr>)"
    "list_all2 (\<lambda>a. fresh_packet (auth_message a)) (auth_h zh) bs"
    using send_auths_spec [OF assms] by blast
  then show thesis using that False by (simp add: send_auth_info_def)
qed

lemma collect_table_keys:
  assumes "env_ok e" "watch_ok zh" "length (entries (get_table zh t)) < 2 ^ 31"
  shows "collect_keys (en_alloc e) (get_table zh t) = Ret (table_keys zh t)"
  using collect_keys_entries [of "get_table zh t" "en_alloc e"] watch_ok_get [OF assms(2), of t] assms(1,3)
  by (simp add: wt_ok_def ht_ok_def table_keys_def)

lemma send_set_watches_spec:
  assumes "env_ok e" "watch_ok zh" "watches_fit zh"
  obtains bs where "send_set_watches e zh = Ret (ZOK, zh\<lparr> to_send := bs @ to_send zh \<rparr>)"
    "if \<forall>t. table_keys zh t = [] then bs = [] else \<exists>b. bs = [b] \<and> fresh_packet (watch_message zh) b"
proof -
  have len: "length (entries (get_table zh t)) < 2 ^ 31" "\<forall>k \<in> set (table_keys zh t). valid_string (Some k)" for t
    using assms(3) by (auto simp: watches_fit_def)
  note keys = collect_table_keys [OF assms(1,2) len(1)]
  have k: "collect_keys (en_alloc e) (active_node_watchers zh) = Ret (table_keys zh NodeT)"
    "collect_keys (en_alloc e) (active_exist_watchers zh) = Ret (table_keys zh ExistT)"
    "collect_keys (en_alloc e) (active_child_watchers zh) = Ret (table_keys zh ChildT)"
    using keys [of NodeT] keys [of ExistT] keys [of ChildT] by (simp_all add: get_table_def)
  have none: "(\<forall>t. table_keys zh t = []) \<longleftrightarrow> table_keys zh NodeT = [] \<and> table_keys zh ExistT = [] \<and> table_keys zh ChildT = []"
    by (metis watch_table.exhaust)
  show thesis
  proof (cases "\<forall>t. table_keys zh t = []")
    case True
    then show thesis using that [of "[]"] k by (simp add: send_set_watches_def)
  next
    case False
    obtain oa where oa: "new_oarchive e = Some oa" "oa_ok oa" "written oa = []" "bs_off oa = 0"
      using new_oarchive_ok [OF assms(1)] .
    let ?req = "\<lparr> SetWatches_relativeZxid = last_zxid zh, SetWatches_dataWatches = key_vector (table_keys zh NodeT),
      SetWatches_existWatches = key_vector (table_keys zh ExistT), SetWatches_childWatches = key_vector (table_keys zh ChildT) \<rparr>"
    let ?m = "if_ok (serialize_RequestHeader (en_mem e) oa \<lparr> RequestHeader_xid = -8, RequestHeader_type = 101 \<rparr>)
      (\<lambda>oa. serialize_SetWatches (en_mem e) oa ?req)"
    have lk: "length (table_keys zh t) < 2 ^ 31" for t using len(1) [of t] by (simp add: table_keys_def)
    have kk: "puts oa1 (enc_keys (table_keys zh t)) (serialize_String_vector (en_mem e) oa1 (key_vector (table_keys zh t)))" for oa1 t
      by (intro puts_keys lk len(2)) (simp add: assms(1))
    have "puts oa1 (enc_long (last_zxid zh) @ enc_keys (table_keys zh NodeT) @ enc_keys (table_keys zh ExistT) @
        enc_keys (table_keys zh ChildT) @ []) (serialize_SetWatches (en_mem e) oa1 ?req)" for oa1
      unfolding serialize_SetWatches_def
      by (intro puts_start puts_then puts_end; simp add: puts_intros kk assms(1))
    then have m: "puts oa (watch_message zh) ?m"
      unfolding watch_message_def using RequestHeader_total.ser_puts [of "en_mem e"] assms(1)
      by (intro puts_if_ok) (simp_all add: valid_RequestHeader_def)
    have "0 < length (watch_message zh)" by (simp add: watch_message_def enc_RequestHeader_def)
    moreover have "length (watch_message zh) \<le> 2 ^ 29" using assms(3) by (simp add: watches_fit_def)
    ultimately obtain oa' b where s: "?m = Ret (0, oa')"
      "queue_front_buffer_bytes e (to_send zh) (get_buffer oa') (get_buffer_len oa') = (ZOK, b # to_send zh)"
      "fresh_packet (watch_message zh) b"
      using queue_front_spec [OF assms(1) oa m] by (metis length_greater_0_conv)
    have "send_set_watches e zh = Ret (ZOK, zh\<lparr> to_send := [b] @ to_send zh \<rparr>)"
    proof -
      have ne: "\<not> (table_keys zh NodeT = [] \<and> table_keys zh ExistT = [] \<and> table_keys zh ChildT = [])"
        using False none by blast
      show ?thesis
        unfolding send_set_watches_def k bind_exec.simps if_not_P [OF ne] oa(1) option.case using s(1,2) by simp
    qed
    moreover have "if \<forall>t. table_keys zh t = [] then [b] = [] else \<exists>b'. [b] = [b'] \<and> fresh_packet (watch_message zh) b'"
      using False s(3) by auto
    ultimately show thesis by (rule that)
  qed
qed

text \<open>A session that the server has granted, with what the answer \<^verbatim>\<open>ps\<close> said.\<close>

definition granted :: "prime_struct \<Rightarrow> session \<Rightarrow> session" where
  "granted ps zh = zh\<lparr> primer_storage := ps,
     seen_rw_server_before := seen_rw_server_before zh OR (if ps_readOnly ps = 0 then 1 else 0),
     recv_timeout := ps_timeOut ps, client_id := ps_sessionId ps, client_passwd := ps_passwd ps,
     zh_state := (if ps_readOnly ps \<noteq> 0 then ZOO_READONLY_STATE else ZOO_CONNECTED_STATE), reconfig := False, input_buffer := None \<rparr>"

definition known_session :: "session \<Rightarrow> i64" where
  "known_session zh = (if seen_rw_server_before zh \<noteq> 0 then client_id zh else 0)"

lemma granted_same:
  "watch_ok (granted ps zh) = watch_ok zh" "get_table (granted ps zh) t = get_table zh t"
  "table_keys (granted ps zh) t = table_keys zh t" "watch_message (granted ps zh) = watch_message zh"
proof -
  show t: "get_table (granted ps zh) t = get_table zh t" for t by (cases t) (simp_all add: get_table_def granted_def)
  show k: "table_keys (granted ps zh) t = table_keys zh t" for t by (simp add: table_keys_def t)
  have "last_zxid (granted ps zh) = last_zxid zh" by (simp add: granted_def)
  then show "watch_message (granted ps zh) = watch_message zh" by (simp add: watch_message_def k)
  show "watch_ok (granted ps zh) = watch_ok zh" by (simp add: watch_ok_def granted_def)
qed

text \<open>The event that tells the user of the new session, and the end of the handshake when its parts are done.\<close>

lemma granted_event:
  assumes "env_ok e" "watch_ok zh"
  obtains c where "queue_session_event e ((granted ps zh)\<lparr> to_send := bs \<rparr>) (zh_state (granted ps zh)) =
      Ret (ZOK, (granted ps zh)\<lparr> to_send := bs, completions_to_process := completions_to_process zh @ [c] \<rparr>)"
    "session_event_entry zh (zh_state (granted ps zh)) c"
proof -
  let ?z = "(granted ps zh)\<lparr> to_send := bs \<rparr>"
  have w: "watch_ok ?z" using assms(2) by (simp add: watch_ok_def granted_def)
  obtain c where c: "queue_session_event e ?z (zh_state ?z) =
      Ret (ZOK, ?z\<lparr> completions_to_process := completions_to_process ?z @ [c] \<rparr>)" "session_event_entry ?z (zh_state ?z) c"
    using queue_session_event_spec [OF assms(1) w] .
  have t: "get_table ?z t = get_table zh t" for t
    using granted_same(2) [of ps zh t] by (cases t) (simp_all add: get_table_def)
  have f: "zh_watcher ?z = zh_watcher zh" "zh_context ?z = zh_context zh" "zh_state ?z = zh_state (granted ps zh)"
    by (simp_all add: granted_def)
  have "session_event_entry zh (zh_state (granted ps zh)) c" using c(2) unfolding session_event_entry_def t f .
  moreover have "queue_session_event e ?z (zh_state (granted ps zh)) =
      Ret (ZOK, (granted ps zh)\<lparr> to_send := bs, completions_to_process := completions_to_process zh @ [c] \<rparr>)"
    using c(1) by (simp add: granted_def)
  ultimately show thesis using that by blast
qed

lemma finish_granted:
  assumes "bl_buffer (primer_buf zh) = Some (prime_answer ps)" "length (ps_passwd ps) = 16"
    and "known_session zh = 0 \<or> known_session zh = ps_sessionId ps"
    and "z1 = (granted ps zh)\<lparr> input_buffer := input_buffer zh \<rparr>"
    and "send_set_watches e z1 = Ret (ZOK, z1\<lparr> to_send := ws @ to_send z1 \<rparr>)"
    and "send_auth_info e (z1\<lparr> to_send := ws @ to_send zh \<rparr>) = Ret (ZOK, z1\<lparr> to_send := rev as @ ws @ to_send zh \<rparr>)"
    and "queue_session_event e ((granted ps zh)\<lparr> to_send := rev as @ ws @ to_send zh \<rparr>) (zh_state (granted ps zh)) =
      Ret (ZOK, (granted ps zh)\<lparr> to_send := rev as @ ws @ to_send zh, completions_to_process := completions_to_process zh @ [c] \<rparr>)"
  shows "finish_handshake e zh = Ret (ZOK, (granted ps zh)\<lparr> to_send := rev as @ ws @ to_send zh,
    completions_to_process := completions_to_process zh @ [c] \<rparr>)"
proof -
  let ?z4 = "(granted ps zh)\<lparr> to_send := rev as @ ws @ to_send zh \<rparr>"
  have s1: "z1 = zh\<lparr> primer_storage := ps,
     seen_rw_server_before := seen_rw_server_before zh OR (if ps_readOnly ps = 0 then 1 else 0),
     recv_timeout := ps_timeOut ps, client_id := ps_sessionId ps, client_passwd := ps_passwd ps,
     zh_state := (if ps_readOnly ps \<noteq> 0 then ZOO_READONLY_STATE else ZOO_CONNECTED_STATE), reconfig := False \<rparr>"
    by (simp add: assms(4) granted_def)
  have ts: "to_send z1 = to_send zh" by (simp add: assms(4) granted_def)
  have z3: "z1\<lparr> to_send := rev as @ ws @ to_send zh, input_buffer := None \<rparr> = ?z4" by (simp add: assms(4) granted_def)
  have st: "zh_state ?z4 = zh_state (granted ps zh)" by simp
  have fin: "?z4\<lparr> completions_to_process := completions_to_process zh @ [c], input_buffer := None \<rparr> =
    ?z4\<lparr> completions_to_process := completions_to_process zh @ [c] \<rparr>" by (simp add: granted_def)
  have no: "\<not> ((if seen_rw_server_before zh \<noteq> 0 then client_id zh else 0) \<noteq> 0 \<and>
      (if seen_rw_server_before zh \<noteq> 0 then client_id zh else 0) \<noteq> ps_sessionId ps)"
    using assms(3) by (auto simp: known_session_def)
  show ?thesis
    unfolding finish_handshake_def assms(1) option.case Let_def deserialize_prime_answer [OF assms(2)] if_not_P [OF no]
    using assms(5-7) unfolding s1 [symmetric] ts
    by (simp only: session.simps s1 [symmetric] bind_exec.simps prod.case z3 fin st)
qed

text \<open>
  Property C12: a handshake that the server grants. The handle takes over the identity, password and timeout of the
  answer and is connected, or read-only when the server says so. In front of everything that was queued
  go the authentications, the last one first, then the request that sets all watches again, so that
  requests of the user follow them on the new connection; no request is lost, and one event tells
  every watcher.
\<close>

theorem handshake_granted:
  assumes "env_ok e" "session_inv zh" "watches_fit zh" "\<forall>a \<in> set (auth_h zh). auth_ok a"
    and "bl_buffer (primer_buf zh) = Some (prime_answer ps)" "length (ps_passwd ps) = 16"
    and "known_session zh = 0 \<or> known_session zh = ps_sessionId ps"
  shows "\<exists>as ws c. finish_handshake e zh = Ret (ZOK, (granted ps zh)\<lparr> to_send := rev as @ ws @ to_send zh,
        completions_to_process := completions_to_process zh @ [c] \<rparr>) \<and>
    list_all2 (\<lambda>a. fresh_packet (auth_message a)) (auth_h zh) as \<and>
    (if \<forall>t. table_keys zh t = [] then ws = [] else \<exists>b. ws = [b] \<and> fresh_packet (watch_message zh) b) \<and>
    session_event_entry zh (zh_state (granted ps zh)) c"
proof -
  have inv: "watch_ok zh" using assms(2) by (simp add: session_inv_def)
  let ?z = "granted ps zh"
  let ?z1 = "?z\<lparr> input_buffer := input_buffer zh \<rparr>"
  have t1: "get_table ?z1 t = get_table zh t" for t
    using granted_same(2) [of ps zh t] by (cases t) (simp_all add: get_table_def)
  have k1: "table_keys ?z1 t = table_keys zh t" for t by (simp add: table_keys_def t1)
  have "last_zxid ?z1 = last_zxid zh" by (simp add: granted_def)
  then have m1: "watch_message ?z1 = watch_message zh" by (simp only: watch_message_def k1)
  have w1: "watch_ok ?z1" using inv by (simp add: watch_ok_def granted_def)
  have f1: "watches_fit ?z1" using assms(3) by (simp add: watches_fit_def t1 k1 m1)
  obtain ws where ws: "send_set_watches e ?z1 = Ret (ZOK, ?z1\<lparr> to_send := ws @ to_send ?z1 \<rparr>)"
    "if \<forall>t. table_keys ?z1 t = [] then ws = [] else \<exists>b. ws = [b] \<and> fresh_packet (watch_message ?z1) b"
    using send_set_watches_spec [OF assms(1) w1 f1] .
  let ?z2 = "?z1\<lparr> to_send := ws @ to_send zh \<rparr>"
  have a2: "auth_h ?z2 = auth_h zh" by (simp add: granted_def)
  obtain as where as0: "send_auth_info e ?z2 = Ret (ZOK, ?z2\<lparr> to_send := rev as @ to_send ?z2 \<rparr>)"
    "list_all2 (\<lambda>a. fresh_packet (auth_message a)) (auth_h zh) as"
    using send_auth_info_spec [OF assms(1), of ?z2] assms(4) unfolding a2 by metis
  have as: "send_auth_info e ?z2 = Ret (ZOK, ?z1\<lparr> to_send := rev as @ ws @ to_send zh \<rparr>)" using as0(1) by simp
  obtain c where c: "queue_session_event e (?z\<lparr> to_send := rev as @ ws @ to_send zh \<rparr>) (zh_state ?z) =
      Ret (ZOK, ?z\<lparr> to_send := rev as @ ws @ to_send zh, completions_to_process := completions_to_process zh @ [c] \<rparr>)"
    "session_event_entry zh (zh_state ?z) c"
    using granted_event [OF assms(1) inv] .
  have "finish_handshake e zh = Ret (ZOK, ?z\<lparr> to_send := rev as @ ws @ to_send zh,
      completions_to_process := completions_to_process zh @ [c] \<rparr>)"
    by (rule finish_granted [OF assms(5-7) refl ws(1) as c(1)])
  then show ?thesis using ws(2) as0(2) c(2) unfolding k1 m1 by (intro exI [of _ as] exI [of _ ws] exI [of _ c]) simp
qed

end
