(* ===== verification/Zk_Process.thy ===== *)
theory Zk_Process
  imports Zk_Connection
begin

text \<open>
  Replies and events (\<^verbatim>\<open>zookeeper.c\<close>): \<^verbatim>\<open>zookeeper_process\<close> takes the packets that have been received,
  matches replies with the outstanding requests, activates and removes watches, answers synchronous
  callers and queues everything else for the completion thread, whose \<^verbatim>\<open>process_completions\<close> decodes
  the replies and calls user code. User code that calls back into the client is a later operation here.

  The lemmas show that every request is completed once, in order, with the server's answer or with the
  reason of the failure, and in which cases malformed packets lead to undefined behaviour.
\<close>

section \<open>Decoding a reply for the user\<close>

definition no_stat :: Stat where
  "no_stat = \<lparr> Stat_czxid = 0, Stat_mzxid = 0, Stat_ctime = 0, Stat_mtime = 0, Stat_version = 0, Stat_cversion = 0,
     Stat_aversion = 0, Stat_ephemeralOwner = 0, Stat_dataLength = 0, Stat_numChildren = 0, Stat_pzxid = 0 \<rparr>"

definition no_strings :: "env \<Rightarrow> String_vector" where
  "no_strings e = \<lparr> String_vector_count = en_junk e, String_vector_data = None \<rparr>"

definition no_acls :: "env \<Rightarrow> ACL_vector" where
  "no_acls e = \<lparr> ACL_vector_count = en_junk e, ACL_vector_data = None \<rparr>"

definition no_data :: "env \<Rightarrow> buffer" where
  "no_data e = \<lparr> b_len = en_junk e, b_buff = None \<rparr>"

text \<open>
  The codes of the deserialisers are not looked at. A record that could not be read has indeterminate
  fields, which are then used or freed; a NULL archive is read through.
\<close>

definition read_reply :: "'v reader \<Rightarrow> 'v \<Rightarrow> buff_struct option \<Rightarrow> ('v \<times> buff_struct) exec" where
  "read_reply rd old ia =
     (case ia of None \<Rightarrow> UB
      | Some a \<Rightarrow> bind_exec (rd a old) (\<lambda>(rc, v, a'). if rc \<noteq> 0 then UB else Ret (v, a')))"

text \<open>\<^verbatim>\<open>sub_string\<close> of a path that may be NULL.\<close>

definition client_path_of :: "session \<Rightarrow> string option \<Rightarrow> string option exec" where
  "client_path_of zh p =
     (case p of None \<Rightarrow> if chroot zh = None then Ret None else UB
      | Some s \<Rightarrow> Ret (Some (sub_string (chroot zh) s)))"

definition call_user :: "addr \<Rightarrow> user_call \<Rightarrow> buff_struct option \<Rightarrow> (user_call list \<times> buff_struct option) exec" where
  "call_user f c ia = (if f = NULL then UB else Ret ([c], ia))"

definition data_response where
  "data_response e failed rc c ia =
     (if failed then call_user (c_dc c) (Data_call (c_dc c) rc None 0 None (c_data c)) ia
      else bind_exec (read_reply (deserialize_GetDataResponse (en_mem e))
               \<lparr> GetDataResponse_data = no_data e, GetDataResponse_stat = no_stat \<rparr> ia)
        (\<lambda>(res, a). call_user (c_dc c) (Data_call (c_dc c) rc (b_buff (GetDataResponse_data res)) (b_len (GetDataResponse_data res))
           (Some (GetDataResponse_stat res)) (c_data c)) (Some a)))"

definition stat_response where
  "stat_response e failed rc c ia =
     (if failed then call_user (c_dc c) (Stat_call (c_dc c) rc None (c_data c)) ia
      else bind_exec (read_reply (deserialize_SetDataResponse (en_mem e)) \<lparr> SetDataResponse_stat = no_stat \<rparr> ia)
        (\<lambda>(res, a). call_user (c_dc c) (Stat_call (c_dc c) rc (Some (SetDataResponse_stat res)) (c_data c)) (Some a)))"

definition strings_response where
  "strings_response e failed rc c ia =
     (if failed then call_user (c_dc c) (Strings_call (c_dc c) rc None (c_data c)) ia
      else bind_exec (read_reply (deserialize_GetChildrenResponse (en_mem e)) \<lparr> GetChildrenResponse_children = no_strings e \<rparr> ia)
        (\<lambda>(res, a). call_user (c_dc c) (Strings_call (c_dc c) rc (Some (GetChildrenResponse_children res)) (c_data c)) (Some a)))"

definition strings_stat_response where
  "strings_stat_response e failed rc c ia =
     (if failed then call_user (c_dc c) (Strings_stat_call (c_dc c) rc None None (c_data c)) ia
      else bind_exec (read_reply (deserialize_GetChildren2Response (en_mem e))
               \<lparr> GetChildren2Response_children = no_strings e, GetChildren2Response_stat = no_stat \<rparr> ia)
        (\<lambda>(res, a). call_user (c_dc c) (Strings_stat_call (c_dc c) rc (Some (GetChildren2Response_children res))
           (Some (GetChildren2Response_stat res)) (c_data c)) (Some a)))"

text \<open>The response with the path alone is cleared before it is read; the one with a status is not.\<close>

definition string_response where
  "string_response e zh failed rc c ia =
     (if failed then call_user (c_dc c) (String_call (c_dc c) rc None (c_data c)) ia
      else case ia of None \<Rightarrow> UB
        | Some a0 \<Rightarrow> bind_exec (deserialize_CreateResponse (en_mem e) a0 \<lparr> CreateResponse_path = None \<rparr>)
            (\<lambda>(_, res, a). bind_exec (client_path_of zh (CreateResponse_path res))
               (\<lambda>p. call_user (c_dc c) (String_call (c_dc c) rc p (c_data c)) (Some a))))"

definition string_stat_response where
  "string_stat_response e zh failed rc c ia =
     (if failed then call_user (c_dc c) (String_stat_call (c_dc c) rc None None (c_data c)) ia
      else bind_exec (read_reply (deserialize_Create2Response (en_mem e))
               \<lparr> Create2Response_path = None, Create2Response_stat = no_stat \<rparr> ia)
        (\<lambda>(res, a). bind_exec (client_path_of zh (Create2Response_path res))
           (\<lambda>p. call_user (c_dc c) (String_stat_call (c_dc c) rc p (Some (Create2Response_stat res)) (c_data c)) (Some a))))"

definition acl_response where
  "acl_response e failed rc c ia =
     (if failed then call_user (c_dc c) (Acl_call (c_dc c) rc None None (c_data c)) ia
      else bind_exec (read_reply (deserialize_GetACLResponse (en_mem e))
               \<lparr> GetACLResponse_acl = no_acls e, GetACLResponse_stat = no_stat \<rparr> ia)
        (\<lambda>(res, a). call_user (c_dc c) (Acl_call (c_dc c) rc (Some (GetACLResponse_acl res)) (Some (GetACLResponse_stat res)) (c_data c)) (Some a)))"

definition single_response ::
  "env \<Rightarrow> session \<Rightarrow> bool \<Rightarrow> int \<Rightarrow> 'a completion_entry_scheme \<Rightarrow> buff_struct option \<Rightarrow>
   (user_call list \<times> buff_struct option) exec" where
  "single_response e zh failed rc c ia =
     (if c_type c = COMPLETION_DATA then data_response e failed rc c ia
      else if c_type c = COMPLETION_STAT then stat_response e failed rc c ia
      else if c_type c = COMPLETION_STRINGLIST then strings_response e failed rc c ia
      else if c_type c = COMPLETION_STRINGLIST_STAT then strings_stat_response e failed rc c ia
      else if c_type c = COMPLETION_STRING then string_response e zh failed rc c ia
      else if c_type c = COMPLETION_STRING_STAT then string_stat_response e zh failed rc c ia
      else if c_type c = COMPLETION_ACLLIST then acl_response e failed rc c ia
      else if c_type c = COMPLETION_VOID then call_user (c_dc c) (Void_call (c_dc c) rc (c_data c)) ia
      else Ret ([], ia))"

text \<open>The results of a multi request; the entries run out before the headers end only by a failed assertion.\<close>

fun multi_loop ::
  "env \<Rightarrow> session \<Rightarrow> completion_entry list \<Rightarrow> MultiHeader \<Rightarrow> int \<Rightarrow> buff_struct \<Rightarrow> user_call list \<Rightarrow> (int \<times> user_call list) exec" where
  "multi_loop e zh [] mhdr rc ia cs = (if MultiHeader_done mhdr \<noteq> 0 then Ret (rc, cs) else UB)"
| "multi_loop e zh (entry # es) mhdr rc ia cs =
     (if MultiHeader_done mhdr \<noteq> 0 then Ret (rc, cs)
      else
        bind_exec
          (if MultiHeader_type mhdr = -1 then
             bind_exec (read_reply (deserialize_ErrorResponse (en_mem e)) \<lparr> ErrorResponse_err = 0 \<rparr> (Some ia))
               (\<lambda>(er, a). let err = sint (ErrorResponse_err er) in
                  Ret (mhdr\<lparr> MultiHeader_err := ErrorResponse_err er \<rparr>,
                       if rc = 0 \<and> err \<noteq> 0 \<and> err \<noteq> ZRUNTIMEINCONSISTENCY then err else rc, a))
           else Ret (mhdr, rc, ia))
         (\<lambda>(mhdr1, rc1, a).
            bind_exec (single_response e zh (MultiHeader_type mhdr1 = -1) (sint (MultiHeader_err mhdr1)) entry (Some a))
              (\<lambda>(c, a1). case a1 of None \<Rightarrow> UB
                 | Some a2 \<Rightarrow> bind_exec (deserialize_MultiHeader (en_mem e) a2 mhdr1)
                     (\<lambda>(_, mhdr2, a3). multi_loop e zh es mhdr2 rc1 a3 (cs @ c)))))"

definition deserialize_multi ::
  "env \<Rightarrow> session \<Rightarrow> completion_entry list \<Rightarrow> buff_struct \<Rightarrow> (int \<times> user_call list) exec" where
  "deserialize_multi e zh es ia =
     bind_exec (deserialize_MultiHeader (en_mem e) ia \<lparr> MultiHeader_type = 0, MultiHeader_done = 0, MultiHeader_err = 0 \<rparr>)
      (\<lambda>(_, mhdr, a). multi_loop e zh es mhdr 0 a [])"

fun cleanup_failed_multi :: "env \<Rightarrow> session \<Rightarrow> int \<Rightarrow> completion_entry list \<Rightarrow> user_call list exec" where
  "cleanup_failed_multi e zh rc [] = Ret []"
| "cleanup_failed_multi e zh rc (entry # es) =
     bind_exec (single_response e zh True rc entry None)
      (\<lambda>(c, _). bind_exec (cleanup_failed_multi e zh rc es) (\<lambda>cs. Ret (c @ cs)))"

definition deserialize_response ::
  "env \<Rightarrow> session \<Rightarrow> bool \<Rightarrow> int \<Rightarrow> completion_list \<Rightarrow> buff_struct \<Rightarrow> user_call list exec" where
  "deserialize_response e zh failed rc cptr ia =
     (if c_type cptr = COMPLETION_MULTI then
        if c_dc cptr = NULL then UB
        else bind_exec (if failed then bind_exec (cleanup_failed_multi e zh rc (c_clist cptr)) (\<lambda>cs. Ret (rc, cs))
                        else deserialize_multi e zh (c_clist cptr) ia)
              (\<lambda>(rc1, cs). Ret (cs @ [Void_call (c_dc cptr) rc1 (c_data cptr)]))
      else bind_exec (single_response e zh failed rc cptr (Some ia)) (\<lambda>(cs, _). Ret cs))"

section \<open>The completion thread\<close>

definition new_iarchive :: "env \<Rightarrow> byte list option \<Rightarrow> int \<Rightarrow> buff_struct option" where
  "new_iarchive e buf len = create_buffer_iarchive (en_archive e) (en_archive e) buf len"

definition read_header :: "env \<Rightarrow> buff_struct option \<Rightarrow> (ReplyHeader \<times> buff_struct) exec" where
  "read_header e ia = read_reply (deserialize_ReplyHeader (en_mem e))
     \<lparr> ReplyHeader_xid = en_junk e, ReplyHeader_zxid = 0, ReplyHeader_err = en_junk e \<rparr> ia"

definition read_event :: "env \<Rightarrow> buff_struct \<Rightarrow> (WatcherEvent \<times> buff_struct) exec" where
  "read_event e ia = read_reply (deserialize_WatcherEvent (en_mem e))
     \<lparr> WatcherEvent_type = 0, WatcherEvent_state = 0, WatcherEvent_path = None \<rparr> (Some ia)"

definition process_completion :: "env \<Rightarrow> completion_list \<Rightarrow> session \<Rightarrow> session exec" where
  "process_completion e cptr zh =
     (case c_buffer cptr of None \<Rightarrow> UB
      | Some bptr \<Rightarrow>
          bind_exec (read_header e (new_iarchive e (bl_buffer bptr) (sint (bl_len bptr))))
           (\<lambda>(hdr, ia).
              bind_exec
                (if ReplyHeader_xid hdr = word_of_int WATCHER_EVENT_XID then
                   bind_exec (read_event e ia)
                    (\<lambda>(evt, _). case WatcherEvent_path evt of None \<Rightarrow> UB
                       | Some p \<Rightarrow>
                           bind_exec (deliverWatchers zh (sint (WatcherEvent_type evt)) (sint (WatcherEvent_state evt)) p (c_watchers cptr))
                             (\<lambda>cs. Ret (map Watcher_call cs)))
                 else deserialize_response e zh (ReplyHeader_err hdr \<noteq> 0) (sint (ReplyHeader_err hdr)) cptr ia)
               (\<lambda>cs. Ret (zh\<lparr> calls := calls zh @ cs \<rparr>))))"

fun completion_loop :: "env \<Rightarrow> completion_list list \<Rightarrow> session \<Rightarrow> session exec" where
  "completion_loop e [] zh = Ret (zh\<lparr> completions_to_process := [] \<rparr>)"
| "completion_loop e (c # cs) zh =
     bind_exec (process_completion e c (zh\<lparr> completions_to_process := cs \<rparr>)) (completion_loop e cs)"

definition process_completions :: "env \<Rightarrow> session \<Rightarrow> session exec" where
  "process_completions e zh = completion_loop e (completions_to_process zh) zh"

section \<open>Answering synchronous callers\<close>

definition sync_data :: "env \<Rightarrow> sync_completion \<Rightarrow> buff_struct \<Rightarrow> sync_completion exec" where
  "sync_data e sc ia =
     bind_exec (read_reply (deserialize_GetDataResponse (en_mem e))
         \<lparr> GetDataResponse_data = no_data e, GetDataResponse_stat = no_stat \<rparr> (Some ia))
      (\<lambda>(res, _).
         let d = GetDataResponse_data res;
             len = (if sint (b_len d) \<le> sint (sc_buff_len sc) then b_len d else sc_buff_len sc);
             sc1 = sc\<lparr> sc_buff_len := len, sc_stat := Some (GetDataResponse_stat res) \<rparr>
         in if len = -1 then Ret (sc1\<lparr> sc_buffer := None \<rparr>)
            else if len = 0 then Ret sc1
            else if sint len < 0 then UB
            else case (sc_buffer sc, b_buff d) of
                (Some buf, Some bs) \<Rightarrow>
                  if nat (sint len) \<le> length buf \<and> nat (sint len) \<le> length bs
                  then Ret (sc1\<lparr> sc_buffer := Some (put_bytes buf 0 (take (nat (sint len)) bs)) \<rparr>) else UB
              | _ \<Rightarrow> UB)"

text \<open>The path is copied with its terminating NUL, cut to the length of the caller's array.\<close>

definition sync_copy_path :: "sync_completion \<Rightarrow> string \<Rightarrow> sync_completion exec" where
  "sync_copy_path sc path =
     (let len = min (int (length path) + 1) (sc_str_len sc) in
      if len \<le> 0 then Ret sc
      else if nat len \<le> length (sc_str sc)
      then Ret (sc\<lparr> sc_str := take (nat len - 1) path @ [NUL] @ drop (nat len) (sc_str sc) \<rparr>) else UB)"

definition process_sync_completion ::
  "env \<Rightarrow> session \<Rightarrow> completion_list \<Rightarrow> sync_completion \<Rightarrow> buff_struct \<Rightarrow> (sync_completion \<times> user_call list) exec" where
  "process_sync_completion e zh cptr sc ia =
     (let ok = (sc_rc sc = 0); plain = (\<lambda>r. bind_exec r (\<lambda>s. Ret (s, []))) in
      if c_type cptr = COMPLETION_DATA then (if ok then plain (sync_data e sc ia) else Ret (sc, []))
      else if c_type cptr = COMPLETION_STAT then
        (if ok then bind_exec (read_reply (deserialize_SetDataResponse (en_mem e)) \<lparr> SetDataResponse_stat = no_stat \<rparr> (Some ia))
                     (\<lambda>(res, _). Ret (sc\<lparr> sc_stat := Some (SetDataResponse_stat res) \<rparr>, [])) else Ret (sc, []))
      else if c_type cptr = COMPLETION_STRINGLIST then
        (if ok then bind_exec (read_reply (deserialize_GetChildrenResponse (en_mem e)) \<lparr> GetChildrenResponse_children = no_strings e \<rparr> (Some ia))
                     (\<lambda>(res, _). Ret (sc\<lparr> sc_strs := Some (GetChildrenResponse_children res) \<rparr>, [])) else Ret (sc, []))
      else if c_type cptr = COMPLETION_STRINGLIST_STAT then
        (if ok then bind_exec (read_reply (deserialize_GetChildren2Response (en_mem e))
                       \<lparr> GetChildren2Response_children = no_strings e, GetChildren2Response_stat = no_stat \<rparr> (Some ia))
                     (\<lambda>(res, _). Ret (sc\<lparr> sc_strs := Some (GetChildren2Response_children res),
                        sc_stat := Some (GetChildren2Response_stat res) \<rparr>, [])) else Ret (sc, []))
      else if c_type cptr = COMPLETION_STRING then
        (if ok then bind_exec (read_reply (deserialize_CreateResponse (en_mem e)) \<lparr> CreateResponse_path = None \<rparr> (Some ia))
                     (\<lambda>(res, _). bind_exec (client_path_of zh (CreateResponse_path res))
                        (\<lambda>p. case p of None \<Rightarrow> UB | Some s \<Rightarrow> plain (sync_copy_path sc s))) else Ret (sc, []))
      else if c_type cptr = COMPLETION_STRING_STAT then
        (if ok then bind_exec (read_reply (deserialize_Create2Response (en_mem e)) \<lparr> Create2Response_path = None, Create2Response_stat = no_stat \<rparr> (Some ia))
                     (\<lambda>(res, _). bind_exec (client_path_of zh (Create2Response_path res))
                        (\<lambda>p. case p of None \<Rightarrow> UB
                           | Some s \<Rightarrow> bind_exec (sync_copy_path sc s)
                               (\<lambda>sc1. Ret (sc1\<lparr> sc_stat := Some (Create2Response_stat res) \<rparr>, [])))) else Ret (sc, []))
      else if c_type cptr = COMPLETION_ACLLIST then
        (if ok then bind_exec (read_reply (deserialize_GetACLResponse (en_mem e)) \<lparr> GetACLResponse_acl = no_acls e, GetACLResponse_stat = no_stat \<rparr> (Some ia))
                     (\<lambda>(res, _). Ret (sc\<lparr> sc_acl := Some (GetACLResponse_acl res), sc_stat := Some (GetACLResponse_stat res) \<rparr>, []))
         else Ret (sc, []))
      else if c_type cptr = COMPLETION_MULTI then
        bind_exec (deserialize_multi e zh (c_clist cptr) ia) (\<lambda>(rc, cs). Ret (sc\<lparr> sc_rc := rc \<rparr>, cs))
      else Ret (sc, []))"

section \<open>The I/O thread\<close>

definition watcher_event :: "env \<Rightarrow> buffer_list \<Rightarrow> buff_struct \<Rightarrow> session \<Rightarrow> session exec" where
  "watcher_event e bptr ia zh =
     bind_exec (read_event e ia)
      (\<lambda>(evt, _).
         bind_exec (do_create_completion_entry e (word_of_int WATCHER_EVENT_XID) COMPLETION_WATCH NULL NULL None None None)
          (\<lambda>c. case (c, WatcherEvent_path evt) of
             (Some c, Some path) \<Rightarrow>
               bind_exec (ended (collectWatchers (en_alloc e) zh (sint (WatcherEvent_type evt)) path))
                (\<lambda>(wl, zh1). Ret (zh1\<lparr> completions_to_process := completions_to_process zh1 @
                   [c\<lparr> c_buffer := Some bptr, c_watchers := Some wl \<rparr>] \<rparr>))
           | _ \<Rightarrow> UB))"

text \<open>The reply \<^verbatim>\<open>hdr\<close> belongs to the request \<^verbatim>\<open>cptr\<close>, which has been taken from the queue.\<close>

definition complete_request ::
  "env \<Rightarrow> buffer_list \<Rightarrow> ReplyHeader \<Rightarrow> buff_struct \<Rightarrow> completion_list \<Rightarrow> session \<Rightarrow> session exec" where
  "complete_request e bptr hdr ia cptr zh0 =
     (let rc = sint (ReplyHeader_err hdr);
          zh = (if sint (ReplyHeader_zxid hdr) > 0 then zh0\<lparr> last_zxid := ReplyHeader_zxid hdr \<rparr> else zh0)
      in bind_exec (activateWatcher (en_alloc e) zh (c_watcher cptr) rc)
          (\<lambda>zh1.
             let zh2 = deactivateWatcher zh1 (c_dereg cptr) rc in
             if c_dc cptr \<noteq> SYNCHRONOUS_MARKER
             then Ret (zh2\<lparr> completions_to_process := completions_to_process zh2 @ [cptr\<lparr> c_buffer := Some bptr \<rparr>] \<rparr>)
             else case syncs zh2 (c_data cptr) of None \<Rightarrow> UB
               | Some sc \<Rightarrow>
                   bind_exec (process_sync_completion e zh2 cptr (sc\<lparr> sc_rc := rc \<rparr>) ia)
                    (\<lambda>(sc1, cs).
                       bind_exec (notify_sync_completion (c_data cptr)
                           (zh2\<lparr> syncs := (syncs zh2)(c_data cptr \<mapsto> sc1), calls := calls zh2 @ cs \<rparr>))
                        (\<lambda>zh3. Ret (zh3\<lparr> outstanding_sync := outstanding_sync zh3 - 1 \<rparr>)))))"

text \<open>
  One packet; \<^verbatim>\<open>Some rc\<close> is an early return. The archive is as long as the offset of the buffer, which
  counts the four bytes of the length that are not in the buffer.
\<close>

definition process_packet :: "env \<Rightarrow> buffer_list \<Rightarrow> session \<Rightarrow> (int option \<times> session) exec" where
  "process_packet e bptr zh =
     bind_exec (read_header e (new_iarchive e (bl_buffer bptr) (bl_off bptr)))
      (\<lambda>(hdr, ia).
         if ReplyHeader_xid hdr = word_of_int PING_XID then Ret (None, zh)
         else if ReplyHeader_xid hdr = word_of_int WATCHER_EVENT_XID then
           bind_exec (watcher_event e bptr ia zh) (\<lambda>zh1. Ret (None, zh1))
         else if ReplyHeader_xid hdr = word_of_int SET_WATCHES_XID then Ret (None, zh)
         else if ReplyHeader_xid hdr = word_of_int AUTH_XID then
           bind_exec (auth_completion_func (sint (ReplyHeader_err hdr)) zh)
            (\<lambda>zh1. if is_unrecoverable zh1 \<noteq> 0
                    then bind_exec (handle_error e zh1 ZAUTHFAILED) (\<lambda>zh2. Ret (Some ZAUTHFAILED, zh2))
                    else Ret (None, zh1))
         else case sent_requests zh of
             [] \<Rightarrow> if close_requested zh then Ret (Some ZINVALIDSTATE, zh) else UB
           | cptr # rest \<Rightarrow>
               if c_xid cptr \<noteq> ReplyHeader_xid hdr
               then bind_exec (handle_socket_error e zh ZRUNTIMEINCONSISTENCY) (\<lambda>(rc, zh1). Ret (Some rc, zh1))
               else bind_exec (complete_request e bptr hdr ia cptr (zh\<lparr> sent_requests := rest \<rparr>)) (\<lambda>zh1. Ret (None, zh1)))"

fun packet_loop :: "env \<Rightarrow> buffer_list list \<Rightarrow> session \<Rightarrow> (int \<times> session) exec" where
  "packet_loop e [] zh = Ret (ZOK, zh\<lparr> to_process := [] \<rparr>)"
| "packet_loop e (b # bs) zh =
     bind_exec (process_packet e b (zh\<lparr> to_process := bs \<rparr>))
      (\<lambda>(early, zh1). case early of Some rc \<Rightarrow> Ret (rc, zh1) | None \<Rightarrow> packet_loop e bs zh1)"

definition zookeeper_process ::
  "env \<Rightarrow> bool \<Rightarrow> session option \<Rightarrow> int \<Rightarrow> (int \<times> session option) exec" where
  "zookeeper_process e so_error h events =
     (case h of None \<Rightarrow> Ret (ZBADARGUMENTS, h)
      | Some zh \<Rightarrow>
          if is_unrecoverable zh \<noteq> 0 then Ret (ZINVALIDSTATE, h)
          else bind_exec (check_events e so_error zh events)
            (\<lambda>(rc, zh1).
               if rc \<noteq> ZOK then Ret (rc, Some zh1)
               else bind_exec (packet_loop e (to_process zh1) zh1) (\<lambda>(rc, zh2). Ret (rc, Some zh2))))"

section \<open>Packets and requests\<close>

text \<open>A block that begins with a header, read through an archive of any length from 16 on.\<close>

lemma read_int_prefix:
  assumes "bs_buffer ia = Some blk" "bs_off ia = int k" "drop k blk = enc_int w @ rest" "k + 4 \<le> length blk"
    "int k + 4 \<le> bs_len ia" "bs_len ia < 2 ^ 31"
  shows "ia_deserialize_int ia old = Ret (0, w, ia\<lparr> bs_off := int (k + 4) \<rparr>)"
proof -
  have "htonl (word32 (enc_int w)) = w" by (simp add: enc_int_def flip: htonl_bytes)
  moreover have "\<not> size_lt (bs_len ia - bs_off ia) 4" using assms by (simp add: size_lt_def)
  ultimately show ?thesis
    using assms by (simp add: ia_deserialize_int_def read_buff_def add.commute)
qed

lemma read_long_prefix:
  assumes "bs_buffer ia = Some blk" "bs_off ia = int k" "drop k blk = enc_long w @ rest" "k + 8 \<le> length blk"
    "int k + 8 \<le> bs_len ia" "bs_len ia < 2 ^ 31"
  shows "ia_deserialize_long ia old = Ret (0, w, ia\<lparr> bs_off := int (k + 8) \<rparr>)"
proof -
  have "zoo_htonll (word64 (enc_long w)) = w" by (simp add: enc_long_def flip: zoo_htonll_bytes)
  moreover have "\<not> size_lt (bs_len ia - bs_off ia) 8" using assms by (simp add: size_lt_def)
  ultimately show ?thesis
    using assms by (simp add: ia_deserialize_long_def read_buff_def add.commute)
qed

lemma read_header_prefix:
  assumes "env_ok e" "16 \<le> len" "len < 2 ^ 31"
  shows "read_header e (new_iarchive e (Some (enc_ReplyHeader h @ body)) len) =
    Ret (h, \<lparr> bs_len = len, bs_off = 16, bs_buffer = Some (enc_ReplyHeader h @ body) \<rparr>)"
proof -
  let ?blk = "enc_ReplyHeader h @ body"
  let ?ia = "\<lambda>k. \<lparr> bs_len = len, bs_off = k, bs_buffer = Some ?blk \<rparr>"
  have b: "?blk = enc_int (ReplyHeader_xid h) @ enc_long (ReplyHeader_zxid h) @ enc_int (ReplyHeader_err h) @ body"
    by (simp add: enc_ReplyHeader_def)
  have 1: "ia_deserialize_int (?ia 0) old = Ret (0, ReplyHeader_xid h, ?ia 4)" for old
    by (subst read_int_prefix [of _ ?blk 0, where rest = "enc_long (ReplyHeader_zxid h) @ enc_int (ReplyHeader_err h) @ body"])
      (use assms b in simp_all)
  have 2: "ia_deserialize_long (?ia 4) old = Ret (0, ReplyHeader_zxid h, ?ia 12)" for old
    by (subst read_long_prefix [of _ ?blk 4, where rest = "enc_int (ReplyHeader_err h) @ body"])
      (use assms b in simp_all)
  have 3: "ia_deserialize_int (?ia 12) old = Ret (0, ReplyHeader_err h, ?ia 16)" for old
    by (subst read_int_prefix [of _ ?blk 12, where rest = body]) (use assms b in simp_all)
  show ?thesis
    using assms(1)
    by (simp add: read_header_def read_reply_def new_iarchive_def create_buffer_iarchive_def deserialize_ReplyHeader_def
        ia_start_record_def ia_end_record_def then_des_def field_def 1 2 3)
qed

text \<open>A packet that is too short for a header: nothing makes up for the missing bytes.\<close>

lemma short_header_undefined:
  assumes "env_ok e" "length blk < 16" "len = int (length blk) + 4"
  shows "read_header e (new_iarchive e (Some blk) len) = UB"
proof -
  let ?L = "length blk"
  let ?ia = "\<lambda>k. \<lparr> bs_len = len, bs_off = k, bs_buffer = Some blk \<rparr>"
  have lt: "size_lt (len - k) n \<longleftrightarrow> int ?L + 4 - k < n" if "0 \<le> k" "0 \<le> int ?L + 4 - k" for k n
    using assms(2,3) that by (simp add: size_lt_def)
  have 1: "ia_deserialize_int (?ia 0) old = (if ?L < 4 then UB else Ret (0, htonl (word32 (take 4 blk)), ?ia 4))" for old
    using lt [of 0 4] by (simp add: ia_deserialize_int_def read_buff_def)
  have 2: "ia_deserialize_long (?ia 4) old = (if ?L < 8 then Ret (- E2BIG, old, ?ia 4) else if ?L < 12 then UB
      else Ret (0, zoo_htonll (word64 (take 8 (drop 4 blk))), ?ia 12))" if "4 \<le> ?L" for old
    using lt [of 4 8] that by (simp add: ia_deserialize_long_def read_buff_def)
  have 3: "ia_deserialize_int (?ia 12) old = UB" if "12 \<le> ?L" for old
    using lt [of 12 4] that assms(2) by (simp add: ia_deserialize_int_def read_buff_def)
  note defs = read_header_def read_reply_def new_iarchive_def create_buffer_iarchive_def deserialize_ReplyHeader_def
    ia_start_record_def ia_end_record_def then_des_def field_def
  consider "?L < 4" | "4 \<le> ?L" "?L < 12" | "12 \<le> ?L" by linarith
  then show ?thesis
    by cases (use assms(1) in \<open>simp_all add: defs 1 2 3 E2BIG_def\<close>)
qed

section \<open>Room in the watch tables\<close>

text \<open>Every table can take \<^verbatim>\<open>n\<close> more paths.\<close>

definition watch_space :: "nat \<Rightarrow> 'a watch_state_scheme \<Rightarrow> bool" where
  "watch_space n zh \<longleftrightarrow> (\<forall>t. length (entries (get_table zh t)) + n < 2 ^ 32 - 1)"

lemma watch_space_room: "watch_space n zh \<Longrightarrow> watch_room zh"
  by (auto simp: watch_space_def watch_room_def ht_room_def intro: le_less_trans [OF le_add1])

lemma table_size:
  assumes "wt_ok ht"
  shows "length (entries ht) = card {p. watchers_of ht p \<noteq> {}}" "finite {p. watchers_of ht p \<noteq> {}}"
proof -
  have sh: "distinct (map ek (entries ht))" using assms by (simp add: wt_ok_def ht_ok_def ht_wf_def ht_shape_def)
  have "{p. watchers_of ht p \<noteq> {}} = dom (ht_map ht)"
    using wt_okD(2) [OF assms] by (auto simp: watchers_of_def split: option.splits)
  then have eq: "{p. watchers_of ht p \<noteq> {}} = set (map ek (entries ht))" by (simp add: dom_ht_map del: set_concat)
  show "length (entries ht) = card {p. watchers_of ht p \<noteq> {}}"
    unfolding eq using distinct_card [OF sh] by simp
  show "finite {p. watchers_of ht p \<noteq> {}}" unfolding eq by simp
qed

lemma watch_space_mono:
  assumes "watch_space (Suc n) zh" "watch_ok zh" "watch_ok zh'"
    and "\<And>t p. registered zh' t p \<noteq> {} \<Longrightarrow> registered zh t p \<noteq> {} \<or> p = q"
  shows "watch_space n zh'"
  unfolding watch_space_def
proof
  fix t
  note s = table_size [OF watch_ok_get [OF assms(2), of t]] table_size [OF watch_ok_get [OF assms(3), of t]]
  have "card {p. registered zh' t p \<noteq> {}} \<le> card (insert q {p. registered zh t p \<noteq> {}})"
    using s(2) assms(4) [of t] by (intro card_mono) auto
  also have "\<dots> \<le> Suc (card {p. registered zh t p \<noteq> {}})" using s(2) by (simp add: card_insert_if)
  finally have "length (entries (get_table zh' t)) \<le> Suc (length (entries (get_table zh t)))" using s by simp
  moreover have "length (entries (get_table zh t)) + Suc n < 2 ^ 32 - 1" using assms(1) by (simp add: watch_space_def)
  ultimately show "length (entries (get_table zh' t)) + n < 2 ^ 32 - 1" by simp
qed

section \<open>Activating and removing the watches of a request\<close>

text \<open>A handle that differs in its watch tables alone.\<close>

definition rewatched :: "session \<Rightarrow> session \<Rightarrow> bool" where
  "rewatched zh zh' \<longleftrightarrow> (\<exists>n x c. zh' = zh\<lparr> active_node_watchers := n, active_exist_watchers := x, active_child_watchers := c \<rparr>)"

lemma rewatched_refl [simp]: "rewatched zh zh"
  unfolding rewatched_def by (intro exI [of _ "active_node_watchers zh"] exI [of _ "active_exist_watchers zh"]
    exI [of _ "active_child_watchers zh"]) simp

lemma rewatched_trans: "rewatched a b \<Longrightarrow> rewatched b c \<Longrightarrow> rewatched a c"
  unfolding rewatched_def
proof (elim exE)
  fix n x c' n1 x1 c1
  assume "b = a\<lparr> active_node_watchers := n, active_exist_watchers := x, active_child_watchers := c' \<rparr>"
    "c = b\<lparr> active_node_watchers := n1, active_exist_watchers := x1, active_child_watchers := c1 \<rparr>"
  then have "c = a\<lparr> active_node_watchers := n1, active_exist_watchers := x1, active_child_watchers := c1 \<rparr>" by simp
  then show "\<exists>n x d. c = a\<lparr> active_node_watchers := n, active_exist_watchers := x, active_child_watchers := d \<rparr>" by blast
qed

lemma rewatched_set: "rewatched zh (set_table zh t ht)"
proof (cases t)
  case NodeT then show ?thesis unfolding rewatched_def set_table_def
    by (intro exI [of _ ht] exI [of _ "active_exist_watchers zh"] exI [of _ "active_child_watchers zh"]) simp
next
  case ExistT then show ?thesis unfolding rewatched_def set_table_def
    by (intro exI [of _ "active_node_watchers zh"] exI [of _ ht] exI [of _ "active_child_watchers zh"]) simp
next
  case ChildT then show ?thesis unfolding rewatched_def set_table_def
    by (intro exI [of _ "active_node_watchers zh"] exI [of _ "active_exist_watchers zh"] exI [of _ ht]) simp
qed

lemma activate_ready:
  assumes "env_ok e" "watch_ok zh" "watch_space (Suc n) zh"
  obtains zh' where "activateWatcher (en_alloc e) zh r rc = Ret zh'" "rewatched zh zh'" "watch_ok zh'" "watch_space n zh'"
proof -
  have sp: "watch_space n zh" using assms(3) unfolding watch_space_def by (metis add_Suc_right Suc_lessD)
  show thesis
  proof (cases r)
    case None
    then show thesis using that [of zh] assms(2) sp by (simp add: activateWatcher_def)
  next
    case (Some w)
    show thesis
    proof (cases "reg_checker w rc")
      case None
      then show thesis using that [of zh] assms(2) sp Some by (simp add: activateWatcher_def)
    next
      case t: (Some t)
      obtain zh' where a: "activateWatcher all_memory zh (Some w) rc = Ret zh'" using activate_returns [OF t] by metis
      note s = activateWatcher_table [OF assms(2) watch_space_room [OF assms(3)] a t]
      have "rewatched zh zh'"
        using a t rewatched_set by (auto simp: activateWatcher_def split: if_splits)
      moreover have "watch_space n zh'"
        by (rule watch_space_mono [OF assms(3,2) s(1), of "reg_path w"]) (auto simp: s(2) split: if_splits)
      ultimately show thesis using that a s(1) Some env_ok_alloc [OF assms(1)] by simp
    qed
  qed
qed

lemma removeWatchers_rewatched: "rewatched zh (removeWatchers zh path type w c)"
  unfolding removeWatchers_def Let_def
  by (auto intro: rewatched_set rewatched_trans [OF rewatched_set rewatched_set]
      rewatched_trans [OF rewatched_trans [OF rewatched_set rewatched_set] rewatched_set])

lemma deactivate_ready:
  assumes "watch_ok zh" "watch_space n zh"
  shows "rewatched zh (deactivateWatcher zh d rc)" "watch_ok (deactivateWatcher zh d rc)" "watch_space n (deactivateWatcher zh d rc)"
proof -
  have sub: "length (entries (get_table (removeWatchers zh p ty w c) t)) \<le> length (entries (get_table zh t))" for p ty w c t
  proof -
    note r = removeWatchers_tables [OF assms(1), of p ty w c]
    note s = table_size [OF watch_ok_get [OF assms(1), of t]] table_size [OF watch_ok_get [OF r(1), of t]]
    have "card {q. registered (removeWatchers zh p ty w c) t q \<noteq> {}} \<le> card {q. registered zh t q \<noteq> {}}"
      using s(2) by (intro card_mono) (auto simp: r(2) split: if_splits)
    then show ?thesis using s by simp
  qed
  show "rewatched zh (deactivateWatcher zh d rc)"
    by (simp add: deactivateWatcher_def removeWatchers_rewatched split: option.split)
  show "watch_ok (deactivateWatcher zh d rc)"
    using assms(1) removeWatchers_tables(1) [OF assms(1)] by (simp add: deactivateWatcher_def split: option.split)
  show "watch_space n (deactivateWatcher zh d rc)"
    using assms(2) le_less_trans [OF add_le_mono1 [OF sub]] by (auto simp: deactivateWatcher_def watch_space_def split: option.split)
qed

section \<open>Replies complete the requests in order\<close>

text \<open>
  A packet that has been received whole: a block with a header and a body, whose offset counts the length
  in front of it.
\<close>

definition reply_packet :: "buffer_list \<Rightarrow> ReplyHeader \<Rightarrow> bool" where
  "reply_packet b h \<longleftrightarrow> (\<exists>body. bl_buffer b = Some (enc_ReplyHeader h @ body) \<and>
     bl_off b = int (16 + length body) + 4 \<and> bl_off b < 2 ^ 31)"

definition out_of_band :: "i32 set" where
  "out_of_band = {word_of_int PING_XID, word_of_int WATCHER_EVENT_XID, word_of_int SET_WATCHES_XID, word_of_int AUTH_XID}"

text \<open>A reply to a synchronous request that leaves nothing to decode: no result, or a failure.\<close>

definition plain_sync :: "completion_list \<Rightarrow> ReplyHeader \<Rightarrow> bool" where
  "plain_sync c h \<longleftrightarrow> c_type c = COMPLETION_VOID \<or> ReplyHeader_err h \<noteq> 0 \<and> c_type c \<noteq> COMPLETION_MULTI"

definition answers :: "buffer_list \<times> ReplyHeader \<Rightarrow> completion_list \<Rightarrow> bool" where
  "answers = (\<lambda>(b, h) c. reply_packet b h \<and> ReplyHeader_xid h = c_xid c \<and> c_xid c \<notin> out_of_band \<and>
     (is_sync c \<longrightarrow> plain_sync c h))"

definition completed :: "(buffer_list \<times> ReplyHeader) \<times> completion_list \<Rightarrow> completion_list list" where
  "completed = (\<lambda>((b, h), c). if is_async c then [c\<lparr> c_buffer := Some b \<rparr>] else [])"

definition answered ::
  "(buffer_list \<times> ReplyHeader) \<times> completion_list \<Rightarrow> (addr \<Rightarrow> sync_completion option) \<Rightarrow> addr \<Rightarrow> sync_completion option" where
  "answered = (\<lambda>((b, h), c) f. if is_async c then f else f(c_data c :=
     map_option (\<lambda>sc. sc\<lparr> sc_rc := sint (ReplyHeader_err h), sc_complete := True \<rparr>) (f (c_data c))))"

lemma answered_caller: "has_caller cs f \<Longrightarrow> has_caller cs (answered p f)"
  by (auto simp: has_caller_def answered_def split: prod.split)

lemma process_sync_plain:
  assumes "plain_sync c h" "sc_rc sc = sint (ReplyHeader_err h)"
  shows "process_sync_completion e zh c sc ia = Ret (sc, [])"
proof (cases "c_type c = COMPLETION_VOID")
  case True
  then show ?thesis by (simp add: process_sync_completion_def Let_def)
next
  case False
  then have "ReplyHeader_err h \<noteq> 0" "c_type c \<noteq> COMPLETION_MULTI" using assms(1) by (simp_all add: plain_sync_def)
  then have "sc_rc sc \<noteq> 0" "c_type c \<noteq> 7" using assms(2) by (simp_all add: signed_eq_0_iff)
  then show ?thesis unfolding process_sync_completion_def Let_def by (simp cong: if_cong)
qed

lemma rewatched_inv:
  assumes "rewatched zh zh'" "watch_ok zh'"
  shows "sent_requests zh' = sent_requests zh" "completions_to_process zh' = completions_to_process zh" "syncs zh' = syncs zh"
    "outstanding_sync zh' = outstanding_sync zh" "addrs zh' = addrs zh" "to_process zh' = to_process zh" "calls zh' = calls zh"
    "zh_state zh' = zh_state zh" "close_requested zh' = close_requested zh" "to_send zh' = to_send zh" "last_zxid zh' = last_zxid zh"
    "sock zh' = sock zh" "auth_h zh' = auth_h zh" "chroot zh' = chroot zh"
    "net_in zh' = net_in zh" "net_out zh' = net_out zh"
  using assms(1) by (auto simp: rewatched_def)

text \<open>What one reply changes.\<close>

definition after_reply :: "buffer_list \<times> ReplyHeader \<Rightarrow> completion_list \<Rightarrow> session \<Rightarrow> session \<Rightarrow> bool" where
  "after_reply p c zh zh' \<longleftrightarrow> session_inv zh' \<and>
     completions_to_process zh' = completions_to_process zh @ completed (p, c) \<and>
     syncs zh' = answered (p, c) (syncs zh) \<and> sent_requests zh' = tl (sent_requests zh) \<and>
     to_process zh' = to_process zh \<and> to_send zh' = to_send zh \<and> zh_state zh' = zh_state zh \<and>
     close_requested zh' = close_requested zh \<and> sock zh' = sock zh \<and> calls zh' = calls zh \<and> chroot zh' = chroot zh \<and>
     net_in zh' = net_in zh \<and> net_out zh' = net_out zh \<and>
     last_zxid zh' = (if sint (ReplyHeader_zxid (snd p)) > 0 then ReplyHeader_zxid (snd p) else last_zxid zh)"

lemma complete_request_spec:
  assumes "env_ok e" "session_inv zh" "watch_space (Suc n) zh" "sent_requests zh = c # rest"
    and "is_sync c \<longrightarrow> plain_sync c h"
  obtains zh' where "complete_request e b h ia c (zh\<lparr> sent_requests := rest \<rparr>) = Ret zh'" "after_reply (b, h) c zh zh'" "watch_space n zh'"
proof -
  let ?z = "if sint (ReplyHeader_zxid h) > 0 then zh\<lparr> sent_requests := rest, last_zxid := ReplyHeader_zxid h \<rparr> else zh\<lparr> sent_requests := rest \<rparr>"
  have g: "get_table ?z t = get_table zh t" for t by (cases t) (simp_all add: get_table_def)
  have inv: "watch_ok zh" "av_ok (addrs zh)" "outstanding_sync zh = int (length (filter is_sync (c # rest)))"
    "has_caller (c # rest) (syncs zh)" "\<forall>c \<in> set (completions_to_process zh). c_buffer c \<noteq> None \<and> is_async c"
    using assms(2,4) by (simp_all add: session_inv_def)
  have w: "watch_ok ?z" "watch_space (Suc n) ?z"
    using inv(1) assms(3) by (simp_all add: watch_ok_def watch_space_def g)
  from activate_ready [OF assms(1) w, of "c_watcher c" "sint (ReplyHeader_err h)"] obtain z1 where
    z1: "activateWatcher (en_alloc e) ?z (c_watcher c) (sint (ReplyHeader_err h)) = Ret z1"
    "rewatched ?z z1" "watch_ok z1" "watch_space n z1" .
  let ?z2 = "deactivateWatcher z1 (c_dereg c) (sint (ReplyHeader_err h))"
  note z2 = deactivate_ready [OF z1(3,4), of "c_dereg c" "sint (ReplyHeader_err h)"]
  have r: "rewatched ?z ?z2" by (rule rewatched_trans [OF z1(2) z2(1)])
  note f = rewatched_inv [OF r z2(2)]
  show thesis
  proof (cases "is_sync c")
    case False
    let ?zh = "?z2\<lparr> completions_to_process := completions_to_process ?z2 @ [c\<lparr> c_buffer := Some b \<rparr>] \<rparr>"
    have "complete_request e b h ia c (zh\<lparr> sent_requests := rest \<rparr>) = Ret ?zh"
      using z1(1) False by (simp add: complete_request_def Let_def)
    moreover have "after_reply (b, h) c zh ?zh"
      using False inv z2(2) assms(4)
      by (auto simp: after_reply_def session_inv_def f completed_def answered_def has_caller_def watch_ok_def)
    moreover have "watch_space n ?zh"
    proof -
      have "get_table ?zh t = get_table ?z2 t" for t by (cases t) (simp_all add: get_table_def)
      then show ?thesis using z2(3) by (simp add: watch_space_def)
    qed
    ultimately show thesis by (rule that)
  next
    case True
    then obtain sc where sc: "syncs zh (c_data c) = Some sc" using inv(4) by (auto simp: has_caller_def)
    let ?sc = "sc\<lparr> sc_rc := sint (ReplyHeader_err h) \<rparr>"
    let ?zh = "?z2\<lparr> syncs := (syncs ?z2)(c_data c \<mapsto> ?sc\<lparr> sc_complete := True \<rparr>), calls := calls ?z2 @ [],
      outstanding_sync := outstanding_sync ?z2 - 1 \<rparr>"
    have sy: "syncs ?z2 = syncs zh" by (simp add: f)
    have "process_sync_completion e ?z2 c ?sc ia = Ret (?sc, [])"
      using True assms(5) by (intro process_sync_plain [of c h]) simp_all
    then have "complete_request e b h ia c (zh\<lparr> sent_requests := rest \<rparr>) = Ret ?zh"
      using z1(1) True sc by (simp add: complete_request_def notify_sync_completion_def sy Let_def)
    moreover have "after_reply (b, h) c zh ?zh"
      using True inv z2(2) assms(4) sc
      by (auto simp: after_reply_def session_inv_def f completed_def answered_def has_caller_def watch_ok_def fun_eq_iff)
    moreover have "watch_space n ?zh"
    proof -
      have "get_table ?zh t = get_table ?z2 t" for t by (cases t) (simp_all add: get_table_def)
      then show ?thesis using z2(3) by (simp add: watch_space_def)
    qed
    ultimately show thesis by (rule that)
  qed
qed

lemma reply_header:
  assumes "env_ok e" "reply_packet b h"
  shows "\<exists>ia. read_header e (new_iarchive e (bl_buffer b) (bl_off b)) = Ret (h, ia)"
  using assms(2) read_header_prefix [OF assms(1), of "bl_off b" h] by (auto simp: reply_packet_def)

lemma process_reply:
  assumes "env_ok e" "session_inv zh" "watch_space (Suc n) zh" "sent_requests zh = c # rest" "answers (b, h) c"
  obtains zh' where "process_packet e b zh = Ret (None, zh')" "after_reply (b, h) c zh zh'" "watch_space n zh'"
proof -
  have a: "reply_packet b h" "ReplyHeader_xid h = c_xid c" "c_xid c \<notin> out_of_band" "is_sync c \<longrightarrow> plain_sync c h"
    using assms(5) by (auto simp: answers_def)
  obtain ia where ia: "read_header e (new_iarchive e (bl_buffer b) (bl_off b)) = Ret (h, ia)"
    using reply_header [OF assms(1) a(1)] ..
  obtain zh' where c: "complete_request e b h ia c (zh\<lparr> sent_requests := rest \<rparr>) = Ret zh'"
    "after_reply (b, h) c zh zh'" "watch_space n zh'"
    using complete_request_spec [OF assms(1-4) a(4)] .
  have "process_packet e b zh = Ret (None, zh')"
    using a(2,3) assms(4) c(1) by (simp add: process_packet_def ia out_of_band_def)
  then show thesis using c that by blast
qed

lemma after_reply_to_process:
  assumes "session_inv zh"
  shows "session_inv (zh\<lparr> to_process := q \<rparr>)" "watch_space n (zh\<lparr> to_process := q \<rparr>) = watch_space n zh"
proof -
  have "get_table (zh\<lparr> to_process := q \<rparr>) t = get_table zh t" for t by (cases t) (simp_all add: get_table_def)
  then show "watch_space n (zh\<lparr> to_process := q \<rparr>) = watch_space n zh" by (simp add: watch_space_def)
  show "session_inv (zh\<lparr> to_process := q \<rparr>)" using assms by (simp add: session_inv_def watch_ok_def)
qed

lemma replies_complete:
  assumes "env_ok e"
  shows "session_inv zh \<Longrightarrow> watch_space (length ps) zh \<Longrightarrow> list_all2 answers ps cs \<Longrightarrow> sent_requests zh = cs @ rest \<Longrightarrow>
    \<exists>zh'. packet_loop e (map fst ps) zh = Ret (ZOK, zh') \<and> session_inv zh' \<and>
      completions_to_process zh' = completions_to_process zh @ concat (map completed (zip ps cs)) \<and>
      syncs zh' = fold answered (zip ps cs) (syncs zh) \<and> sent_requests zh' = rest \<and> to_process zh' = [] \<and>
      to_send zh' = to_send zh \<and> zh_state zh' = zh_state zh \<and> sock zh' = sock zh \<and> calls zh' = calls zh"
proof (induction ps arbitrary: cs zh)
  case Nil
  then show ?case using after_reply_to_process [of zh, where q = "[]"] by simp
next
  case (Cons p ps)
  obtain b h where p: "p = (b, h)" by (cases p)
  obtain c cs' where cs: "cs = c # cs'" "answers (b, h) c" "list_all2 answers ps cs'"
    using Cons.prems(3) p by (auto simp: list_all2_Cons1)
  let ?zh = "zh\<lparr> to_process := map fst ps \<rparr>"
  have pre: "session_inv ?zh" "watch_space (Suc (length ps)) ?zh" "sent_requests ?zh = c # (cs' @ rest)"
    using Cons.prems(1,2,4) cs(1) after_reply_to_process [OF Cons.prems(1)] by simp_all
  obtain zh1 where z: "process_packet e b ?zh = Ret (None, zh1)" "after_reply (b, h) c ?zh zh1" "watch_space (length ps) zh1"
    using process_reply [OF assms pre cs(2)] .
  have "session_inv zh1" "sent_requests zh1 = cs' @ rest" using z(2) pre(3) by (simp_all add: after_reply_def)
  from Cons.IH [OF this(1) z(3) cs(3) this(2)] obtain zh' where
    i: "packet_loop e (map fst ps) zh1 = Ret (ZOK, zh')" "session_inv zh'"
      "completions_to_process zh' = completions_to_process zh1 @ concat (map completed (zip ps cs'))"
      "syncs zh' = fold answered (zip ps cs') (syncs zh1)" "sent_requests zh' = rest" "to_process zh' = []"
      "to_send zh' = to_send zh1" "zh_state zh' = zh_state zh1" "sock zh' = sock zh1" "calls zh' = calls zh1" by blast
  show ?case using i z by (auto simp: p cs(1) after_reply_def)
qed

section \<open>Events\<close>

lemma read_string_prefix:
  assumes "bs_buffer ia = Some blk" "bs_off ia = int k" "drop k blk = enc_string (Some s) @ rest" "is_cstr s"
    "k + 4 + length s \<le> length blk" "int (k + 4 + length s) \<le> bs_len ia" "bs_len ia < 2 ^ 31" "\<And>n. mem n"
  shows "ia_deserialize_string mem ia old = Ret (0, Some s, ia\<lparr> bs_off := int (k + 4 + length s) \<rparr>)"
proof -
  let ?w = "word_of_nat (length s) :: i32"
  have d: "drop k blk = enc_int ?w @ bytes_of_string s @ rest" using assms(3) by (simp add: enc_string_def)
  have 1: "ia_deserialize_int ia 0 = Ret (0, ?w, ia\<lparr> bs_off := int (k + 4) \<rparr>)"
    using assms(5,6) by (intro read_int_prefix [OF assms(1,2) d _ _ assms(7)]) simp_all
  have n: "sint ?w = int (length s)" using assms(6,7) by (simp add: sint_i32_of_nat)
  have "drop (k + 4) blk = drop 4 (drop k blk)" by (simp add: add.commute)
  then have "drop (k + 4) blk = bytes_of_string s @ rest" using d by simp
  moreover have "nat (int (k + 4)) = k + 4" by (rule nat_int)
  ultimately have "read_buff (ia\<lparr> bs_off := int (k + 4) \<rparr>) (length s) = Ret (bytes_of_string s)"
    using assms(1,5) by (auto simp: read_buff_def)
  then show ?thesis
    using 1 n assms(4,6,7,8) by (simp add: ia_deserialize_string_def in_int_def algebra_simps)
qed

lemma read_event_prefix:
  assumes "env_ok e" "WatcherEvent_path v = Some p" "is_cstr p" "int (16 + length (enc_WatcherEvent v)) \<le> len" "len < 2 ^ 31"
  shows "\<exists>ia. read_event e \<lparr> bs_len = len, bs_off = 16, bs_buffer = Some (enc_ReplyHeader h @ enc_WatcherEvent v @ rest) \<rparr> = Ret (v, ia)"
proof -
  let ?blk = "enc_ReplyHeader h @ enc_WatcherEvent v @ rest"
  let ?ia = "\<lambda>k. \<lparr> bs_len = len, bs_off = k, bs_buffer = Some ?blk \<rparr>"
  have ev: "enc_WatcherEvent v = enc_int (WatcherEvent_type v) @ enc_int (WatcherEvent_state v) @ enc_string (Some p)"
    using assms(2) by (simp add: enc_WatcherEvent_def)
  have l: "length (enc_string (Some p)) = 4 + length p" by (simp add: enc_string_def)
  have 1: "ia_deserialize_int (?ia 16) old = Ret (0, WatcherEvent_type v, ?ia 20)" for old
    by (subst read_int_prefix [of _ ?blk 16, where rest = "enc_int (WatcherEvent_state v) @ enc_string (Some p) @ rest"])
      (use assms(4,5) in \<open>simp_all add: ev\<close>)
  have 2: "ia_deserialize_int (?ia 20) old = Ret (0, WatcherEvent_state v, ?ia 24)" for old
    by (subst read_int_prefix [of _ ?blk 20, where rest = "enc_string (Some p) @ rest"]) (use assms(4,5) in \<open>simp_all add: ev\<close>)
  have 3: "ia_deserialize_string (en_mem e) (?ia 24) old = Ret (0, Some p, ?ia (int (24 + 4 + length p)))" for old
    by (subst read_string_prefix [of _ ?blk 24 p rest]) (use assms l in \<open>simp_all add: ev\<close>)
  have "v = \<lparr> WatcherEvent_type = WatcherEvent_type v, WatcherEvent_state = WatcherEvent_state v, WatcherEvent_path = Some p \<rparr>"
    using assms(2) by simp
  then show ?thesis
    by (simp add: read_event_def read_reply_def deserialize_WatcherEvent_def ia_start_record_def ia_end_record_def
        then_des_def field_def 1 2 3)
qed

lemma add_events_rewatched: "rewatched zh (fst (add_events ts path (zh, l)))"
proof (induction ts arbitrary: zh l)
  case (Cons t ts)
  obtain z1 l1 where a: "add_table_event t path (zh, l) = (z1, l1)" by fastforce
  then have "rewatched zh z1" using rewatched_set by (auto simp: add_table_event_def split: prod.splits)
  then show ?case using Cons.IH [of z1 l1] a rewatched_trans by (simp add: add_events_def)
qed (simp add: add_events_def)

lemma collect_for_event:
  assumes "watch_ok zh" "obj_ok m" "type \<noteq> ZOO_SESSION_EVENT"
  obtains l zh' where "collectWatchers m zh type path = Some (Ret (l, zh'))" "watch_ok zh'" "distinct l"
    "set l = (\<Union>t \<in> event_tables type. registered zh t path)"
    "\<forall>t p. registered zh' t p = (if t \<in> event_tables type \<and> p = path then {} else registered zh t p)"
    "rewatched zh zh'"
proof -
  obtain l zh' where c: "collectWatchers m zh type path = Some (Ret (l, zh'))" "watch_ok zh'" "distinct l"
    "set l = (\<Union>t \<in> event_tables type. registered zh t path)"
    "\<forall>t p. registered zh' t p = (if t \<in> event_tables type \<and> p = path then {} else registered zh t p)"
    using collectWatchers_takes [OF assms, of path] by (elim exE conjE) (rule that)
  obtain ts where "collectWatchers m zh type path = (case add_events ts path (zh, []) of (zh', l) \<Rightarrow> Some (Ret (l, zh')))"
    using collectWatchers_event [OF assms(2,3)] by blast
  then have "rewatched zh zh'" using add_events_rewatched [of zh ts path "[]"] c(1) by (simp split: prod.splits)
  with c show thesis by (rule that)
qed

text \<open>A packet of the server that announces an event for a path.\<close>

definition event_packet :: "buffer_list \<Rightarrow> WatcherEvent \<Rightarrow> string \<Rightarrow> bool" where
  "event_packet b v p \<longleftrightarrow> (\<exists>h. ReplyHeader_xid h = -1 \<and> WatcherEvent_path v = Some p \<and> is_cstr p \<and>
     bl_buffer b = Some (enc_ReplyHeader h @ enc_WatcherEvent v) \<and>
     bl_off b = int (16 + length (enc_WatcherEvent v)) + 4 \<and> bl_off b < 2 ^ 31)"

text \<open>The entry that will deliver the event to the watchers of \<^verbatim>\<open>ws\<close>, each once.\<close>

definition event_entry :: "buffer_list \<Rightarrow> watcher_object set \<Rightarrow> completion_list \<Rightarrow> bool" where
  "event_entry b ws c \<longleftrightarrow> c_type c = COMPLETION_WATCH \<and> c_dc c = NULL \<and> c_buffer c = Some b \<and>
     (\<exists>wl. c_watchers c = Some wl \<and> distinct wl \<and> set wl = ws)"

lemma process_event:
  assumes "env_ok e" "session_inv zh" "event_packet b v p" "sint (WatcherEvent_type v) \<noteq> ZOO_SESSION_EVENT"
  obtains zh' c where "process_packet e b zh = Ret (None, zh')" "session_inv zh'"
    "completions_to_process zh' = completions_to_process zh @ [c]"
    "event_entry b (\<Union>t \<in> event_tables (sint (WatcherEvent_type v)). registered zh t p) c"
    "\<forall>t q. registered zh' t q = (if t \<in> event_tables (sint (WatcherEvent_type v)) \<and> q = p then {} else registered zh t q)"
    "sent_requests zh' = sent_requests zh" "syncs zh' = syncs zh" "to_send zh' = to_send zh" "close_requested zh' = close_requested zh"
proof -
  obtain h where h: "ReplyHeader_xid h = -1" "WatcherEvent_path v = Some p" "is_cstr p"
      "bl_buffer b = Some (enc_ReplyHeader h @ enc_WatcherEvent v)"
      "bl_off b = int (16 + length (enc_WatcherEvent v)) + 4" "bl_off b < 2 ^ 31"
    using assms(3) by (auto simp: event_packet_def)
  have hd: "read_header e (new_iarchive e (bl_buffer b) (bl_off b)) =
      Ret (h, \<lparr> bs_len = bl_off b, bs_off = 16, bs_buffer = bl_buffer b \<rparr>)"
    using h read_header_prefix [OF assms(1), of "bl_off b" h "enc_WatcherEvent v"] by simp
  obtain ia where ev: "read_event e \<lparr> bs_len = bl_off b, bs_off = 16, bs_buffer = bl_buffer b \<rparr> = Ret (v, ia)"
    using read_event_prefix [OF assms(1) h(2,3), of "bl_off b" h "[]"] h(4-6) by auto
  have w: "watch_ok zh" using assms(2) by (simp add: session_inv_def)
  have ob: "obj_ok (en_alloc e)" using assms(1) by simp
  obtain wl z where c: "collectWatchers (en_alloc e) zh (sint (WatcherEvent_type v)) p = Some (Ret (wl, z))"
    "watch_ok z" "distinct wl" "set wl = (\<Union>t \<in> event_tables (sint (WatcherEvent_type v)). registered zh t p)"
    "\<forall>t q. registered z t q = (if t \<in> event_tables (sint (WatcherEvent_type v)) \<and> q = p then {} else registered zh t q)"
    "rewatched zh z" using collect_for_event [OF w ob assms(4), of p] .
  note f = rewatched_inv [OF c(6,2)]
  let ?c = "\<lparr> c_xid = -1, c_type = -1, c_dc = NULL, c_data = NULL, c_watcher = None, c_dereg = None, c_watchers = Some wl,
          c_buffer = Some b, c_clist = [] \<rparr>"
  let ?zh = "z\<lparr> completions_to_process := completions_to_process z @ [?c] \<rparr>"
  have "process_packet e b zh = Ret (None, ?zh)"
    using assms(1) by (simp add: process_packet_def hd h(1,2) watcher_event_def ev do_create_completion_entry_def c(1) ended_def)
  moreover have "session_inv ?zh"
    using assms(2) c(2) by (auto simp: session_inv_def f watch_ok_def SYNCHRONOUS_MARKER_def)
  moreover have "event_entry b (\<Union>t \<in> event_tables (sint (WatcherEvent_type v)). registered zh t p) ?c"
    using c(3,4) by (simp add: event_entry_def)
  ultimately show thesis using that [of ?zh ?c] c(5) by (simp add: f)
qed

end
