(* ===== verification/Zk_Delivery.thy ===== *)
theory Zk_Delivery
  imports Zk_Process
begin

text \<open>
  What the two threads of the client achieve together (\<^verbatim>\<open>zookeeper.c\<close>): how the failures that a lost
  connection leaves in the completion queue reach user code, in which order replies complete requests,
  what events and handshakes do to a session, and the packets that lead to undefined behaviour. It has
  no definitions of code of its own; the example handle serves the concrete runs.
\<close>

section \<open>User code is called back\<close>

text \<open>The call that tells the function of a request that it failed.\<close>

definition single_failure :: "int \<Rightarrow> 'a completion_entry_scheme \<Rightarrow> user_call list" where
  "single_failure rc c =
     (if c_type c = COMPLETION_DATA then [Data_call (c_dc c) rc None 0 None (c_data c)]
      else if c_type c = COMPLETION_STAT then [Stat_call (c_dc c) rc None (c_data c)]
      else if c_type c = COMPLETION_STRINGLIST then [Strings_call (c_dc c) rc None (c_data c)]
      else if c_type c = COMPLETION_STRINGLIST_STAT then [Strings_stat_call (c_dc c) rc None None (c_data c)]
      else if c_type c = COMPLETION_STRING then [String_call (c_dc c) rc None (c_data c)]
      else if c_type c = COMPLETION_STRING_STAT then [String_stat_call (c_dc c) rc None None (c_data c)]
      else if c_type c = COMPLETION_ACLLIST then [Acl_call (c_dc c) rc None None (c_data c)]
      else if c_type c = COMPLETION_VOID then [Void_call (c_dc c) rc (c_data c)] else [])"

definition user_failure :: "int \<Rightarrow> completion_list \<Rightarrow> user_call list" where
  "user_failure rc c =
     (if c_type c = COMPLETION_MULTI
      then concat (map (single_failure rc) (c_clist c)) @ [Void_call (c_dc c) rc (c_data c)]
      else single_failure rc c)"

text \<open>A request whose functions are not NULL.\<close>

definition callable :: "completion_list \<Rightarrow> bool" where
  "callable c \<longleftrightarrow> c_dc c \<noteq> NULL \<and> (\<forall>x \<in> set (c_clist c). c_dc x \<noteq> NULL)"

lemma single_response_failed:
  assumes "c_dc c \<noteq> NULL"
  shows "single_response e zh True rc c ia = Ret (single_failure rc c, ia)"
  unfolding single_response_def single_failure_def using assms
  by (simp add: data_response_def stat_response_def strings_response_def strings_stat_response_def string_response_def
      string_stat_response_def acl_response_def call_user_def)

lemma cleanup_failed_multi_calls:
  "\<forall>x \<in> set es. c_dc x \<noteq> NULL \<Longrightarrow> cleanup_failed_multi e zh rc es = Ret (concat (map (single_failure rc) es))"
  by (induction es) (simp_all add: single_response_failed)

lemma deserialize_response_failed:
  assumes "callable c"
  shows "deserialize_response e zh True rc c ia = Ret (user_failure rc c)"
  using assms by (simp add: deserialize_response_def user_failure_def callable_def cleanup_failed_multi_calls single_response_failed)

lemma user_failure_buffer [simp]: "user_failure rc (c\<lparr> c_buffer := b \<rparr>) = user_failure rc c" "callable (c\<lparr> c_buffer := b \<rparr>) = callable c"
  by (simp_all add: user_failure_def single_failure_def callable_def)

lemma carries_block:
  assumes "carries b (enc_ReplyHeader h @ body)"
  obtains rest where "bl_buffer b = Some (enc_ReplyHeader h @ body @ rest)" "sint (bl_len b) = int (16 + length body)"
    "16 + length body < 2 ^ 31"
proof -
  obtain blk where b: "bl_buffer b = Some blk" "take (16 + length body) blk = enc_ReplyHeader h @ body"
    "sint (bl_len b) = int (16 + length body)" "16 + length body < 2 ^ 31"
    using assms by (auto simp: carries_def sint_i32_of_nat [of "16 + length body", simplified])
  then have "blk = enc_ReplyHeader h @ body @ drop (16 + length body) blk" by (metis append_assoc append_take_drop_id)
  then show thesis using that b by metis
qed

lemma carried_header:
  assumes "env_ok e" "carries b (enc_ReplyHeader h @ body)"
  obtains rest where "read_header e (new_iarchive e (bl_buffer b) (sint (bl_len b))) =
    Ret (h, \<lparr> bs_len = int (16 + length body), bs_off = 16, bs_buffer = Some (enc_ReplyHeader h @ body @ rest) \<rparr>)"
    "16 + length body < 2 ^ 31"
proof -
  obtain rest where r: "bl_buffer b = Some (enc_ReplyHeader h @ body @ rest)" "sint (bl_len b) = int (16 + length body)"
    "16 + length body < 2 ^ 31" using carries_block [OF assms(2)] .
  have "read_header e (new_iarchive e (Some (enc_ReplyHeader h @ body @ rest)) (int (16 + length body))) =
    Ret (h, \<lparr> bs_len = int (16 + length body), bs_off = 16, bs_buffer = Some (enc_ReplyHeader h @ body @ rest) \<rparr>)"
    using r(3) by (intro read_header_prefix [OF assms(1)]) simp_all
  then show thesis using that r by simp
qed

definition i32_code :: "int \<Rightarrow> bool" where
  "i32_code rc \<longleftrightarrow> - (2 ^ 31) \<le> rc \<and> rc < 2 ^ 31 \<and> rc \<noteq> 0"

lemma i32_code_word:
  assumes "i32_code rc"
  shows "sint (word_of_int rc :: i32) = rc" "(word_of_int rc :: i32) \<noteq> 0"
proof -
  show s: "sint (word_of_int rc :: i32) = rc" using assms by (intro sint_i32_of_int) (simp_all add: i32_code_def)
  show "(word_of_int rc :: i32) \<noteq> 0" using s assms by (auto simp: i32_code_def)
qed

lemma failed_reply_called:
  assumes "env_ok e" "failed_reply rc c r" "callable c" "c_xid c \<noteq> -1" "i32_code rc"
  shows "process_completion e r zh = Ret (zh\<lparr> calls := calls zh @ user_failure rc c \<rparr>)"
proof -
  obtain b where b: "r = c\<lparr> c_buffer := Some b \<rparr>"
    "carries b (enc_ReplyHeader \<lparr> ReplyHeader_xid = c_xid c, ReplyHeader_zxid = -1, ReplyHeader_err = word_of_int rc \<rparr> @ [])"
    using assms(2) by (auto simp: failed_reply_def)
  obtain rest where "read_header e (new_iarchive e (bl_buffer b) (sint (bl_len b))) =
     Ret (\<lparr> ReplyHeader_xid = c_xid c, ReplyHeader_zxid = -1, ReplyHeader_err = word_of_int rc \<rparr>, rest)"
    using carried_header [OF assms(1) b(2)] by metis
  then show ?thesis
    using b(1) assms(3,4) i32_code_word [OF assms(5)] by (simp add: process_completion_def deserialize_response_failed)
qed

lemma failed_replies_called:
  assumes "env_ok e" "list_all2 (failed_reply rc) cs rs" "\<forall>c \<in> set cs. callable c \<and> c_xid c \<noteq> -1" "i32_code rc"
  shows "list_all2 (\<lambda>r us. \<forall>z. process_completion e r z = Ret (z\<lparr> calls := calls z @ us \<rparr>)) rs (map (user_failure rc) cs)"
  using assms(2,3)
proof (induction rule: list_all2_induct)
  case (Cons c cs r rs)
  then show ?case using failed_reply_called [OF assms(1) Cons.hyps(1) _ _ assms(4)] by simp
qed simp

text \<open>The calls that tell all watchers, each once, about a session state.\<close>

definition session_calls :: "session \<Rightarrow> int \<Rightarrow> user_call list \<Rightarrow> bool" where
  "session_calls zh state us \<longleftrightarrow> (\<exists>wl. distinct wl \<and>
     set wl = insert \<lparr> wo_watcher = zh_watcher zh, wo_context = zh_context zh \<rparr> (\<Union>t p. registered zh t p) \<and>
     us = map (\<lambda>w. Watcher_call \<lparr> call_fn = wo_watcher w, call_type = ZOO_SESSION_EVENT, call_state = state, call_path = [],
       call_context = wo_context w \<rparr>) wl)"

definition watchers_callable :: "session \<Rightarrow> bool" where
  "watchers_callable zh \<longleftrightarrow> zh_watcher zh \<noteq> NULL \<and> (\<forall>t p. \<forall>w \<in> registered zh t p. wo_watcher w \<noteq> NULL)"

lemma session_event_called:
  assumes "env_ok e" "session_event_entry zh0 state c" "watchers_callable zh0" "- (2 ^ 31) \<le> state" "state < 2 ^ 31"
  obtains us where "\<forall>zh. process_completion e c zh = Ret (zh\<lparr> calls := calls zh @ us \<rparr>)" "session_calls zh0 state us"
proof -
  let ?v = "\<lparr> WatcherEvent_type = -1, WatcherEvent_state = word_of_int state, WatcherEvent_path = Some [] \<rparr>"
  obtain b wl where c: "c_buffer c = Some b" "carries b (event_message state)" "c_watchers c = Some wl" "distinct wl"
     "set wl = insert \<lparr> wo_watcher = zh_watcher zh0, wo_context = zh_context zh0 \<rparr> (\<Union>t p. registered zh0 t p)"
    using assms(2) by (auto simp: session_event_entry_def)
  have l: "length (enc_WatcherEvent ?v) = 12" by (simp add: enc_WatcherEvent_def enc_string_def)
  obtain rest where h: "read_header e (new_iarchive e (bl_buffer b) (sint (bl_len b))) =
     Ret (\<lparr> ReplyHeader_xid = -1, ReplyHeader_zxid = 0, ReplyHeader_err = 0 \<rparr>,
       \<lparr> bs_len = int (16 + length (enc_WatcherEvent ?v)), bs_off = 16,
         bs_buffer = Some (enc_ReplyHeader \<lparr> ReplyHeader_xid = -1, ReplyHeader_zxid = 0, ReplyHeader_err = 0 \<rparr> @ enc_WatcherEvent ?v @ rest) \<rparr>)"
    using carried_header [OF assms(1) c(2) [unfolded event_message_def]] by metis
  obtain ia where ev: "read_event e \<lparr> bs_len = int (16 + length (enc_WatcherEvent ?v)), bs_off = 16,
         bs_buffer = Some (enc_ReplyHeader \<lparr> ReplyHeader_xid = -1, ReplyHeader_zxid = 0, ReplyHeader_err = 0 \<rparr> @ enc_WatcherEvent ?v @ rest) \<rparr> = Ret (?v, ia)"
    using read_event_prefix [OF assms(1), of ?v "[]"] l by fastforce
  have st: "sint (word_of_int state :: i32) = state" using assms(4,5) by (rule sint_i32_of_int)
  let ?us = "map (\<lambda>w. Watcher_call \<lparr> call_fn = wo_watcher w, call_type = ZOO_SESSION_EVENT, call_state = state, call_path = [],
       call_context = wo_context w \<rparr>) wl"
  have "\<forall>w \<in> set wl. wo_watcher w \<noteq> NULL" using c(5) assms(3) by (auto simp: watchers_callable_def)
  then have dl: "deliverWatchers zh (-1) state [] (Some wl) = Ret (map (\<lambda>w. \<lparr> call_fn = wo_watcher w, call_type = -1,
      call_state = state, call_path = [], call_context = wo_context w \<rparr>) wl)" for zh :: session
    by (simp add: deliverWatchers_def deliver_calls)
  have "process_completion e c zh = Ret (zh\<lparr> calls := calls zh @ ?us \<rparr>)" for zh
    unfolding process_completion_def c(1,3) option.case h bind_exec.simps prod.case
    by (simp add: ev st dl o_def del: of_nat_add)
  then have "\<forall>zh. process_completion e c zh = Ret (zh\<lparr> calls := calls zh @ ?us \<rparr>)" ..
  moreover have "session_calls zh0 state ?us" using c(4,5) by (auto simp: session_calls_def)
  ultimately show thesis by (rule that)
qed

lemma completion_loop_calls:
  "list_all2 (\<lambda>c us. \<forall>z. process_completion e c z = Ret (z\<lparr> calls := calls z @ us \<rparr>)) cs uss \<Longrightarrow>
   completion_loop e cs zh = Ret (zh\<lparr> completions_to_process := [], calls := calls zh @ concat uss \<rparr>)"
proof (induction cs uss arbitrary: zh rule: list_all2_induct)
  case (Cons c cs us uss)
  let ?z = "zh\<lparr> completions_to_process := cs, calls := calls zh @ us \<rparr>"
  have "completion_loop e (c # cs) zh = completion_loop e cs ?z" using Cons.hyps(1) by simp
  also have "\<dots> = Ret (?z\<lparr> completions_to_process := [], calls := calls ?z @ concat uss \<rparr>)" by (rule Cons.IH)
  finally show ?case by simp
qed simp

section \<open>An example\<close>

definition blank_sync :: sync_completion where
  "blank_sync = \<lparr> sc_rc = 0, sc_complete = False, sc_str = [], sc_str_len = 0, sc_stat = None, sc_buffer = None,
     sc_buff_len = 0, sc_strs = None, sc_acl = None \<rparr>"

definition example_env :: env where
  "example_env = \<lparr> en_alloc = all_memory, en_archive = True, en_mem = (\<lambda>_. True), en_now = zero_time, en_junk = 0 \<rparr>"

definition example_request :: "i32 \<Rightarrow> addr \<Rightarrow> addr \<Rightarrow> completion_list" where
  "example_request xid dc data = \<lparr> c_xid = xid, c_type = COMPLETION_VOID, c_dc = dc, c_data = data, c_watcher = None,
     c_dereg = None, c_watchers = None, c_buffer = None, c_clist = [] \<rparr>"

text \<open>A connected handle with an asynchronous and a synchronous request.\<close>

definition example_handle :: "zk_hashtable \<Rightarrow> session" where
  "example_handle ht = (new_handle 7 30000 None 0 0 ''h1,h2'' None ht ht ht)
     \<lparr> addrs := two_servers, zh_state := ZOO_CONNECTED_STATE, sock := 5,
       sent_requests := [example_request 5 9 90, example_request 6 SYNCHRONOUS_MARKER 100], outstanding_sync := 1,
       syncs := [100 \<mapsto> blank_sync] \<rparr>"

lemma example_env_ok [simp]: "env_ok example_env"
  by (simp add: env_ok_def example_env_def)

lemma example_tables:
  obtains ht :: zk_hashtable where "wt_ok ht" "watchers_of ht = (\<lambda>_. {})" "entries ht = []"
    "session_inv (example_handle ht)" "\<And>t. get_table (example_handle ht) t = ht"
proof -
  obtain zh :: watch_state and ht where "create_zk_hashtable all_memory = Ret (Some ht)"
    using example_watch_state by metis
  note c = create_zk_hashtable_ok [OF this]
  have "card {p. watchers_of ht p \<noteq> {}} = 0" using c(2) by simp
  then have e: "entries ht = []" using table_size(1) [OF c(1)] by simp
  have t: "get_table (example_handle ht) t = ht" for t
    by (cases t) (simp_all add: get_table_def example_handle_def new_handle_def)
  have "session_inv (example_handle ht)"
    using c(1) by (simp add: session_inv_def example_handle_def new_handle_def watch_ok_def av_ok_def two_servers_def
        has_caller_def example_request_def SYNCHRONOUS_MARKER_def)
  then show thesis using that c(1,2) e t by blast
qed

section \<open>Properties\<close>

theorem handle_error_completes_all_witness:
  "\<exists>zh zh'. handle_socket_error example_env zh ZCONNECTIONLOSS = Ret (ZCONNECTIONLOSS, zh') \<and>
     length (sent_requests zh) = 2 \<and> sent_requests zh' = [] \<and> syncs zh' 100 = Some (blank_sync\<lparr> sc_rc := -4, sc_complete := True \<rparr>)"
proof -
  obtain ht where "session_inv (example_handle ht)" using example_tables by metis
  from handle_error_completes_all [OF example_env_ok this, of ZCONNECTIONLOSS] obtain zh' where
    "handle_socket_error example_env (example_handle ht) ZCONNECTIONLOSS = Ret (ZCONNECTIONLOSS, zh')" "sent_requests zh' = []"
    "syncs zh' = failed_syncs ZCONNECTIONLOSS (sent_requests (example_handle ht)) (syncs (example_handle ht))" by blast
  then show ?thesis
    by (intro exI [of _ "example_handle ht"] exI [of _ zh'])
      (simp add: example_handle_def failed_syncs_def example_request_def SYNCHRONOUS_MARKER_def)
qed

lemma lost_connection_calls:
  assumes "env_ok e" "session_inv zh" "completions_to_process zh = []" "i32_code reason" "watchers_callable zh"
    and "\<forall>c \<in> set (sent_requests zh). is_async c \<longrightarrow> callable c \<and> c_xid c \<noteq> -1" "- (2 ^ 31) \<le> zh_state zh"
  shows "\<exists>zh' zh'' evs. handle_socket_error e zh reason = Ret (reason, zh') \<and> process_completions e zh' = Ret zh'' \<and>
    completions_to_process zh'' = [] \<and> calls zh'' = calls zh @ auth_calls reason (auth_h zh) @ evs @
      concat (map (user_failure reason) (filter is_async (sent_requests zh))) \<and>
    (if zh_state zh < 0 then session_calls zh (zh_state zh) evs
     else if zh_is_connected zh then session_calls zh ZOO_CONNECTING_STATE evs else evs = [])"
proof -
  obtain zh' evs replies where h: "handle_socket_error e zh reason = Ret (reason, zh')" "loss_events zh evs"
    "list_all2 (failed_reply reason) (filter is_async (sent_requests zh)) replies"
    "completions_to_process zh' = evs @ replies" "calls zh' = calls zh @ auth_calls reason (auth_h zh)"
    using handle_error_spec [OF assms(1,2), of reason] assms(3) by auto
  let ?done = "\<lambda>c us. \<forall>z. process_completion e c z = Ret (z\<lparr> calls := calls z @ us \<rparr>)"
  have "\<exists>uss. list_all2 ?done evs uss \<and> (if zh_state zh < 0 then session_calls zh (zh_state zh) (concat uss)
     else if zh_is_connected zh then session_calls zh ZOO_CONNECTING_STATE (concat uss) else concat uss = [])"
  proof (cases "zh_state zh < 0 \<or> zh_is_connected zh")
    case True
    let ?s = "if zh_state zh < 0 then zh_state zh else ZOO_CONNECTING_STATE"
    obtain c where c: "evs = [c]" "session_event_entry zh ?s c" using h(2) True by (auto simp: loss_events_def split: if_splits)
    have "- (2 ^ 31) \<le> ?s" "?s < 2 ^ 31" using assms(7) by auto
    from session_event_called [OF assms(1) c(2) assms(5) this] obtain us where "?done c us" "session_calls zh ?s us" .
    then show ?thesis using c(1) True by (intro exI [of _ "[us]"]) auto
  next
    case False
    then show ?thesis using h(2) by (intro exI [of _ "[]"]) (auto simp: loss_events_def)
  qed
  then obtain uss where u: "list_all2 ?done evs uss" "if zh_state zh < 0 then session_calls zh (zh_state zh) (concat uss)
     else if zh_is_connected zh then session_calls zh ZOO_CONNECTING_STATE (concat uss) else concat uss = []" by blast
  have "list_all2 ?done replies (map (user_failure reason) (filter is_async (sent_requests zh)))"
    by (rule failed_replies_called [OF assms(1) h(3) _ assms(4)]) (use assms(6) in simp)
  from completion_loop_calls [OF list_all2_appendI [OF u(1) this], of zh']
  have "process_completions e zh' = Ret (zh'\<lparr> completions_to_process := [], calls := calls zh' @ concat uss @
      concat (map (user_failure reason) (filter is_async (sent_requests zh))) \<rparr>)"
    by (simp add: process_completions_def h(4))
  then show ?thesis using h(1,5) u(2)
    by (intro exI [of _ zh'] exI [of _ "zh'\<lparr> completions_to_process := [], calls := calls zh' @ concat uss @
      concat (map (user_failure reason) (filter is_async (sent_requests zh))) \<rparr>"] exI [of _ "concat uss"]) simp
qed

text \<open>
  Property C9: when a connection is lost and the completion thread has run, the functions of all asynchronous
  requests have been called with the reason, each exactly once and in the order of the requests, those of
  a multi request before its own; before them every watcher has been told the new state of the session,
  once, unless the client was not connected; and before that the functions of waiting authentications.
\<close>

theorem lost_connection_reaches_user:
  assumes "env_ok e" "session_inv zh" "completions_to_process zh = []" "i32_code reason" "watchers_callable zh"
    and "\<forall>c \<in> set (sent_requests zh). is_async c \<longrightarrow> callable c \<and> c_xid c \<noteq> -1" "- (2 ^ 31) \<le> zh_state zh"
  shows "\<exists>zh' zh'' evs. handle_socket_error e zh reason = Ret (reason, zh') \<and> process_completions e zh' = Ret zh'' \<and>
    completions_to_process zh'' = [] \<and> calls zh'' = calls zh @ auth_calls reason (auth_h zh) @ evs @
      concat (map (user_failure reason) (filter is_async (sent_requests zh))) \<and>
    (if zh_state zh < 0 then session_calls zh (zh_state zh) evs
     else if zh_is_connected zh then session_calls zh ZOO_CONNECTING_STATE evs else evs = [])"
  by (rule lost_connection_calls [OF assms])

theorem lost_connection_reaches_user_witness:
  "\<exists>zh zh' zh''. handle_socket_error example_env zh ZCONNECTIONLOSS = Ret (ZCONNECTIONLOSS, zh') \<and>
     process_completions example_env zh' = Ret zh'' \<and> Void_call 9 ZCONNECTIONLOSS 90 \<in> set (calls zh'')"
proof -
  obtain ht where ht: "watchers_of ht = (\<lambda>_. {})" "session_inv (example_handle ht)" "\<And>t. get_table (example_handle ht) t = ht"
    using example_tables by metis
  let ?zh = "example_handle ht"
  have z: "completions_to_process ?zh = []" "i32_code ZCONNECTIONLOSS" "watchers_callable ?zh"
    "\<forall>c \<in> set (sent_requests ?zh). is_async c \<longrightarrow> callable c \<and> c_xid c \<noteq> -1" "- (2 ^ 31) \<le> zh_state ?zh"
    unfolding watchers_callable_def ht(3) ht(1)
    by (auto simp: example_handle_def new_handle_def i32_code_def callable_def example_request_def)
  have f: "filter is_async (sent_requests ?zh) = [example_request 5 9 90]"
    by (simp add: example_handle_def example_request_def SYNCHRONOUS_MARKER_def)
  have u: "user_failure ZCONNECTIONLOSS (example_request 5 9 90) = [Void_call 9 ZCONNECTIONLOSS 90]"
    by (simp add: user_failure_def single_failure_def example_request_def)
  from lost_connection_reaches_user [OF example_env_ok ht(2) z] obtain zh' zh'' evs where
    r: "handle_socket_error example_env ?zh ZCONNECTIONLOSS = Ret (ZCONNECTIONLOSS, zh')" "process_completions example_env zh' = Ret zh''"
    "calls zh'' = calls ?zh @ auth_calls ZCONNECTIONLOSS (auth_h ?zh) @ evs @ concat (map (user_failure ZCONNECTIONLOSS) [example_request 5 9 90])"
    unfolding f by blast
  then have "Void_call 9 ZCONNECTIONLOSS 90 \<in> set (calls zh'')" using u by simp
  with r(1,2) show ?thesis by blast
qed


definition header :: "i32 \<Rightarrow> i32 \<Rightarrow> ReplyHeader" where
  "header xid err = \<lparr> ReplyHeader_xid = xid, ReplyHeader_zxid = 77, ReplyHeader_err = err \<rparr>"

definition header_packet :: "ReplyHeader \<Rightarrow> buffer_list" where
  "header_packet h = \<lparr> bl_buffer = Some (enc_ReplyHeader h), bl_len = 16, bl_off = 20 \<rparr>"

lemma header_packet_reply [simp]: "reply_packet (header_packet h) h"
  by (auto simp: reply_packet_def header_packet_def intro: exI [of _ "[]"])

lemma session_inv_to_process [simp]: "session_inv (zh\<lparr> to_process := q \<rparr>) = session_inv zh"
  by (simp add: session_inv_def watch_ok_def)


text \<open>
  Property C20: a reply that does not answer the oldest outstanding request ends the connection: the call returns
  \<^verbatim>\<open>ZRUNTIMEINCONSISTENCY\<close>, and every outstanding request, the oldest included, fails with that code.
\<close>

theorem unexpected_reply_fails_all:
  assumes "env_ok e" "session_inv zh" "sent_requests zh = c # rest" "reply_packet b h"
    and "ReplyHeader_xid h \<noteq> c_xid c" "ReplyHeader_xid h \<notin> out_of_band"
  shows "\<exists>zh' evs replies. process_packet e b zh = Ret (Some ZRUNTIMEINCONSISTENCY, zh') \<and> loss_events zh evs \<and>
    list_all2 (failed_reply ZRUNTIMEINCONSISTENCY) (filter is_async (c # rest)) replies \<and>
    completions_to_process zh' = completions_to_process zh @ evs @ replies \<and>
    syncs zh' = failed_syncs ZRUNTIMEINCONSISTENCY (c # rest) (syncs zh) \<and>
    sent_requests zh' = [] \<and> to_process zh' = [] \<and> sock zh' = -1"
proof -
  obtain ia where ia: "read_header e (new_iarchive e (bl_buffer b) (bl_off b)) = Ret (h, ia)"
    using reply_header [OF assms(1,4)] ..
  have "process_packet e b zh = bind_exec (handle_socket_error e zh ZRUNTIMEINCONSISTENCY) (\<lambda>(rc, zh1). Ret (Some rc, zh1))"
    using assms(3,5,6) by (simp add: process_packet_def ia out_of_band_def)
  moreover obtain zh' evs replies where "handle_socket_error e zh ZRUNTIMEINCONSISTENCY = Ret (ZRUNTIMEINCONSISTENCY, zh')"
    "loss_events zh evs" "list_all2 (failed_reply ZRUNTIMEINCONSISTENCY) (filter is_async (sent_requests zh)) replies"
    "completions_to_process zh' = completions_to_process zh @ evs @ replies"
    "syncs zh' = failed_syncs ZRUNTIMEINCONSISTENCY (sent_requests zh) (syncs zh)" "sent_requests zh' = []" "to_process zh' = []" "sock zh' = -1"
    using handle_error_spec [OF assms(1,2), of ZRUNTIMEINCONSISTENCY] by blast
  ultimately show ?thesis unfolding assms(3) by (intro exI [of _ zh'] exI [of _ evs] exI [of _ replies]) simp
qed

theorem unexpected_reply_fails_all_witness:
  "\<exists>zh zh'. process_packet example_env (header_packet (header 6 0)) zh = Ret (Some ZRUNTIMEINCONSISTENCY, zh') \<and>
     sent_requests zh \<noteq> [] \<and> sent_requests zh' = []"
proof -
  obtain ht where ht: "session_inv (example_handle ht)" using example_tables by metis
  have s: "sent_requests (example_handle ht) = example_request 5 9 90 # [example_request 6 SYNCHRONOUS_MARKER 100]"
    by (simp add: example_handle_def)
  have x: "ReplyHeader_xid (header 6 0) \<noteq> c_xid (example_request 5 9 90)" "ReplyHeader_xid (header 6 0) \<notin> out_of_band"
    by (simp_all add: header_def example_request_def out_of_band_def)
  obtain zh' where "process_packet example_env (header_packet (header 6 0)) (example_handle ht) = Ret (Some ZRUNTIMEINCONSISTENCY, zh')"
    "sent_requests zh' = []" using unexpected_reply_fails_all [OF example_env_ok ht s header_packet_reply x] by blast
  moreover have "sent_requests (example_handle ht) \<noteq> []" using s by simp
  ultimately show ?thesis by blast
qed

text \<open>
  A packet that is shorter than a header is not rejected: its archive claims four bytes more than its block
  has, the codes of the header are not looked at, and whatever its length the behaviour is undefined, by
  reading behind the block or by using a field that was never set. A server, or whoever answers in its
  place, can do that at any time.
\<close>

theorem short_packet_undefined:
  assumes "env_ok e" "bl_buffer b = Some blk" "length blk < 16" "bl_off b = int (length blk) + 4"
  shows "process_packet e b zh = UB"
  using short_header_undefined [OF assms(1,3,4)] assms(2) by (simp add: process_packet_def)

theorem short_packet_undefined_witness:
  "\<forall>zh. process_packet example_env \<lparr> bl_buffer = Some (replicate 12 0), bl_len = 12, bl_off = 16 \<rparr> zh = UB"
  by (intro allI short_packet_undefined [OF example_env_ok, where blk = "replicate 12 0"]) simp_all

text \<open>
  An answer to an authentication that was never sent crashes the client: the code that logs it reads the
  scheme of the first authentication through a NULL pointer.
\<close>

theorem unsolicited_auth_undefined:
  assumes "env_ok e" "reply_packet b h" "ReplyHeader_xid h = word_of_int AUTH_XID" "auth_h zh = []"
  shows "process_packet e b zh = UB"
proof -
  obtain ia where "read_header e (new_iarchive e (bl_buffer b) (bl_off b)) = Ret (h, ia)"
    using reply_header [OF assms(1,2)] ..
  then show ?thesis using assms(3,4)
    by (simp add: process_packet_def auth_completion_func_def mark_active_auth_def)
qed

theorem unsolicited_auth_undefined_witness:
  "\<forall>ht. process_packet example_env (header_packet (header (-4) 0)) (example_handle ht) = UB"
  by (intro allI unsolicited_auth_undefined [OF example_env_ok header_packet_reply]) (simp_all add: header_def example_handle_def new_handle_def)

text \<open>
  A synchronous multi request whose reply is a header alone, which is how a server reports that the
  request as a whole failed, is decoded all the same: unlike for an asynchronous one the code is not
  tested, and the result headers are read behind the packet.
\<close>

theorem failed_sync_multi_undefined:
  assumes "env_ok e" "sent_requests zh = c # rest" "is_sync c" "c_type c = COMPLETION_MULTI" "c_watcher c = None" "c_dereg c = None"
    and "ReplyHeader_xid h = c_xid c" "c_xid c \<notin> out_of_band"
  shows "process_packet e (header_packet h) zh = UB"
proof -
  have hd: "read_header e (new_iarchive e (Some (enc_ReplyHeader h)) 20) = Ret (h, \<lparr> bs_len = 20, bs_off = 16, bs_buffer = Some (enc_ReplyHeader h) \<rparr>)"
    using read_header_prefix [OF assms(1), of 20 h "[]"] by simp
  have "deserialize_MultiHeader (en_mem e) \<lparr> bs_len = 20, bs_off = 16, bs_buffer = Some (enc_ReplyHeader h) \<rparr> v = UB" for v
    by (simp add: deserialize_MultiHeader_def ia_start_record_def then_des_def field_def ia_deserialize_int_def read_buff_def size_lt_def)
  then have "process_sync_completion e z c sc \<lparr> bs_len = 20, bs_off = 16, bs_buffer = Some (enc_ReplyHeader h) \<rparr> = UB" for z sc
    using assms(4) by (simp add: process_sync_completion_def deserialize_multi_def Let_def)
  then have "complete_request e (header_packet h) h \<lparr> bs_len = 20, bs_off = 16, bs_buffer = Some (enc_ReplyHeader h) \<rparr> c z = UB" for z
    using assms(3,5,6) by (simp add: complete_request_def activateWatcher_def deactivateWatcher_def Let_def split: option.split)
  then show ?thesis using assms(2,7,8) by (simp add: process_packet_def header_packet_def hd out_of_band_def)
qed

theorem failed_sync_multi_undefined_witness:
  "\<forall>ht. process_packet example_env (header_packet (header 6 (-118)))
     ((example_handle ht)\<lparr> sent_requests := [(example_request 6 SYNCHRONOUS_MARKER 100)\<lparr> c_type := COMPLETION_MULTI \<rparr>] \<rparr>) = UB"
proof
  fix ht
  let ?c = "(example_request 6 SYNCHRONOUS_MARKER 100)\<lparr> c_type := COMPLETION_MULTI \<rparr>"
  have "sent_requests ((example_handle ht)\<lparr> sent_requests := [?c] \<rparr>) = ?c # []" by simp
  then show "process_packet example_env (header_packet (header 6 (-118))) ((example_handle ht)\<lparr> sent_requests := [?c] \<rparr>) = UB"
    by (rule failed_sync_multi_undefined [OF example_env_ok]) (simp_all add: example_request_def header_def out_of_band_def)
qed

text \<open>
  Property C13: an event of the server for a path takes the watchers that its type concerns out of the tables, all of
  them and no others, and queues them with the packet for the completion thread; requests and
  callers are not touched.
\<close>

theorem event_takes_watchers:
  assumes "env_ok e" "session_inv zh" "event_packet b v p" "sint (WatcherEvent_type v) \<noteq> ZOO_SESSION_EVENT"
  shows "\<exists>zh' c. process_packet e b zh = Ret (None, zh') \<and> session_inv zh' \<and>
    completions_to_process zh' = completions_to_process zh @ [c] \<and>
    event_entry b (\<Union>t \<in> event_tables (sint (WatcherEvent_type v)). registered zh t p) c \<and>
    (\<forall>t q. registered zh' t q = (if t \<in> event_tables (sint (WatcherEvent_type v)) \<and> q = p then {} else registered zh t q)) \<and>
    sent_requests zh' = sent_requests zh \<and> syncs zh' = syncs zh"
proof -
  obtain zh' c where "process_packet e b zh = Ret (None, zh')" "session_inv zh'"
    "completions_to_process zh' = completions_to_process zh @ [c]"
    "event_entry b (\<Union>t \<in> event_tables (sint (WatcherEvent_type v)). registered zh t p) c"
    "\<forall>t q. registered zh' t q = (if t \<in> event_tables (sint (WatcherEvent_type v)) \<and> q = p then {} else registered zh t q)"
    "sent_requests zh' = sent_requests zh" "syncs zh' = syncs zh" "to_send zh' = to_send zh" "close_requested zh' = close_requested zh"
    using process_event [OF assms] .
  then show ?thesis by (intro exI [of _ zh'] exI [of _ c] conjI)
qed

theorem event_takes_watchers_witness:
  "\<exists>zh zh' b. process_packet example_env b zh = Ret (None, zh') \<and> length (completions_to_process zh') = 1"
proof -
  let ?v = "\<lparr> WatcherEvent_type = 3, WatcherEvent_state = 3, WatcherEvent_path = Some ''/a'' \<rparr>"
  let ?h = "\<lparr> ReplyHeader_xid = -1, ReplyHeader_zxid = 0, ReplyHeader_err = 0 \<rparr>"
  let ?b = "\<lparr> bl_buffer = Some (enc_ReplyHeader ?h @ enc_WatcherEvent ?v), bl_len = 30, bl_off = 34 \<rparr>"
  obtain ht where ht: "session_inv (example_handle ht)" using example_tables by metis
  have b: "event_packet ?b ?v ''/a''" unfolding event_packet_def
    by (rule exI [of _ ?h]) (simp add: enc_WatcherEvent_def enc_string_def is_cstr_def NUL_def)
  have ne: "sint (WatcherEvent_type ?v) \<noteq> ZOO_SESSION_EVENT" by simp
  obtain zh' c where r: "process_packet example_env ?b (example_handle ht) = Ret (None, zh')"
    "completions_to_process zh' = completions_to_process (example_handle ht) @ [c]"
    using event_takes_watchers [OF example_env_ok ht b ne] by blast
  have "completions_to_process (example_handle ht) = []" by (simp add: example_handle_def new_handle_def)
  then have "length (completions_to_process zh') = 1" using r(2) by simp
  with r(1) show ?thesis by blast
qed

text \<open>
  A handshake in which the server answers with another session: the handle is expired for good, every
  watcher is told, and all requests fail with \<^verbatim>\<open>ZSESSIONEXPIRED\<close>.
\<close>

theorem handshake_expired:
  assumes "env_ok e" "session_inv zh" "bl_buffer (primer_buf zh) = Some (prime_answer ps)" "length (ps_passwd ps) = 16"
    and "known_session zh \<noteq> 0" "known_session zh \<noteq> ps_sessionId ps"
  shows "\<exists>zh' c replies. finish_handshake e zh = Ret (ZSESSIONEXPIRED, zh') \<and> zh_state zh' = ZOO_EXPIRED_SESSION_STATE \<and>
    sock zh' = -1 \<and> sent_requests zh' = [] \<and> completions_to_process zh' = completions_to_process zh @ c # replies \<and>
    session_event_entry zh ZOO_EXPIRED_SESSION_STATE c \<and>
    list_all2 (failed_reply ZSESSIONEXPIRED) (filter is_async (sent_requests zh)) replies \<and>
    syncs zh' = failed_syncs ZSESSIONEXPIRED (sent_requests zh) (syncs zh)"
proof -
  let ?z = "zh\<lparr> primer_storage := ps, seen_rw_server_before := seen_rw_server_before zh OR (if ps_readOnly ps = 0 then 1 else 0),
     zh_state := ZOO_EXPIRED_SESSION_STATE \<rparr>"
  have t: "get_table ?z t = get_table zh t" for t by (cases t) (simp_all add: get_table_def)
  have i: "session_inv ?z" using assms(2) by (simp add: session_inv_def watch_ok_def)
  have "finish_handshake e zh = handle_socket_error e ?z ZSESSIONEXPIRED"
    using assms(5,6) unfolding known_session_def
    by (simp add: finish_handshake_def assms(3) deserialize_prime_answer [OF assms(4)])
  moreover obtain zh' evs replies where h: "handle_socket_error e ?z ZSESSIONEXPIRED = Ret (ZSESSIONEXPIRED, zh')" "loss_events ?z evs"
    "list_all2 (failed_reply ZSESSIONEXPIRED) (filter is_async (sent_requests ?z)) replies"
    "completions_to_process zh' = completions_to_process ?z @ evs @ replies"
    "syncs zh' = failed_syncs ZSESSIONEXPIRED (sent_requests ?z) (syncs ?z)" "sent_requests zh' = []" "sock zh' = -1"
    "zh_state zh' = (if zh_state ?z < 0 then zh_state ?z else 0)"
    using handle_error_spec [OF assms(1) i, of ZSESSIONEXPIRED] by blast
  moreover obtain c where "evs = [c]" "session_event_entry zh ZOO_EXPIRED_SESSION_STATE c"
    using h(2) unfolding loss_events_def session_event_entry_def t by auto
  ultimately show ?thesis by (intro exI [of _ zh'] exI [of _ c] exI [of _ replies]) simp
qed

definition example_answer :: "i64 \<Rightarrow> prime_struct" where
  "example_answer sid = \<lparr> ps_len = 37, ps_protocolVersion = 0, ps_timeOut = 20000, ps_sessionId = sid, ps_passwd_len = 16,
     ps_passwd = replicate 16 7, ps_readOnly = 0 \<rparr>"

text \<open>A handle that knows session 11 and has got the answer \<^verbatim>\<open>example_answer sid\<close>.\<close>

definition associating_handle :: "i64 \<Rightarrow> zk_hashtable \<Rightarrow> session" where
  "associating_handle sid ht = (example_handle ht)\<lparr> client_id := 11, seen_rw_server_before := 1, zh_state := ZOO_ASSOCIATING_STATE,
     primer_buf := \<lparr> bl_buffer = Some (prime_answer (example_answer sid)), bl_len = 41, bl_off = 45 \<rparr> \<rparr>"

lemma associating_handle_facts:
  "session_inv (associating_handle sid ht) = session_inv (example_handle ht)" "get_table (associating_handle sid ht) t = get_table (example_handle ht) t"
  "bl_buffer (primer_buf (associating_handle sid ht)) = Some (prime_answer (example_answer sid))" "known_session (associating_handle sid ht) = 11"
  "auth_h (associating_handle sid ht) = []" "last_zxid (associating_handle sid ht) = 0"
  by (cases t; simp add: associating_handle_def session_inv_def watch_ok_def get_table_def known_session_def example_handle_def new_handle_def)+

theorem handshake_expired_witness:
  "\<exists>zh zh'. finish_handshake example_env zh = Ret (ZSESSIONEXPIRED, zh') \<and> zh_state zh' = ZOO_EXPIRED_SESSION_STATE \<and>
     length (completions_to_process zh') = 2"
proof -
  obtain ht where ht: "session_inv (example_handle ht)" using example_tables by metis
  let ?zh = "associating_handle 12 ht"
  have i: "session_inv ?zh" using ht by (simp add: associating_handle_facts)
  have s: "length (ps_passwd (example_answer 12)) = 16" "known_session ?zh \<noteq> 0" "known_session ?zh \<noteq> ps_sessionId (example_answer 12)"
    unfolding associating_handle_facts by (simp_all add: example_answer_def)
  obtain zh' c replies where r: "finish_handshake example_env ?zh = Ret (ZSESSIONEXPIRED, zh')" "zh_state zh' = ZOO_EXPIRED_SESSION_STATE"
    "completions_to_process zh' = completions_to_process ?zh @ c # replies"
    "list_all2 (failed_reply ZSESSIONEXPIRED) (filter is_async (sent_requests ?zh)) replies"
    using handshake_expired [OF example_env_ok i associating_handle_facts(3) s] by blast
  have "completions_to_process ?zh = []" "length (filter is_async (sent_requests ?zh)) = 1"
    by (simp_all add: associating_handle_def example_handle_def new_handle_def example_request_def SYNCHRONOUS_MARKER_def)
  then have "length (completions_to_process zh') = 2" using r(3) list_all2_lengthD [OF r(4)] by simp
  with r(1,2) show ?thesis by blast
qed

theorem handshake_granted_witness:
  "\<exists>zh zh'. finish_handshake example_env zh = Ret (ZOK, zh') \<and> zh_state zh' = ZOO_CONNECTED_STATE \<and> recv_timeout zh' = 20000"
proof -
  obtain ht where ht: "session_inv (example_handle ht)" "entries ht = []" "\<And>t. get_table (example_handle ht) t = ht"
    using example_tables by metis
  let ?zh = "associating_handle 11 ht"
  have t: "get_table ?zh t = ht" for t by (simp add: associating_handle_facts ht(3))
  have k: "table_keys ?zh t = []" for t unfolding table_keys_def t ht(2) by simp
  have i: "session_inv ?zh" using ht(1) by (simp add: associating_handle_facts)
  have w: "watches_fit ?zh"
    unfolding watches_fit_def watch_message_def k t ht(2) by (simp add: enc_RequestHeader_def enc_keys_def)
  have s: "\<forall>a \<in> set (auth_h ?zh). auth_ok a" "length (ps_passwd (example_answer 11)) = 16"
    "known_session ?zh = 0 \<or> known_session ?zh = ps_sessionId (example_answer 11)"
    unfolding associating_handle_facts by (simp_all add: example_answer_def)
  show ?thesis
    using handshake_granted [OF example_env_ok i w s(1) associating_handle_facts(3) s(2,3)]
    by (fastforce simp: granted_def example_answer_def)
qed

theorem flush_conserves_stream_witness:
  "\<forall>ht. let zh = (example_handle ht)\<lparr> to_send := [\<lparr> bl_buffer = Some [1, 2, 3], bl_len = 3, bl_off = 0 \<rparr>],
         net_out := ([Sent 4, Sent 1, Send_again], []) \<rparr>; zh' = snd (flush_send_queue example_env zh)
     in snd (net_out zh') @ concat (map unsent (to_send zh')) = [0, 0, 0, 3, 1, 2, 3]"
proof
  fix ht
  let ?b = "\<lparr> bl_buffer = Some [1, 2, 3], bl_len = 3, bl_off = 0 \<rparr> :: buffer_list"
  let ?zh = "(example_handle ht)\<lparr> to_send := [?b], net_out := ([Sent 4, Sent 1, Send_again], []) \<rparr>"
  have c: "carries ?b [1, 2, 3]" by (simp add: carries_def)
  then have f: "fresh_packet [1, 2, 3] ?b" by (simp add: fresh_packet_def)
  have p: "packet [1, 2, 3] = [0, 0, 0, 3, 1, 2, 3]"
  proof -
    have "int_bytes (Suc (Suc (Suc (Suc 0)))) 3 = [3, 0, 0, 0]" by simp
    then have "int_bytes 4 3 = [3, 0, 0, 0]" by (simp add: numeral_eq_Suc)
    then show ?thesis by (simp add: packet_def enc_int_def bytes32_def)
  qed
  have "\<forall>b \<in> set (to_send ?zh). buffer_ok b" using fresh_packet_ok(1) [OF f] by simp
  moreover have "flush_send_queue example_env ?zh = (fst (flush_send_queue example_env ?zh), snd (flush_send_queue example_env ?zh))" by simp
  ultimately have "snd (net_out (snd (flush_send_queue example_env ?zh))) @ concat (map unsent (to_send (snd (flush_send_queue example_env ?zh)))) =
     snd (net_out ?zh) @ concat (map unsent (to_send ?zh))"
    using flush_conserves_stream by blast
  then show "let zh = ?zh; zh' = snd (flush_send_queue example_env zh)
     in snd (net_out zh') @ concat (map unsent (to_send zh')) = [0, 0, 0, 3, 1, 2, 3]"
    using fresh_packet_ok(2) [OF f] p by (simp add: Let_def)
qed

end
