(* ===== verification/Zk_Api.thy ===== *)
theory Zk_Api
  imports Zk_Delivery
begin

text \<open>
  The asynchronous requests (\<^verbatim>\<open>zookeeper.c\<close>, \<^verbatim>\<open>zoo_a*\<close>): each checks its path, serialises a header and its
  record into a new archive, queues the function to call with the answer and, behind it, the packet.
  The number that \<^verbatim>\<open>get_xid\<close> has handed out is an argument. Multi requests and the removal of watches
  follow the same scheme with the differences of the source.

  The lemmas show that a request which returns \<^verbatim>\<open>ZOK\<close> has queued exactly one function and one packet,
  which is the encoding of the request, and what is returned when it is refused.
\<close>

section \<open>Numbers of requests\<close>

text \<open>The static counter and the time; the number that is handed out and the new counter.\<close>

definition get_xid :: "i32 \<Rightarrow> i32 \<Rightarrow> i32 \<times> i32" where
  "get_xid now xid = (let x = (if xid = -1 then now else xid) in (x, x + 1))"

section \<open>Queueing a request\<close>

definition ZOO_CONFIG_NODE :: string where
  "ZOO_CONFIG_NODE = ''/zookeeper/config''"

text \<open>
  The I/O thread is woken, which can only fail with its pipe; a handle that is being closed sends the
  queue itself. All requests ignore the result.
\<close>

definition adaptor_send_queue :: "env \<Rightarrow> int \<Rightarrow> session \<Rightarrow> int \<times> session" where
  "adaptor_send_queue e wakeup_rc zh =
     (if \<not> close_requested zh then (wakeup_rc, zh) else flush_send_queue e zh)"

definition add_plain_completion :: "env \<Rightarrow> int \<Rightarrow> i32 \<Rightarrow> addr \<Rightarrow> addr \<Rightarrow> session \<Rightarrow> (int \<times> session) exec" where
  "add_plain_completion e ty xid dc data zh = add_completion e zh xid ty dc data False None None"

definition add_watch_completion ::
  "env \<Rightarrow> int \<Rightarrow> i32 \<Rightarrow> addr \<Rightarrow> addr \<Rightarrow> string \<Rightarrow> (int \<Rightarrow> watch_table option) \<Rightarrow> addr \<Rightarrow> addr \<Rightarrow> session \<Rightarrow> (int \<times> session) exec" where
  "add_watch_completion e ty xid dc data path checker watcher ctx zh =
     bind_exec (create_watcher_registration e path checker watcher ctx)
      (\<lambda>wo. add_completion e zh xid ty dc data False wo None)"

definition add_multi_completion ::
  "env \<Rightarrow> i32 \<Rightarrow> addr \<Rightarrow> addr \<Rightarrow> completion_entry list \<Rightarrow> session \<Rightarrow> (int \<times> session) exec" where
  "add_multi_completion e xid dc data clist zh = add_completion e zh xid COMPLETION_MULTI dc data False None (Some clist)"

text \<open>
  What every request does after its record has been serialised with the code \<^verbatim>\<open>rc\<close>: the completion is
  queued, then the packet, and the code of either becomes \<^verbatim>\<open>ZMARSHALLINGERROR\<close>.
\<close>

definition queue_request ::
  "env \<Rightarrow> (session \<Rightarrow> (int \<times> session) exec) \<Rightarrow> int \<times> buff_struct \<Rightarrow> session \<Rightarrow> (int \<times> session) exec" where
  "queue_request e add out zh =
     (case out of (rc, oa) \<Rightarrow>
        bind_exec (if rc < 0 then Ret (rc, zh) else add zh)
         (\<lambda>(rc1, zh1).
            case (if rc1 < 0 then (rc1, to_send zh1)
                  else queue_buffer_bytes e (to_send zh1) (get_buffer oa) (get_buffer_len oa)) of
              (rc2, q) \<Rightarrow> Ret (if rc2 < 0 then ZMARSHALLINGERROR else ZOK,
                              snd (adaptor_send_queue e ZOK (zh1\<lparr> to_send := q \<rparr>)))))"

definition request_header :: "i32 \<Rightarrow> int \<Rightarrow> RequestHeader" where
  "request_header xid op = \<lparr> RequestHeader_xid = xid, RequestHeader_type = word_of_int op \<rparr>"

text \<open>The archive is used without a test for NULL.\<close>

definition submit ::
  "env \<Rightarrow> i32 \<Rightarrow> int \<Rightarrow> (buff_struct \<Rightarrow> (int \<times> buff_struct) exec) \<Rightarrow> (session \<Rightarrow> (int \<times> session) exec) \<Rightarrow>
   session \<Rightarrow> (int \<times> session) exec" where
  "submit e xid op ser add zh =
     (case new_oarchive e of None \<Rightarrow> UB
      | Some oa \<Rightarrow>
          bind_exec (if_ok (serialize_RequestHeader (en_mem e) oa (request_header xid op)) ser)
           (\<lambda>out. queue_request e add out zh))"

text \<open>\<^verbatim>\<open>Request_path_init\<close> in front of a request.\<close>

definition with_path ::
  "session option \<Rightarrow> int \<Rightarrow> string option \<Rightarrow> (session \<Rightarrow> string \<Rightarrow> (int \<times> session) exec) \<Rightarrow> (int \<times> session option) exec" where
  "with_path h mode path f =
     (case h of None \<Rightarrow> Ret (ZBADARGUMENTS, None)
      | Some zh \<Rightarrow>
          bind_exec (Request_path_init (chroot zh) (is_unrecoverable zh \<noteq> 0) mode path)
           (\<lambda>(rc, p). if rc \<noteq> ZOK then Ret (rc, h)
              else case p of None \<Rightarrow> UB
                | Some server_path \<Rightarrow> bind_exec (f zh server_path) (\<lambda>(rc, zh1). Ret (rc, Some zh1))))"

section \<open>Requests with a watch\<close>

text \<open>The watcher and context of the handle, which is read through before it is tested for NULL.\<close>

definition default_watch :: "session option \<Rightarrow> int \<Rightarrow> (addr \<Rightarrow> addr \<Rightarrow> 'r exec) \<Rightarrow> 'r exec" where
  "default_watch h watch f =
     (case h of None \<Rightarrow> UB | Some zh \<Rightarrow> f (if watch \<noteq> 0 then zh_watcher zh else NULL) (zh_context zh))"

definition watch_flag :: "addr \<Rightarrow> i32" where
  "watch_flag watcher = (if watcher \<noteq> NULL then 1 else 0)"

definition zoo_awget ::
  "env \<Rightarrow> i32 \<Rightarrow> session option \<Rightarrow> string option \<Rightarrow> addr \<Rightarrow> addr \<Rightarrow> addr \<Rightarrow> addr \<Rightarrow> (int \<times> session option) exec" where
  "zoo_awget e xid h path watcher watcherCtx dc data =
     with_path h 0 path (\<lambda>zh server_path.
       submit e xid ZOO_GETDATA_OP
         (\<lambda>oa. serialize_GetDataRequest (en_mem e) oa
            \<lparr> GetDataRequest_path = Some server_path, GetDataRequest_watch = watch_flag watcher \<rparr>)
         (add_watch_completion e COMPLETION_DATA xid dc data server_path data_result_checker watcher watcherCtx) zh)"

definition zoo_aget ::
  "env \<Rightarrow> i32 \<Rightarrow> session option \<Rightarrow> string option \<Rightarrow> int \<Rightarrow> addr \<Rightarrow> addr \<Rightarrow> (int \<times> session option) exec" where
  "zoo_aget e xid h path watch dc data =
     default_watch h watch (\<lambda>watcher ctx. zoo_awget e xid h path watcher ctx dc data)"

text \<open>The path of the configuration node is not put behind the chroot.\<close>

definition zoo_awgetconfig ::
  "env \<Rightarrow> i32 \<Rightarrow> session option \<Rightarrow> addr \<Rightarrow> addr \<Rightarrow> addr \<Rightarrow> addr \<Rightarrow> (int \<times> session option) exec" where
  "zoo_awgetconfig e xid h watcher watcherCtx dc data =
     (case h of None \<Rightarrow> Ret (ZBADARGUMENTS, None)
      | Some zh \<Rightarrow>
          if \<not> isValidPath (Some ZOO_CONFIG_NODE) 0 then Ret (ZBADARGUMENTS, h)
          else if is_unrecoverable zh \<noteq> 0 then Ret (ZINVALIDSTATE, h)
          else bind_exec (submit e xid ZOO_GETDATA_OP
                 (\<lambda>oa. serialize_GetDataRequest (en_mem e) oa
                    \<lparr> GetDataRequest_path = Some ZOO_CONFIG_NODE, GetDataRequest_watch = watch_flag watcher \<rparr>)
                 (add_watch_completion e COMPLETION_DATA xid dc data ZOO_CONFIG_NODE data_result_checker watcher watcherCtx) zh)
               (\<lambda>(rc, zh1). Ret (rc, Some zh1)))"

definition zoo_agetconfig ::
  "env \<Rightarrow> i32 \<Rightarrow> session option \<Rightarrow> int \<Rightarrow> addr \<Rightarrow> addr \<Rightarrow> (int \<times> session option) exec" where
  "zoo_agetconfig e xid h watch dc data =
     default_watch h watch (\<lambda>watcher ctx. zoo_awgetconfig e xid h watcher ctx dc data)"

definition zoo_awexists ::
  "env \<Rightarrow> i32 \<Rightarrow> session option \<Rightarrow> string option \<Rightarrow> addr \<Rightarrow> addr \<Rightarrow> addr \<Rightarrow> addr \<Rightarrow> (int \<times> session option) exec" where
  "zoo_awexists e xid h path watcher watcherCtx completion data =
     with_path h 0 path (\<lambda>zh server_path.
       submit e xid ZOO_EXISTS_OP
         (\<lambda>oa. serialize_ExistsRequest (en_mem e) oa
            \<lparr> ExistsRequest_path = Some server_path, ExistsRequest_watch = watch_flag watcher \<rparr>)
         (add_watch_completion e COMPLETION_STAT xid completion data server_path exists_result_checker watcher watcherCtx) zh)"

definition zoo_aexists ::
  "env \<Rightarrow> i32 \<Rightarrow> session option \<Rightarrow> string option \<Rightarrow> int \<Rightarrow> addr \<Rightarrow> addr \<Rightarrow> (int \<times> session option) exec" where
  "zoo_aexists e xid h path watch sc data =
     default_watch h watch (\<lambda>watcher ctx. zoo_awexists e xid h path watcher ctx sc data)"

definition zoo_awget_children ::
  "env \<Rightarrow> i32 \<Rightarrow> session option \<Rightarrow> string option \<Rightarrow> addr \<Rightarrow> addr \<Rightarrow> addr \<Rightarrow> addr \<Rightarrow> (int \<times> session option) exec" where
  "zoo_awget_children e xid h path watcher watcherCtx sc data =
     with_path h 0 path (\<lambda>zh server_path.
       submit e xid ZOO_GETCHILDREN_OP
         (\<lambda>oa. serialize_GetChildrenRequest (en_mem e) oa
            \<lparr> GetChildrenRequest_path = Some server_path, GetChildrenRequest_watch = watch_flag watcher \<rparr>)
         (add_watch_completion e COMPLETION_STRINGLIST xid sc data server_path child_result_checker watcher watcherCtx) zh)"

definition zoo_aget_children ::
  "env \<Rightarrow> i32 \<Rightarrow> session option \<Rightarrow> string option \<Rightarrow> int \<Rightarrow> addr \<Rightarrow> addr \<Rightarrow> (int \<times> session option) exec" where
  "zoo_aget_children e xid h path watch dc data =
     default_watch h watch (\<lambda>watcher ctx. zoo_awget_children e xid h path watcher ctx dc data)"

definition zoo_awget_children2 ::
  "env \<Rightarrow> i32 \<Rightarrow> session option \<Rightarrow> string option \<Rightarrow> addr \<Rightarrow> addr \<Rightarrow> addr \<Rightarrow> addr \<Rightarrow> (int \<times> session option) exec" where
  "zoo_awget_children2 e xid h path watcher watcherCtx ssc data =
     with_path h 0 path (\<lambda>zh server_path.
       submit e xid ZOO_GETCHILDREN2_OP
         (\<lambda>oa. serialize_GetChildren2Request (en_mem e) oa
            \<lparr> GetChildren2Request_path = Some server_path, GetChildren2Request_watch = watch_flag watcher \<rparr>)
         (add_watch_completion e COMPLETION_STRINGLIST_STAT xid ssc data server_path child_result_checker watcher watcherCtx) zh)"

definition zoo_aget_children2 ::
  "env \<Rightarrow> i32 \<Rightarrow> session option \<Rightarrow> string option \<Rightarrow> int \<Rightarrow> addr \<Rightarrow> addr \<Rightarrow> (int \<times> session option) exec" where
  "zoo_aget_children2 e xid h path watch dc data =
     default_watch h watch (\<lambda>watcher ctx. zoo_awget_children2 e xid h path watcher ctx dc data)"

section \<open>Requests that change nodes\<close>

definition zoo_areconfig ::
  "env \<Rightarrow> i32 \<Rightarrow> session option \<Rightarrow> string option \<Rightarrow> string option \<Rightarrow> string option \<Rightarrow> i64 \<Rightarrow> addr \<Rightarrow> addr \<Rightarrow>
   (int \<times> session option) exec" where
  "zoo_areconfig e xid h joining leaving members version dc data =
     (case h of None \<Rightarrow> Ret (ZBADARGUMENTS, None)
      | Some zh \<Rightarrow>
          if is_unrecoverable zh \<noteq> 0 then Ret (ZINVALIDSTATE, h)
          else bind_exec (submit e xid ZOO_RECONFIG_OP
                 (\<lambda>oa. serialize_ReconfigRequest (en_mem e) oa
                    \<lparr> ReconfigRequest_joiningServers = joining, ReconfigRequest_leavingServers = leaving,
                      ReconfigRequest_newMembers = members, ReconfigRequest_curConfigId = version \<rparr>)
                 (add_plain_completion e COMPLETION_DATA xid dc data) zh)
               (\<lambda>(rc, zh1). Ret (rc, Some zh1)))"

definition SetDataRequest_init :: "string \<Rightarrow> byte list option \<Rightarrow> i32 \<Rightarrow> i32 \<Rightarrow> SetDataRequest" where
  "SetDataRequest_init path buffer buflen version =
     \<lparr> SetDataRequest_path = Some path, SetDataRequest_data = \<lparr> b_len = buflen, b_buff = buffer \<rparr>,
       SetDataRequest_version = version \<rparr>"

definition zoo_aset ::
  "env \<Rightarrow> i32 \<Rightarrow> session option \<Rightarrow> string option \<Rightarrow> byte list option \<Rightarrow> i32 \<Rightarrow> i32 \<Rightarrow> addr \<Rightarrow> addr \<Rightarrow>
   (int \<times> session option) exec" where
  "zoo_aset e xid h path buffer buflen version dc data =
     with_path h 0 path (\<lambda>zh server_path.
       submit e xid ZOO_SETDATA_OP
         (\<lambda>oa. serialize_SetDataRequest (en_mem e) oa (SetDataRequest_init server_path buffer buflen version))
         (add_plain_completion e COMPLETION_STAT xid dc data) zh)"

definition acl_or_empty :: "ACL_vector option \<Rightarrow> ACL_vector" where
  "acl_or_empty acl = (case acl of None \<Rightarrow> \<lparr> ACL_vector_count = 0, ACL_vector_data = None \<rparr> | Some a \<Rightarrow> a)"

definition CreateRequest_init ::
  "string \<Rightarrow> byte list option \<Rightarrow> i32 \<Rightarrow> ACL_vector option \<Rightarrow> int \<Rightarrow> CreateRequest" where
  "CreateRequest_init path val vallen acl mode =
     \<lparr> CreateRequest_path = Some path, CreateRequest_data = \<lparr> b_len = vallen, b_buff = val \<rparr>,
       CreateRequest_acl = acl_or_empty acl, CreateRequest_flags = word_of_int mode \<rparr>"

definition CreateTTLRequest_init ::
  "string \<Rightarrow> byte list option \<Rightarrow> i32 \<Rightarrow> ACL_vector option \<Rightarrow> int \<Rightarrow> i64 \<Rightarrow> CreateTTLRequest" where
  "CreateTTLRequest_init path val vallen acl mode ttl =
     \<lparr> CreateTTLRequest_path = Some path, CreateTTLRequest_data = \<lparr> b_len = vallen, b_buff = val \<rparr>,
       CreateTTLRequest_acl = acl_or_empty acl, CreateTTLRequest_flags = word_of_int mode, CreateTTLRequest_ttl = ttl \<rparr>"

text \<open>
  The two create requests have the same body but for the operation without a time to live and the type
  of the completion.
\<close>

definition create_body ::
  "env \<Rightarrow> int \<Rightarrow> int \<Rightarrow> i32 \<Rightarrow> session option \<Rightarrow> string option \<Rightarrow> byte list option \<Rightarrow> i32 \<Rightarrow> ACL_vector option \<Rightarrow> int \<Rightarrow> i64 \<Rightarrow>
   addr \<Rightarrow> addr \<Rightarrow> (int \<times> session option) exec" where
  "create_body e default_op ty xid h path val vallen acl mode ttl completion data =
     (if ZOOKEEPER_IS_TTL mode then
        if sint ttl \<le> 0 \<or> sint ttl > ZOO_MAX_TTL then Ret (ZBADARGUMENTS, h)
        else with_path h mode path (\<lambda>zh server_path.
          submit e xid (get_create_op_type mode default_op)
            (\<lambda>oa. serialize_CreateTTLRequest (en_mem e) oa (CreateTTLRequest_init server_path val vallen acl mode ttl))
            (add_plain_completion e ty xid completion data) zh)
      else
        if sint ttl \<ge> 0 then Ret (ZBADARGUMENTS, h)
        else with_path h mode path (\<lambda>zh server_path.
          submit e xid (get_create_op_type mode default_op)
            (\<lambda>oa. serialize_CreateRequest (en_mem e) oa (CreateRequest_init server_path val vallen acl mode))
            (add_plain_completion e ty xid completion data) zh))"

definition zoo_acreate_ttl ::
  "env \<Rightarrow> i32 \<Rightarrow> session option \<Rightarrow> string option \<Rightarrow> byte list option \<Rightarrow> i32 \<Rightarrow> ACL_vector option \<Rightarrow> int \<Rightarrow> i64 \<Rightarrow> addr \<Rightarrow> addr \<Rightarrow>
   (int \<times> session option) exec" where
  "zoo_acreate_ttl e = create_body e ZOO_CREATE_OP COMPLETION_STRING"

definition zoo_acreate ::
  "env \<Rightarrow> i32 \<Rightarrow> session option \<Rightarrow> string option \<Rightarrow> byte list option \<Rightarrow> i32 \<Rightarrow> ACL_vector option \<Rightarrow> int \<Rightarrow> addr \<Rightarrow> addr \<Rightarrow>
   (int \<times> session option) exec" where
  "zoo_acreate e xid h path val vallen acl mode completion data =
     zoo_acreate_ttl e xid h path val vallen acl mode (-1) completion data"

definition zoo_acreate2_ttl ::
  "env \<Rightarrow> i32 \<Rightarrow> session option \<Rightarrow> string option \<Rightarrow> byte list option \<Rightarrow> i32 \<Rightarrow> ACL_vector option \<Rightarrow> int \<Rightarrow> i64 \<Rightarrow> addr \<Rightarrow> addr \<Rightarrow>
   (int \<times> session option) exec" where
  "zoo_acreate2_ttl e = create_body e ZOO_CREATE2_OP COMPLETION_STRING_STAT"

definition zoo_acreate2 ::
  "env \<Rightarrow> i32 \<Rightarrow> session option \<Rightarrow> string option \<Rightarrow> byte list option \<Rightarrow> i32 \<Rightarrow> ACL_vector option \<Rightarrow> int \<Rightarrow> addr \<Rightarrow> addr \<Rightarrow>
   (int \<times> session option) exec" where
  "zoo_acreate2 e xid h path val vallen acl mode completion data =
     zoo_acreate2_ttl e xid h path val vallen acl mode (-1) completion data"

definition DeleteRequest_init :: "string \<Rightarrow> i32 \<Rightarrow> DeleteRequest" where
  "DeleteRequest_init path version = \<lparr> DeleteRequest_path = Some path, DeleteRequest_version = version \<rparr>"

definition zoo_adelete ::
  "env \<Rightarrow> i32 \<Rightarrow> session option \<Rightarrow> string option \<Rightarrow> i32 \<Rightarrow> addr \<Rightarrow> addr \<Rightarrow> (int \<times> session option) exec" where
  "zoo_adelete e xid h path version completion data =
     with_path h 0 path (\<lambda>zh server_path.
       submit e xid ZOO_DELETE_OP
         (\<lambda>oa. serialize_DeleteRequest (en_mem e) oa (DeleteRequest_init server_path version))
         (add_plain_completion e COMPLETION_VOID xid completion data) zh)"

definition zoo_async ::
  "env \<Rightarrow> i32 \<Rightarrow> session option \<Rightarrow> string option \<Rightarrow> addr \<Rightarrow> addr \<Rightarrow> (int \<times> session option) exec" where
  "zoo_async e xid h path completion data =
     with_path h 0 path (\<lambda>zh server_path.
       submit e xid ZOO_SYNC_OP
         (\<lambda>oa. serialize_SyncRequest (en_mem e) oa \<lparr> SyncRequest_path = Some server_path \<rparr>)
         (add_plain_completion e COMPLETION_STRING xid completion data) zh)"

definition zoo_aget_acl ::
  "env \<Rightarrow> i32 \<Rightarrow> session option \<Rightarrow> string option \<Rightarrow> addr \<Rightarrow> addr \<Rightarrow> (int \<times> session option) exec" where
  "zoo_aget_acl e xid h path completion data =
     with_path h 0 path (\<lambda>zh server_path.
       submit e xid ZOO_GETACL_OP
         (\<lambda>oa. serialize_GetACLRequest (en_mem e) oa \<lparr> GetACLRequest_path = Some server_path \<rparr>)
         (add_plain_completion e COMPLETION_ACLLIST xid completion data) zh)"

text \<open>The list of a NULL pointer is read through, unlike that of the create requests.\<close>

definition zoo_aset_acl ::
  "env \<Rightarrow> i32 \<Rightarrow> session option \<Rightarrow> string option \<Rightarrow> i32 \<Rightarrow> ACL_vector option \<Rightarrow> addr \<Rightarrow> addr \<Rightarrow> (int \<times> session option) exec" where
  "zoo_aset_acl e xid h path version acl completion data =
     with_path h 0 path (\<lambda>zh server_path.
       case acl of None \<Rightarrow> UB
       | Some a \<Rightarrow>
           submit e xid ZOO_SETACL_OP
             (\<lambda>oa. serialize_SetACLRequest (en_mem e) oa
                \<lparr> SetACLRequest_path = Some server_path, SetACLRequest_acl = a, SetACLRequest_version = version \<rparr>)
             (add_plain_completion e COMPLETION_VOID xid completion data) zh)"

section \<open>Multi requests\<close>

record create_op =
  co_path :: "string option"
  co_data :: "byte list option"
  co_datalen :: i32
  co_buf :: "string option"
  co_buflen :: int
  co_acl :: "ACL_vector option"
  co_flags :: int
  co_ttl :: i64

record delete_op =
  do_path :: "string option"
  do_version :: i32

record set_op =
  so_path :: "string option"
  so_data :: "byte list option"
  so_datalen :: i32
  so_version :: i32
  so_stat :: "Stat option"

record check_op =
  ko_path :: "string option"
  ko_version :: i32

text \<open>\<^verbatim>\<open>zoo_op_t\<close>: create operations carry their type, which depends on the mode.\<close>

datatype zoo_op = Create_op int create_op | Delete_op delete_op | Set_op set_op | Check_op check_op

fun op_type :: "zoo_op \<Rightarrow> int" where
  "op_type (Create_op ty c) = ty"
| "op_type (Delete_op d) = ZOO_DELETE_OP"
| "op_type (Set_op s) = ZOO_SETDATA_OP"
| "op_type (Check_op k) = ZOO_CHECK_OP"

definition zoo_create_op_init ::
  "string option \<Rightarrow> byte list option \<Rightarrow> i32 \<Rightarrow> ACL_vector option \<Rightarrow> int \<Rightarrow> string option \<Rightarrow> int \<Rightarrow> zoo_op" where
  "zoo_create_op_init path val vallen acl mode path_buffer path_buffer_len =
     Create_op (get_create_op_type mode ZOO_CREATE_OP)
       \<lparr> co_path = path, co_data = val, co_datalen = vallen, co_buf = path_buffer, co_buflen = path_buffer_len,
         co_acl = acl, co_flags = mode, co_ttl = 0 \<rparr>"

text \<open>The time to live keeps what the memory of the operation held before.\<close>

definition zoo_create2_op_init ::
  "i64 \<Rightarrow> string option \<Rightarrow> byte list option \<Rightarrow> i32 \<Rightarrow> ACL_vector option \<Rightarrow> int \<Rightarrow> string option \<Rightarrow> int \<Rightarrow> zoo_op" where
  "zoo_create2_op_init old_ttl path val vallen acl mode path_buffer path_buffer_len =
     Create_op (get_create_op_type mode ZOO_CREATE2_OP)
       \<lparr> co_path = path, co_data = val, co_datalen = vallen, co_buf = path_buffer, co_buflen = path_buffer_len,
         co_acl = acl, co_flags = mode, co_ttl = old_ttl \<rparr>"

definition zoo_delete_op_init :: "string option \<Rightarrow> i32 \<Rightarrow> zoo_op" where
  "zoo_delete_op_init path version = Delete_op \<lparr> do_path = path, do_version = version \<rparr>"

definition zoo_set_op_init :: "string option \<Rightarrow> byte list option \<Rightarrow> i32 \<Rightarrow> i32 \<Rightarrow> Stat option \<Rightarrow> zoo_op" where
  "zoo_set_op_init path buffer buflen version stat =
     Set_op \<lparr> so_path = path, so_data = buffer, so_datalen = buflen, so_version = version, so_stat = stat \<rparr>"

definition zoo_check_op_init :: "string option \<Rightarrow> i32 \<Rightarrow> zoo_op" where
  "zoo_check_op_init path version = Check_op \<lparr> ko_path = path, ko_version = version \<rparr>"

text \<open>
  \<^verbatim>\<open>zoo_op_result_t\<close>, with what its pointers point to, and the functions that fill it in when the answer
  is there. The three functions have addresses of their own, as requests carry them.
\<close>

record op_result =
  or_err :: int
  or_value :: "string option"
  or_valuelen :: int
  or_stat :: "Stat option"

definition op_result_string_fn :: addr where "op_result_string_fn = 3"
definition op_result_void_fn :: addr where "op_result_void_fn = 4"
definition op_result_stat_fn :: addr where "op_result_stat_fn = 5"

definition op_result_string_completion :: "int \<Rightarrow> string option \<Rightarrow> op_result \<Rightarrow> op_result exec" where
  "op_result_string_completion err val r0 =
     (let r = r0\<lparr> or_err := err \<rparr> in
      case (or_value r, val) of
        (Some buf, Some s) \<Rightarrow>
          let len = min (int (length s) + 1) (or_valuelen r) in
          if len > 0
          then if nat len \<le> length buf
               then Ret (r\<lparr> or_value := Some (take (nat len - 1) s @ [NUL] @ drop (nat len) buf) \<rparr>) else UB
          else Ret r
      | _ \<Rightarrow> Ret (r\<lparr> or_value := None \<rparr>))"

definition op_result_void_completion :: "int \<Rightarrow> op_result \<Rightarrow> op_result" where
  "op_result_void_completion err r = r\<lparr> or_err := err \<rparr>"

definition op_result_stat_completion :: "int \<Rightarrow> Stat option \<Rightarrow> op_result \<Rightarrow> op_result" where
  "op_result_stat_completion err stat r =
     r\<lparr> or_err := err, or_stat := (if or_stat r \<noteq> None \<and> err = 0 \<and> stat \<noteq> None then stat else None) \<rparr>"

text \<open>The address of the result with an index, in an array of structures of 32 bytes.\<close>

definition result_addr :: "addr \<Rightarrow> nat \<Rightarrow> addr" where
  "result_addr results index = results + 32 * index"

definition op_result_entry :: "env \<Rightarrow> i32 \<Rightarrow> int \<Rightarrow> addr \<Rightarrow> addr \<Rightarrow> completion_entry exec" where
  "op_result_entry e xid ty fn result =
     bind_exec (do_create_completion_entry e xid ty fn result None None None)
      (\<lambda>c. case c of None \<Rightarrow> UB | Some c \<Rightarrow> Ret (completion_entry.truncate c))"

text \<open>
  The request of one operation: after an earlier error it is not initialised, and its indeterminate path
  is compared and freed all the same; when its own path is refused the path is freed twice, unless it is
  the user's.
\<close>

definition multi_request ::
  "session \<Rightarrow> int \<Rightarrow> string option \<Rightarrow> (buff_struct \<Rightarrow> string \<Rightarrow> (int \<times> buff_struct) exec) \<Rightarrow> int \<times> buff_struct \<Rightarrow>
   (int \<times> buff_struct) exec" where
  "multi_request zh mode path ser out =
     (case out of (rc, oa) \<Rightarrow>
        if rc < 0 then UB
        else bind_exec (Request_path_init (chroot zh) (is_unrecoverable zh \<noteq> 0) mode path)
         (\<lambda>(rc1, p). if rc1 < 0 then (if chroot zh = None then Ret (rc1, oa) else UB)
            else case p of None \<Rightarrow> UB | Some server_path \<Rightarrow> ser oa server_path))"

text \<open>One round of the loop: \<^verbatim>\<open>None\<close> when the type is not implemented.\<close>

definition multi_op ::
  "env \<Rightarrow> session \<Rightarrow> i32 \<Rightarrow> addr \<Rightarrow> zoo_op \<Rightarrow> int \<times> buff_struct \<Rightarrow> op_result \<Rightarrow>
   ((int \<times> buff_struct) \<times> op_result \<times> completion_entry) option exec" where
  "multi_op e zh xid result oper out r =
     (let finish = (\<lambda>req r ty fn. bind_exec req
            (\<lambda>out2. bind_exec (op_result_entry e xid ty fn result) (\<lambda>c. Ret (Some (out2, r, c)))))
      in bind_exec (case out of (rc, oa) \<Rightarrow>
             if rc < 0 then Ret (rc, oa)
             else serialize_MultiHeader (en_mem e) oa
                    \<lparr> MultiHeader_type = word_of_int (op_type oper), MultiHeader_done = 0, MultiHeader_err = -1 \<rparr>)
          (\<lambda>out1. case oper of
             Create_op ty c \<Rightarrow>
               if ty \<noteq> ZOO_CREATE_OP \<and> ty \<noteq> ZOO_CREATE_CONTAINER_OP then Ret None
               else finish (multi_request zh (co_flags c) (co_path c)
                        (\<lambda>oa p. serialize_CreateRequest (en_mem e) oa
                           (CreateRequest_init p (co_data c) (co_datalen c) (co_acl c) (co_flags c))) out1)
                      (r\<lparr> or_value := co_buf c, or_valuelen := co_buflen c \<rparr>) COMPLETION_STRING op_result_string_fn
           | Delete_op d \<Rightarrow>
               finish (multi_request zh 0 (do_path d)
                        (\<lambda>oa p. serialize_DeleteRequest (en_mem e) oa (DeleteRequest_init p (do_version d))) out1)
                      r COMPLETION_VOID op_result_void_fn
           | Set_op s \<Rightarrow>
               finish (multi_request zh 0 (so_path s)
                        (\<lambda>oa p. serialize_SetDataRequest (en_mem e) oa
                           (SetDataRequest_init p (so_data s) (so_datalen s) (so_version s))) out1)
                      (r\<lparr> or_stat := so_stat s \<rparr>) COMPLETION_STAT op_result_stat_fn
           | Check_op k \<Rightarrow>
               finish (multi_request zh 0 (ko_path k)
                        (\<lambda>oa p. serialize_CheckVersionRequest (en_mem e) oa
                           \<lparr> CheckVersionRequest_path = Some p, CheckVersionRequest_version = ko_version k \<rparr>) out1)
                      r COMPLETION_VOID op_result_void_fn))"

text \<open>
  The loop over the operations and their results: what was serialised (\<^verbatim>\<open>None\<close> after an early return),
  the results and the entries.
\<close>

fun multi_ops ::
  "env \<Rightarrow> session \<Rightarrow> i32 \<Rightarrow> addr \<Rightarrow> nat \<Rightarrow> zoo_op list \<Rightarrow> op_result list \<Rightarrow> int \<times> buff_struct \<Rightarrow> completion_entry list \<Rightarrow>
   ((int \<times> buff_struct) option \<times> op_result list \<times> completion_entry list) exec" where
  "multi_ops e zh xid results index [] rs out clist = Ret (Some out, rs, clist)"
| "multi_ops e zh xid results index (oper # ops) [] out clist = UB"
| "multi_ops e zh xid results index (oper # ops) (r # rs) out clist =
     bind_exec (multi_op e zh xid (result_addr results index) oper out r)
      (\<lambda>res. case res of
         None \<Rightarrow> Ret (None, r # rs, clist)
       | Some (out1, r1, c) \<Rightarrow>
           bind_exec (multi_ops e zh xid results (Suc index) ops rs out1 (clist @ [c]))
            (\<lambda>(out2, rs2, clist2). Ret (out2, r1 # rs2, clist2)))"

text \<open>A NULL handle is only noticed when its lock is taken, at the latest behind the loop.\<close>

definition zoo_amulti ::
  "env \<Rightarrow> i32 \<Rightarrow> session option \<Rightarrow> zoo_op list \<Rightarrow> addr \<Rightarrow> op_result list \<Rightarrow> addr \<Rightarrow> addr \<Rightarrow>
   (int \<times> op_result list \<times> session option) exec" where
  "zoo_amulti e xid h ops results rs completion data =
     (case new_oarchive e of None \<Rightarrow> UB
      | Some oa \<Rightarrow>
          bind_exec (serialize_RequestHeader (en_mem e) oa (request_header xid ZOO_MULTI_OP)) (\<lambda>out.
            case h of
              None \<Rightarrow> (case ops of
                  Create_op ty c # _ \<Rightarrow>
                    if ty \<noteq> ZOO_CREATE_OP \<and> ty \<noteq> ZOO_CREATE_CONTAINER_OP then Ret (ZUNIMPLEMENTED, rs, h) else UB
                | _ \<Rightarrow> UB)
            | Some zh \<Rightarrow>
                bind_exec (multi_ops e zh xid results 0 ops rs out []) (\<lambda>(out1, rs1, clist).
                  case out1 of None \<Rightarrow> Ret (ZUNIMPLEMENTED, rs1, h)
                  | Some (rc, oa1) \<Rightarrow>
                      bind_exec (if rc < 0 then Ret (rc, oa1)
                                 else serialize_MultiHeader (en_mem e) oa1
                                        \<lparr> MultiHeader_type = -1, MultiHeader_done = 1, MultiHeader_err = -1 \<rparr>)
                       (\<lambda>out2. bind_exec (queue_request e (add_multi_completion e xid completion data clist) out2 zh)
                         (\<lambda>(rc2, zh1). Ret (rc2, rs1, Some zh1))))))"

text \<open>The effect that the calls of the three functions above have on the results of the user.\<close>

definition run_op_result :: "user_call \<Rightarrow> (addr \<Rightarrow> op_result option) \<Rightarrow> (addr \<Rightarrow> op_result option) exec" where
  "run_op_result call mem =
     (let on = (\<lambda>data f. case mem data of None \<Rightarrow> UB | Some r \<Rightarrow> bind_exec (f r) (\<lambda>r1. Ret (mem(data \<mapsto> r1)))) in
      case call of
        String_call f rc val data \<Rightarrow> if f = op_result_string_fn then on data (op_result_string_completion rc val) else Ret mem
      | Void_call f rc data \<Rightarrow> if f = op_result_void_fn then on data (\<lambda>r. Ret (op_result_void_completion rc r)) else Ret mem
      | Stat_call f rc stat data \<Rightarrow> if f = op_result_stat_fn then on data (\<lambda>r. Ret (op_result_stat_completion rc stat r)) else Ret mem
      | _ \<Rightarrow> Ret mem)"

fun run_op_results :: "user_call list \<Rightarrow> (addr \<Rightarrow> op_result option) \<Rightarrow> (addr \<Rightarrow> op_result option) exec" where
  "run_op_results [] mem = Ret mem"
| "run_op_results (c # cs) mem = bind_exec (run_op_result c mem) (run_op_results cs)"

section \<open>Removing watches\<close>

text \<open>
  Removing locally wakes the caller, for which the data must be a \<^verbatim>\<open>struct sync_completion\<close>: the
  asynchronous functions hand over the data of the user here.
\<close>

definition aremove_watches ::
  "env \<Rightarrow> i32 \<Rightarrow> session option \<Rightarrow> string option \<Rightarrow> int \<Rightarrow> addr \<Rightarrow> addr \<Rightarrow> bool \<Rightarrow> addr \<Rightarrow> addr \<Rightarrow> bool \<Rightarrow>
   (int \<times> session option) exec" where
  "aremove_watches e xid h path wtype watcher watcherCtx local completion data all =
     (case h of None \<Rightarrow> Ret (ZBADARGUMENTS, None)
      | Some zh \<Rightarrow>
          bind_exec (prepend_string (chroot zh) path) (\<lambda>server_path.
            if \<not> isValidPath server_path 0 then Ret (ZBADARGUMENTS, h)
            else if \<not> local \<and> is_unrecoverable zh \<noteq> 0 then Ret (ZINVALIDSTATE, h)
            else case server_path of None \<Rightarrow> UB
             | Some p \<Rightarrow>
                 if \<not> pathHasWatcher zh p wtype watcher watcherCtx then Ret (ZNOWATCHER, h)
                 else if local
                 then bind_exec (notify_sync_completion data (removeWatchers zh p wtype watcher watcherCtx))
                        (\<lambda>zh1. Ret (ZOK, Some zh1))
                 else case new_oarchive e of None \<Rightarrow> UB
                  | Some oa \<Rightarrow>
                      bind_exec (if_ok (serialize_RequestHeader (en_mem e) oa
                            (request_header xid (if all then ZOO_REMOVE_WATCHES else ZOO_CHECK_WATCHES)))
                          (\<lambda>oa. if all
                             then serialize_RemoveWatchesRequest (en_mem e) oa
                                    \<lparr> RemoveWatchesRequest_path = Some p, RemoveWatchesRequest_type = word_of_int wtype \<rparr>
                             else serialize_CheckWatchesRequest (en_mem e) oa
                                    \<lparr> CheckWatchesRequest_path = Some p, CheckWatchesRequest_type = word_of_int wtype \<rparr>))
                       (\<lambda>(rc, oa1).
                          if rc < 0 then Ret (rc, h)
                          else case create_watcher_deregistration e p watcher watcherCtx wtype of
                             None \<Rightarrow> Ret (ZSYSTEMERROR, h)
                           | Some wdo \<Rightarrow>
                               bind_exec (queue_request e
                                   (\<lambda>z. add_completion_deregistration e z xid COMPLETION_VOID completion data False (Some wdo) None)
                                   (rc, oa1) zh)
                                (\<lambda>(rc2, zh1). Ret (rc2, Some zh1)))))"

definition zoo_aremove_watches ::
  "env \<Rightarrow> i32 \<Rightarrow> session option \<Rightarrow> string option \<Rightarrow> int \<Rightarrow> addr \<Rightarrow> addr \<Rightarrow> bool \<Rightarrow> addr \<Rightarrow> addr \<Rightarrow> (int \<times> session option) exec" where
  "zoo_aremove_watches e xid h path wtype watcher watcherCtx local completion data =
     aremove_watches e xid h path wtype watcher watcherCtx local completion data False"

definition zoo_aremove_all_watches ::
  "env \<Rightarrow> i32 \<Rightarrow> session option \<Rightarrow> string option \<Rightarrow> int \<Rightarrow> bool \<Rightarrow> addr \<Rightarrow> addr \<Rightarrow> (int \<times> session option) exec" where
  "zoo_aremove_all_watches e xid h path wtype local completion data =
     aremove_watches e xid h path wtype NULL NULL local completion data True"

end
