(* ===== verification/Zk_Sync_Api.thy ===== *)
theory Zk_Sync_Api
  imports Zk_Api
begin

text \<open>
  The synchronous requests (\<^verbatim>\<open>zookeeper.c\<close>, the functions behind \<^verbatim>\<open>SYNC API\<close>) and the end of a handle
  (\<^verbatim>\<open>zookeeper_close\<close>). A synchronous request is an asynchronous one whose data is a
  \<^verbatim>\<open>struct sync_completion\<close>; the caller sleeps until the I/O thread has filled it in. It is cut there in
  two: \<^verbatim>\<open>..._begin\<close> is everything up to the wait, \<^verbatim>\<open>..._result\<close> what is read from the structure after it.

  The lemmas show that what a caller gets is what the reply says.
\<close>

section \<open>Waiting\<close>

text \<open>
  A new structure at the address that \<^verbatim>\<open>calloc\<close> returned, \<^verbatim>\<open>None\<close> for NULL, is handed over to the request
  and given back at once when the request is refused.
\<close>

definition sync_begin ::
  "addr option \<Rightarrow> sync_completion \<Rightarrow> (addr \<Rightarrow> session option \<Rightarrow> (int \<times> session option) exec) \<Rightarrow> session option \<Rightarrow>
   (int \<times> session option) exec" where
  "sync_begin mem sc request h =
     (case mem of None \<Rightarrow> Ret (ZSYSTEMERROR, h)
      | Some a \<Rightarrow>
          bind_exec (request a (map_option (\<lambda>zh. zh\<lparr> syncs := (syncs zh)(a \<mapsto> sc) \<rparr>) h))
           (\<lambda>(rc, h1). Ret (rc, if rc = ZOK then h1
                                else map_option (\<lambda>zh. zh\<lparr> syncs := (syncs zh)(a := None) \<rparr>) h1)))"

text \<open>\<^verbatim>\<open>wait_sync_completion\<close> and \<^verbatim>\<open>free_sync_completion\<close>: \<^verbatim>\<open>None\<close> while the caller sleeps.\<close>

definition wait_sync_completion :: "addr \<Rightarrow> session \<Rightarrow> (sync_completion \<times> session) option exec" where
  "wait_sync_completion a zh =
     (case syncs zh a of None \<Rightarrow> UB
      | Some sc \<Rightarrow> Ret (if sc_complete sc then Some (sc, zh\<lparr> syncs := (syncs zh)(a := None) \<rparr>) else None))"

definition stat_of :: "sync_completion \<Rightarrow> Stat" where
  "stat_of sc = (case sc_stat sc of None \<Rightarrow> no_stat | Some s \<Rightarrow> s)"

text \<open>What a pointer to a status, which may be NULL, points to after the call.\<close>

definition out_stat :: "sync_completion \<Rightarrow> Stat option \<Rightarrow> Stat option" where
  "out_stat sc stat = (if sc_rc sc = 0 \<and> stat \<noteq> None then Some (stat_of sc) else stat)"

section \<open>The requests\<close>

definition zoo_create_ttl_begin where
  "zoo_create_ttl_begin e xid mem h path val vallen acl mode ttl buffer buffer_len =
     sync_begin mem (blank_sync\<lparr> sc_str := buffer, sc_str_len := buffer_len \<rparr>)
       (\<lambda>a h. zoo_acreate_ttl e xid h path val vallen acl mode ttl SYNCHRONOUS_MARKER a) h"

definition zoo_create_begin where
  "zoo_create_begin e xid mem h path val vallen acl mode buffer buffer_len =
     zoo_create_ttl_begin e xid mem h path val vallen acl mode (-1) buffer buffer_len"

definition zoo_create_result :: "sync_completion \<Rightarrow> int \<times> string" where
  "zoo_create_result sc = (sc_rc sc, sc_str sc)"

definition zoo_create2_ttl_begin where
  "zoo_create2_ttl_begin e xid mem h path val vallen acl mode ttl buffer buffer_len =
     sync_begin mem (blank_sync\<lparr> sc_str := buffer, sc_str_len := buffer_len \<rparr>)
       (\<lambda>a h. zoo_acreate2_ttl e xid h path val vallen acl mode ttl SYNCHRONOUS_MARKER a) h"

definition zoo_create2_begin where
  "zoo_create2_begin e xid mem h path val vallen acl mode buffer buffer_len =
     zoo_create2_ttl_begin e xid mem h path val vallen acl mode (-1) buffer buffer_len"

definition zoo_create2_result :: "sync_completion \<Rightarrow> Stat option \<Rightarrow> int \<times> string \<times> Stat option" where
  "zoo_create2_result sc stat = (sc_rc sc, sc_str sc, out_stat sc stat)"

definition zoo_delete_begin where
  "zoo_delete_begin e xid mem h path version =
     sync_begin mem blank_sync (\<lambda>a h. zoo_adelete e xid h path version SYNCHRONOUS_MARKER a) h"

definition zoo_delete_result :: "sync_completion \<Rightarrow> int" where
  "zoo_delete_result sc = sc_rc sc"

definition zoo_wexists_begin where
  "zoo_wexists_begin e xid mem h path watcher watcherCtx =
     sync_begin mem blank_sync (\<lambda>a h. zoo_awexists e xid h path watcher watcherCtx SYNCHRONOUS_MARKER a) h"

definition zoo_exists_begin where
  "zoo_exists_begin e xid mem h path watch =
     default_watch h watch (\<lambda>watcher ctx. zoo_wexists_begin e xid mem h path watcher ctx)"

definition zoo_wexists_result :: "sync_completion \<Rightarrow> Stat option \<Rightarrow> int \<times> Stat option" where
  "zoo_wexists_result sc stat = (sc_rc sc, out_stat sc stat)"

text \<open>The buffer of the caller, which may be NULL, and its length, whose pointer may be NULL.\<close>

definition zoo_wget_begin where
  "zoo_wget_begin e xid mem h path watcher watcherCtx buffer buffer_len =
     (case buffer_len of None \<Rightarrow> Ret (ZBADARGUMENTS, h)
      | Some len \<Rightarrow>
          sync_begin mem (blank_sync\<lparr> sc_buffer := buffer, sc_buff_len := len \<rparr>)
            (\<lambda>a h. zoo_awget e xid h path watcher watcherCtx SYNCHRONOUS_MARKER a) h)"

definition zoo_get_begin where
  "zoo_get_begin e xid mem h path watch buffer buffer_len =
     default_watch h watch (\<lambda>watcher ctx. zoo_wget_begin e xid mem h path watcher ctx buffer buffer_len)"

definition zoo_wget_result ::
  "sync_completion \<Rightarrow> byte list option \<Rightarrow> i32 \<Rightarrow> Stat option \<Rightarrow> int \<times> byte list option \<times> i32 \<times> Stat option" where
  "zoo_wget_result sc buffer buffer_len stat =
     (sc_rc sc, (if sc_buffer sc = None then buffer else sc_buffer sc),
      (if sc_rc sc = 0 then sc_buff_len sc else buffer_len), out_stat sc stat)"

definition zoo_getconfig_begin where
  "zoo_getconfig_begin e xid mem h watch buffer buffer_len =
     default_watch h watch (\<lambda>watcher ctx. zoo_wget_begin e xid mem h (Some ZOO_CONFIG_NODE) watcher ctx buffer buffer_len)"

definition zoo_wgetconfig_begin where
  "zoo_wgetconfig_begin e xid mem h watcher watcherCtx buffer buffer_len =
     zoo_wget_begin e xid mem h (Some ZOO_CONFIG_NODE) watcher watcherCtx buffer buffer_len"

definition zoo_reconfig_begin where
  "zoo_reconfig_begin e xid mem h joining leaving members version buffer buffer_len =
     (case buffer_len of None \<Rightarrow> Ret (ZBADARGUMENTS, h)
      | Some len \<Rightarrow>
          sync_begin mem (blank_sync\<lparr> sc_buffer := buffer, sc_buff_len := len \<rparr>)
            (\<lambda>a h. zoo_areconfig e xid h joining leaving members version SYNCHRONOUS_MARKER a) h)"

definition zoo_set2_begin where
  "zoo_set2_begin e xid mem h path buffer buflen version =
     sync_begin mem blank_sync (\<lambda>a h. zoo_aset e xid h path buffer buflen version SYNCHRONOUS_MARKER a) h"

definition zoo_set_begin where
  "zoo_set_begin e xid mem h path buffer buflen version = zoo_set2_begin e xid mem h path buffer buflen version"

definition zoo_set2_result :: "sync_completion \<Rightarrow> Stat option \<Rightarrow> int \<times> Stat option" where
  "zoo_set2_result sc stat = (sc_rc sc, out_stat sc stat)"

definition zoo_wget_children_begin where
  "zoo_wget_children_begin e xid mem h path watcher watcherCtx =
     sync_begin mem blank_sync (\<lambda>a h. zoo_awget_children e xid h path watcher watcherCtx SYNCHRONOUS_MARKER a) h"

definition zoo_get_children_begin where
  "zoo_get_children_begin e xid mem h path watch =
     default_watch h watch (\<lambda>watcher ctx. zoo_wget_children_begin e xid mem h path watcher ctx)"

text \<open>The strings of the answer, for a caller who wants them.\<close>

definition zoo_wget_children_result :: "sync_completion \<Rightarrow> String_vector option \<Rightarrow> int \<times> String_vector option" where
  "zoo_wget_children_result sc strings =
     (sc_rc sc, if sc_rc sc = 0 \<and> strings \<noteq> None then sc_strs sc else strings)"

definition zoo_wget_children2_begin where
  "zoo_wget_children2_begin e xid mem h path watcher watcherCtx =
     sync_begin mem blank_sync (\<lambda>a h. zoo_awget_children2 e xid h path watcher watcherCtx SYNCHRONOUS_MARKER a) h"

definition zoo_get_children2_begin where
  "zoo_get_children2_begin e xid mem h path watch =
     default_watch h watch (\<lambda>watcher ctx. zoo_wget_children2_begin e xid mem h path watcher ctx)"

text \<open>Unlike elsewhere the status is written without a test of its pointer.\<close>

definition zoo_wget_children2_result ::
  "sync_completion \<Rightarrow> String_vector option \<Rightarrow> Stat option \<Rightarrow> (int \<times> String_vector option \<times> Stat option) exec" where
  "zoo_wget_children2_result sc strings stat =
     (if sc_rc sc \<noteq> 0 then Ret (sc_rc sc, strings, stat)
      else if stat = None then UB
      else Ret (sc_rc sc, (if strings = None then None else sc_strs sc), Some (stat_of sc)))"

definition zoo_get_acl_begin where
  "zoo_get_acl_begin e xid mem h path =
     sync_begin mem blank_sync (\<lambda>a h. zoo_aget_acl e xid h path SYNCHRONOUS_MARKER a) h"

definition zoo_get_acl_result ::
  "sync_completion \<Rightarrow> ACL_vector option \<Rightarrow> Stat option \<Rightarrow> int \<times> ACL_vector option \<times> Stat option" where
  "zoo_get_acl_result sc acl stat =
     (sc_rc sc, (if sc_rc sc = 0 \<and> acl \<noteq> None then sc_acl sc else acl), out_stat sc stat)"

definition zoo_set_acl_begin where
  "zoo_set_acl_begin e xid mem h path version acl =
     sync_begin mem blank_sync (\<lambda>a h. zoo_aset_acl e xid h path version acl SYNCHRONOUS_MARKER a) h"

definition remove_watches_begin where
  "remove_watches_begin e xid mem h path wtype watcher wctx local all =
     (if path = None then Ret (ZBADARGUMENTS, h)
      else sync_begin mem blank_sync
        (\<lambda>a h. aremove_watches e xid h path wtype watcher wctx local SYNCHRONOUS_MARKER a all) h)"

definition zoo_remove_watches_begin where
  "zoo_remove_watches_begin e xid mem h path wtype watcher watcherCtx local =
     remove_watches_begin e xid mem h path wtype watcher watcherCtx local False"

definition zoo_remove_all_watches_begin where
  "zoo_remove_all_watches_begin e xid mem h path wtype local =
     remove_watches_begin e xid mem h path wtype NULL NULL local True"

definition zoo_multi_begin where
  "zoo_multi_begin e xid mem h ops results rs =
     (case mem of None \<Rightarrow> Ret (ZSYSTEMERROR, rs, h)
      | Some a \<Rightarrow>
          bind_exec (zoo_amulti e xid (map_option (\<lambda>zh. zh\<lparr> syncs := (syncs zh)(a \<mapsto> blank_sync) \<rparr>) h) ops results rs
                       SYNCHRONOUS_MARKER a)
           (\<lambda>(rc, rs1, h1). Ret (rc, rs1, if rc = ZOK then h1
                                else map_option (\<lambda>zh. zh\<lparr> syncs := (syncs zh)(a := None) \<rparr>) h1)))"

section \<open>The end of a handle\<close>

text \<open>\<^verbatim>\<open>free_auth_info\<close> and the memory that is given back; the handle itself is freed right after.\<close>

definition destroy :: "env \<Rightarrow> session \<Rightarrow> session exec" where
  "destroy e zh =
     bind_exec (cleanup_bufs e True ZCLOSING zh) (\<lambda>zh1.
       let zh2 = zh1\<lparr> hostname := None \<rparr>;
           zh3 = (if sock zh2 \<noteq> -1 then (close_zsock zh2)\<lparr> addr_cur := zero_addr, zh_state := 0 \<rparr> else zh2)
       in Ret (zh3\<lparr> addrs := the (addrvec_free (Some (addrs zh3))), chroot := None, auth_h := [],
             addrs_old := the (addrvec_free (Some (addrs_old zh3))), addrs_new := the (addrvec_free (Some (addrs_new zh3))) \<rparr>))"

definition wait_for_session_to_be_closed :: "session option \<Rightarrow> int" where
  "wait_for_session_to_be_closed h = (case h of None \<Rightarrow> ZBADARGUMENTS | Some zh \<Rightarrow> ZOK)"

text \<open>
  The first half, which a thread runs that is not the last one inside the client: nobody is left waiting
  for an answer, and the threads are joined.
\<close>

definition close_requests :: "env \<Rightarrow> session \<Rightarrow> session exec" where
  "close_requests e zh = free_completions e True ZCLOSING (zh\<lparr> close_requested := True \<rparr>)"

text \<open>The second half: the server is told, with the polls of the wait as an argument, and the memory is freed.\<close>

definition close_session :: "env \<Rightarrow> i32 \<Rightarrow> (int \<times> int) list \<Rightarrow> session \<Rightarrow> (int \<times> session) exec" where
  "close_session e xid polls zh0 =
     (let zh = zh0\<lparr> close_requested := True \<rparr> in
      bind_exec
        (if \<not> zh_is_connected zh then Ret (ZOK, zh)
         else case new_oarchive e of None \<Rightarrow> UB
          | Some oa \<Rightarrow>
              bind_exec (serialize_RequestHeader (en_mem e) oa (request_header xid ZOO_CLOSE_OP)) (\<lambda>(rc, oa1).
                case (if rc < 0 then (rc, to_send zh)
                      else queue_buffer_bytes e (to_send zh) (get_buffer oa1) (get_buffer_len oa1)) of
                  (rc1, q) \<Rightarrow>
                    if rc1 < 0 then Ret (ZMARSHALLINGERROR, zh\<lparr> to_send := q \<rparr>)
                    else case flush_wait_loop 3000 polls q (net_out zh) of
                      (rc2, q2, w) \<Rightarrow>
                        Ret (if rc2 < 0 then rc2 else wait_for_session_to_be_closed (Some zh),
                             zh\<lparr> to_send := q2, net_out := w \<rparr>)))
       (\<lambda>(rc, zh1). bind_exec (destroy e zh1) (\<lambda>zh2. Ret (rc, zh2))))"

text \<open>\<^verbatim>\<open>busy\<close>: another thread is inside the client, as long as the two threads of the handle run.\<close>

definition zookeeper_close ::
  "env \<Rightarrow> i32 \<Rightarrow> (int \<times> int) list \<Rightarrow> bool \<Rightarrow> session option \<Rightarrow> (int \<times> session option) exec" where
  "zookeeper_close e xid polls busy h =
     (case h of None \<Rightarrow> Ret (ZBADARGUMENTS, None)
      | Some zh \<Rightarrow>
          if busy then bind_exec (close_requests e zh) (\<lambda>zh1. Ret (ZOK, Some zh1))
          else bind_exec (close_session e xid polls zh) (\<lambda>(rc, zh1). Ret (rc, Some zh1)))"

end
