(* ===== verification/Zk_Client.thy ===== *)
theory Zk_Client
  imports Zk_Sync_Api
begin

text \<open>
  The client as its users see it: what the functions of theory Zk_Api do with an accepted request and
  with one that is refused, the numbers of requests, and the requests whose mistakes the code does not
  survive. No definitions of code of its own; \<^verbatim>\<open>request\<close> is the abstract view of a request.
\<close>

section \<open>A request that is accepted\<close>

text \<open>The handle with one more request \<^verbatim>\<open>c\<close> whose packet is \<^verbatim>\<open>b\<close>.\<close>

definition queued :: "completion_list \<Rightarrow> buffer_list \<Rightarrow> session \<Rightarrow> session" where
  "queued c b zh = zh\<lparr> sent_requests := sent_requests zh @ [c],
     outstanding_sync := outstanding_sync zh + (if is_sync c then 1 else 0), to_send := to_send zh @ [b] \<rparr>"

definition request_entry ::
  "i32 \<Rightarrow> int \<Rightarrow> addr \<Rightarrow> addr \<Rightarrow> watcher_registration option \<Rightarrow> watcher_deregistration option \<Rightarrow> completion_entry list \<Rightarrow> completion_list" where
  "request_entry xid ty dc data wo wdo clist = \<lparr> c_xid = xid, c_type = ty, c_dc = dc, c_data = data, c_watcher = wo,
     c_dereg = wdo, c_watchers = None, c_buffer = None, c_clist = clist \<rparr>"

lemma request_entry_sel [simp]:
  "c_xid (request_entry xid ty dc data wo wdo clist) = xid" "c_type (request_entry xid ty dc data wo wdo clist) = ty"
  "c_dc (request_entry xid ty dc data wo wdo clist) = dc" "c_data (request_entry xid ty dc data wo wdo clist) = data"
  "c_watcher (request_entry xid ty dc data wo wdo clist) = wo" "c_dereg (request_entry xid ty dc data wo wdo clist) = wdo"
  "c_clist (request_entry xid ty dc data wo wdo clist) = clist"
  by (simp_all add: request_entry_def)

text \<open>The two steps of \<^verbatim>\<open>queue_request\<close> as one: \<^verbatim>\<open>accepts add c\<close> is a completion function that queues \<^verbatim>\<open>c\<close>.\<close>

definition accepts :: "(session \<Rightarrow> (int \<times> session) exec) \<Rightarrow> completion_list \<Rightarrow> bool" where
  "accepts add c \<longleftrightarrow> (\<forall>zh. \<not> close_requested zh \<longrightarrow>
     add zh = Ret (ZOK, zh\<lparr> sent_requests := sent_requests zh @ [c],
       outstanding_sync := outstanding_sync zh + (if is_sync c then 1 else 0) \<rparr>))"

lemma accepts_plain:
  assumes "env_ok e" "ty \<in> {COMPLETION_VOID, COMPLETION_STRING, COMPLETION_DATA, COMPLETION_STAT, COMPLETION_STRINGLIST,
    COMPLETION_STRINGLIST_STAT, COMPLETION_STRING_STAT, COMPLETION_ACLLIST}"
  shows "accepts (add_plain_completion e ty xid dc data) (request_entry xid ty dc data None None [])"
  using assms by (auto simp: accepts_def add_plain_completion_def add_completion_def do_create_completion_entry_def
      do_add_completion_def request_entry_def)

text \<open>The watch that a request asks for.\<close>

definition registration :: "string \<Rightarrow> (int \<Rightarrow> watch_table option) \<Rightarrow> addr \<Rightarrow> addr \<Rightarrow> watcher_registration option" where
  "registration path checker watcher ctx = (if watcher = NULL then None
     else Some \<lparr> reg_watcher = watcher, reg_context = ctx, reg_checker = checker, reg_path = path \<rparr>)"

lemma accepts_watch:
  assumes "env_ok e" "ty \<in> {COMPLETION_DATA, COMPLETION_STAT, COMPLETION_STRINGLIST, COMPLETION_STRINGLIST_STAT}"
  shows "accepts (add_watch_completion e ty xid dc data path checker watcher ctx)
    (request_entry xid ty dc data (registration path checker watcher ctx) None [])"
  using assms by (auto simp: accepts_def add_watch_completion_def create_watcher_registration_def registration_def add_completion_def
      do_create_completion_entry_def do_add_completion_def request_entry_def)

lemma accepts_multi:
  assumes "env_ok e"
  shows "accepts (add_multi_completion e xid dc data clist) (request_entry xid COMPLETION_MULTI dc data None None clist)"
  using assms by (auto simp: accepts_def add_multi_completion_def add_completion_def
      do_create_completion_entry_def do_add_completion_def request_entry_def)

lemma accepts_dereg:
  assumes "env_ok e"
  shows "accepts (\<lambda>z. add_completion_deregistration e z xid COMPLETION_VOID dc data False wdo None)
    (request_entry xid COMPLETION_VOID dc data None wdo [])"
  using assms by (auto simp: accepts_def add_completion_deregistration_def
      do_create_completion_entry_def do_add_completion_def request_entry_def)

lemma queue_request_spec:
  assumes "env_ok e" "accepts add c" "\<not> close_requested zh"
    and "oa_ok oa" "written oa = msg" "msg \<noteq> []" "length msg \<le> 2 ^ 29"
  obtains b where "queue_request e add (0, oa) zh = Ret (ZOK, queued c b zh)" "fresh_packet msg b"
proof -
  have "written oa \<noteq> []" "length (written oa) < 2 ^ 31" using assms(5-7) by auto
  then obtain b where b: "allocate_buffer (obj_ok (en_alloc e)) (get_buffer oa) (get_buffer_len oa) = Some b" "carries b msg" "bl_off b = 0"
    using allocate_written [OF assms(1,4)] assms(5) by metis
  have "add zh = Ret (ZOK, zh\<lparr> sent_requests := sent_requests zh @ [c],
       outstanding_sync := outstanding_sync zh + (if is_sync c then 1 else 0) \<rparr>)"
    using assms(2,3) unfolding accepts_def by blast
  then have "queue_request e add (0, oa) zh = Ret (ZOK, queued c b zh)"
    using assms(3) by (simp add: queue_request_def queue_buffer_bytes_def b(1) adaptor_send_queue_def queued_def)
  then show thesis using that b(2,3) by (simp add: fresh_packet_def)
qed

lemma submit_spec:
  assumes "env_ok e" "accepts add c" "\<not> close_requested zh" "\<And>oa. puts oa body (ser oa)" "length body \<le> 2 ^ 28"
  obtains b where "submit e xid op ser add zh = Ret (ZOK, queued c b zh)"
    "fresh_packet (enc_RequestHeader (request_header xid op) @ body) b"
proof -
  obtain oa where oa: "new_oarchive e = Some oa" "oa_ok oa" "written oa = []" "bs_off oa = 0" using new_oarchive_ok [OF assms(1)] .
  let ?msg = "enc_RequestHeader (request_header xid op) @ body"
  have l: "length (enc_RequestHeader (request_header xid op)) = 8" by (simp add: enc_RequestHeader_def)
  have "puts oa ?msg (if_ok (serialize_RequestHeader (en_mem e) oa (request_header xid op)) ser)"
    using RequestHeader_total.ser_puts [of "en_mem e"] assms(1,4) by (intro puts_if_ok) (simp_all add: valid_RequestHeader_def)
  then obtain oa' where oa': "if_ok (serialize_RequestHeader (en_mem e) oa (request_header xid op)) ser = Ret (0, oa')"
    "oa_ok oa'" "written oa' = ?msg" using oa l assms(5) by (auto simp: puts_def)
  obtain b where "queue_request e add (0, oa') zh = Ret (ZOK, queued c b zh)" "fresh_packet ?msg b"
    using queue_request_spec [OF assms(1-3) oa'(2,3)] l assms(5) by (auto simp flip: length_0_conv)
  then show thesis using that oa'(1) oa(1) by (simp add: submit_def)
qed

context total_codec
begin

lemma submit_encodes:
  assumes "env_ok e" "accepts add c" "\<not> close_requested zh" "valid v" "length (enc v) \<le> 2 ^ 28"
  obtains b where "submit e xid op (\<lambda>oa. ser (en_mem e) oa v) add zh = Ret (ZOK, queued c b zh)"
    "fresh_packet (enc_RequestHeader (request_header xid op) @ enc v) b"
  using submit_spec [OF assms(1-3), of "enc v" "\<lambda>oa. ser (en_mem e) oa v"] ser_puts [of "en_mem e" v] assms(1,4,5) by auto

end

text \<open>A path that a usable handle accepts, and what it is for the server.\<close>

definition server_path :: "session \<Rightarrow> int \<Rightarrow> string option \<Rightarrow> string \<Rightarrow> bool" where
  "server_path zh mode path p \<longleftrightarrow> 0 \<le> zh_state zh \<and> prepend_string (chroot zh) path = Ret (Some p) \<and>
     isValidPath (Some p) mode \<and> is_cstr p \<and> length p < 2 ^ 27"

lemma with_path_accepted:
  assumes "server_path zh mode path p"
  shows "with_path (Some zh) mode path f = bind_exec (f zh p) (\<lambda>(rc, zh1). Ret (rc, Some zh1))"
  using assms by (simp add: with_path_def server_path_def Request_path_init_def is_unrecoverable_def)

lemma server_path_valid: "server_path zh mode path p \<Longrightarrow> valid_string (Some p)"
  by (simp add: server_path_def valid_string_def)

section \<open>All requests for a path\<close>

text \<open>
  What a client asks for, apart from the path: the abstract view of the functions of theory Zk_Api. A
  watch is a function and its context; \<^verbatim>\<open>Create True\<close> is \<^verbatim>\<open>zoo_acreate2_ttl\<close>.
\<close>

datatype request =
    Get_request addr addr
  | Exists_request addr addr
  | Children_request addr addr
  | Children2_request addr addr
  | Set_request "byte list option" i32 i32
  | Create_request bool "byte list option" i32 ACL_vector int i64
  | Delete_request i32
  | Sync_request
  | Get_acl_request
  | Set_acl_request i32 ACL_vector

fun call_request ::
  "env \<Rightarrow> i32 \<Rightarrow> session option \<Rightarrow> string option \<Rightarrow> addr \<Rightarrow> addr \<Rightarrow> request \<Rightarrow> (int \<times> session option) exec" where
  "call_request e xid h path dc data (Get_request w c) = zoo_awget e xid h path w c dc data"
| "call_request e xid h path dc data (Exists_request w c) = zoo_awexists e xid h path w c dc data"
| "call_request e xid h path dc data (Children_request w c) = zoo_awget_children e xid h path w c dc data"
| "call_request e xid h path dc data (Children2_request w c) = zoo_awget_children2 e xid h path w c dc data"
| "call_request e xid h path dc data (Set_request val len version) = zoo_aset e xid h path val len version dc data"
| "call_request e xid h path dc data (Create_request two val len acl mode ttl) =
     (if two then zoo_acreate2_ttl e xid h path val len (Some acl) mode ttl dc data
      else zoo_acreate_ttl e xid h path val len (Some acl) mode ttl dc data)"
| "call_request e xid h path dc data (Delete_request version) = zoo_adelete e xid h path version dc data"
| "call_request e xid h path dc data Sync_request = zoo_async e xid h path dc data"
| "call_request e xid h path dc data Get_acl_request = zoo_aget_acl e xid h path dc data"
| "call_request e xid h path dc data (Set_acl_request version acl) = zoo_aset_acl e xid h path version (Some acl) dc data"

text \<open>The operation of the protocol, the kind of answer, the bytes behind the header, and the watch.\<close>

fun request_op :: "request \<Rightarrow> int" where
  "request_op (Get_request _ _) = 4"
| "request_op (Exists_request _ _) = 3"
| "request_op (Children_request _ _) = 8"
| "request_op (Children2_request _ _) = 12"
| "request_op (Set_request _ _ _) = 5"
| "request_op (Create_request two _ _ _ mode _) =
     (if mode = 4 then 19 else if mode = 5 \<or> mode = 6 then 21 else if two then 15 else 1)"
| "request_op (Delete_request _) = 2"
| "request_op Sync_request = 9"
| "request_op Get_acl_request = 6"
| "request_op (Set_acl_request _ _) = 7"

fun answer_type :: "request \<Rightarrow> int" where
  "answer_type (Get_request _ _) = COMPLETION_DATA"
| "answer_type (Exists_request _ _) = COMPLETION_STAT"
| "answer_type (Children_request _ _) = COMPLETION_STRINGLIST"
| "answer_type (Children2_request _ _) = COMPLETION_STRINGLIST_STAT"
| "answer_type (Set_request _ _ _) = COMPLETION_STAT"
| "answer_type (Create_request two _ _ _ _ _) = (if two then COMPLETION_STRING_STAT else COMPLETION_STRING)"
| "answer_type (Delete_request _) = COMPLETION_VOID"
| "answer_type Sync_request = COMPLETION_STRING"
| "answer_type Get_acl_request = COMPLETION_ACLLIST"
| "answer_type (Set_acl_request _ _) = COMPLETION_VOID"

fun request_mode :: "request \<Rightarrow> int" where
  "request_mode (Create_request _ _ _ _ mode _) = mode"
| "request_mode _ = 0"

definition enc_data :: "byte list option \<Rightarrow> i32 \<Rightarrow> byte list" where
  "enc_data val len = enc_buffer \<lparr> b_len = len, b_buff = val \<rparr>"

fun request_body :: "string \<Rightarrow> request \<Rightarrow> byte list" where
  "request_body p (Get_request w _) = enc_string (Some p) @ enc_bool (watch_flag w)"
| "request_body p (Exists_request w _) = enc_string (Some p) @ enc_bool (watch_flag w)"
| "request_body p (Children_request w _) = enc_string (Some p) @ enc_bool (watch_flag w)"
| "request_body p (Children2_request w _) = enc_string (Some p) @ enc_bool (watch_flag w)"
| "request_body p (Set_request val len version) = enc_string (Some p) @ enc_data val len @ enc_int version"
| "request_body p (Create_request two val len acl mode ttl) =
     enc_string (Some p) @ enc_data val len @ enc_ACL_vector acl @ enc_int (word_of_int mode) @
     (if mode = 5 \<or> mode = 6 then enc_long ttl else [])"
| "request_body p (Delete_request version) = enc_string (Some p) @ enc_int version"
| "request_body p Sync_request = enc_string (Some p)"
| "request_body p Get_acl_request = enc_string (Some p)"
| "request_body p (Set_acl_request version acl) = enc_string (Some p) @ enc_ACL_vector acl @ enc_int version"

fun request_watch :: "string \<Rightarrow> request \<Rightarrow> watcher_registration option" where
  "request_watch p (Get_request w c) = registration p data_result_checker w c"
| "request_watch p (Exists_request w c) = registration p exists_result_checker w c"
| "request_watch p (Children_request w c) = registration p child_result_checker w c"
| "request_watch p (Children2_request w c) = registration p child_result_checker w c"
| "request_watch p _ = None"

text \<open>
  Lengths are those of the data, and a time to live goes with the modes that have one; the packet stays
  below the bound under which archives cannot overflow.
\<close>

fun request_ok :: "request \<Rightarrow> bool" where
  "request_ok (Set_request val len version) = valid_buffer \<lparr> b_len = len, b_buff = val \<rparr>"
| "request_ok (Create_request two val len acl mode ttl) = (valid_buffer \<lparr> b_len = len, b_buff = val \<rparr> \<and> valid_ACL_vector acl \<and>
     (if mode = 5 \<or> mode = 6 then 0 < sint ttl \<and> sint ttl \<le> 0xFFFFFFFFFF else sint ttl < 0))"
| "request_ok (Set_acl_request version acl) = valid_ACL_vector acl"
| "request_ok _ = True"


lemma watch_flag_valid [simp]: "valid_bool (watch_flag w)"
  by (simp add: watch_flag_def valid_bool_def)

lemma submit_accepted:
  assumes "env_ok e" "\<not> close_requested zh" "accepts add c" "\<And>oa. puts oa body (ser oa)" "length body \<le> 2 ^ 28"
  shows "\<exists>b. bind_exec (submit e xid op ser add zh) (\<lambda>(rc, zh1). Ret (rc, Some zh1)) = Ret (ZOK, Some (queued c b zh)) \<and>
    fresh_packet (enc_RequestHeader (request_header xid op) @ body) b"
  using submit_spec [OF assms(1,3,2,4,5), of xid op] by (metis bind_exec.simps(2) case_prod_conv)


text \<open>What the function of a request serialises and queues.\<close>

fun request_record :: "env \<Rightarrow> string \<Rightarrow> request \<Rightarrow> buff_struct \<Rightarrow> (int \<times> buff_struct) exec" where
  "request_record e p (Get_request w c) = (\<lambda>oa. serialize_GetDataRequest (en_mem e) oa
     \<lparr> GetDataRequest_path = Some p, GetDataRequest_watch = watch_flag w \<rparr>)"
| "request_record e p (Exists_request w c) = (\<lambda>oa. serialize_ExistsRequest (en_mem e) oa
     \<lparr> ExistsRequest_path = Some p, ExistsRequest_watch = watch_flag w \<rparr>)"
| "request_record e p (Children_request w c) = (\<lambda>oa. serialize_GetChildrenRequest (en_mem e) oa
     \<lparr> GetChildrenRequest_path = Some p, GetChildrenRequest_watch = watch_flag w \<rparr>)"
| "request_record e p (Children2_request w c) = (\<lambda>oa. serialize_GetChildren2Request (en_mem e) oa
     \<lparr> GetChildren2Request_path = Some p, GetChildren2Request_watch = watch_flag w \<rparr>)"
| "request_record e p (Set_request val len version) = (\<lambda>oa. serialize_SetDataRequest (en_mem e) oa (SetDataRequest_init p val len version))"
| "request_record e p (Create_request two val len acl mode ttl) = (\<lambda>oa. (if mode = 5 \<or> mode = 6 then serialize_CreateTTLRequest (en_mem e) oa (CreateTTLRequest_init p val len (Some acl) mode ttl)
      else serialize_CreateRequest (en_mem e) oa (CreateRequest_init p val len (Some acl) mode)))"
| "request_record e p (Delete_request version) = (\<lambda>oa. serialize_DeleteRequest (en_mem e) oa (DeleteRequest_init p version))"
| "request_record e p Sync_request = (\<lambda>oa. serialize_SyncRequest (en_mem e) oa \<lparr> SyncRequest_path = Some p \<rparr>)"
| "request_record e p Get_acl_request = (\<lambda>oa. serialize_GetACLRequest (en_mem e) oa \<lparr> GetACLRequest_path = Some p \<rparr>)"
| "request_record e p (Set_acl_request version acl) = (\<lambda>oa. serialize_SetACLRequest (en_mem e) oa
     \<lparr> SetACLRequest_path = Some p, SetACLRequest_acl = acl, SetACLRequest_version = version \<rparr>)"

fun request_add :: "env \<Rightarrow> i32 \<Rightarrow> string \<Rightarrow> addr \<Rightarrow> addr \<Rightarrow> request \<Rightarrow> session \<Rightarrow> (int \<times> session) exec" where
  "request_add e xid p dc data (Get_request w c) = add_watch_completion e COMPLETION_DATA xid dc data p data_result_checker w c"
| "request_add e xid p dc data (Exists_request w c) = add_watch_completion e COMPLETION_STAT xid dc data p exists_result_checker w c"
| "request_add e xid p dc data (Children_request w c) = add_watch_completion e COMPLETION_STRINGLIST xid dc data p child_result_checker w c"
| "request_add e xid p dc data (Children2_request w c) =
     add_watch_completion e COMPLETION_STRINGLIST_STAT xid dc data p child_result_checker w c"
| "request_add e xid p dc data r = add_plain_completion e (answer_type r) xid dc data"

lemma request_puts:
  assumes "env_ok e" "valid_string (Some p)" "request_ok r"
  shows "puts oa (request_body p r) (request_record e p r oa)"
proof -
  have m: "en_mem e n" for n using assms(1) by simp
  note defs = valid_GetDataRequest_def enc_GetDataRequest_def valid_ExistsRequest_def enc_ExistsRequest_def
    valid_GetChildrenRequest_def enc_GetChildrenRequest_def valid_GetChildren2Request_def enc_GetChildren2Request_def
    valid_SetDataRequest_def enc_SetDataRequest_def valid_CreateRequest_def enc_CreateRequest_def
    valid_CreateTTLRequest_def enc_CreateTTLRequest_def valid_DeleteRequest_def enc_DeleteRequest_def
    valid_SyncRequest_def enc_SyncRequest_def valid_GetACLRequest_def enc_GetACLRequest_def valid_SetACLRequest_def enc_SetACLRequest_def
    SetDataRequest_init_def CreateRequest_init_def CreateTTLRequest_init_def DeleteRequest_init_def enc_data_def acl_or_empty_def
  note puts = GetDataRequest_total.ser_puts [OF m, where v = "\<lparr> GetDataRequest_path = a, GetDataRequest_watch = b \<rparr>" for a b]
    ExistsRequest_total.ser_puts [OF m, where v = "\<lparr> ExistsRequest_path = a, ExistsRequest_watch = b \<rparr>" for a b]
    GetChildrenRequest_total.ser_puts [OF m, where v = "\<lparr> GetChildrenRequest_path = a, GetChildrenRequest_watch = b \<rparr>" for a b]
    GetChildren2Request_total.ser_puts [OF m, where v = "\<lparr> GetChildren2Request_path = a, GetChildren2Request_watch = b \<rparr>" for a b]
    SetDataRequest_total.ser_puts [OF m, where v = "\<lparr> SetDataRequest_path = a, SetDataRequest_data = b, SetDataRequest_version = c \<rparr>" for a b c]
    CreateRequest_total.ser_puts [OF m, where v = "\<lparr> CreateRequest_path = a, CreateRequest_data = b, CreateRequest_acl = c, CreateRequest_flags = d \<rparr>" for a b c d]
    CreateTTLRequest_total.ser_puts [OF m, where v = "\<lparr> CreateTTLRequest_path = a, CreateTTLRequest_data = b, CreateTTLRequest_acl = c, CreateTTLRequest_flags = d, CreateTTLRequest_ttl = f \<rparr>" for a b c d f]
    DeleteRequest_total.ser_puts [OF m, where v = "\<lparr> DeleteRequest_path = a, DeleteRequest_version = b \<rparr>" for a b]
    SyncRequest_total.ser_puts [OF m, where v = "\<lparr> SyncRequest_path = a \<rparr>" for a]
    GetACLRequest_total.ser_puts [OF m, where v = "\<lparr> GetACLRequest_path = a \<rparr>" for a]
    SetACLRequest_total.ser_puts [OF m, where v = "\<lparr> SetACLRequest_path = a, SetACLRequest_acl = b, SetACLRequest_version = c \<rparr>" for a b c]
  from assms(2,3) show ?thesis
    by (cases r) (auto intro!: puts [unfolded defs, simplified] simp: defs)
qed

lemma request_accepts:
  assumes "env_ok e"
  shows "accepts (request_add e xid p dc data r) (request_entry xid (answer_type r) dc data (request_watch p r) None [])"
  by (cases r) (simp_all add: accepts_watch [OF assms] accepts_plain [OF assms])

text \<open>Every function submits its record behind the check of the path.\<close>

lemma call_request_submits:
  assumes "server_path zh (request_mode r) path p" "request_ok r"
  shows "call_request e xid (Some zh) path dc data r =
    bind_exec (submit e xid (request_op r) (request_record e p r) (request_add e xid p dc data r) zh) (\<lambda>(rc, zh1). Ret (rc, Some zh1))"
proof -
  note w = with_path_accepted [OF assms(1)]
  show ?thesis
  proof (cases r)
    case (Create_request two val len acl mode ttl)
    have "get_create_op_type mode (if two then ZOO_CREATE2_OP else ZOO_CREATE_OP) = request_op r"
      "ZOOKEEPER_IS_TTL mode \<longleftrightarrow> mode = 5 \<or> mode = 6"
      by (auto simp: Create_request get_create_op_type_def ZOOKEEPER_IS_TTL_def)
    moreover have "call_request e xid (Some zh) path dc data r =
        create_body e (if two then ZOO_CREATE2_OP else ZOO_CREATE_OP) (answer_type r) xid (Some zh) path val len (Some acl) mode ttl dc data"
      by (simp add: Create_request zoo_acreate_ttl_def zoo_acreate2_ttl_def)
    ultimately show ?thesis using w assms(2) unfolding create_body_def
      by (cases "mode = 5 \<or> mode = 6") (simp_all add: Create_request ZOO_MAX_TTL_def)
  qed (use w in \<open>simp_all add: zoo_awget_def zoo_awexists_def zoo_awget_children_def zoo_awget_children2_def zoo_aset_def
      zoo_adelete_def zoo_async_def zoo_aget_acl_def zoo_aset_acl_def\<close>)
qed

lemma request_queued:
  assumes "env_ok e" "\<not> close_requested zh" "server_path zh (request_mode r) path p" "request_ok r"
    and "length (request_body p r) \<le> 2 ^ 28"
  shows "\<exists>b. call_request e xid (Some zh) path dc data r =
      Ret (ZOK, Some (queued (request_entry xid (answer_type r) dc data (request_watch p r) None []) b zh)) \<and>
    fresh_packet (enc_RequestHeader (request_header xid (request_op r)) @ request_body p r) b"
  unfolding call_request_submits [OF assms(3,4)]
  by (rule submit_accepted [OF assms(1,2) request_accepts [OF assms(1)]
        request_puts [OF assms(1) server_path_valid [OF assms(3)] assms(4)] assms(5)])

text \<open>
  Property C14: every request for a path that a usable handle accepts returns \<^verbatim>\<open>ZOK\<close> and has queued exactly one entry,
  with the function, the data and the watch of the caller and the kind of answer to expect, and exactly
  one packet, whose bytes are the header with the same number and the arguments under the path for the
  server; nothing else of the handle changes.
\<close>

theorem requests_queue_packet:
  assumes "env_ok e" "\<not> close_requested zh" "server_path zh (request_mode r) path p" "request_ok r"
    and "length (request_body p r) \<le> 2 ^ 28"
  shows "\<exists>b. call_request e xid (Some zh) path dc data r =
      Ret (ZOK, Some (queued (request_entry xid (answer_type r) dc data (request_watch p r) None []) b zh)) \<and>
    fresh_packet (enc_RequestHeader (request_header xid (request_op r)) @ request_body p r) b"
  by (rule request_queued [OF assms])

theorem requests_queue_packet_witness:
  "\<forall>ht. \<exists>b. zoo_awget example_env 7 (Some (example_handle ht)) (Some ''/a'') 1 2 9 90 =
      Ret (ZOK, Some (queued (request_entry 7 COMPLETION_DATA 9 90
        (Some \<lparr> reg_watcher = 1, reg_context = 2, reg_checker = data_result_checker, reg_path = ''/a'' \<rparr>) None []) b (example_handle ht))) \<and>
    fresh_packet [0, 0, 0, 7, 0, 0, 0, 4, 0, 0, 0, 2, 47, 97, 1] b"
proof
  fix ht
  have "isValidPath (Some ''/a'') 0" by code_simp
  then have p: "server_path (example_handle ht) (request_mode (Get_request 1 2)) (Some ''/a'') ''/a''"
    by (simp add: server_path_def prepend_string_def is_cstr_def NUL_def example_handle_def new_handle_def)
  have c: "\<not> close_requested (example_handle ht)" by (simp add: example_handle_def new_handle_def)
  have l: "length (request_body ''/a'' (Get_request 1 2)) \<le> 2 ^ 28" by (simp add: enc_string_def bytes_of_string_def)
  have b: "enc_RequestHeader (request_header 7 4) @ enc_string (Some ''/a'') @ enc_bool (watch_flag 1) =
      [0, 0, 0, 7, 0, 0, 0, 4, 0, 0, 0, 2, 47, 97, 1]" by code_simp
  show "\<exists>b. zoo_awget example_env 7 (Some (example_handle ht)) (Some ''/a'') 1 2 9 90 =
      Ret (ZOK, Some (queued (request_entry 7 COMPLETION_DATA 9 90
        (Some \<lparr> reg_watcher = 1, reg_context = 2, reg_checker = data_result_checker, reg_path = ''/a'' \<rparr>) None []) b (example_handle ht))) \<and>
    fresh_packet [0, 0, 0, 7, 0, 0, 0, 4, 0, 0, 0, 2, 47, 97, 1] b"
    using requests_queue_packet [OF example_env_ok c p _ l, of 7 9 90] b by (simp add: registration_def)
qed

section \<open>The numbers of requests\<close>

text \<open>The counter after \<^verbatim>\<open>n\<close> requests; \<^verbatim>\<open>now\<close> is what the clock showed at each.\<close>

fun xid_counter :: "(nat \<Rightarrow> i32) \<Rightarrow> i32 \<Rightarrow> nat \<Rightarrow> i32" where
  "xid_counter now x 0 = x"
| "xid_counter now x (Suc n) = snd (get_xid (now n) (xid_counter now x n))"

definition nth_xid :: "(nat \<Rightarrow> i32) \<Rightarrow> i32 \<Rightarrow> nat \<Rightarrow> i32" where
  "nth_xid now x n = fst (get_xid (now n) (xid_counter now x n))"

lemma unat_add_small: "unat (t :: i32) + n < 2 ^ 32 \<Longrightarrow> unat (t + word_of_nat n) = unat t + n"
  by (simp add: unat_word_ariths unat_of_nat)

lemma unat_minus_one: "unat (-1 :: i32) = 2 ^ 32 - 1"
  by (simp add: unat_eq_nat_uint unsigned_minus_1_eq_mask mask_eq_exp_minus_1)

lemma xid_not_minus_one: "unat (x :: i32) < 2 ^ 32 - 1 \<Longrightarrow> x \<noteq> -1"
  by (auto simp: unat_minus_one)

lemma xid_counter_runs: "unat t + n \<le> 2 ^ 32 - 1 \<Longrightarrow> xid_counter now t n = t + word_of_nat n"
proof (induction n)
  case (Suc n)
  have "unat (t + word_of_nat n) < 2 ^ 32 - 1" using unat_add_small [of t n] Suc.prems by simp
  then have "t + word_of_nat n \<noteq> -1" by (rule xid_not_minus_one)
  then show ?case using Suc by (simp add: get_xid_def Let_def)
qed simp

lemma nth_xid_runs:
  assumes "unat t + n < 2 ^ 32 - 1"
  shows "nth_xid now t n = t + word_of_nat n"
proof -
  have "unat (t + word_of_nat n) < 2 ^ 32 - 1" using unat_add_small [of t n] assms by simp
  then have "t + word_of_nat n \<noteq> -1" by (rule xid_not_minus_one)
  then show ?thesis using assms xid_counter_runs [of t n now] by (simp add: nth_xid_def get_xid_def Let_def)
qed

lemma out_of_band_high: "x \<in> out_of_band \<Longrightarrow> 2 ^ 32 - 8 \<le> unat x"
  by (auto simp: out_of_band_def unat_minus_one)

text \<open>
  Property C39: the numbers count up from the time the program was started: they are all different and none is one that
  the protocol reserves, for as long as the counter has not reached the last eight values of an int; then
  a request gets the number of the watches that are set again, whose replies are dropped.
\<close>

theorem xids_distinct_until_wrap:
  shows "inj_on (nth_xid now t) {n. unat t + n < 2 ^ 32 - 8} \<and>
    (\<forall>n. unat t + n < 2 ^ 32 - 8 \<longrightarrow> nth_xid now t n \<notin> out_of_band) \<and>
    (unat t \<le> 2 ^ 32 - 8 \<longrightarrow> nth_xid now t (2 ^ 32 - 8 - unat t) = word_of_int SET_WATCHES_XID)"
proof -
  have u: "unat (nth_xid now t n) = unat t + n" if "unat t + n < 2 ^ 32 - 8" for n
    using that nth_xid_runs [of t n now] unat_add_small [of t n] by simp
  have "inj_on (nth_xid now t) {n. unat t + n < 2 ^ 32 - 8}"
    by (rule inj_onI) (metis (mono_tags, lifting) add_left_cancel mem_Collect_eq u)
  moreover have "nth_xid now t n \<notin> out_of_band" if "unat t + n < 2 ^ 32 - 8" for n
    using u [OF that] out_of_band_high [of "nth_xid now t n"] that by linarith
  moreover have "nth_xid now t (2 ^ 32 - 8 - unat t) = word_of_int SET_WATCHES_XID" if "unat t \<le> 2 ^ 32 - 8"
  proof -
    have "nth_xid now t (2 ^ 32 - 8 - unat t) = t + word_of_nat (2 ^ 32 - 8 - unat t)"
      using that by (intro nth_xid_runs) simp
    then have "unat (nth_xid now t (2 ^ 32 - 8 - unat t)) = 2 ^ 32 - 8"
      using that unat_add_small [of t "2 ^ 32 - 8 - unat t"] by simp
    then show ?thesis by (intro word_unat_eq_iff [THEN iffD2]) simp
  qed
  ultimately show ?thesis by blast
qed

theorem xids_distinct_until_wrap_witness:
  "nth_xid (\<lambda>n. of_nat n) 7 2 \<noteq> nth_xid (\<lambda>n. of_nat n) 7 5 \<and> nth_xid (\<lambda>n. of_nat n) 7 5 \<notin> out_of_band \<and>
    nth_xid (\<lambda>n. of_nat n) 7 (2 ^ 32 - 15) = word_of_int SET_WATCHES_XID"
proof -
  let ?now = "\<lambda>n. of_nat n :: i32"
  have i: "inj_on (nth_xid ?now 7) {n. unat (7 :: i32) + n < 2 ^ 32 - 8}" and
    o: "\<And>n. unat (7 :: i32) + n < 2 ^ 32 - 8 \<Longrightarrow> nth_xid ?now 7 n \<notin> out_of_band" and
    w: "nth_xid ?now 7 (2 ^ 32 - 8 - unat (7 :: i32)) = word_of_int SET_WATCHES_XID"
    using xids_distinct_until_wrap [of ?now 7] by simp_all
  show ?thesis using inj_onD [OF i, of 2 5] o [of 5] w by auto
qed

section \<open>Requests that are refused\<close>

lemma call_request_null: "call_request e xid None path dc data r = Ret (ZBADARGUMENTS, None)"
  if "request_ok r"
  using that by (cases r) (auto simp: zoo_awget_def zoo_awexists_def zoo_awget_children_def zoo_awget_children2_def zoo_aset_def
      zoo_adelete_def zoo_async_def zoo_aget_acl_def zoo_aset_acl_def with_path_def zoo_acreate_ttl_def zoo_acreate2_ttl_def
      create_body_def ZOOKEEPER_IS_TTL_def)

lemma with_path_refused:
  assumes "prepend_string (chroot zh) path = Ret p" "\<not> isValidPath p mode \<or> zh_state zh < 0"
  shows "with_path (Some zh) mode path f = Ret (if isValidPath p mode then ZINVALIDSTATE else ZBADARGUMENTS, Some zh)"
  using assms by (auto simp: with_path_def Request_path_init_def is_unrecoverable_def)

text \<open>The path is checked before the state of the session, and a request that is refused changes nothing.\<close>

theorem requests_refused:
  assumes "request_ok r" "prepend_string (chroot zh) path = Ret p" "\<not> isValidPath p (request_mode r) \<or> zh_state zh < 0"
  shows "call_request e xid (Some zh) path dc data r =
      Ret (if isValidPath p (request_mode r) then ZINVALIDSTATE else ZBADARGUMENTS, Some zh) \<and>
    call_request e xid None path dc data r = Ret (ZBADARGUMENTS, None)"
proof -
  note w = with_path_refused [OF assms(2,3)]
  have "call_request e xid (Some zh) path dc data r =
      Ret (if isValidPath p (request_mode r) then ZINVALIDSTATE else ZBADARGUMENTS, Some zh)"
  proof (cases r)
    case (Create_request two val len acl mode ttl)
    then show ?thesis using w assms(1)
      by (cases "mode = 5 \<or> mode = 6")
        (auto simp: zoo_acreate_ttl_def zoo_acreate2_ttl_def create_body_def ZOOKEEPER_IS_TTL_def ZOO_MAX_TTL_def)
  qed (use w in \<open>simp_all add: zoo_awget_def zoo_awexists_def zoo_awget_children_def zoo_awget_children2_def zoo_aset_def
      zoo_adelete_def zoo_async_def zoo_aget_acl_def zoo_aset_acl_def\<close>)
  then show ?thesis using call_request_null [OF assms(1)] by blast
qed

theorem requests_refused_witness:
  "\<forall>ht. call_request example_env 7 (Some ((example_handle ht)\<lparr> zh_state := ZOO_EXPIRED_SESSION_STATE \<rparr>)) (Some ''/a'') 9 90 Sync_request =
    Ret (ZINVALIDSTATE, Some ((example_handle ht)\<lparr> zh_state := ZOO_EXPIRED_SESSION_STATE \<rparr>))"
proof
  fix ht
  let ?zh = "(example_handle ht)\<lparr> zh_state := ZOO_EXPIRED_SESSION_STATE \<rparr>"
  have "prepend_string (chroot ?zh) (Some ''/a'') = Ret (Some ''/a'')" "zh_state ?zh < 0"
    by (simp_all add: prepend_string_def example_handle_def new_handle_def)
  moreover have "isValidPath (Some ''/a'') 0" by code_simp
  ultimately show "call_request example_env 7 (Some ?zh) (Some ''/a'') 9 90 Sync_request = Ret (ZINVALIDSTATE, Some ?zh)"
    using requests_refused [of Sync_request ?zh "Some ''/a''" "Some ''/a''" example_env 7 9 90] by simp
qed

section \<open>Removing watches without the server\<close>

text \<open>
  Asked to remove watches locally, the asynchronous functions wake the caller of a synchronous request,
  which they take the data of the user for: unless such a request happens to be at that address, the
  behaviour is undefined, after the watches have been removed.
\<close>

theorem async_local_removal_undefined:
  assumes "prepend_string (chroot zh) path = Ret (Some p)" "isValidPath (Some p) 0"
    and "pathHasWatcher zh p wtype watcher ctx" "syncs zh data = None"
  shows "zoo_aremove_watches e xid (Some zh) path wtype watcher ctx True completion data = UB"
proof -
  have "syncs (removeWatchers zh p wtype watcher ctx) = syncs zh"
    using removeWatchers_rewatched [of zh p wtype watcher ctx] by (auto simp: rewatched_def)
  then show ?thesis using assms
    by (simp add: zoo_aremove_watches_def aremove_watches_def notify_sync_completion_def)
qed

text \<open>A handle on which a watch has been set and the request for it answered.\<close>

lemma watched_handle:
  obtains zh :: session where "chroot zh = None" "pathHasWatcher zh ''/a'' ZWATCHTYPE_DATA 1 2" "syncs zh 90 = None" "syncs zh 100 = Some blank_sync"
proof -
  obtain ht where ht: "session_inv (example_handle ht)" "entries ht = []" "\<And>t. get_table (example_handle ht) t = ht"
    using example_tables by metis
  let ?r = "\<lparr> reg_watcher = 1, reg_context = 2, reg_checker = data_result_checker, reg_path = ''/a'' \<rparr>"
  have w: "watch_ok (example_handle ht)" "watch_space (Suc 0) (example_handle ht)"
    using ht(1) unfolding session_inv_def watch_space_def ht(2,3) by simp_all
  have c: "reg_checker ?r ZOK = Some NodeT" by (simp add: data_result_checker_def)
  from activate_ready [OF example_env_ok w, of "Some ?r" ZOK] obtain zh where
    a: "activateWatcher (en_alloc example_env) (example_handle ht) (Some ?r) ZOK = Ret zh" "rewatched (example_handle ht) zh" "watch_ok zh" .
  note t = activateWatcher_table [OF w(1) watch_space_room [OF w(2)] a(1) c]
  have "\<lparr> wo_watcher = 1, wo_context = 2 \<rparr> \<in> registered zh NodeT ''/a''" unfolding t(2) by simp
  then have p: "pathHasWatcher zh ''/a'' ZWATCHTYPE_DATA 1 2"
    using watch_ok_get [OF t(1)] by (auto simp: pathHasWatcher_def Let_def containsWatcher_iff)
  have "chroot zh = None" "syncs zh = [100 \<mapsto> blank_sync]"
    using a(2) by (auto simp: rewatched_def example_handle_def new_handle_def)
  then show thesis using that p by simp
qed

theorem async_local_removal_undefined_witness:
  "\<exists>zh. zoo_aremove_watches example_env 7 (Some zh) (Some ''/a'') ZWATCHTYPE_DATA 1 2 True 9 90 = UB"
proof -
  obtain zh :: session where zh: "chroot zh = None" "pathHasWatcher zh ''/a'' ZWATCHTYPE_DATA 1 2" "syncs zh 90 = None"
    "syncs zh 100 = Some blank_sync" using watched_handle .
  have "prepend_string (chroot zh) (Some ''/a'') = Ret (Some ''/a'')" using zh(1) by (simp add: prepend_string_def)
  moreover have "isValidPath (Some ''/a'') 0" by code_simp
  ultimately show ?thesis by (intro exI [of _ zh] async_local_removal_undefined [OF _ _ zh(2,3)])
qed

section \<open>Multi requests with a path that is refused\<close>

text \<open>
  A path that is refused in a multi request is not reported as such: with a chroot the path is freed
  twice; without one the loop goes on, and an operation behind it frees a path that was never set; only
  when it is the last operation a code is returned, which is that of a marshalling error.
\<close>

theorem multi_bad_path:
  assumes "env_ok e" "\<not> close_requested zh" "prepend_string (chroot zh) (do_path d) = Ret p" "\<not> isValidPath p 0"
  shows "zoo_amulti e xid (Some zh) [Delete_op d] results [r] dc data =
      (if chroot zh = None then Ret (ZMARSHALLINGERROR, [r], Some zh) else UB) \<and>
    zoo_amulti e xid (Some zh) [Delete_op d, Delete_op d'] results [r, r'] dc data = UB"
proof -
  obtain oa where oa: "new_oarchive e = Some oa" "oa_ok oa" "written oa = []" "bs_off oa = 0" using new_oarchive_ok [OF assms(1)] .
  have m: "en_mem e n" for n using assms(1) by simp
  obtain oa1 where o1: "serialize_RequestHeader (en_mem e) oa (request_header xid ZOO_MULTI_OP) = Ret (0, oa1)" "oa_ok oa1"
    "written oa1 = enc_RequestHeader (request_header xid ZOO_MULTI_OP)"
    using RequestHeader_total.ser_returns [of "en_mem e", OF m _ oa(2), where v = "request_header xid ZOO_MULTI_OP"] oa(3,4)
    by (auto simp: valid_RequestHeader_def enc_RequestHeader_def)
  have b: "bs_off oa1 = 8" using written_length [OF o1(2)] o1(3) by (simp add: enc_RequestHeader_def)
  let ?mh = "\<lparr> MultiHeader_type = 2, MultiHeader_done = 0, MultiHeader_err = -1 \<rparr>"
  obtain oa2 where o2: "serialize_MultiHeader (en_mem e) oa1 ?mh = Ret (0, oa2)"
    using MultiHeader_total.ser_returns [of "en_mem e", OF m _ o1(2), where v = ?mh] b by (auto simp: valid_MultiHeader_def enc_MultiHeader_def valid_bool_def)
  have req: "multi_request zh 0 (do_path d) ser (0, oa2) = (if chroot zh = None then Ret (ZBADARGUMENTS, oa2) else UB)" for ser
    using assms(3,4) by (simp add: multi_request_def Request_path_init_def)
  have en: "\<exists>c. op_result_entry e xid ty fn a = Ret c" if "ty \<noteq> COMPLETION_MULTI" for ty fn a
    using assms(1) that by (auto simp: op_result_entry_def do_create_completion_entry_def)
  obtain c where c: "op_result_entry e xid COMPLETION_VOID op_result_void_fn (result_addr results 0) = Ret c" using en by force
  have first: "multi_op e zh xid (result_addr results 0) (Delete_op d) (0, oa1) r =
      (if chroot zh = None then Ret (Some ((ZBADARGUMENTS, oa2), r, c)) else UB)"
    using o2 c by (simp add: multi_op_def req Let_def del: bind_exec_Ret_iff)
  have second: "multi_op e zh xid a (Delete_op d') (ZBADARGUMENTS, oa2) r' = UB" for a
    by (simp add: multi_op_def multi_request_def Let_def)
  show ?thesis using oa(1) o1(1) assms(2)
    by (simp add: zoo_amulti_def first second [simplified] queue_request_def adaptor_send_queue_def del: bind_exec_Ret_iff)
qed


theorem multi_bad_path_witness:
  "\<forall>ht. zoo_amulti example_env 7 (Some (example_handle ht)) [Delete_op \<lparr> do_path = Some ''a'', do_version = 0 \<rparr>] 1000
      [\<lparr> or_err = 0, or_value = None, or_valuelen = 0, or_stat = None \<rparr>] 9 90 =
    Ret (ZMARSHALLINGERROR, [\<lparr> or_err = 0, or_value = None, or_valuelen = 0, or_stat = None \<rparr>], Some (example_handle ht))"
proof
  fix ht
  let ?d = "\<lparr> do_path = Some ''a'', do_version = 0 \<rparr>" and ?zh = "example_handle ht"
  let ?r = "\<lparr> or_err = 0, or_value = None, or_valuelen = 0, or_stat = None \<rparr>"
  have p: "\<not> close_requested ?zh" "prepend_string (chroot ?zh) (do_path ?d) = Ret (Some ''a'')" "chroot ?zh = None"
    by (simp_all add: prepend_string_def example_handle_def new_handle_def)
  have v: "\<not> isValidPath (Some ''a'') 0" by code_simp
  show "zoo_amulti example_env 7 (Some ?zh) [Delete_op ?d] 1000 [?r] 9 90 = Ret (ZMARSHALLINGERROR, [?r], Some ?zh)"
    using multi_bad_path [OF example_env_ok p(1,2) v, of 7 1000 ?r 9 90] p(3) by simp
qed

end
