(* ===== verification/Zk_Runs.thy ===== *)
theory Zk_Runs
  imports Zk_Client
begin

text \<open>
  The client in motion: all runs of its threads as an inductive relation with their invariant, the way
  of a request from the call to the answer, and the end of a handle. No definitions of code of its own.
\<close>

section \<open>Packets and requests keep step\<close>

definition packet_xid :: "byte list \<Rightarrow> i32" where
  "packet_xid bs = htonl (word32 (take 4 bs))"

lemma packet_xid_request [simp]: "packet_xid (enc_RequestHeader (request_header xid op) @ body) = xid"
proof -
  have "htonl (word32 (enc_int xid)) = xid" by (simp add: enc_int_def flip: htonl_bytes)
  then show ?thesis by (simp add: packet_xid_def enc_RequestHeader_def request_header_def)
qed






section \<open>Requests\<close>



lemma session_inv_queued:
  assumes "session_inv zh" "is_sync c \<longrightarrow> syncs zh (c_data c) \<noteq> None"
  shows "session_inv (queued c b zh)"
  using assms by (auto simp: session_inv_def queued_def has_caller_def watch_ok_def)





section \<open>The threads of the client\<close>










lemma close_requests_spec:
  assumes "env_ok e" "session_inv zh"
  obtains replies where "list_all2 (failed_reply ZCLOSING) (filter is_async (sent_requests zh)) replies"
    "close_requests e zh = Ret (zh\<lparr> close_requested := True, sent_requests := [],
       completions_to_process := completions_to_process zh @ replies, outstanding_sync := 0,
       syncs := failed_syncs ZCLOSING (sent_requests zh) (syncs zh),
       auth_h := auths_called (auth_h zh), calls := calls zh @ auth_calls ZCLOSING (auth_h zh) \<rparr>)"
proof -
  let ?zh = "zh\<lparr> close_requested := True, sent_requests := [] \<rparr>"
  have c: "has_caller (sent_requests zh) (syncs ?zh)" "outstanding_sync zh = int (length (filter is_sync (sent_requests zh)))"
    using assms(2) by (simp_all add: session_inv_def)
  obtain replies where r: "list_all2 (failed_reply ZCLOSING) (filter is_async (sent_requests zh)) replies"
    "free_requests e True ZCLOSING (sent_requests zh) ?zh = Ret (?zh\<lparr> completions_to_process := completions_to_process ?zh @ replies,
      outstanding_sync := outstanding_sync ?zh - int (length (filter is_sync (sent_requests zh))),
      syncs := failed_syncs ZCLOSING (sent_requests zh) (syncs ?zh) \<rparr>)"
    using free_requests_spec [OF assms(1) c(1), of ZCLOSING] by blast
  then have "close_requests e zh = Ret (zh\<lparr> close_requested := True, sent_requests := [],
       completions_to_process := completions_to_process zh @ replies, outstanding_sync := 0,
       syncs := failed_syncs ZCLOSING (sent_requests zh) (syncs zh),
       auth_h := auths_called (auth_h zh), calls := calls zh @ auth_calls ZCLOSING (auth_h zh) \<rparr>)"
    using c(2) by (simp add: close_requests_def free_completions_def call_auth_completions_eq)
  with r(1) show thesis by (rule that)
qed



section \<open>All runs of a client\<close>




definition fresh_handle :: "session \<Rightarrow> bool" where
  "fresh_handle zh \<longleftrightarrow> session_inv zh \<and> to_send zh = [] \<and> sent_requests zh = [] \<and> (\<forall>a. syncs zh a = None)"




text \<open>A connected handle on which nothing has been asked for yet.\<close>

definition idle_handle :: "zk_hashtable \<Rightarrow> session" where
  "idle_handle ht = (example_handle ht)\<lparr> sent_requests := [], outstanding_sync := 0, syncs := (\<lambda>_. None) \<rparr>"

lemma idle_handle_facts [simp]:
  "sent_requests (idle_handle ht) = []" "to_send (idle_handle ht) = []" "chroot (idle_handle ht) = None"
  "close_requested (idle_handle ht) = False" "zh_state (idle_handle ht) = ZOO_CONNECTED_STATE" "syncs (idle_handle ht) a = None"
  "completions_to_process (idle_handle ht) = []" "calls (idle_handle ht) = []" "get_table (idle_handle ht) t = get_table (example_handle ht) t"
  by (cases t; simp add: idle_handle_def example_handle_def new_handle_def get_table_def)+

lemma idle_fresh: "session_inv (example_handle ht) \<Longrightarrow> fresh_handle (idle_handle ht)"
  using idle_handle_facts(2) [of ht]
  by (auto simp: fresh_handle_def session_inv_def idle_handle_def watch_ok_def has_caller_def)

lemma idle_path: "server_path (idle_handle ht) 0 (Some ''/a'') ''/a''"
proof -
  have "isValidPath (Some ''/a'') 0" by code_simp
  then show ?thesis by (simp add: server_path_def prepend_string_def is_cstr_def NUL_def)
qed


section \<open>From a request to its answer\<close>

lemma get_table_queued [simp]: "get_table (queued c b zh) t = get_table zh t"
  by (simp add: queued_def)

text \<open>A packet with a successful answer, as it is received.\<close>

definition answer_packet :: "i32 \<Rightarrow> i64 \<Rightarrow> byte list \<Rightarrow> buffer_list" where
  "answer_packet xid zxid body = (let m = enc_ReplyHeader \<lparr> ReplyHeader_xid = xid, ReplyHeader_zxid = zxid, ReplyHeader_err = 0 \<rparr> @ body in
     \<lparr> bl_buffer = Some m, bl_len = word_of_nat (length m), bl_off = int (length m) + 4 \<rparr>)"

lemma answer_packet_reply:
  assumes "length body < 2 ^ 30"
  shows "reply_packet (answer_packet xid zxid body) \<lparr> ReplyHeader_xid = xid, ReplyHeader_zxid = zxid, ReplyHeader_err = 0 \<rparr>"
  using assms by (auto simp: reply_packet_def answer_packet_def Let_def)

text \<open>The completion thread reads the header of such a packet and is left with an archive of its body.\<close>

lemma answer_packet_read:
  assumes "env_ok e" "length body < 2 ^ 30" "b = answer_packet xid zxid body"
  obtains ia where "read_header e (new_iarchive e (bl_buffer b) (sint (bl_len b))) =
      Ret (\<lparr> ReplyHeader_xid = xid, ReplyHeader_zxid = zxid, ReplyHeader_err = 0 \<rparr>, ia)" "ia_ok ia" "remaining ia = body"
proof -
  let ?h = "\<lparr> ReplyHeader_xid = xid, ReplyHeader_zxid = zxid, ReplyHeader_err = 0 \<rparr>"
  have l: "sint (bl_len b) = int (16 + length body)"
    using assms(2) sint_i32_of_nat [of "16 + length body"] unfolding assms(3) by (simp add: answer_packet_def Let_def)
  have "read_header e (new_iarchive e (bl_buffer b) (sint (bl_len b))) =
      Ret (?h, \<lparr> bs_len = sint (bl_len b), bs_off = 16, bs_buffer = bl_buffer b \<rparr>)"
    using read_header_prefix [OF assms(1), of "sint (bl_len b)" ?h body] l assms(2,3) by (simp add: answer_packet_def Let_def)
  moreover have "ia_ok \<lparr> bs_len = sint (bl_len b), bs_off = 16, bs_buffer = bl_buffer b \<rparr>"
    "remaining \<lparr> bs_len = sint (bl_len b), bs_off = 16, bs_buffer = bl_buffer b \<rparr> = body"
    using l assms(2,3) by (auto simp: ia_ok_def remaining_def answer_packet_def Let_def)
  ultimately show thesis by (rule that)
qed

text \<open>
  A reply activates the watch of its request: in the table that the code of the reply selects, under the
  path for the server.
\<close>

definition watched_by :: "watcher_registration option \<Rightarrow> int \<Rightarrow> watch_table \<Rightarrow> string \<Rightarrow> watcher_object set" where
  "watched_by wo rc t q = (case wo of None \<Rightarrow> {} | Some r \<Rightarrow>
     if reg_checker r rc = Some t \<and> q = reg_path r then {\<lparr> wo_watcher = reg_watcher r, wo_context = reg_context r \<rparr>} else {})"

lemma activate_registers:
  assumes "watch_ok zh" "watch_room zh" "activateWatcher m zh wo rc = Ret zh'"
  shows "registered zh' t q = registered zh t q \<union> watched_by wo rc t q"
proof (cases wo)
  case (Some r)
  show ?thesis
  proof (cases "reg_checker r rc")
    case (Some t')
    then show ?thesis using activateWatcher_table(2) [OF assms(1,2) assms(3) [unfolded \<open>wo = Some r\<close>] Some, of t q] \<open>wo = Some r\<close>
      by (auto simp: watched_by_def)
  qed (use assms Some in \<open>simp add: activateWatcher_def watched_by_def\<close>)
qed (use assms in \<open>simp add: activateWatcher_def watched_by_def\<close>)

lemma reply_activates:
  assumes "env_ok e" "session_inv zh" "watch_space (Suc 0) zh" "sent_requests zh = c # rest" "is_async c" "c_dereg c = None"
    and "answers (b, h) c"
  obtains zh' where "process_packet e b zh = Ret (None, zh')" "after_reply (b, h) c zh zh'"
    "\<And>t q. registered zh' t q = registered zh t q \<union> watched_by (c_watcher c) (sint (ReplyHeader_err h)) t q"
proof -
  obtain zh' where p: "process_packet e b zh = Ret (None, zh')" "after_reply (b, h) c zh zh'"
    using process_reply [OF assms(1-4,7)] .
  have a: "reply_packet b h" "ReplyHeader_xid h = c_xid c" "c_xid c \<notin> out_of_band" using assms(7) by (auto simp: answers_def)
  obtain ia where "read_header e (new_iarchive e (bl_buffer b) (bl_off b)) = Ret (h, ia)" using reply_header [OF assms(1) a(1)] ..
  then have c: "complete_request e b h ia c (zh\<lparr> sent_requests := rest \<rparr>) = Ret zh'"
    using p(1) a(2,3) assms(4) by (simp add: process_packet_def out_of_band_def)
  let ?z = "if sint (ReplyHeader_zxid h) > 0 then zh\<lparr> sent_requests := rest, last_zxid := ReplyHeader_zxid h \<rparr> else zh\<lparr> sent_requests := rest \<rparr>"
  have g: "get_table ?z t = get_table zh t" for t by (cases t) (simp_all add: get_table_def)
  have w: "watch_ok ?z" "watch_space (Suc 0) ?z"
    using assms(2,3) by (simp_all add: session_inv_def watch_ok_def watch_space_def g)
  from activate_ready [OF assms(1) w, of "c_watcher c" "sint (ReplyHeader_err h)"] obtain z1 where
    z1: "activateWatcher (en_alloc e) ?z (c_watcher c) (sint (ReplyHeader_err h)) = Ret z1" by metis
  have z: "zh' = z1\<lparr> completions_to_process := completions_to_process z1 @ [c\<lparr> c_buffer := Some b \<rparr>] \<rparr>"
    using assms(5,6) c z1 by (simp add: complete_request_def Let_def deactivateWatcher_def)
  have "registered zh' t q = registered zh t q \<union> watched_by (c_watcher c) (sint (ReplyHeader_err h)) t q" for t q
    using activate_registers [OF w(1) watch_space_room [OF w(2)] z1, of t q] by (simp add: z g)
  with p show thesis by (rule that)
qed

text \<open>The completion thread calls the function of a get request with what the server sent.\<close>

lemma data_completion_called:
  assumes "env_ok e" "valid_GetDataResponse v" "length (enc_GetDataResponse v) < 2 ^ 30" "xid \<notin> out_of_band" "dc \<noteq> NULL"
    and "completions_to_process z = [(request_entry xid COMPLETION_DATA dc data wo None [])
      \<lparr> c_buffer := Some (answer_packet xid zxid (enc_GetDataResponse v)) \<rparr>]"
  shows "process_completions e z = Ret (z\<lparr> completions_to_process := [], calls := calls z @
    [Data_call dc 0 (b_buff (GetDataResponse_data v)) (b_len (GetDataResponse_data v)) (Some (GetDataResponse_stat v)) data] \<rparr>)"
proof -
  let ?b = "answer_packet xid zxid (enc_GetDataResponse v)" and ?h = "\<lparr> ReplyHeader_xid = xid, ReplyHeader_zxid = zxid, ReplyHeader_err = 0 \<rparr>"
  let ?c = "request_entry xid COMPLETION_DATA dc data wo None []"
  obtain ia where ia: "read_header e (new_iarchive e (bl_buffer ?b) (sint (bl_len ?b))) = Ret (?h, ia)" "ia_ok ia"
    "remaining ia = enc_GetDataResponse v" using answer_packet_read [OF assms(1,3) refl] .
  have m: "en_mem e n" for n using assms(1) by simp
  obtain ia' where des: "deserialize_GetDataResponse (en_mem e) ia \<lparr> GetDataResponse_data = no_data e, GetDataResponse_stat = no_stat \<rparr> = Ret (0, v, ia')"
    using GetDataResponse_codec.des_enc [of "en_mem e", OF m assms(2) ia(2), of "[]"] ia(3) by force
  have "process_completion e (?c\<lparr> c_buffer := Some ?b \<rparr>) y = Ret (y\<lparr> calls := calls y @
      [Data_call dc 0 (b_buff (GetDataResponse_data v)) (b_len (GetDataResponse_data v)) (Some (GetDataResponse_stat v)) data] \<rparr>)" for y
    using assms(4,5) ia(1) by (simp add: process_completion_def out_of_band_def deserialize_response_def single_response_def
        data_response_def read_reply_def des call_user_def)
  then show ?thesis by (simp add: process_completions_def assms(6))
qed

text \<open>
  Property C5: a value that is asked for while nothing else is outstanding: the request is queued, the answer of the
  server is matched with it, the function of the user is called once with the code 0, the value and the
  status that the server sent, and the watch, when there was one, is now registered for the path that
  the server knows.
\<close>

theorem get_answered:
  assumes "env_ok e" "session_inv zh" "watch_space (Suc 0) zh" "\<not> close_requested zh" "sent_requests zh = []" "completions_to_process zh = []"
    and "server_path zh 0 path p" "xid \<notin> out_of_band" "dc \<noteq> NULL" "dc \<noteq> SYNCHRONOUS_MARKER"
    and "valid_GetDataResponse v" "length (enc_GetDataResponse v) < 2 ^ 30"
  shows "\<exists>zh1 zh2 zh3. zoo_awget e xid (Some zh) path w ctx dc data = Ret (ZOK, Some zh1) \<and>
    process_packet e (answer_packet xid zxid (enc_GetDataResponse v)) zh1 = Ret (None, zh2) \<and>
    process_completions e zh2 = Ret zh3 \<and>
    calls zh3 = calls zh @ [Data_call dc 0 (b_buff (GetDataResponse_data v)) (b_len (GetDataResponse_data v))
      (Some (GetDataResponse_stat v)) data] \<and>
    (\<forall>t q. registered zh3 t q = (if w \<noteq> NULL \<and> t = NodeT \<and> q = p then insert \<lparr> wo_watcher = w, wo_context = ctx \<rparr> (registered zh t q)
      else registered zh t q))"
proof -
  let ?b = "answer_packet xid zxid (enc_GetDataResponse v)" and ?c = "request_entry xid COMPLETION_DATA dc data (registration p data_result_checker w ctx) None []"
  let ?h = "\<lparr> ReplyHeader_xid = xid, ReplyHeader_zxid = zxid, ReplyHeader_err = 0 \<rparr>"
  have mo: "server_path zh (request_mode (Get_request w ctx)) path p" "length (request_body p (Get_request w ctx)) \<le> 2 ^ 28"
    using assms(7) by (simp_all add: server_path_def enc_string_def bytes_of_string_def)
  obtain b1 where q: "zoo_awget e xid (Some zh) path w ctx dc data = Ret (ZOK, Some (queued ?c b1 zh))"
    using request_queued [OF assms(1,4) mo(1) _ mo(2), of xid dc data] by auto
  have z1: "session_inv (queued ?c b1 zh)" "watch_space (Suc 0) (queued ?c b1 zh)" "sent_requests (queued ?c b1 zh) = ?c # []"
    using session_inv_queued [OF assms(2), of ?c b1] assms(3,5,10) by (simp_all add: queued_def watch_space_def)
  have an: "answers (?b, ?h) ?c" using answer_packet_reply [OF assms(12)] assms(8,10) by (simp add: answers_def)
  have as: "is_async ?c" "c_dereg ?c = None" using assms(10) by simp_all
  obtain zh2 where z2: "process_packet e ?b (queued ?c b1 zh) = Ret (None, zh2)" "after_reply (?b, ?h) ?c (queued ?c b1 zh) zh2"
    "\<And>t q. registered zh2 t q = registered (queued ?c b1 zh) t q \<union> watched_by (c_watcher ?c) (sint (ReplyHeader_err ?h)) t q"
    using reply_activates [OF assms(1) z1(1-3) as an] by metis
  have cs: "completions_to_process zh2 = [?c\<lparr> c_buffer := Some ?b \<rparr>]" "calls zh2 = calls zh"
    using z2(2) assms(6,10) by (simp_all add: after_reply_def completed_def queued_def)
  let ?u = "Data_call dc 0 (b_buff (GetDataResponse_data v)) (b_len (GetDataResponse_data v)) (Some (GetDataResponse_stat v)) data"
  have pc: "process_completions e zh2 = Ret (zh2\<lparr> completions_to_process := [], calls := calls zh @ [?u] \<rparr>)"
    using data_completion_called [OF assms(1,11,12,8,9) cs(1)] cs(2) by simp
  have rg: "registered (zh2\<lparr> completions_to_process := [], calls := calls zh @ [?u] \<rparr>) t q =
      (if w \<noteq> NULL \<and> t = NodeT \<and> q = p then insert \<lparr> wo_watcher = w, wo_context = ctx \<rparr> (registered zh t q) else registered zh t q)" for t q
    using z2(3) [of t q] by (auto simp: watched_by_def registration_def data_result_checker_def)
  show ?thesis
  proof (intro exI conjI allI)
    show "process_completions e zh2 = Ret (zh2\<lparr> completions_to_process := [], calls := calls zh @ [?u] \<rparr>)" by (rule pc)
  qed (use q z2(1) rg in simp_all)
qed

definition example_value :: GetDataResponse where
  "example_value = \<lparr> GetDataResponse_data = \<lparr> b_len = 2, b_buff = Some [104, 105] \<rparr>, GetDataResponse_stat = no_stat \<rparr>"

theorem get_answered_witness:
  "\<exists>zh zh1 zh2 zh3. zoo_awget example_env 7 (Some zh) (Some ''/a'') 1 2 9 90 = Ret (ZOK, Some zh1) \<and>
    process_packet example_env (answer_packet 7 77 (enc_GetDataResponse example_value)) zh1 = Ret (None, zh2) \<and>
    process_completions example_env zh2 = Ret zh3 \<and> calls zh3 = [Data_call 9 0 (Some [104, 105]) 2 (Some no_stat) 90] \<and>
    \<lparr> wo_watcher = 1, wo_context = 2 \<rparr> \<in> registered zh3 NodeT ''/a''"
proof -
  obtain ht where ht: "session_inv (example_handle ht)" "entries ht = []" "\<And>t. get_table (example_handle ht) t = ht"
    using example_tables by metis
  have i: "session_inv (idle_handle ht)" using idle_fresh [OF ht(1)] by (simp add: fresh_handle_def)
  have sp: "watch_space (Suc 0) (idle_handle ht)" unfolding watch_space_def idle_handle_facts ht(3,2) by simp
  have v: "valid_GetDataResponse example_value" "length (enc_GetDataResponse example_value) < 2 ^ 30"
    by (simp_all add: example_value_def valid_GetDataResponse_def valid_buffer_def enc_GetDataResponse_def enc_buffer_def enc_Stat_def valid_Stat_def no_stat_def)
  have x: "(7 :: i32) \<notin> out_of_band" "(9 :: addr) \<noteq> NULL" "(9 :: addr) \<noteq> SYNCHRONOUS_MARKER" "\<not> close_requested (idle_handle ht)"
    by (simp_all add: out_of_band_def SYNCHRONOUS_MARKER_def)
  obtain zh1 zh2 zh3 where r: "zoo_awget example_env 7 (Some (idle_handle ht)) (Some ''/a'') 1 2 9 90 = Ret (ZOK, Some zh1)"
    "process_packet example_env (answer_packet 7 77 (enc_GetDataResponse example_value)) zh1 = Ret (None, zh2)"
    "process_completions example_env zh2 = Ret zh3"
    "calls zh3 = calls (idle_handle ht) @ [Data_call 9 0 (b_buff (GetDataResponse_data example_value))
       (b_len (GetDataResponse_data example_value)) (Some (GetDataResponse_stat example_value)) 90]"
    "\<forall>t q. registered zh3 t q = (if (1 :: addr) \<noteq> NULL \<and> t = NodeT \<and> q = ''/a''
       then insert \<lparr> wo_watcher = 1, wo_context = 2 \<rparr> (registered (idle_handle ht) t q) else registered (idle_handle ht) t q)"
    using get_answered [OF example_env_ok i sp x(4) idle_handle_facts(1,7) idle_path x(1-3) v, of 1 2 90 77] by blast
  have "\<lparr> wo_watcher = 1, wo_context = 2 \<rparr> \<in> registered zh3 NodeT ''/a''" using r(5) by simp
  moreover have "calls zh3 = [Data_call 9 0 (Some [104, 105]) 2 (Some no_stat) 90]" using r(4) by (simp add: example_value_def)
  ultimately show ?thesis using r(1-3) by blast
qed

section \<open>A synchronous caller gets the code of the server\<close>



section \<open>Closing\<close>

lemma close_session_calls:
  assumes "env_ok e" "sent_requests zh = []"
  obtains rc zh' where "close_session e xid polls zh = Ret (rc, zh')" "calls zh' = calls zh @ auth_calls ZCLOSING (auth_h zh)"
proof -
  have d: "\<exists>z. destroy e (zh\<lparr> close_requested := True, to_send := q, net_out := w \<rparr>) = Ret z \<and>
      calls z = calls zh @ auth_calls ZCLOSING (auth_h zh)" for q w
  proof -
    let ?z = "zh\<lparr> close_requested := True, to_send := q, net_out := w \<rparr>"
    have "has_caller (sent_requests ?z) (syncs ?z)" using assms(2) by (simp add: has_caller_def)
    from cleanup_bufs_spec [OF assms(1) this, of ZCLOSING] obtain rs where "cleanup_bufs e True ZCLOSING ?z = Ret (drained ZCLOSING rs ?z)" by metis
    then show ?thesis by (simp add: destroy_def Let_def drained_def close_zsock_eq)
  qed
  show thesis
  proof (cases "zh_is_connected (zh\<lparr> close_requested := True \<rparr>)")
    case False
    have "zh\<lparr> close_requested := True, to_send := to_send zh, net_out := net_out zh \<rparr> = zh\<lparr> close_requested := True \<rparr>" by simp
    then obtain z where "destroy e (zh\<lparr> close_requested := True \<rparr>) = Ret z" "calls z = calls zh @ auth_calls ZCLOSING (auth_h zh)"
      using d [where q = "to_send zh" and w = "net_out zh"] by metis
    then show thesis using that False by (simp add: close_session_def Let_def)
  next
    case True
    obtain oa where oa: "new_oarchive e = Some oa" "oa_ok oa" "written oa = []" "bs_off oa = 0" using new_oarchive_ok [OF assms(1)] .
    have m: "en_mem e n" for n using assms(1) by simp
    obtain oa1 where o1: "serialize_RequestHeader (en_mem e) oa (request_header xid ZOO_CLOSE_OP) = Ret (0, oa1)"
      using RequestHeader_total.ser_returns [of "en_mem e", OF m _ oa(2), where v = "request_header xid ZOO_CLOSE_OP"] oa(4)
      by (auto simp: valid_RequestHeader_def enc_RequestHeader_def)
    obtain rc1 q where q: "queue_buffer_bytes e (to_send zh) (get_buffer oa1) (get_buffer_len oa1) = (rc1, q)" by (metis surj_pair)
    obtain rc2 q2 w where f: "flush_wait_loop 3000 polls q (net_out zh) = (rc2, q2, w)" by (metis prod_cases3)
    obtain z1 where z1: "destroy e (zh\<lparr> close_requested := True, to_send := q \<rparr>) = Ret z1" "calls z1 = calls zh @ auth_calls ZCLOSING (auth_h zh)"
      using d [where q = q and w = "net_out zh"] by auto
    obtain z2 where z2: "destroy e (zh\<lparr> close_requested := True, to_send := q2, net_out := w \<rparr>) = Ret z2" "calls z2 = calls zh @ auth_calls ZCLOSING (auth_h zh)"
      using d [where q = q2 and w = w] by auto
    show thesis
    proof (cases "rc1 < 0")
      case neg: True
      then show thesis using that [OF _ z1(2)] True oa(1) o1 q z1(1) by (simp add: close_session_def Let_def)
    next
      case False
      then show thesis using that [OF _ z2(2)] True oa(1) o1 q f z2(1) by (simp add: close_session_def Let_def)
    qed
  qed
qed

lemma auths_called_silent [simp]: "auth_calls rc (auths_called as) = []"
  by (auto simp: auth_calls_def auths_called_def filter_empty_conv)

text \<open>
  Property C38: closing a handle wakes every synchronous caller with \<^verbatim>\<open>ZCLOSING\<close>. Whether the functions of asynchronous
  requests are called is a matter of luck: when the completion thread runs once more they are, each once;
  when it has already left, the rest of \<^verbatim>\<open>zookeeper_close\<close> never calls them.
\<close>

theorem closing_calls_or_drops:
  assumes "env_ok e" "session_inv zh" "completions_to_process zh = []"
    and "\<forall>c \<in> set (filter is_async (sent_requests zh)). callable c \<and> c_xid c \<noteq> -1"
  shows "\<exists>zh1 zh2. zookeeper_close e xid polls True (Some zh) = Ret (ZOK, Some zh1) \<and>
    syncs zh1 = failed_syncs ZCLOSING (sent_requests zh) (syncs zh) \<and> sent_requests zh1 = [] \<and>
    process_completions e zh1 = Ret zh2 \<and> calls zh2 = calls zh @ auth_calls ZCLOSING (auth_h zh) @
      concat (map (user_failure ZCLOSING) (filter is_async (sent_requests zh))) \<and>
    (\<exists>rc zh3. zookeeper_close e xid polls False (Some zh1) = Ret (rc, Some zh3) \<and>
      calls zh3 = calls zh @ auth_calls ZCLOSING (auth_h zh))"
proof -
  obtain replies where r: "list_all2 (failed_reply ZCLOSING) (filter is_async (sent_requests zh)) replies"
    "close_requests e zh = Ret (zh\<lparr> close_requested := True, sent_requests := [],
       completions_to_process := completions_to_process zh @ replies, outstanding_sync := 0,
       syncs := failed_syncs ZCLOSING (sent_requests zh) (syncs zh),
       auth_h := auths_called (auth_h zh), calls := calls zh @ auth_calls ZCLOSING (auth_h zh) \<rparr>)" (is "_ = Ret ?z")
    using close_requests_spec [OF assms(1,2)] .
  have "i32_code ZCLOSING" by (simp add: i32_code_def)
  from completion_loop_calls [OF failed_replies_called [OF assms(1) r(1) assms(4) this], of ?z]
  have pc: "process_completions e ?z = Ret (?z\<lparr> completions_to_process := [], calls := calls ?z @
      concat (map (user_failure ZCLOSING) (filter is_async (sent_requests zh))) \<rparr>)" (is "_ = Ret ?z2")
    by (simp add: process_completions_def assms(3))
  have n: "sent_requests ?z = []" by simp
  obtain rc z3 where c: "close_session e xid polls ?z = Ret (rc, z3)" "calls z3 = calls ?z @ auth_calls ZCLOSING (auth_h ?z)"
    using close_session_calls [OF assms(1) n] .
  have first: "zookeeper_close e xid polls True (Some zh) = Ret (ZOK, Some ?z)" by (simp add: zookeeper_close_def r(2))
  have second: "zookeeper_close e xid polls False (Some ?z) = Ret (rc, Some z3)" using c(1) by (simp add: zookeeper_close_def)
  have "calls z3 = calls zh @ auth_calls ZCLOSING (auth_h zh)" using c(2) by simp
  with second have last: "\<exists>rc zh3. zookeeper_close e xid polls False (Some ?z) = Ret (rc, Some zh3) \<and>
      calls zh3 = calls zh @ auth_calls ZCLOSING (auth_h zh)" by blast
  show ?thesis
    by (intro exI [of _ ?z] exI [of _ ?z2] conjI first pc last) simp_all
qed

theorem closing_calls_or_drops_witness:
  "\<exists>zh zh1 zh2 rc zh3. zookeeper_close example_env 7 [] True (Some zh) = Ret (ZOK, Some zh1) \<and>
    process_completions example_env zh1 = Ret zh2 \<and> calls zh2 = [Void_call 9 ZCLOSING 90] \<and>
    syncs zh1 100 = Some (blank_sync\<lparr> sc_rc := ZCLOSING, sc_complete := True \<rparr>) \<and>
    zookeeper_close example_env 7 [] False (Some zh1) = Ret (rc, Some zh3) \<and> calls zh3 = []"
proof -
  obtain ht where ht: "session_inv (example_handle ht)" using example_tables by metis
  let ?zh = "example_handle ht"
  have z: "completions_to_process ?zh = []" "calls ?zh = []" "auth_h ?zh = []" "syncs ?zh = [100 \<mapsto> blank_sync]"
    "filter is_async (sent_requests ?zh) = [example_request 5 9 90]" "sent_requests ?zh = [example_request 5 9 90, example_request 6 SYNCHRONOUS_MARKER 100]"
    by (simp_all add: example_handle_def new_handle_def example_request_def SYNCHRONOUS_MARKER_def)
  have "\<forall>c \<in> set (filter is_async (sent_requests ?zh)). callable c \<and> c_xid c \<noteq> -1"
    unfolding z(5) by (simp add: callable_def example_request_def SYNCHRONOUS_MARKER_def)
  from closing_calls_or_drops [OF example_env_ok ht z(1) this, of 7 "[]"] obtain zh1 zh2 rc zh3 where
    r: "zookeeper_close example_env 7 [] True (Some ?zh) = Ret (ZOK, Some zh1)"
    "syncs zh1 = failed_syncs ZCLOSING (sent_requests ?zh) (syncs ?zh)" "process_completions example_env zh1 = Ret zh2"
    "calls zh2 = calls ?zh @ auth_calls ZCLOSING (auth_h ?zh) @ concat (map (user_failure ZCLOSING) (filter is_async (sent_requests ?zh)))"
    "zookeeper_close example_env 7 [] False (Some zh1) = Ret (rc, Some zh3)" "calls zh3 = calls ?zh @ auth_calls ZCLOSING (auth_h ?zh)"
    by blast
  have "calls zh2 = [Void_call 9 ZCLOSING 90]" unfolding r(4) z
    by (simp add: auth_calls_def user_failure_def single_failure_def example_request_def SYNCHRONOUS_MARKER_def)
  moreover have "calls zh3 = []" unfolding r(6) z by (simp add: auth_calls_def)
  moreover have "syncs zh1 100 = Some (blank_sync\<lparr> sc_rc := ZCLOSING, sc_complete := True \<rparr>)"
    unfolding r(2) z by (simp add: failed_syncs_def example_request_def SYNCHRONOUS_MARKER_def)
  ultimately show ?thesis using r(1,3,5) by blast
qed

end
