(* ===== verification/Zk_Multi.thy ===== *)
theory Zk_Multi
  imports Zk_Runs
begin

text \<open>
  Multi requests (\<^verbatim>\<open>zoo_amulti\<close>, \<^verbatim>\<open>deserialize_multi\<close>): the message that the operations become, the answer that
  the server gives to them, and the results of the user behind the answer or behind a failure. It has no
  definitions of code of its own: \<^verbatim>\<open>sub_answer\<close> and the functions on it say what a server sends,
  \<^verbatim>\<open>answered_result\<close> and \<^verbatim>\<open>failed_result\<close> what the user finds.
\<close>

section \<open>What a multi request sends\<close>

fun sub_body :: "string \<Rightarrow> zoo_op \<Rightarrow> byte list" where
  "sub_body p (Create_op ty c) = enc_string (Some p) @ enc_data (co_data c) (co_datalen c) @
     enc_ACL_vector (acl_or_empty (co_acl c)) @ enc_int (word_of_int (co_flags c))"
| "sub_body p (Delete_op d) = enc_string (Some p) @ enc_int (do_version d)"
| "sub_body p (Set_op s) = enc_string (Some p) @ enc_data (so_data s) (so_datalen s) @ enc_int (so_version s)"
| "sub_body p (Check_op k) = enc_string (Some p) @ enc_int (ko_version k)"

definition op_bytes :: "string \<Rightarrow> zoo_op \<Rightarrow> byte list" where
  "op_bytes p oper = enc_int (word_of_int (op_type oper)) @ enc_bool 0 @ enc_int (-1) @ sub_body p oper"

text \<open>An operation that the handle accepts, on the path \<^verbatim>\<open>p\<close> of the server.\<close>

fun op_ok :: "session \<Rightarrow> zoo_op \<Rightarrow> string \<Rightarrow> bool" where
  "op_ok zh (Create_op ty c) p \<longleftrightarrow> (ty = 1 \<or> ty = 19) \<and> server_path zh (co_flags c) (co_path c) p \<and>
     valid_buffer \<lparr> b_len = co_datalen c, b_buff = co_data c \<rparr> \<and> valid_ACL_vector (acl_or_empty (co_acl c))"
| "op_ok zh (Delete_op d) p \<longleftrightarrow> server_path zh 0 (do_path d) p"
| "op_ok zh (Set_op s) p \<longleftrightarrow> server_path zh 0 (so_path s) p \<and> valid_buffer \<lparr> b_len = so_datalen s, b_buff = so_data s \<rparr>"
| "op_ok zh (Check_op k) p \<longleftrightarrow> server_path zh 0 (ko_path k) p"

fun op_completion :: "zoo_op \<Rightarrow> int \<times> addr" where
  "op_completion (Create_op _ _) = (COMPLETION_STRING, op_result_string_fn)"
| "op_completion (Delete_op _) = (COMPLETION_VOID, op_result_void_fn)"
| "op_completion (Set_op _) = (COMPLETION_STAT, op_result_stat_fn)"
| "op_completion (Check_op _) = (COMPLETION_VOID, op_result_void_fn)"

definition op_entry :: "i32 \<Rightarrow> addr \<Rightarrow> zoo_op \<Rightarrow> completion_entry" where
  "op_entry xid a oper = \<lparr> c_xid = xid, c_type = fst (op_completion oper), c_dc = snd (op_completion oper), c_data = a \<rparr>"

text \<open>Before it is sent, an operation hands its buffers over to its result.\<close>

fun prepared :: "zoo_op \<Rightarrow> op_result \<Rightarrow> op_result" where
  "prepared (Create_op _ c) r = r\<lparr> or_value := co_buf c, or_valuelen := co_buflen c \<rparr>"
| "prepared (Set_op s) r = r\<lparr> or_stat := so_stat s \<rparr>"
| "prepared _ r = r"

lemma op_result_entry_ok:
  assumes "env_ok e" "ty \<in> {COMPLETION_STRING, COMPLETION_VOID, COMPLETION_STAT}"
  shows "op_result_entry e xid ty fn a = Ret \<lparr> c_xid = xid, c_type = ty, c_dc = fn, c_data = a \<rparr>"
  using assms by (auto simp: op_result_entry_def do_create_completion_entry_def completion_entry.truncate_def)

lemma multi_request_ok:
  assumes "server_path zh mode path p"
  shows "multi_request zh mode path ser (0, oa) = ser oa p"
  using assms by (simp add: multi_request_def server_path_def Request_path_init_def is_unrecoverable_def)

lemma multi_op_spec:
  assumes "env_ok e" "op_ok zh oper p" "oa_ok oa" "bs_off oa + int (length (op_bytes p oper)) \<le> 2 ^ 29"
  obtains oa' where "multi_op e zh xid a oper (0, oa) r = Ret (Some ((0, oa'), prepared oper r, op_entry xid a oper))"
    "oa_ok oa'" "written oa' = written oa @ op_bytes p oper"
proof -
  have m: "en_mem e n" for n using assms(1) by simp
  let ?mh = "\<lparr> MultiHeader_type = word_of_int (op_type oper), MultiHeader_done = 0, MultiHeader_err = -1 \<rparr>"
  have mh: "enc_MultiHeader ?mh = enc_int (word_of_int (op_type oper)) @ enc_bool 0 @ enc_int (-1)" "valid_MultiHeader ?mh"
    by (simp_all add: enc_MultiHeader_def valid_MultiHeader_def valid_bool_def)
  obtain oa1 where o1: "serialize_MultiHeader (en_mem e) oa ?mh = Ret (0, oa1)" "oa_ok oa1" "written oa1 = written oa @ enc_MultiHeader ?mh"
    using MultiHeader_total.ser_returns [of "en_mem e", OF m mh(2) assms(3)] assms(4) mh(1) by (auto simp: op_bytes_def)
  have off: "bs_off oa1 + int (length (sub_body p oper)) \<le> 2 ^ 29"
    using written_length [OF o1(2)] written_length [OF assms(3)] o1(3) mh(1) assms(4) by (simp add: op_bytes_def)
  have body: "\<exists>oa'. f oa1 = Ret (0, oa') \<and> oa_ok oa' \<and> written oa' = written oa @ op_bytes p oper"
    if "\<And>oa. puts oa (sub_body p oper) (f oa)" for f
    using that [of oa1] o1(2,3) off mh(1) by (auto simp: puts_def op_bytes_def)
  have vs: "valid_string (Some p)" using assms(2) by (cases oper) (auto simp: server_path_valid)
  show thesis
  proof (cases oper)
    case (Create_op ty c)
    let ?v = "CreateRequest_init p (co_data c) (co_datalen c) (co_acl c) (co_flags c)"
    have "puts oa (sub_body p oper) (serialize_CreateRequest (en_mem e) oa ?v)" for oa
      using CreateRequest_total.ser_puts [OF m, of ?v oa] vs assms(2) Create_op
      by (simp add: valid_CreateRequest_def enc_CreateRequest_def CreateRequest_init_def enc_data_def)
    from body [OF this] show thesis using that o1(1) assms(1,2) Create_op
      by (auto simp: multi_op_def Let_def multi_request_ok op_result_entry_ok op_entry_def simp del: bind_exec_Ret_iff)
  next
    case (Delete_op d)
    have "puts oa (sub_body p oper) (serialize_DeleteRequest (en_mem e) oa (DeleteRequest_init p (do_version d)))" for oa
      using DeleteRequest_total.ser_puts [OF m, of "DeleteRequest_init p (do_version d)" oa] vs Delete_op
      by (simp add: valid_DeleteRequest_def enc_DeleteRequest_def DeleteRequest_init_def)
    from body [OF this] show thesis using that o1(1) assms(1,2) Delete_op
      by (auto simp: multi_op_def Let_def multi_request_ok op_result_entry_ok op_entry_def simp del: bind_exec_Ret_iff)
  next
    case (Set_op s)
    let ?v = "SetDataRequest_init p (so_data s) (so_datalen s) (so_version s)"
    have "puts oa (sub_body p oper) (serialize_SetDataRequest (en_mem e) oa ?v)" for oa
      using SetDataRequest_total.ser_puts [OF m, of ?v oa] vs assms(2) Set_op
      by (simp add: valid_SetDataRequest_def enc_SetDataRequest_def SetDataRequest_init_def enc_data_def)
    from body [OF this] show thesis using that o1(1) assms(1,2) Set_op
      by (auto simp: multi_op_def Let_def multi_request_ok op_result_entry_ok op_entry_def simp del: bind_exec_Ret_iff)
  next
    case (Check_op k)
    let ?v = "\<lparr> CheckVersionRequest_path = Some p, CheckVersionRequest_version = ko_version k \<rparr>"
    have "puts oa (sub_body p oper) (serialize_CheckVersionRequest (en_mem e) oa ?v)" for oa
      using CheckVersionRequest_total.ser_puts [OF m, of ?v oa] vs Check_op
      by (simp add: valid_CheckVersionRequest_def enc_CheckVersionRequest_def)
    from body [OF this] show thesis using that o1(1) assms(1,2) Check_op
      by (auto simp: multi_op_def Let_def multi_request_ok op_result_entry_ok op_entry_def simp del: bind_exec_Ret_iff)
  qed
qed

fun op_entries :: "i32 \<Rightarrow> addr \<Rightarrow> nat \<Rightarrow> zoo_op list \<Rightarrow> completion_entry list" where
  "op_entries xid results i [] = []"
| "op_entries xid results i (oper # ops) = op_entry xid (result_addr results i) oper # op_entries xid results (Suc i) ops"

definition ops_bytes :: "string list \<Rightarrow> zoo_op list \<Rightarrow> byte list" where
  "ops_bytes ps ops = concat (map2 op_bytes ps ops)"

lemma multi_ops_spec:
  assumes "env_ok e" "list_all2 (op_ok zh) ops ps" "length rs = length ops" "oa_ok oa"
    and "bs_off oa + int (length (ops_bytes ps ops)) \<le> 2 ^ 29"
  shows "\<exists>oa'. multi_ops e zh xid results i ops rs (0, oa) clist =
      Ret (Some (0, oa'), map2 prepared ops rs, clist @ op_entries xid results i ops) \<and>
    oa_ok oa' \<and> written oa' = written oa @ ops_bytes ps ops"
  using assms(2-5)
proof (induction ops ps arbitrary: rs oa i clist rule: list_all2_induct)
  case Nil
  then show ?case by (simp add: ops_bytes_def)
next
  case (Cons oper ops p ps)
  obtain r rs' where rs: "rs = r # rs'" "length rs' = length ops" using Cons.prems(1) by (cases rs) auto
  have l: "length (ops_bytes (p # ps) (oper # ops)) = length (op_bytes p oper) + length (ops_bytes ps ops)"
    by (simp add: ops_bytes_def)
  have "bs_off oa + int (length (op_bytes p oper)) \<le> 2 ^ 29" using Cons.prems(3) l by simp
  from multi_op_spec [OF assms(1) Cons.hyps(1) Cons.prems(2) this, of xid "result_addr results i" r] obtain oa1 where
    o1: "multi_op e zh xid (result_addr results i) oper (0, oa) r = Ret (Some ((0, oa1), prepared oper r, op_entry xid (result_addr results i) oper))"
    "oa_ok oa1" "written oa1 = written oa @ op_bytes p oper" .
  have "bs_off oa1 + int (length (ops_bytes ps ops)) \<le> 2 ^ 29"
    using written_length [OF o1(2)] written_length [OF Cons.prems(2)] o1(3) Cons.prems(3) l by simp
  from Cons.IH [OF rs(2) o1(2) this, of "Suc i" "clist @ [op_entry xid (result_addr results i) oper]"] obtain oa2 where
    "multi_ops e zh xid results (Suc i) ops rs' (0, oa1) (clist @ [op_entry xid (result_addr results i) oper]) =
      Ret (Some (0, oa2), map2 prepared ops rs', (clist @ [op_entry xid (result_addr results i) oper]) @ op_entries xid results (Suc i) ops)"
    "oa_ok oa2" "written oa2 = written oa1 @ ops_bytes ps ops" by blast
  then show ?case using o1(1,3) rs(1) by (intro exI [of _ oa2]) (simp add: ops_bytes_def del: bind_exec_Ret_iff)
qed

definition multi_message :: "i32 \<Rightarrow> string list \<Rightarrow> zoo_op list \<Rightarrow> byte list" where
  "multi_message xid ps ops = enc_RequestHeader (request_header xid ZOO_MULTI_OP) @ ops_bytes ps ops @
     enc_int (-1) @ enc_bool 1 @ enc_int (-1)"

lemma multi_queued:
  assumes "env_ok e" "\<not> close_requested zh" "list_all2 (op_ok zh) ops ps" "length rs = length ops"
    and "length (multi_message xid ps ops) \<le> 2 ^ 29"
  shows "\<exists>b. zoo_amulti e xid (Some zh) ops results rs dc data = Ret (ZOK, map2 prepared ops rs,
      Some (queued (request_entry xid COMPLETION_MULTI dc data None None (op_entries xid results 0 ops)) b zh)) \<and>
    fresh_packet (multi_message xid ps ops) b"
proof -
  have m: "en_mem e n" for n using assms(1) by simp
  obtain oa where oa: "new_oarchive e = Some oa" "oa_ok oa" "written oa = []" "bs_off oa = 0" using new_oarchive_ok [OF assms(1)] .
  let ?h = "request_header xid ZOO_MULTI_OP" and ?fin = "\<lparr> MultiHeader_type = -1, MultiHeader_done = 1, MultiHeader_err = -1 \<rparr>"
  have hl: "length (enc_RequestHeader ?h) = 8" by (simp add: enc_RequestHeader_def)
  obtain oa1 where o1: "serialize_RequestHeader (en_mem e) oa ?h = Ret (0, oa1)" "oa_ok oa1" "written oa1 = enc_RequestHeader ?h"
    using RequestHeader_total.ser_returns [of "en_mem e", OF m _ oa(2), where v = ?h] oa(3,4) hl by (auto simp: valid_RequestHeader_def)
  have "bs_off oa1 + int (length (ops_bytes ps ops)) \<le> 2 ^ 29"
    using written_length [OF o1(2)] o1(3) hl assms(5) by (simp add: multi_message_def)
  from multi_ops_spec [OF assms(1,3,4) o1(2) this, of xid results 0 "[]"] obtain oa2 where
    o2: "multi_ops e zh xid results 0 ops rs (0, oa1) [] = Ret (Some (0, oa2), map2 prepared ops rs, op_entries xid results 0 ops)"
    "oa_ok oa2" "written oa2 = enc_RequestHeader ?h @ ops_bytes ps ops" using o1(3) by auto
  have e: "enc_MultiHeader ?fin = enc_int (-1) @ enc_bool 1 @ enc_int (-1)" "valid_MultiHeader ?fin"
    by (simp_all add: enc_MultiHeader_def valid_MultiHeader_def valid_bool_def)
  have "bs_off oa2 + int (length (enc_MultiHeader ?fin)) \<le> 2 ^ 29"
    using written_length [OF o2(2)] o2(3) e(1) assms(5) by (simp add: multi_message_def)
  from MultiHeader_total.ser_returns [of "en_mem e", OF m e(2) o2(2) this] obtain oa3 where
    o3: "serialize_MultiHeader (en_mem e) oa2 ?fin = Ret (0, oa3)" "oa_ok oa3" "written oa3 = multi_message xid ps ops"
    using o2(3) e(1) by (auto simp: multi_message_def)
  have ne: "multi_message xid ps ops \<noteq> []" using hl by (auto simp: multi_message_def)
  from queue_request_spec [OF assms(1) accepts_multi [OF assms(1)] assms(2) o3(2,3) ne assms(5)] obtain b where
    "queue_request e (add_multi_completion e xid dc data (op_entries xid results 0 ops)) (0, oa3) zh =
       Ret (ZOK, queued (request_entry xid COMPLETION_MULTI dc data None None (op_entries xid results 0 ops)) b zh)"
    "fresh_packet (multi_message xid ps ops) b" .
  then show ?thesis using oa(1) o1(1) o2(1) o3(1)
    by (intro exI [of _ b]) (simp add: zoo_amulti_def del: bind_exec_Ret_iff)
qed

section \<open>The results of a multi request that fails\<close>

fun failed_result :: "int \<Rightarrow> zoo_op \<Rightarrow> op_result \<Rightarrow> op_result" where
  "failed_result rc (Create_op _ _) r = r\<lparr> or_err := rc, or_value := None \<rparr>"
| "failed_result rc (Set_op _) r = r\<lparr> or_err := rc, or_stat := None \<rparr>"
| "failed_result rc _ r = r\<lparr> or_err := rc \<rparr>"

lemma op_fns_distinct [simp]:
  "op_result_string_fn \<noteq> op_result_void_fn" "op_result_string_fn \<noteq> op_result_stat_fn" "op_result_void_fn \<noteq> op_result_stat_fn"
  "op_result_void_fn \<noteq> op_result_string_fn" "op_result_stat_fn \<noteq> op_result_string_fn" "op_result_stat_fn \<noteq> op_result_void_fn"
  by (simp_all add: op_result_string_fn_def op_result_void_fn_def op_result_stat_fn_def)

lemma run_failure:
  assumes "mem a = Some r"
  shows "run_op_results (single_failure rc (op_entry xid a oper)) mem = Ret (mem(a \<mapsto> failed_result rc oper r))"
  using assms by (cases oper) (simp_all add: op_entry_def single_failure_def run_op_result_def Let_def
      op_result_string_completion_def op_result_void_completion_def op_result_stat_completion_def
      split: option.split)

lemma run_op_results_append:
  "run_op_results (cs @ ds) mem = bind_exec (run_op_results cs mem) (run_op_results ds)"
proof (induction cs arbitrary: mem)
  case (Cons c cs)
  then show ?case by (cases "run_op_result c mem") simp_all
qed simp

lemma result_addr_inj: "result_addr results i = result_addr results j \<longleftrightarrow> i = j"
  by (simp add: result_addr_def)

text \<open>The results lie in memory one behind the other.\<close>

definition results_at :: "addr \<Rightarrow> nat \<Rightarrow> op_result list \<Rightarrow> (addr \<Rightarrow> op_result option) \<Rightarrow> bool" where
  "results_at results i rs mem \<longleftrightarrow> (\<forall>k < length rs. mem (result_addr results (i + k)) = Some (rs ! k))"

lemma results_at_Cons:
  "results_at results i (r # rs) mem \<longleftrightarrow> mem (result_addr results i) = Some r \<and> results_at results (Suc i) rs mem"
  by (auto simp: results_at_def nth_Cons less_Suc_eq_0_disj split: nat.splits)

text \<open>Calls that fill one result each fill the array.\<close>

lemma run_in_array:
  assumes "length us = length rs" "length rs' = length rs" "results_at results i rs mem"
    and "\<And>k m. k < length rs \<Longrightarrow> m (result_addr results (i + k)) = Some (rs ! k) \<Longrightarrow>
      run_op_results (us ! k) m = Ret (m(result_addr results (i + k) \<mapsto> rs' ! k))"
  shows "\<exists>mem'. run_op_results (concat us) mem = Ret mem' \<and> results_at results i rs' mem' \<and>
    (\<forall>a. (\<forall>k < length rs. a \<noteq> result_addr results (i + k)) \<longrightarrow> mem' a = mem a)"
  using assms
proof (induction us arbitrary: i rs rs' mem)
  case Nil
  then show ?case by (simp add: results_at_def)
next
  case (Cons u us)
  obtain r rt r' rt' where rs: "rs = r # rt" "rs' = r' # rt'" "length us = length rt" "length rt' = length rt"
    using Cons.prems(1,2) by (cases rs; cases rs') auto
  let ?a = "result_addr results i"
  let ?m = "mem(?a \<mapsto> r')"
  have a: "mem ?a = Some r" "results_at results (Suc i) rt mem" using Cons.prems(3) by (simp_all add: rs(1) results_at_Cons)
  have u: "run_op_results u mem = Ret ?m" using Cons.prems(4) [of 0 mem] a(1) rs by (simp add: fun_upd_def)
  have "results_at results (Suc i) rt ?m" using a(2) by (simp add: results_at_def result_addr_inj)
  moreover have "run_op_results (us ! k) m = Ret (m(result_addr results (Suc i + k) \<mapsto> rt' ! k))"
    if "k < length rt" "m (result_addr results (Suc i + k)) = Some (rt ! k)" for k m
    using Cons.prems(4) [of "Suc k" m] that rs by (simp add: fun_upd_def)
  ultimately obtain mem' where m: "run_op_results (concat us) ?m = Ret mem'" "results_at results (Suc i) rt' mem'"
    "\<forall>b. (\<forall>k < length rt. b \<noteq> result_addr results (Suc i + k)) \<longrightarrow> mem' b = ?m b"
    using Cons.IH [OF rs(3,4), of "Suc i" ?m] by blast
  have "mem' ?a = ?m ?a" using m(3) by (simp add: result_addr_inj)
  then have "results_at results i rs' mem'" using m(2) by (simp add: rs(2) results_at_Cons)
  moreover have "mem' b = mem b" if n: "\<forall>k < length rs. b \<noteq> result_addr results (i + k)" for b
  proof -
    have "b \<noteq> ?a" using n [rule_format, of 0] rs(1) by simp
    moreover have "\<forall>k < length rt. b \<noteq> result_addr results (Suc i + k)" using n [rule_format, of "Suc k" for k] rs(1) by auto
    ultimately show ?thesis using m(3) by simp
  qed
  ultimately show ?case using u m(1) by (intro exI [of _ mem']) (simp add: run_op_results_append)
qed

lemma op_entries_nth: "k < length ops \<Longrightarrow> op_entries xid results i ops ! k = op_entry xid (result_addr results (i + k)) (ops ! k)"
  by (induction ops arbitrary: i k) (auto simp: nth_Cons split: nat.splits)

lemma length_op_entries [simp]: "length (op_entries xid results i ops) = length ops"
  by (induction ops arbitrary: i) simp_all

lemma run_failures:
  assumes "length rs = length ops" "results_at results i rs mem"
  shows "\<exists>mem'. run_op_results (concat (map (single_failure rc) (op_entries xid results i ops))) mem = Ret mem' \<and>
      results_at results i (map2 (failed_result rc) ops rs) mem' \<and>
      (\<forall>a. (\<forall>k < length rs. a \<noteq> result_addr results (i + k)) \<longrightarrow> mem' a = mem a)"
  using assms(1) by (intro run_in_array [OF _ _ assms(2)]) (simp_all add: op_entries_nth run_failure)

section \<open>What the server answers to a multi request\<close>

text \<open>The answers to the operations, as the server gives them: a path, a status, nothing or a code.\<close>

datatype sub_answer = Created string | Changed Stat | Done | Refused i32

fun answer_ok :: "zoo_op \<Rightarrow> sub_answer \<Rightarrow> bool" where
  "answer_ok oper (Refused code) \<longleftrightarrow> True"
| "answer_ok (Create_op _ _) (Created p) \<longleftrightarrow> valid_string (Some p)"
| "answer_ok (Set_op _) (Changed s) \<longleftrightarrow> valid_Stat s"
| "answer_ok (Delete_op _) Done \<longleftrightarrow> True"
| "answer_ok (Check_op _) Done \<longleftrightarrow> True"
| "answer_ok _ _ \<longleftrightarrow> False"

fun answer_header :: "zoo_op \<Rightarrow> sub_answer \<Rightarrow> MultiHeader" where
  "answer_header oper (Refused code) = \<lparr> MultiHeader_type = -1, MultiHeader_done = 0, MultiHeader_err = code \<rparr>"
| "answer_header oper _ = \<lparr> MultiHeader_type = word_of_int (op_type oper), MultiHeader_done = 0, MultiHeader_err = 0 \<rparr>"

fun answer_body :: "sub_answer \<Rightarrow> byte list" where
  "answer_body (Refused code) = enc_ErrorResponse \<lparr> ErrorResponse_err = code \<rparr>"
| "answer_body (Created p) = enc_CreateResponse \<lparr> CreateResponse_path = Some p \<rparr>"
| "answer_body (Changed s) = enc_SetDataResponse \<lparr> SetDataResponse_stat = s \<rparr>"
| "answer_body Done = []"

definition last_header :: MultiHeader where
  "last_header = \<lparr> MultiHeader_type = -1, MultiHeader_done = 1, MultiHeader_err = -1 \<rparr>"

fun first_header :: "zoo_op list \<Rightarrow> sub_answer list \<Rightarrow> MultiHeader" where
  "first_header (oper # ops) (a # as) = answer_header oper a"
| "first_header _ _ = last_header"

fun behind_header :: "zoo_op list \<Rightarrow> sub_answer list \<Rightarrow> byte list" where
  "behind_header (oper # ops) (a # as) = answer_body a @ enc_MultiHeader (first_header ops as) @ behind_header ops as"
| "behind_header _ _ = []"

definition enc_answers :: "zoo_op list \<Rightarrow> sub_answer list \<Rightarrow> byte list" where
  "enc_answers ops as = enc_MultiHeader (first_header ops as) @ behind_header ops as"

text \<open>The code of the whole request is that of the first operation that failed by itself.\<close>

fun multi_code :: "int \<Rightarrow> sub_answer list \<Rightarrow> int" where
  "multi_code rc [] = rc"
| "multi_code rc (Refused code # as) =
     multi_code (if rc = 0 \<and> sint code \<noteq> 0 \<and> sint code \<noteq> ZRUNTIMEINCONSISTENCY then sint code else rc) as"
| "multi_code rc (_ # as) = multi_code rc as"

fun answer_calls :: "session \<Rightarrow> completion_entry \<Rightarrow> sub_answer \<Rightarrow> user_call list" where
  "answer_calls zh c (Refused code) = single_failure (sint code) c"
| "answer_calls zh c (Created p) = [String_call (c_dc c) 0 (Some (sub_string (chroot zh) p)) (c_data c)]"
| "answer_calls zh c (Changed s) = [Stat_call (c_dc c) 0 (Some s) (c_data c)]"
| "answer_calls zh c Done = [Void_call (c_dc c) 0 (c_data c)]"

lemma op_entry_facts:
  "c_dc (op_entry xid a oper) \<noteq> NULL" "c_data (op_entry xid a oper) = a"
  "c_type (op_entry xid a (Create_op ty c)) = COMPLETION_STRING" "c_type (op_entry xid a (Delete_op d)) = COMPLETION_VOID"
  "c_type (op_entry xid a (Set_op s)) = COMPLETION_STAT" "c_type (op_entry xid a (Check_op k)) = COMPLETION_VOID"
  by (cases oper) (simp_all add: op_entry_def op_result_string_fn_def op_result_void_fn_def op_result_stat_fn_def)

fun op_known :: "zoo_op \<Rightarrow> bool" where
  "op_known (Create_op ty _) \<longleftrightarrow> ty = 1 \<or> ty = 19"
| "op_known _ \<longleftrightarrow> True"

lemma op_ok_known: "op_ok zh oper p \<Longrightarrow> op_known oper"
  by (cases oper) auto

lemma op_type_positive: "op_known oper \<Longrightarrow> word_of_int (op_type oper) \<noteq> (-1 :: i32)"
  by (cases oper) (auto simp: ZOO_DELETE_OP_def ZOO_SETDATA_OP_def ZOO_CHECK_OP_def)

lemma valid_first_header: "valid_MultiHeader (first_header ops as)"
proof (cases ops)
  case (Cons oper ops')
  then show ?thesis by (cases as; cases "hd as") (auto simp: valid_MultiHeader_def valid_bool_def last_header_def)
qed (simp add: valid_MultiHeader_def valid_bool_def last_header_def)

lemma first_header_done: "length as = length ops \<Longrightarrow> MultiHeader_done (first_header ops as) = (if ops = [] then 1 else 0)"
  by (cases ops; cases as; cases "hd as") (auto simp: last_header_def)

text \<open>One answer is read and leads to its call.\<close>

lemma single_answer:
  assumes "env_ok e" "op_known oper" "answer_ok oper a" "ia_ok ia" "remaining ia = answer_body a @ rest" "\<nexists>code. a = Refused code"
  obtains ia' where "single_response e zh False 0 (op_entry xid d oper) (Some ia) = Ret (answer_calls zh (op_entry xid d oper) a, Some ia')"
    "ia_ok ia'" "remaining ia' = rest"
proof -
  have m: "en_mem e n" for n using assms(1) by simp
  show thesis
  proof (cases a)
    case (Created s)
    then obtain ty c where o: "oper = Create_op ty c" using assms(3) by (cases oper) auto
    have v: "valid_CreateResponse \<lparr> CreateResponse_path = Some s \<rparr>" using assms(3) Created o by (simp add: valid_CreateResponse_def)
    obtain ia' where "deserialize_CreateResponse (en_mem e) ia \<lparr> CreateResponse_path = None \<rparr> = Ret (0, \<lparr> CreateResponse_path = Some s \<rparr>, ia')"
      "ia_ok ia'" "remaining ia' = rest"
      using CreateResponse_codec.des_enc [of "en_mem e", OF m v assms(4), of rest] assms(5) Created by fastforce
    then show thesis using that Created o op_entry_facts(1) [of xid d oper]
      by (auto simp: single_response_def string_response_def client_path_of_def call_user_def op_entry_facts)
  next
    case (Changed s)
    then obtain so where o: "oper = Set_op so" using assms(3) by (cases oper) auto
    have v: "valid_SetDataResponse \<lparr> SetDataResponse_stat = s \<rparr>" using assms(3) Changed o by (simp add: valid_SetDataResponse_def)
    obtain ia' where "deserialize_SetDataResponse (en_mem e) ia \<lparr> SetDataResponse_stat = no_stat \<rparr> = Ret (0, \<lparr> SetDataResponse_stat = s \<rparr>, ia')"
      "ia_ok ia'" "remaining ia' = rest"
      using SetDataResponse_codec.des_enc [of "en_mem e", OF m v assms(4), of rest] assms(5) Changed by fastforce
    then show thesis using that Changed o op_entry_facts(1) [of xid d oper]
      by (auto simp: single_response_def stat_response_def read_reply_def call_user_def op_entry_facts)
  next
    case Done
    then have "c_type (op_entry xid d oper) = COMPLETION_VOID" using assms(3) by (cases oper) (auto simp: op_entry_facts)
    then show thesis using that [of ia] Done assms(4,5) op_entry_facts(1) [of xid d oper] by (simp add: single_response_def call_user_def)
  qed (use assms(6) in simp)
qed

lemma multi_loop_answers:
  assumes "env_ok e" "list_all op_known ops" "list_all2 answer_ok ops as"
  shows "ia_ok ia \<Longrightarrow> remaining ia = behind_header ops as \<Longrightarrow>
    multi_loop e zh (op_entries xid results i ops) (first_header ops as) rc ia cs =
      Ret (multi_code rc as, cs @ concat (map2 (answer_calls zh) (op_entries xid results i ops) as))"
  using assms(2,3)
proof (induction ops arbitrary: as i rc ia cs)
  case Nil
  then show ?case by (simp add: last_header_def)
next
  case (Cons oper ops)
  have m: "en_mem e n" for n using assms(1) by simp
  obtain a as' where l: "as = a # as'" "op_known oper" "list_all op_known ops" "answer_ok oper a" "list_all2 answer_ok ops as'"
    using Cons.prems(3,4) by (auto simp: list_all2_Cons1)
  let ?d = "result_addr results i"
  let ?c = "op_entry xid ?d oper" and ?rest = "enc_MultiHeader (first_header ops as') @ behind_header ops as'"
  have r: "remaining ia = answer_body a @ ?rest" using Cons.prems(2) l(1) by simp
  have next_ok: "\<exists>ia2. deserialize_MultiHeader (en_mem e) ia1 h = Ret (0, first_header ops as', ia2) \<and>
      (\<forall>rc cs. multi_loop e zh (op_entries xid results (Suc i) ops) (first_header ops as') rc ia2 cs =
        Ret (multi_code rc as', cs @ concat (map2 (answer_calls zh) (op_entries xid results (Suc i) ops) as')))"
    if i1: "ia_ok ia1" "remaining ia1 = ?rest" for ia1 h
  proof -
    obtain ia2 where "deserialize_MultiHeader (en_mem e) ia1 h = Ret (0, first_header ops as', ia2)" "ia_ok ia2"
      "remaining ia2 = behind_header ops as'"
      using MultiHeader_codec.des_enc [of "en_mem e", OF m valid_first_header i1] by force
    then show ?thesis using Cons.IH [of ia2 as'] l(3,5) by blast
  qed
  show ?case
  proof (cases a)
    case (Refused code)
    obtain ia1 where d: "deserialize_ErrorResponse (en_mem e) ia \<lparr> ErrorResponse_err = 0 \<rparr> = Ret (0, \<lparr> ErrorResponse_err = code \<rparr>, ia1)"
      "ia_ok ia1" "remaining ia1 = ?rest"
      using ErrorResponse_codec.des_enc [of "en_mem e", OF m _ Cons.prems(1), of "\<lparr> ErrorResponse_err = code \<rparr>" ?rest] r Refused
      by (force simp: valid_ErrorResponse_def)
    obtain ia2 where "deserialize_MultiHeader (en_mem e) ia1 (answer_header oper a) = Ret (0, first_header ops as', ia2)"
      "\<And>rc cs. multi_loop e zh (op_entries xid results (Suc i) ops) (first_header ops as') rc ia2 cs =
        Ret (multi_code rc as', cs @ concat (map2 (answer_calls zh) (op_entries xid results (Suc i) ops) as'))"
      using next_ok [OF d(2,3)] by blast
    then show ?thesis using d(1) Refused l(1)
      by (simp add: read_reply_def Let_def single_response_failed [OF op_entry_facts(1)] del: bind_exec_Ret_iff)
  next
    case Created
    obtain ia1 where d: "single_response e zh False 0 ?c (Some ia) = Ret (answer_calls zh ?c a, Some ia1)" "ia_ok ia1" "remaining ia1 = ?rest"
      using single_answer [OF assms(1) l(2,4) Cons.prems(1) r] Created by blast
    show ?thesis using next_ok [OF d(2,3), of "answer_header oper a"] d(1) Created l(1) op_type_positive [OF l(2)]
      by (auto simp del: bind_exec_Ret_iff)
  next
    case Changed
    obtain ia1 where d: "single_response e zh False 0 ?c (Some ia) = Ret (answer_calls zh ?c a, Some ia1)" "ia_ok ia1" "remaining ia1 = ?rest"
      using single_answer [OF assms(1) l(2,4) Cons.prems(1) r] Changed by blast
    show ?thesis using next_ok [OF d(2,3), of "answer_header oper a"] d(1) Changed l(1) op_type_positive [OF l(2)]
      by (auto simp del: bind_exec_Ret_iff)
  next
    case Done
    obtain ia1 where d: "single_response e zh False 0 ?c (Some ia) = Ret (answer_calls zh ?c a, Some ia1)" "ia_ok ia1" "remaining ia1 = ?rest"
      using single_answer [OF assms(1) l(2,4) Cons.prems(1) r] Done by blast
    show ?thesis using next_ok [OF d(2,3), of "answer_header oper a"] d(1) Done l(1) op_type_positive [OF l(2)]
      by (auto simp del: bind_exec_Ret_iff)
  qed
qed

section \<open>The results of a multi request that was answered\<close>

text \<open>The path is copied as a C string, cut to the length of the buffer.\<close>

definition copied :: "string \<Rightarrow> int \<Rightarrow> string \<Rightarrow> string" where
  "copied s n buf = (if n = 0 then buf else take (nat n - 1) s @ [NUL] @ drop (min (length s + 1) (nat n)) buf)"

fun answered_result :: "session \<Rightarrow> zoo_op \<Rightarrow> sub_answer \<Rightarrow> op_result \<Rightarrow> op_result" where
  "answered_result zh oper (Refused code) r = failed_result (sint code) oper r"
| "answered_result zh oper (Created p) r =
     r\<lparr> or_err := 0, or_value := map_option (copied (sub_string (chroot zh) p) (or_valuelen r)) (or_value r) \<rparr>"
| "answered_result zh oper (Changed s) r = r\<lparr> or_err := 0, or_stat := map_option (\<lambda>_. s) (or_stat r) \<rparr>"
| "answered_result zh oper Done r = r\<lparr> or_err := 0 \<rparr>"

text \<open>The buffer of a result is as long as it says.\<close>

definition result_room :: "op_result \<Rightarrow> bool" where
  "result_room r \<longleftrightarrow> (\<forall>buf. or_value r = Some buf \<longrightarrow> 0 \<le> or_valuelen r \<and> or_valuelen r \<le> int (length buf))"

lemma string_result:
  assumes "result_room r"
  shows "op_result_string_completion 0 (Some s) r = Ret (r\<lparr> or_err := 0, or_value := map_option (copied s (or_valuelen r)) (or_value r) \<rparr>)"
proof (cases "or_value r")
  case (Some buf)
  then have n: "0 \<le> or_valuelen r" "or_valuelen r \<le> int (length buf)" using assms by (simp_all add: result_room_def)
  show ?thesis
  proof (cases "or_valuelen r = 0")
    case False
    then have "nat (min (int (length s) + 1) (or_valuelen r)) = min (length s + 1) (nat (or_valuelen r))" using n by linarith
    moreover have "take (min (length s + 1) (nat (or_valuelen r)) - 1) s = take (nat (or_valuelen r) - 1) s" by (auto simp: min_def)
    ultimately show ?thesis using Some False n by (auto simp: op_result_string_completion_def Let_def copied_def)
  qed (use Some in \<open>simp add: op_result_string_completion_def Let_def copied_def\<close>)
qed (simp add: op_result_string_completion_def Let_def)

lemma run_answer:
  assumes "mem a = Some r" "answer_ok oper ans" "result_room r"
  shows "run_op_results (answer_calls zh (op_entry xid a oper) ans) mem = Ret (mem(a \<mapsto> answered_result zh oper ans r))"
proof (cases ans)
  case (Refused code)
  then show ?thesis using run_failure [of mem a r, OF assms(1)] by simp
qed (use assms in \<open>cases oper; auto simp: op_entry_def run_op_result_def Let_def string_result op_result_void_completion_def
      op_result_stat_completion_def split: option.split\<close>)+

lemma run_answers:
  assumes "length rs = length ops" "results_at results i rs mem" "list_all2 answer_ok ops as" "list_all result_room rs"
  shows "\<exists>mem'. run_op_results (concat (map2 (answer_calls zh) (op_entries xid results i ops) as)) mem = Ret mem' \<and>
      results_at results i (map2 (\<lambda>(oper, a). answered_result zh oper a) (zip ops as) rs) mem' \<and>
      (\<forall>a. (\<forall>k < length rs. a \<noteq> result_addr results (i + k)) \<longrightarrow> mem' a = mem a)"
proof -
  have l: "length as = length ops" using assms(3) by (simp add: list_all2_lengthD)
  show ?thesis
  proof (rule run_in_array [OF _ _ assms(2)])
    fix k m assume k: "k < length rs" "m (result_addr results (i + k)) = Some (rs ! k)"
    have "answer_ok (ops ! k) (as ! k)" "result_room (rs ! k)" using assms(1,3,4) k(1) by (auto simp: list_all2_conv_all_nth list_all_length)
    from run_answer [of m "result_addr results (i + k)", OF k(2) this]
    show "run_op_results (map2 (answer_calls zh) (op_entries xid results i ops) as ! k) m =
        Ret (m(result_addr results (i + k) \<mapsto> map2 (\<lambda>(oper, a). answered_result zh oper a) (zip ops as) rs ! k))"
      using k(1) l assms(1) by (simp add: op_entries_nth)
  qed (use l assms(1) in simp_all)
qed

section \<open>From the request to the results\<close>

definition multi_entry :: "i32 \<Rightarrow> addr \<Rightarrow> zoo_op list \<Rightarrow> addr \<Rightarrow> addr \<Rightarrow> completion_list" where
  "multi_entry xid results ops dc data = request_entry xid COMPLETION_MULTI dc data None None (op_entries xid results 0 ops)"

lemma multi_entry_facts:
  assumes "dc \<noteq> NULL" "dc \<noteq> SYNCHRONOUS_MARKER"
  shows "is_async (multi_entry xid results ops dc data)" "callable (multi_entry xid results ops dc data)"
    "c_dereg (multi_entry xid results ops dc data) = None" "c_xid (multi_entry xid results ops dc data) = xid"
    "c_dc (multi_entry xid results ops dc data) = dc" "c_data (multi_entry xid results ops dc data) = data"
    "c_type (multi_entry xid results ops dc data) = COMPLETION_MULTI"
    "c_clist (multi_entry xid results ops dc data) = op_entries xid results 0 ops"
proof -
  have "\<forall>x \<in> set (op_entries xid results i ops). c_dc x \<noteq> NULL" for i
    by (induction ops arbitrary: i) (simp_all add: op_entry_facts(1) [simplified])
  then show "callable (multi_entry xid results ops dc data)" using assms by (simp add: callable_def multi_entry_def)
qed (use assms in \<open>simp_all add: multi_entry_def\<close>)

lemma queued_multi_ready:
  assumes "session_inv zh" "is_async c"
  shows "session_inv (queued c b zh)" "sent_requests (queued c b zh) = sent_requests zh @ [c]" "get_table (queued c b zh) t = get_table zh t"
    "completions_to_process (queued c b zh) = completions_to_process zh" "calls (queued c b zh) = calls zh"
  using session_inv_queued [OF assms(1), of c b] assms(2) by (cases t; simp add: queued_def get_table_def)+

text \<open>
  Property C6: a multi request while nothing else is outstanding, answered by the server operation by operation: it is
  queued as one packet that holds its operations in their order; when the answer is there, the functions
  of the operations are called, in this order, and then the function of the user with the code of the
  first operation that failed by itself; the results of the user then hold what the server answered: the
  code of each operation, the path it created, cut to the length of its buffer, the new status.
\<close>

theorem multi_answered:
  assumes "env_ok e" "session_inv zh" "watch_space (Suc 0) zh" "\<not> close_requested zh" "sent_requests zh = []" "completions_to_process zh = []"
    and "list_all2 (op_ok zh) ops ps" "length rs = length ops" "length (multi_message xid ps ops) \<le> 2 ^ 29"
    and "xid \<notin> out_of_band" "dc \<noteq> NULL" "dc \<noteq> SYNCHRONOUS_MARKER"
    and "list_all2 answer_ok ops as" "length (enc_answers ops as) < 2 ^ 30"
    and "results_at results 0 (map2 prepared ops rs) mem" "list_all result_room (map2 prepared ops rs)"
  shows "\<exists>b zh1 zh2 zh3 us mem'. zoo_amulti e xid (Some zh) ops results rs dc data = Ret (ZOK, map2 prepared ops rs, Some zh1) \<and>
    zh1 = queued (multi_entry xid results ops dc data) b zh \<and> fresh_packet (multi_message xid ps ops) b \<and>
    process_packet e (answer_packet xid zxid (enc_answers ops as)) zh1 = Ret (None, zh2) \<and> process_completions e zh2 = Ret zh3 \<and>
    calls zh3 = calls zh @ us @ [Void_call dc (multi_code 0 as) data] \<and> run_op_results us mem = Ret mem' \<and>
    results_at results 0 (map2 (\<lambda>(oper, a). answered_result zh oper a) (zip ops as) (map2 prepared ops rs)) mem'"
proof -
  let ?p = "answer_packet xid zxid (enc_answers ops as)" and ?c = "multi_entry xid results ops dc data"
  let ?h = "\<lparr> ReplyHeader_xid = xid, ReplyHeader_zxid = zxid, ReplyHeader_err = 0 \<rparr>"
  note c = multi_entry_facts [OF assms(11,12), of xid results ops data]
  obtain b where q: "zoo_amulti e xid (Some zh) ops results rs dc data = Ret (ZOK, map2 prepared ops rs, Some (queued ?c b zh))"
    "fresh_packet (multi_message xid ps ops) b"
    using multi_queued [OF assms(1,4,7,8,9), of results dc data] unfolding multi_entry_def by blast
  note z1 = queued_multi_ready [OF assms(2) c(1), of b]
  have s: "sent_requests (queued ?c b zh) = ?c # []" "watch_space (Suc 0) (queued ?c b zh)"
    using z1(2,3) assms(3,5) by (simp_all add: watch_space_def)
  have an: "answers (?p, ?h) ?c" using answer_packet_reply [OF assms(14)] assms(10) c(1,4) by (simp add: answers_def)
  obtain zh2 where z2: "process_packet e ?p (queued ?c b zh) = Ret (None, zh2)" "after_reply (?p, ?h) ?c (queued ?c b zh) zh2"
    using reply_activates [OF assms(1) z1(1) s(2,1) c(1,3) an] by metis
  have cs: "completions_to_process zh2 = [?c\<lparr> c_buffer := Some ?p \<rparr>]" "calls zh2 = calls zh"
    using z2(2) assms(6) c(1) z1(4,5) by (simp_all add: after_reply_def completed_def)
  obtain ia where ia: "read_header e (new_iarchive e (bl_buffer ?p) (sint (bl_len ?p))) = Ret (?h, ia)" "ia_ok ia"
    "remaining ia = enc_answers ops as" using answer_packet_read [OF assms(1,14) refl] .
  have m: "en_mem e n" for n using assms(1) by simp
  obtain ia' where des: "deserialize_MultiHeader (en_mem e) ia \<lparr> MultiHeader_type = 0, MultiHeader_done = 0, MultiHeader_err = 0 \<rparr> =
      Ret (0, first_header ops as, ia')" "ia_ok ia'" "remaining ia' = behind_header ops as"
    using MultiHeader_codec.des_enc [of "en_mem e", OF m valid_first_header ia(2)] ia(3) unfolding enc_answers_def by metis
  let ?us = "concat (map2 (answer_calls zh) (op_entries xid results 0 ops) as)"
  have k: "list_all op_known ops" using assms(7) op_ok_known by (fastforce simp: list_all2_conv_all_nth list_all_length)
  have ch: "chroot zh2 = chroot zh" using z2(2) by (simp add: after_reply_def queued_def)
  have ac: "answer_calls zh2 c a = answer_calls zh c a" for c a by (cases a) (simp_all add: ch)
  have dm: "deserialize_multi e z (op_entries xid results 0 ops) ia = Ret (multi_code 0 as, ?us)" if "chroot z = chroot zh" for z
  proof -
    have "answer_calls z c a = answer_calls zh c a" for c a by (cases a) (simp_all add: that)
    then show ?thesis
      using multi_loop_answers [OF assms(1) k assms(13) des(2,3)] des(1) by (simp add: deserialize_multi_def del: bind_exec_Ret_iff)
  qed
  have "process_completion e (?c\<lparr> c_buffer := Some ?p \<rparr>) z = Ret (z\<lparr> calls := calls z @ ?us @ [Void_call dc (multi_code 0 as) data] \<rparr>)"
    if "chroot z = chroot zh" for z
    using assms(10-12) ia(1) c(4-8) dm [OF that] by (simp add: process_completion_def out_of_band_def deserialize_response_def)
  then have pc: "process_completions e zh2 = Ret (zh2\<lparr> completions_to_process := [], calls := calls zh @ ?us @ [Void_call dc (multi_code 0 as) data] \<rparr>)"
    using ch by (simp add: process_completions_def cs)
  obtain mem' where "run_op_results ?us mem = Ret mem'"
    "results_at results 0 (map2 (\<lambda>(oper, a). answered_result zh oper a) (zip ops as) (map2 prepared ops rs)) mem'"
    using run_answers [OF _ assms(15,13,16), of zh xid] assms(8) by auto
  then show ?thesis using q z2(1) pc by fastforce
qed

text \<open>A handle that has chosen a path and a check, and the answers of a server.\<close>

definition example_ops :: "zoo_op list" where
  "example_ops = [zoo_create_op_init (Some ''/a'') (Some [104, 105]) 2 (Some \<lparr> ACL_vector_count = 0, ACL_vector_data = Some [] \<rparr>) 0 (Some ''xxxx'') 4, zoo_check_op_init (Some ''/a'') 3]"

definition example_results :: "op_result list" where
  "example_results = replicate 2 \<lparr> or_err = 7, or_value = None, or_valuelen = 0, or_stat = None \<rparr>"

definition example_memory :: "addr \<Rightarrow> op_result option" where
  "example_memory = [1000 \<mapsto> prepared (example_ops ! 0) (example_results ! 0), 1032 \<mapsto> prepared (example_ops ! 1) (example_results ! 1)]"

lemma example_multi:
  "list_all2 (op_ok (idle_handle ht)) example_ops [''/a'', ''/a'']" "length example_results = length example_ops"
  "length (multi_message 7 [''/a'', ''/a''] example_ops) \<le> 2 ^ 29"
  "results_at 1000 0 (map2 prepared example_ops example_results) example_memory"
  "list_all result_room (map2 prepared example_ops example_results)"
proof -
  have "valid_ACL_vector \<lparr> ACL_vector_count = 0, ACL_vector_data = Some [] \<rparr>" by (simp add: valid_ACL_vector_def)
  then show "list_all2 (op_ok (idle_handle ht)) example_ops [''/a'', ''/a'']"
    using idle_path [of ht] by (simp add: example_ops_def zoo_create_op_init_def zoo_check_op_init_def get_create_op_type_def valid_buffer_def acl_or_empty_def ZOO_CREATE_OP_def ZOOKEEPER_IS_TTL_def)
  show "length example_results = length example_ops" by (simp add: example_results_def example_ops_def)
  show "length (multi_message 7 [''/a'', ''/a''] example_ops) \<le> 2 ^ 29"
    by (simp add: multi_message_def ops_bytes_def op_bytes_def example_ops_def zoo_create_op_init_def zoo_check_op_init_def enc_RequestHeader_def
        enc_string_def bytes_of_string_def enc_data_def enc_buffer_def acl_or_empty_def enc_ACL_vector_def)
  show "results_at 1000 0 (map2 prepared example_ops example_results) example_memory"
    by (auto simp: results_at_def example_memory_def example_ops_def example_results_def result_addr_def less_Suc_eq numeral_2_eq_2)
  show "list_all result_room (map2 prepared example_ops example_results)"
    by (simp add: result_room_def example_ops_def example_results_def zoo_create_op_init_def zoo_check_op_init_def numeral_2_eq_2)
qed

theorem multi_answered_witness:
  "\<exists>zh zh1 zh2 zh3 us mem'. zoo_amulti example_env 7 (Some zh) example_ops 1000 example_results 9 90 =
      Ret (ZOK, map2 prepared example_ops example_results, Some zh1) \<and>
    process_packet example_env (answer_packet 7 77 (enc_answers example_ops [Created ''/abc'', Refused (-103)])) zh1 = Ret (None, zh2) \<and>
    process_completions example_env zh2 = Ret zh3 \<and> calls zh3 = us @ [Void_call 9 (-103) 90] \<and>
    run_op_results us example_memory = Ret mem' \<and>
    mem' 1000 = Some \<lparr> or_err = 0, or_value = Some (''/ab'' @ [NUL]), or_valuelen = 4, or_stat = None \<rparr> \<and>
    mem' 1032 = Some \<lparr> or_err = -103, or_value = None, or_valuelen = 0, or_stat = None \<rparr>"
proof -
  obtain ht where ht: "session_inv (example_handle ht)" "entries ht = []" "\<And>t. get_table (example_handle ht) t = ht"
    using example_tables by metis
  have i: "session_inv (idle_handle ht)" using idle_fresh [OF ht(1)] by (simp add: fresh_handle_def)
  have sp: "watch_space (Suc 0) (idle_handle ht)" unfolding watch_space_def idle_handle_facts ht(3,2) by simp
  let ?as = "[Created ''/abc'', Refused (-103)]"
  have a: "list_all2 answer_ok example_ops ?as" "length (enc_answers example_ops ?as) < 2 ^ 30"
    by (simp_all add: example_ops_def zoo_create_op_init_def zoo_check_op_init_def valid_string_def is_cstr_def NUL_def enc_answers_def
        enc_MultiHeader_def last_header_def enc_CreateResponse_def enc_ErrorResponse_def enc_string_def bytes_of_string_def)
  have x: "(7 :: i32) \<notin> out_of_band" "(9 :: addr) \<noteq> NULL" "(9 :: addr) \<noteq> SYNCHRONOUS_MARKER" "\<not> close_requested (idle_handle ht)"
    by (simp_all add: out_of_band_def SYNCHRONOUS_MARKER_def)
  obtain b zh1 zh2 zh3 us mem' where r: "zoo_amulti example_env 7 (Some (idle_handle ht)) example_ops 1000 example_results 9 90 =
      Ret (ZOK, map2 prepared example_ops example_results, Some zh1)"
    "process_packet example_env (answer_packet 7 77 (enc_answers example_ops ?as)) zh1 = Ret (None, zh2)"
    "process_completions example_env zh2 = Ret zh3" "calls zh3 = us @ [Void_call 9 (multi_code 0 ?as) 90]"
    "run_op_results us example_memory = Ret mem'"
    "results_at 1000 0 (map2 (\<lambda>(oper, a). answered_result (idle_handle ht) oper a) (zip example_ops ?as) (map2 prepared example_ops example_results)) mem'"
    using multi_answered [OF example_env_ok i sp x(4) idle_handle_facts(1,7) example_multi(1-3) x(1-3) a example_multi(4,5), of 90 77] by auto
  have m: "multi_code 0 ?as = -103" by (simp add: ZRUNTIMEINCONSISTENCY_def)
  have "mem' (result_addr 1000 0) = Some \<lparr> or_err = 0, or_value = Some (''/ab'' @ [NUL]), or_valuelen = 4, or_stat = None \<rparr>"
    "mem' (result_addr 1000 1) = Some \<lparr> or_err = -103, or_value = None, or_valuelen = 0, or_stat = None \<rparr>"
    using r(6) by (auto simp: results_at_def less_Suc_eq example_ops_def example_results_def numeral_2_eq_2 zoo_create_op_init_def
        zoo_check_op_init_def copied_def sub_string_def)
  then have "mem' 1000 = Some \<lparr> or_err = 0, or_value = Some (''/ab'' @ [NUL]), or_valuelen = 4, or_stat = None \<rparr>"
    "mem' 1032 = Some \<lparr> or_err = -103, or_value = None, or_valuelen = 0, or_stat = None \<rparr>" by (simp_all add: result_addr_def)
  with r(1-5) show ?thesis unfolding m by blast
qed

text \<open>
  Property C15: when the connection is lost instead, every operation of a multi request fails with the reason in its
  result, and the function of the user is called last.
\<close>

theorem lost_multi_fills_results:
  assumes "env_ok e" "session_inv zh" "\<not> close_requested zh" "sent_requests zh = []" "completions_to_process zh = []"
    and "list_all2 (op_ok zh) ops ps" "length rs = length ops" "length (multi_message xid ps ops) \<le> 2 ^ 29"
    and "xid \<noteq> -1" "dc \<noteq> NULL" "dc \<noteq> SYNCHRONOUS_MARKER" "results_at results 0 (map2 prepared ops rs) mem"
    and "i32_code reason" "watchers_callable zh" "0 \<le> zh_state zh"
  shows "\<exists>zh1 zh2 zh3 us vs mem'. zoo_amulti e xid (Some zh) ops results rs dc data = Ret (ZOK, map2 prepared ops rs, Some zh1) \<and>
    handle_socket_error e zh1 reason = Ret (reason, zh2) \<and> process_completions e zh2 = Ret zh3 \<and>
    calls zh3 = us @ vs @ [Void_call dc reason data] \<and> run_op_results vs mem = Ret mem' \<and>
    results_at results 0 (map2 (failed_result reason) ops (map2 prepared ops rs)) mem'"
proof -
  let ?c = "multi_entry xid results ops dc data"
  note c = multi_entry_facts [OF assms(10,11), of xid results ops data]
  obtain b where q: "zoo_amulti e xid (Some zh) ops results rs dc data = Ret (ZOK, map2 prepared ops rs, Some (queued ?c b zh))"
    using multi_queued [OF assms(1,3,6,7,8), of results dc data] unfolding multi_entry_def by blast
  note z1 = queued_multi_ready [OF assms(2) c(1), of b]
  have st: "- (2 ^ 31) \<le> zh_state (queued ?c b zh)" using assms(15) by (simp add: queued_def)
  have "completions_to_process (queued ?c b zh) = []" "watchers_callable (queued ?c b zh)" "sent_requests (queued ?c b zh) = [?c]"
    using assms(4,5,14) z1(2-4) by (simp_all add: watchers_callable_def queued_def)
  with lost_connection_calls [OF assms(1) z1(1) _ assms(13) _ _ st] obtain zh2 zh3 evs where
    r: "handle_socket_error e (queued ?c b zh) reason = Ret (reason, zh2)" "process_completions e zh2 = Ret zh3"
    "calls zh3 = calls (queued ?c b zh) @ auth_calls reason (auth_h (queued ?c b zh)) @ evs @ concat (map (user_failure reason) (filter is_async [?c]))"
    using c(1,2,4) assms(9) by auto
  have "user_failure reason ?c = concat (map (single_failure reason) (op_entries xid results 0 ops)) @ [Void_call dc reason data]"
    using c by (simp add: user_failure_def)
  then have "calls zh3 = (calls (queued ?c b zh) @ auth_calls reason (auth_h (queued ?c b zh)) @ evs) @
      concat (map (single_failure reason) (op_entries xid results 0 ops)) @ [Void_call dc reason data]"
    using r(3) c(1) by simp
  moreover obtain mem' where "run_op_results (concat (map (single_failure reason) (op_entries xid results 0 ops))) mem = Ret mem'"
    "results_at results 0 (map2 (failed_result reason) ops (map2 prepared ops rs)) mem'"
    using run_failures [OF _ assms(12), of ops reason xid] assms(7) by auto
  ultimately show ?thesis using q r(1,2) by blast
qed

theorem lost_multi_fills_results_witness:
  "\<exists>zh zh1 zh2 zh3 us vs mem'. zoo_amulti example_env 7 (Some zh) example_ops 1000 example_results 9 90 =
      Ret (ZOK, map2 prepared example_ops example_results, Some zh1) \<and>
    handle_socket_error example_env zh1 ZCONNECTIONLOSS = Ret (ZCONNECTIONLOSS, zh2) \<and> process_completions example_env zh2 = Ret zh3 \<and>
    calls zh3 = us @ vs @ [Void_call 9 ZCONNECTIONLOSS 90] \<and> run_op_results vs example_memory = Ret mem' \<and>
    mem' 1000 = Some \<lparr> or_err = ZCONNECTIONLOSS, or_value = None, or_valuelen = 4, or_stat = None \<rparr> \<and>
    mem' 1032 = Some \<lparr> or_err = ZCONNECTIONLOSS, or_value = None, or_valuelen = 0, or_stat = None \<rparr>"
proof -
  obtain ht where ht: "watchers_of ht = (\<lambda>_. {})" "session_inv (example_handle ht)" "\<And>t. get_table (example_handle ht) t = ht"
    using example_tables by metis
  have i: "session_inv (idle_handle ht)" using idle_fresh [OF ht(2)] by (simp add: fresh_handle_def)
  have x: "(7 :: i32) \<noteq> -1" "(9 :: addr) \<noteq> NULL" "(9 :: addr) \<noteq> SYNCHRONOUS_MARKER" "i32_code ZCONNECTIONLOSS" "0 \<le> zh_state (idle_handle ht)"
    by (simp_all add: SYNCHRONOUS_MARKER_def i32_code_def)
  have w: "watchers_callable (idle_handle ht)" unfolding watchers_callable_def idle_handle_facts ht(3) ht(1)
    by (simp add: idle_handle_def example_handle_def new_handle_def)
  obtain zh1 zh2 zh3 us vs mem' where r: "zoo_amulti example_env 7 (Some (idle_handle ht)) example_ops 1000 example_results 9 90 =
      Ret (ZOK, map2 prepared example_ops example_results, Some zh1)"
    "handle_socket_error example_env zh1 ZCONNECTIONLOSS = Ret (ZCONNECTIONLOSS, zh2)" "process_completions example_env zh2 = Ret zh3"
    "calls zh3 = us @ vs @ [Void_call 9 ZCONNECTIONLOSS 90]" "run_op_results vs example_memory = Ret mem'"
    "results_at 1000 0 (map2 (failed_result ZCONNECTIONLOSS) example_ops (map2 prepared example_ops example_results)) mem'"
    using lost_multi_fills_results [OF example_env_ok i _ idle_handle_facts(1,7) example_multi(1-3) x(1-3) example_multi(4) x(4) w x(5), of 90] by auto
  have "mem' (result_addr 1000 0) = Some \<lparr> or_err = ZCONNECTIONLOSS, or_value = None, or_valuelen = 4, or_stat = None \<rparr>"
    "mem' (result_addr 1000 1) = Some \<lparr> or_err = ZCONNECTIONLOSS, or_value = None, or_valuelen = 0, or_stat = None \<rparr>"
    using r(6) by (auto simp: results_at_def less_Suc_eq example_ops_def example_results_def numeral_2_eq_2 zoo_create_op_init_def
        zoo_check_op_init_def)
  then have "mem' 1000 = Some \<lparr> or_err = ZCONNECTIONLOSS, or_value = None, or_valuelen = 4, or_stat = None \<rparr>"
    "mem' 1032 = Some \<lparr> or_err = ZCONNECTIONLOSS, or_value = None, or_valuelen = 0, or_stat = None \<rparr>" by (simp_all add: result_addr_def)
  with r(1-5) show ?thesis by blast
qed

end
