(* ===== verification/Zk_Io.thy ===== *)
theory Zk_Io
  imports Zk_Runs
begin

text \<open>
  The loops of the two threads (\<^verbatim>\<open>do_io\<close>, \<^verbatim>\<open>do_completion\<close> of \<^verbatim>\<open>mt_adaptor.c\<close>, for POSIX): a round asks
  \<^verbatim>\<open>zookeeper_interest\<close> what to wait for, polls, and lets \<^verbatim>\<open>zookeeper_process\<close> handle what happened. What
  \<^verbatim>\<open>poll\<close> and the socket answer in each round is an argument.

  The lemmas follow one packet out and one in through such rounds; the theorem at the end takes a get
  request from the call of the user to the call of the user's function.
\<close>

section \<open>One round of the I/O thread\<close>

definition POLLIN :: int where [simp]: "POLLIN = 1"
definition POLLOUT :: int where [simp]: "POLLOUT = 4"
definition POLLHUP :: int where [simp]: "POLLHUP = 16"

text \<open>
  The world during one round: the environment and the calls of \<^verbatim>\<open>zookeeper_interest\<close>, what \<^verbatim>\<open>poll\<close> says
  about the socket when it is asked for events with a timeout, how many threads have written to the pipe
  by then, and whether the socket has an error.
\<close>

record poll_io =
  pi_env :: env
  pi_interest :: interest_io
  pi_poll :: "int \<Rightarrow> int \<Rightarrow> int"
  pi_wakeups :: nat
  pi_so_error :: bool

text \<open>The pipe is read in blocks of 128 bytes until a block comes back short.\<close>

function drain_pipe :: "nat \<Rightarrow> nat" where
  "drain_pipe n = (if n \<ge> 128 then drain_pipe (n - 128) else 0)"
  by auto
termination by (relation "measure id") auto

declare drain_pipe.simps [simp del]

definition poll_events :: "int \<Rightarrow> int" where
  "poll_events interest =
     (if has_event interest ZOOKEEPER_READ then POLLIN else 0) + (if has_event interest ZOOKEEPER_WRITE then POLLOUT else 0)"

definition ready_events :: "int \<Rightarrow> int" where
  "ready_events revents =
     (if has_event revents POLLIN then ZOOKEEPER_READ else 0) +
     (if has_event revents POLLOUT \<or> has_event revents POLLHUP then ZOOKEEPER_WRITE else 0)"

definition poll_timeout :: "timeval \<Rightarrow> int" where
  "poll_timeout tv = tv_sec tv * 1000 + tv_usec tv sdiv 1000"

text \<open>
  The body of the loop of \<^verbatim>\<open>do_io\<close>, on the bytes in the pipe and the handle. The variables that
  \<^verbatim>\<open>zookeeper_interest\<close> fills in have no value before; the result says whether the thread gives up.
\<close>

definition do_io_round :: "poll_io \<Rightarrow> nat \<times> session \<Rightarrow> (bool \<times> nat \<times> session) exec" where
  "do_io_round po = (\<lambda>(pipe, zh).
     bind_exec (zookeeper_interest (pi_env po) (pi_interest po) (Some zh) None)
      (\<lambda>(_, out, h). case out of None \<Rightarrow> UB
       | Some out \<Rightarrow>
           let interest = (if o_fd out \<noteq> -1 then ready_events (pi_poll po (poll_events (o_interest out)) (poll_timeout (o_tv out)))
                           else o_interest out)
           in bind_exec (zookeeper_process (pi_env po) (pi_so_error po) h interest)
               (\<lambda>(_, h1). case h1 of None \<Rightarrow> UB
                | Some zh1 \<Rightarrow> Ret (is_unrecoverable zh1 \<noteq> 0, drain_pipe (pipe + pi_wakeups po), zh1))))"


text \<open>
  One turn of the completion thread: \<^verbatim>\<open>None\<close> when it has ended; without anything to do it sleeps until a
  completion is queued or the handle is closed.
\<close>

definition do_completion_turn :: "env \<Rightarrow> session \<Rightarrow> session option exec" where
  "do_completion_turn e zh =
     (if close_requested zh then Ret None
      else if completions_to_process zh = [] then Ret (Some zh)
      else bind_exec (process_completions e zh) (\<lambda>zh1. Ret (Some zh1)))"

section \<open>What the user may ask and set\<close>

definition zoo_get_context :: "session \<Rightarrow> addr" where
  "zoo_get_context zh = zh_context zh"

definition zoo_set_context :: "addr \<Rightarrow> session option \<Rightarrow> session option" where
  "zoo_set_context context h = map_option (\<lambda>zh. zh\<lparr> zh_context := context \<rparr>) h"

definition zoo_recv_timeout :: "session \<Rightarrow> i32" where
  "zoo_recv_timeout zh = recv_timeout zh"

definition zoo_set_watcher :: "addr \<Rightarrow> session \<Rightarrow> addr \<times> session" where
  "zoo_set_watcher newFn zh = (zh_watcher zh, zh\<lparr> zh_watcher := (if newFn \<noteq> NULL then newFn else null_watcher_fn) \<rparr>)"

text \<open>\<^verbatim>\<open>peer\<close> is what \<^verbatim>\<open>getpeername\<close> answers for a socket, \<^verbatim>\<open>None\<close> when it fails.\<close>

definition zookeeper_get_connected_host :: "(int \<Rightarrow> sockaddr option) \<Rightarrow> session \<Rightarrow> sockaddr option" where
  "zookeeper_get_connected_host peer zh =
     (if zh_state zh \<noteq> ZOO_CONNECTED_STATE then None else peer (sock zh))"


section \<open>A quiet connection\<close>





section \<open>A packet arrives\<close>



lemma has_event_simps [simp]:
  "has_event 1 1" "\<not> has_event 1 2" "\<not> has_event 1 4" "\<not> has_event 1 16" "\<not> has_event 4 1" "has_event 4 4" "\<not> has_event 4 16"
  "has_event 2 2" "\<not> has_event 2 1" "has_event 3 1" "has_event 3 2"
  by (simp_all add: has_event_def)











section \<open>A packet leaves\<close>



section \<open>From the user to the server and back\<close>







definition example_interest :: interest_io where
  "example_interest = \<lparr> ii_dup_ok = True, ii_mem = True, ii_resolve = (\<lambda>_. (ZOK, two_servers)), ii_drand = 0, ii_next_drand = 0,
     ii_socket = 5, ii_connect = Connect_ok, ii_in = [], ii_out = [], ii_wakeup = 0, ii_rw = Rw_failed \<rparr>"

definition example_poll :: "int \<Rightarrow> poll_io" where
  "example_poll events = \<lparr> pi_env = example_env, pi_interest = example_interest, pi_poll = (\<lambda>_ _. events), pi_wakeups = 1, pi_so_error = False \<rparr>"




text \<open>
  When the names of the servers cannot be resolved, \<^verbatim>\<open>zookeeper_interest\<close> returns before it gives its
  caller a descriptor, and the I/O thread goes on to poll one that has no value.
\<close>

theorem unresolved_round_undefined:
  assumes "0 \<le> zh_state zh" "hostname zh = Some hosts" "fst (ii_resolve (pi_interest po) hosts) \<noteq> ZOK"
  shows "do_io_round po (pipe, zh) = UB"
proof -
  obtain rc v where r: "ii_resolve (pi_interest po) hosts = (rc, v)" "rc \<noteq> ZOK"
    using assms(3) by (cases "ii_resolve (pi_interest po) hosts") auto
  show ?thesis using assms(1,2) r by (simp add: do_io_round_def zookeeper_interest_def is_unrecoverable_def update_addrs_def)
qed

theorem unresolved_round_undefined_witness:
  "\<exists>zh. do_io_round ((example_poll 0)\<lparr> pi_interest := example_interest\<lparr> ii_resolve := (\<lambda>_. (ZSYSTEMERROR, no_addrs)) \<rparr> \<rparr>) (0, zh) = UB"
proof -
  obtain ht where ht: "session_inv (example_handle ht)" using example_tables by metis
  have h: "0 \<le> zh_state (idle_handle ht)" "hostname (idle_handle ht) = Some ''h1,h2''"
    by (simp_all add: idle_handle_def example_handle_def new_handle_def)
  show ?thesis by (rule exI, rule unresolved_round_undefined [OF h]) simp
qed

end
