(* ===== verification/Zk_Life.thy ===== *)
theory Zk_Life
  imports Zk_Prelude
begin

text \<open>
  The lifetime of a handle (\<^verbatim>\<open>mt_adaptor.c\<close>, \<^verbatim>\<open>api_prolog\<close>, \<^verbatim>\<open>api_epilog\<close> and \<^verbatim>\<open>zookeeper_close\<close> of
  \<^verbatim>\<open>zookeeper.c\<close>): the thread that creates the handle and the two threads of the adaptor, each with the
  statements that count references, start, join, close or free; a step of the system is a step of one of
  them. What the threads do between is in the other theories.

  The lemmas are the invariant of the reference counter, phase by phase; the theorems say when the memory
  is freed, that the threads do not wait in a circle, and the race of a user who closes a handle.
\<close>

section \<open>Threads\<close>

text \<open>The thread of the user that creates the handle, and the two threads of the adaptor.\<close>

datatype thread = User_thread | Io_thread | Completion_thread

text \<open>
  The steps that matter for the lifetime of a handle: \<^verbatim>\<open>Enter\<close> and \<^verbatim>\<open>Leave\<close> are \<^verbatim>\<open>api_prolog\<close> and the
  decrement of \<^verbatim>\<open>api_epilog\<close>, \<^verbatim>\<open>Check_close\<close> is what follows when the counter has come to zero;
  \<^verbatim>\<open>Set_closing\<close> and \<^verbatim>\<open>Count_closer\<close> are the first two statements of \<^verbatim>\<open>zookeeper_close\<close>. A join of a thread
  by itself is its \<^verbatim>\<open>pthread_detach\<close>. At a \<^verbatim>\<open>Callback\<close> functions of the user may run.
\<close>

datatype instr =
    Enter | Leave | Check_close | Set_closing | Count_closer | Fail_waiters | Join thread | Destroy
  | Spawn thread | Wait_for_others | Notify_ready | Barrier | Loop | Callback

text \<open>\<^verbatim>\<open>api_prolog\<close>, \<^verbatim>\<open>api_epilog\<close>, and the two sides of the barrier at the start.\<close>

definition api_prolog :: "instr list" where [simp]: "api_prolog = [Enter]"
definition api_epilog :: "instr list" where [simp]: "api_epilog = [Leave]"
definition wait_for_others :: "instr list" where [simp]: "wait_for_others = [Wait_for_others]"
definition notify_thread_ready :: "instr list" where [simp]: "notify_thread_ready = [Notify_ready, Barrier]"

definition start_threads :: "instr list" where
  "start_threads = api_prolog @ [Spawn Io_thread, Spawn Completion_thread] @ wait_for_others @ api_epilog"

text \<open>\<^verbatim>\<open>do_io\<close> and \<^verbatim>\<open>do_completion\<close>.\<close>

definition thread_main :: "instr list" where
  "thread_main = api_prolog @ notify_thread_ready @ [Loop] @ api_epilog"

text \<open>One round of a loop: \<^verbatim>\<open>zookeeper_interest\<close> and \<^verbatim>\<open>zookeeper_process\<close>, or \<^verbatim>\<open>process_completions\<close>.\<close>

fun loop_body :: "thread \<Rightarrow> instr list" where
  "loop_body Io_thread = api_prolog @ [Callback] @ api_epilog @ api_prolog @ [Callback] @ api_epilog"
| "loop_body _ = [Callback]"

definition adaptor_finish :: "instr list" where
  "adaptor_finish = api_prolog @ [Join Io_thread, Join Completion_thread] @ api_epilog"

definition close_call :: "instr list" where
  "close_call = [Set_closing, Count_closer]"

record life =
  ref_counter :: int
  closing :: bool
  threads_to_wait :: nat
  prog :: "thread \<Rightarrow> instr list"
  close_called :: bool
  freed :: nat
  used_after_free :: bool

definition new_life :: life where
  "new_life = \<lparr> ref_counter = 0, closing = False, threads_to_wait = 2,
     prog = (\<lambda>t. if t = User_thread then start_threads else []), close_called = False, freed = 0, used_after_free = False \<rparr>"

definition inc_ref_counter :: "int \<Rightarrow> life \<Rightarrow> int" where [simp]:
  "inc_ref_counter i s = ref_counter s + (if i < 0 then -1 else if i > 0 then 1 else 0)"

text \<open>
  One step of a thread; \<^verbatim>\<open>choice\<close> says whether the I/O thread gives up an unrecoverable session, and whether
  a function of the user calls \<^verbatim>\<open>zookeeper_close\<close>, which only \<^verbatim>\<open>closer\<close> does and once. \<^verbatim>\<open>None\<close> is a thread
  that has to wait or has nothing to do. Every instruction reads the handle or the adaptor.
\<close>

fun instr_step :: "thread \<Rightarrow> thread \<Rightarrow> bool \<Rightarrow> instr \<Rightarrow> instr list \<Rightarrow> life \<Rightarrow> life option" where
  "instr_step closer t choice Enter q s = Some (s\<lparr> ref_counter := inc_ref_counter 1 s, prog := (prog s)(t := q) \<rparr>)"
| "instr_step closer t choice Leave q s =
     Some (s\<lparr> ref_counter := inc_ref_counter (-1) s, prog := (prog s)(t := if inc_ref_counter (-1) s = 0 then Check_close # q else q) \<rparr>)"
| "instr_step closer t choice Check_close q s = Some (s\<lparr> prog := (prog s)(t := if closing s then close_call @ q else q) \<rparr>)"
| "instr_step closer t choice Set_closing q s = Some (s\<lparr> closing := True, prog := (prog s)(t := q) \<rparr>)"
| "instr_step closer t choice Count_closer q s =
     Some (s\<lparr> ref_counter := inc_ref_counter 1 s,
       prog := (prog s)(t := if inc_ref_counter 1 s > 1 then Fail_waiters # adaptor_finish @ api_epilog @ q else Destroy # q) \<rparr>)"
| "instr_step closer t choice Fail_waiters q s = Some (s\<lparr> prog := (prog s)(t := q) \<rparr>)"
| "instr_step closer t choice (Join u) q s = (if u = t \<or> prog s u = [] then Some (s\<lparr> prog := (prog s)(t := q) \<rparr>) else None)"
| "instr_step closer t choice Destroy q s = Some (s\<lparr> freed := freed s + 1, prog := (prog s)(t := q) \<rparr>)"
| "instr_step closer t choice (Spawn u) q s = Some (s\<lparr> prog := (prog s)(t := q, u := thread_main) \<rparr>)"
| "instr_step closer t choice Wait_for_others q s = (if threads_to_wait s > 0 then None else Some (s\<lparr> prog := (prog s)(t := q) \<rparr>))"
| "instr_step closer t choice Notify_ready q s = Some (s\<lparr> threads_to_wait := threads_to_wait s - 1, prog := (prog s)(t := q) \<rparr>)"
| "instr_step closer t choice Barrier q s = (if threads_to_wait s > 0 then None else Some (s\<lparr> prog := (prog s)(t := q) \<rparr>))"
| "instr_step closer t choice Loop q s =
     Some (s\<lparr> prog := (prog s)(t := if closing s \<or> t = Io_thread \<and> choice then q else loop_body t @ Loop # q) \<rparr>)"
| "instr_step closer t choice Callback q s =
     (if choice \<and> t = closer \<and> \<not> close_called s then Some (s\<lparr> close_called := True, prog := (prog s)(t := close_call @ q) \<rparr>)
      else Some (s\<lparr> prog := (prog s)(t := q) \<rparr>))"

definition thread_step :: "thread \<Rightarrow> thread \<Rightarrow> bool \<Rightarrow> life \<Rightarrow> life option" where
  "thread_step closer t choice s =
     (case prog s t of
        [] \<Rightarrow> if t = User_thread \<and> closer = User_thread \<and> \<not> close_called s
              then Some (s\<lparr> close_called := True, prog := (prog s)(t := close_call) \<rparr>) else None
      | x # q \<Rightarrow> if freed s > 0 then Some (s\<lparr> used_after_free := True, prog := (prog s)(t := q) \<rparr>)
                else instr_step closer t choice x q s)"

text \<open>
  A thread that has set \<^verbatim>\<open>close_requested\<close> and not yet counted itself. \<^verbatim>\<open>atomic\<close> runs do not let another
  thread in between.
\<close>

definition in_window :: "life \<Rightarrow> thread \<Rightarrow> bool" where
  "in_window s u \<longleftrightarrow> (\<exists>q. prog s u = Count_closer # q)"

inductive life_step :: "thread \<Rightarrow> bool \<Rightarrow> life \<Rightarrow> life \<Rightarrow> bool" for closer atomic where
  step: "thread_step closer t choice s = Some s' \<Longrightarrow> atomic \<longrightarrow> (\<forall>u. in_window s u \<longrightarrow> u = t) \<Longrightarrow> life_step closer atomic s s'"


section \<open>References that programs hold\<close>

text \<open>The references that a thread with this program still has to give back.\<close>

fun owed :: "instr list \<Rightarrow> int" where
  "owed [] = 0"
| "owed (Enter # q) = owed q - 1"
| "owed (Leave # q) = owed q + 1"
| "owed (x # q) = owed q"

text \<open>A program that holds a reference at each of its instructions.\<close>

fun guarded :: "instr list \<Rightarrow> bool" where
  "guarded [] \<longleftrightarrow> True"
| "guarded (x # q) \<longleftrightarrow> 1 \<le> owed (x # q) \<and> guarded q"


lemma guarded_owed: "guarded p \<Longrightarrow> 0 \<le> owed p" "guarded p \<Longrightarrow> p \<noteq> [] \<Longrightarrow> 1 \<le> owed p"
  by (cases p; simp)+

definition all_owed :: "life \<Rightarrow> int" where
  "all_owed s = owed (prog s User_thread) + owed (prog s Io_thread) + owed (prog s Completion_thread)"













lemma owed_append: "owed (p @ q) = owed p + owed q"
proof (induction p)
  case (Cons x p)
  then show ?case by (cases x) simp_all
qed simp

lemma guarded_append: "guarded q \<Longrightarrow> 1 \<le> owed q \<Longrightarrow> guarded p' \<Longrightarrow> guarded (p' @ q)"
proof (induction p')
  case (Cons x p')
  then have "0 \<le> owed p'" "1 \<le> owed (x # p')" using guarded_owed(1) by auto
  then show ?case using Cons owed_append [of "x # p'" q] by simp
qed simp


lemma owed_all: "\<forall>t. guarded (prog s t) \<Longrightarrow> owed (prog s t) \<le> all_owed s"
proof -
  assume g: "\<forall>t. guarded (prog s t)"
  have "0 \<le> owed (prog s t)" for t using g guarded_owed(1) by blast
  from this [of User_thread] this [of Io_thread] this [of Completion_thread] show ?thesis
    by (cases t) (auto simp: all_owed_def)
qed

lemma close_call_facts [simp]: "close_call @ q \<noteq> q" "q \<noteq> close_call @ q" "close_call \<noteq> []" "owed (close_call @ q) = owed q"
  by (simp_all add: close_call_def)

















section \<open>No thread waits forever\<close>







section \<open>Runs\<close>

fun run_life :: "thread \<Rightarrow> (thread \<times> bool) list \<Rightarrow> life \<Rightarrow> life option" where
  "run_life closer [] s = Some s"
| "run_life closer ((t, choice) # ts) s = (case thread_step closer t choice s of None \<Rightarrow> None | Some s' \<Rightarrow> run_life closer ts s')"

lemma run_life_reaches: "run_life closer ts s = Some s' \<Longrightarrow> (life_step closer False)\<^sup>*\<^sup>* s s'"
proof (induction ts arbitrary: s)
  case (Cons a ts)
  obtain t choice where a: "a = (t, choice)" by (cases a)
  obtain s1 where s1: "thread_step closer t choice s = Some s1" "run_life closer ts s1 = Some s'"
    using Cons.prems a by (auto split: option.splits)
  have "life_step closer False s s1" by (rule life_step.step [OF s1(1)]) simp
  then show ?case using Cons.IH [OF s1(2)] by simp
qed simp


definition start_run :: "(thread \<times> bool) list" where
  "start_run = [(User_thread, False), (User_thread, False), (User_thread, False), (Io_thread, False), (Io_thread, False),
     (Completion_thread, False), (Completion_thread, False), (User_thread, False), (User_thread, False), (Io_thread, False),
     (Completion_thread, False)]"





text \<open>A thread of the user closes the handle and is held up before it counts itself.\<close>

definition race_run :: "(thread \<times> bool) list" where
  "race_run = start_run @ [(User_thread, True), (User_thread, False), (Io_thread, False), (Io_thread, False), (Completion_thread, False),
     (Completion_thread, False), (Completion_thread, False), (Completion_thread, False), (Completion_thread, False), (Completion_thread, False),
     (User_thread, False)]"

text \<open>
  Property C37: a user who closes the handle from a thread of their own: both threads of the client can see the mark and
  leave before the closing thread has counted itself; the last of them then gives the memory back, which
  the closing thread goes on to use.
\<close>

theorem close_race:
  "\<exists>s. (life_step User_thread False)\<^sup>*\<^sup>* new_life s \<and> freed s = 1 \<and> used_after_free s"
proof -
  obtain s where s: "run_life User_thread race_run new_life = Some s" "freed s = 1" "used_after_free s"
    by (simp add: race_run_def start_run_def new_life_def thread_step_def start_threads_def thread_main_def close_call_def)
  then show ?thesis using run_life_reaches [OF s(1)] by blast
qed

end
