(* ===== verification/Zk_Resolve.thy ===== *)
theory Zk_Resolve
  imports Zk_Path Reconfig Record_IO
begin

text \<open>
  The list of servers in text (\<^verbatim>\<open>zookeeper.c\<close>): \<^verbatim>\<open>resolve_hosts\<close>, which takes a connection string apart
  at its commas, asks the resolver for every entry and shuffles what it found; \<^verbatim>\<open>format_endpoint_info\<close>,
  which prints an address; and the seed of the random numbers. The functions of the C library that the
  code uses (\<^verbatim>\<open>strtok_r\<close>, \<^verbatim>\<open>strrchr\<close>, \<^verbatim>\<open>strtol\<close>) are defined here, \<^verbatim>\<open>getaddrinfo\<close> is a parameter.

  The lemmas show which addresses come out and when the string is refused, that resolving again leaves
  the handle as it is, and that an address in print can be read back.
\<close>

section \<open>The C library\<close>

text \<open>
  \<^verbatim>\<open>isspace\<close> in the C locale, \<^verbatim>\<open>strrchr\<close> (the text before and behind the last occurrence),
  \<^verbatim>\<open>strtok_r\<close> (the next token and what \<^verbatim>\<open>strtok_last\<close> points to afterwards) and \<^verbatim>\<open>strtol\<close> with base 0
  (the value, limited to the range of \<^verbatim>\<open>long\<close>, and the text it stopped at).
\<close>

definition isspace :: "char \<Rightarrow> bool" where
  "isspace c \<longleftrightarrow> c \<in> {CHR '' '', CHR 0x09, CHR 0x0A, CHR 0x0B, CHR 0x0C, CHR 0x0D}"

definition strrchr :: "char \<Rightarrow> string \<Rightarrow> (string \<times> string) option" where
  "strrchr c s =
     (if c \<in> set s
      then Some (rev (tl (dropWhile (\<lambda>x. x \<noteq> c) (rev s))), rev (takeWhile (\<lambda>x. x \<noteq> c) (rev s)))
      else None)"

definition strtok_r :: "char \<Rightarrow> string \<Rightarrow> (string \<times> string) option" where
  "strtok_r c s =
     (let t = dropWhile (\<lambda>x. x = c) s in
      if t = [] then None
      else Some (takeWhile (\<lambda>x. x \<noteq> c) t, tl (dropWhile (\<lambda>x. x \<noteq> c) t)))"

definition digit_value :: "char \<Rightarrow> nat" where
  "digit_value c =
     (let n = of_char c :: nat in
      if 48 \<le> n \<and> n \<le> 57 then n - 48
      else if 97 \<le> n \<and> n \<le> 122 then n - 87
      else if 65 \<le> n \<and> n \<le> 90 then n - 55
      else 99)"

definition is_digit :: "nat \<Rightarrow> char \<Rightarrow> bool" where
  "is_digit base c \<longleftrightarrow> digit_value c < base"

definition LONG_MAX :: int where
  "LONG_MAX = 2 ^ 63 - 1"

definition strtol :: "string \<Rightarrow> int \<times> string" where
  "strtol nptr =
     (let s = dropWhile isspace nptr;
          neg = (s \<noteq> [] \<and> hd s = CHR ''-'');
          t = (if s \<noteq> [] \<and> (hd s = CHR ''-'' \<or> hd s = CHR ''+'') then tl s else s);
          hex = (2 < length t \<and> t ! 0 = CHR ''0'' \<and> t ! 1 \<in> {CHR ''x'', CHR ''X''} \<and> is_digit 16 (t ! 2));
          base = (if hex then 16 else if t \<noteq> [] \<and> hd t = CHR ''0'' then 8 else 10);
          u = (if hex then drop 2 t else t);
          digits = takeWhile (is_digit base) u;
          n = fold (\<lambda>c a. a * int base + int (digit_value c)) digits 0
      in if digits = [] then (0, nptr)
         else (if neg then max (- LONG_MAX - 1) (- n) else min LONG_MAX n, dropWhile (is_digit base) u))"

section \<open>The resolver\<close>

text \<open>
  What \<^verbatim>\<open>resolve_hosts\<close> gets from its surroundings: memory for the copy of the string and for a vector
  that is to grow beyond a capacity, the answers of \<^verbatim>\<open>getaddrinfo\<close> to the n-th host of the string
  (with or without \<^verbatim>\<open>AI_ADDRCONFIG\<close>; an error code or the list of addresses), whether \<^verbatim>\<open>netdb.h\<close> declares
  the GNU error codes, the random numbers of the shuffle, and \<^verbatim>\<open>disable_conn_permute\<close>.
\<close>

record resolver =
  rs_dup_ok :: bool
  rs_mem :: "u32 \<Rightarrow> bool"
  rs_getaddrinfo :: "nat \<Rightarrow> string \<Rightarrow> string \<Rightarrow> bool \<Rightarrow> int + sockaddr list"
  rs_gnu :: bool
  rs_random :: "nat \<Rightarrow> nat"
  disable_conn_permute :: bool

definition EAI_BADFLAGS :: int where "EAI_BADFLAGS = - 1"
definition EAI_NONAME :: int where "EAI_NONAME = - 2"
definition EAI_NODATA :: int where "EAI_NODATA = - 5"
definition EAI_ADDRFAMILY :: int where "EAI_ADDRFAMILY = - 9"
definition EAI_MEMORY :: int where "EAI_MEMORY = - 10"
definition ENOENT :: int where "ENOENT = 2"

definition getaddrinfo_errno :: "bool \<Rightarrow> int \<Rightarrow> int" where
  "getaddrinfo_errno gnu rc =
     (if rc = EAI_NONAME \<or> gnu \<and> rc = EAI_NODATA then ENOENT
      else if rc = EAI_MEMORY then ENOMEM
      else EINVAL)"

text \<open>The first query and, when the flags were refused, the second one.\<close>

definition look_up :: "resolver \<Rightarrow> nat \<Rightarrow> string \<Rightarrow> string \<Rightarrow> int + sockaddr list" where
  "look_up e n host port_spec =
     (case rs_getaddrinfo e n host port_spec True of
        Inr res \<Rightarrow> Inr res
      | Inl rc \<Rightarrow>
          if rc = EAI_BADFLAGS \<or> rs_gnu e \<and> rc = EAI_ADDRFAMILY
          then rs_getaddrinfo e n host port_spec False else Inl rc)"

fun known_family :: "sockaddr \<Rightarrow> bool" where
  "known_family (AF_OTHER f) = False"
| "known_family a = True"

fun add_addrs :: "resolver \<Rightarrow> sockaddr list \<Rightarrow> addrvec \<Rightarrow> (int \<times> addrvec) exec" where
  "add_addrs e [] avec = Ret (ZOK, avec)"
| "add_addrs e (res # rest) avec =
     (case (if av_count avec = av_capacity avec
            then addrvec_grow_default (rs_mem e (av_capacity avec)) avec else (0, avec)) of
        (rc, v) \<Rightarrow>
          if rc \<noteq> 0 then Ret (ZSYSTEMERROR, v)
          else if known_family res then
            (case addrvec_append_addrinfo (rs_mem e (av_capacity v)) v res of
               UB \<Rightarrow> UB
             | Ret (_, v') \<Rightarrow> add_addrs e rest v')
          else add_addrs e rest v)"

text \<open>
  One entry of the list: the code with which \<^verbatim>\<open>resolve_hosts\<close> gives up (\<^verbatim>\<open>goto fail\<close>), if any, \<^verbatim>\<open>errno\<close>, and
  the vector. \<^verbatim>\<open>port\<close> is an \<^verbatim>\<open>int\<close>, the value of \<^verbatim>\<open>strtol\<close> a \<^verbatim>\<open>long\<close>.
\<close>

definition port_number :: "int \<Rightarrow> int" where
  "port_number v = sint (word_of_int v :: i32)"

definition resolve_host :: "resolver \<Rightarrow> nat \<Rightarrow> string \<Rightarrow> int \<Rightarrow> addrvec \<Rightarrow> (int option \<times> int \<times> addrvec) exec" where
  "resolve_host e n host errno avec =
     (case strrchr (CHR '':'') host of
        None \<Rightarrow> Ret (Some ZBADARGUMENTS, EINVAL, avec)
      | Some (name, port_spec) \<Rightarrow>
          (case strtol port_spec of (port, end_port_spec) \<Rightarrow>
             if port_spec = [] \<or> end_port_spec \<noteq> [] \<or> port_number port = 0
             then Ret (Some ZBADARGUMENTS, EINVAL, avec)
             else
               (case look_up e n (dropWhile isspace name) port_spec of
                  Inl rc \<Rightarrow> Ret (None, getaddrinfo_errno (rs_gnu e) rc, avec)
                | Inr res \<Rightarrow>
                    bind_exec (add_addrs e res avec) (\<lambda>(rc, v).
                      Ret (if rc \<noteq> ZOK then (Some rc, ENOMEM, v) else (None, errno, v))))))"

lemma strtok_shorter:
  assumes "strtok_r c s = Some (t, s')" shows "length s' < length s"
proof -
  let ?t = "dropWhile (\<lambda>x. x = c) s"
  have t: "?t \<noteq> []" "s' = tl (dropWhile (\<lambda>x. x \<noteq> c) ?t)"
    using assms by (auto simp: strtok_r_def Let_def split: if_splits)
  have "0 < length ?t" using t(1) by simp
  moreover have "length ?t \<le> length s" "length (dropWhile (\<lambda>x. x \<noteq> c) ?t) \<le> length ?t"
    by (rule length_dropWhile_le)+
  ultimately show ?thesis unfolding t(2) length_tl by linarith
qed

function resolve_loop :: "resolver \<Rightarrow> nat \<Rightarrow> string \<Rightarrow> int \<Rightarrow> addrvec \<Rightarrow> (int option \<times> int \<times> addrvec) exec" where
  "resolve_loop e n strtok_last errno avec =
     (case strtok_r (CHR '','') strtok_last of
        None \<Rightarrow> Ret (None, errno, avec)
      | Some (host, last') \<Rightarrow>
          (case resolve_host e n host errno avec of
             UB \<Rightarrow> UB
           | Ret (Some rc, errno', v) \<Rightarrow> Ret (Some rc, errno', v)
           | Ret (None, errno', v) \<Rightarrow> resolve_loop e (Suc n) last' errno' v))"
  by pat_completeness auto
termination
  by (relation "measure (\<lambda>(e, n, s, errno, avec). length s)") (auto dest: strtok_shorter)

declare resolve_loop.simps [simp del]

text \<open>
  \<^verbatim>\<open>resolve_hosts\<close> returns its code, \<^verbatim>\<open>errno\<close>, and the vector that its caller handed in. On every failure the
  vector is freed.
\<close>

definition resolve_hosts ::
  "resolver \<Rightarrow> 'a option \<Rightarrow> string option \<Rightarrow> int \<Rightarrow> addrvec option \<Rightarrow> (int \<times> int \<times> addrvec option) exec" where
  "resolve_hosts e zh hosts_in errno avec =
     (case (zh, hosts_in, avec) of
        (Some _, Some hosts, Some _) \<Rightarrow>
          let fail = (\<lambda>rc errno v. Ret (rc, errno, addrvec_free (Some v))) in
          if \<not> rs_dup_ok e then fail ZSYSTEMERROR ENOMEM addrvec_init
          else
            let num_hosts = count_hosts (Some hosts) in
            if num_hosts = 0 then Ret (ZOK, errno, Some addrvec_init)
            else
              (case addrvec_alloc_capacity (rs_mem e 0) (word_of_int num_hosts) of (rc, v) \<Rightarrow>
                 if rc \<noteq> 0 then fail ZSYSTEMERROR ENOMEM v
                 else
                   bind_exec (resolve_loop e 0 hosts errno v) (\<lambda>(early, errno', v').
                     case early of
                       Some rc \<Rightarrow> fail rc errno' v'
                     | None \<Rightarrow>
                         if av_count v' = 0 then fail ZSYSTEMERROR errno' v'
                         else Ret (ZOK, errno',
                                Some (if disable_conn_permute e then v' else addrvec_shuffle (rs_random e) v'))))
      | _ \<Rightarrow> Ret (ZBADARGUMENTS, errno, avec))"

section \<open>The entries of a connection string\<close>

fun comma_fields :: "string \<Rightarrow> string list" where
  "comma_fields [] = [[]]"
| "comma_fields (c # s) =
     (if c = CHR '','' then [] # comma_fields s
      else case comma_fields s of [] \<Rightarrow> [[c]] | f # fs \<Rightarrow> (c # f) # fs)"

definition host_entries :: "string \<Rightarrow> string list" where
  "host_entries s = filter (\<lambda>f. f \<noteq> []) (comma_fields s)"

lemma comma_fields_not_Nil [simp]: "comma_fields s \<noteq> []"
  by (cases s) (auto split: list.splits)

lemma comma_fields_split:
  "comma_fields s = takeWhile (\<lambda>x. x \<noteq> CHR '','') s #
     (case dropWhile (\<lambda>x. x \<noteq> CHR '','') s of [] \<Rightarrow> [] | _ # r \<Rightarrow> comma_fields r)"
  by (induction s) (auto split: list.splits)

lemma host_entries_comma [simp]: "host_entries (CHR '','' # s) = host_entries s"
  by (simp add: host_entries_def)

lemma host_entries_skip: "host_entries (dropWhile (\<lambda>x. x = CHR '','') s) = host_entries s"
  by (induction s) auto

lemma host_entries_Nil [simp]: "host_entries [] = []"
  by (simp add: host_entries_def)

text \<open>\<^verbatim>\<open>strtok_r\<close> delivers the entries one after the other.\<close>

lemma strtok_None: "strtok_r c s = None \<longleftrightarrow> dropWhile (\<lambda>x. x = c) s = []"
  by (simp only: strtok_r_def Let_def) (simp only: split: if_split, simp)

lemma strtok_Some:
  assumes "strtok_r c s = Some (host, rest)"
  shows "dropWhile (\<lambda>x. x = c) s \<noteq> []" "host = takeWhile (\<lambda>x. x \<noteq> c) (dropWhile (\<lambda>x. x = c) s)"
    "rest = tl (dropWhile (\<lambda>x. x \<noteq> c) (dropWhile (\<lambda>x. x = c) s))"
proof -
  have nz: "strtok_r c s \<noteq> None" using assms by simp
  then show t: "dropWhile (\<lambda>x. x = c) s \<noteq> []" unfolding strtok_None .
  have "(takeWhile (\<lambda>x. x \<noteq> c) (dropWhile (\<lambda>x. x = c) s), tl (dropWhile (\<lambda>x. x \<noteq> c) (dropWhile (\<lambda>x. x = c) s))) = (host, rest)"
    using assms unfolding strtok_r_def Let_def if_not_P [OF t] by (rule option.inject [THEN iffD1])
  then show "host = takeWhile (\<lambda>x. x \<noteq> c) (dropWhile (\<lambda>x. x = c) s)"
    "rest = tl (dropWhile (\<lambda>x. x \<noteq> c) (dropWhile (\<lambda>x. x = c) s))"
    by (rule Pair_inject, simp only:)+
qed

lemma strtok_entries_None: "strtok_r (CHR '','') s = None \<Longrightarrow> host_entries s = []"
  using host_entries_skip [of s] unfolding strtok_None by (simp only: host_entries_Nil)

lemma strtok_entries:
  assumes "strtok_r (CHR '','') s = Some (host, rest)"
  shows "host_entries s = host # host_entries rest"
proof -
  define t where "t = dropWhile (\<lambda>x. x = CHR '','') s"
  have t: "t \<noteq> []" "host = takeWhile (\<lambda>x. x \<noteq> CHR '','') t" "rest = tl (dropWhile (\<lambda>x. x \<noteq> CHR '','') t)"
    using strtok_Some [OF assms] unfolding t_def by simp_all
  have "hd t \<noteq> CHR '',''" using hd_dropWhile [OF t(1) [unfolded t_def]] unfolding t_def by simp
  then have "host \<noteq> []" unfolding t(2) using t(1) by (cases t) simp_all
  moreover have "host_entries (tl d) = filter (\<lambda>f. f \<noteq> []) (case d of [] \<Rightarrow> [] | _ # r \<Rightarrow> comma_fields r)" for d
    by (cases d) (simp_all add: host_entries_def)
  then have "host_entries rest = filter (\<lambda>f. f \<noteq> [])
      (case dropWhile (\<lambda>x. x \<noteq> CHR '','') t of [] \<Rightarrow> [] | _ # r \<Rightarrow> comma_fields r)"
    unfolding t(3) .
  ultimately have "host_entries t = host # host_entries rest"
    by (simp only: host_entries_def comma_fields_split [of t] filter.simps t(2) [symmetric] if_True not_False_eq_True)
  then show ?thesis unfolding t_def host_entries_skip .
qed

text \<open>
  What the string asks for: an entry is well formed when a port follows its last colon; its answer is
  the list of the addresses of known families (none when the host is unknown).
\<close>

definition good_entry :: "string \<Rightarrow> bool" where
  "good_entry host =
     (case strrchr (CHR '':'') host of None \<Rightarrow> False
      | Some (name, p) \<Rightarrow> p \<noteq> [] \<and> snd (strtol p) = [] \<and> port_number (fst (strtol p)) \<noteq> 0)"

definition host_query :: "resolver \<Rightarrow> nat \<Rightarrow> string \<Rightarrow> sockaddr list" where
  "host_query e n host =
     (case strrchr (CHR '':'') host of None \<Rightarrow> []
      | Some (name, p) \<Rightarrow> (case look_up e n (dropWhile isspace name) p of Inl _ \<Rightarrow> [] | Inr res \<Rightarrow> res))"

fun raw_answers :: "resolver \<Rightarrow> nat \<Rightarrow> string list \<Rightarrow> sockaddr list" where
  "raw_answers e n [] = []"
| "raw_answers e n (h # hs) = host_query e n h @ raw_answers e (Suc n) hs"

definition answers :: "resolver \<Rightarrow> string \<Rightarrow> sockaddr list" where
  "answers e hosts = filter known_family (raw_answers e 0 (host_entries hosts))"

section \<open>The loops\<close>

lemma av_room_mono: "av_room m v \<Longrightarrow> n \<le> m \<Longrightarrow> av_room n v"
  by (auto simp: av_room_def)

lemma av_room_grow:
  assumes "av_room (Suc n) v"
    and "(if av_count v = av_capacity v then addrvec_grow_default mem v else (0, v)) = (rc, g)"
  shows "av_room n g" "addresses g = addresses v" "av_next g = av_next v"
    "rc = 0 \<Longrightarrow> addrvec_append mem' g a = addrvec_append True v a" "mem \<Longrightarrow> rc = 0"
    "rc = 0 \<Longrightarrow> av_count g \<noteq> av_capacity g"
proof -
  have r: "av_ok v" "unat (av_capacity v) + 16 < 2 ^ 32" using assms(1) by (simp_all add: av_room_def)
  have g: "addrvec_grow_if_full mem v = (rc, g)" using assms(2) by (simp add: addrvec_grow_if_full_def)
  note gs = addrvec_grow_if_full_spec [OF r g]
  show "addresses g = addresses v" "av_next g = av_next v" "mem \<Longrightarrow> rc = 0" using gs by simp_all
  have c: "unat (av_capacity g) \<le> unat (av_capacity v) + 16"
  proof (cases "av_count v = av_capacity v")
    case True
    then have "addrvec_grow mem v 16 = (rc, g)" using assms(2) by (simp add: addrvec_grow_default_def)
    then have "rc = 0 \<longrightarrow> unat (av_capacity g) = unat (av_capacity v) + 16" "rc \<noteq> 0 \<longrightarrow> g = v"
      using addrvec_grow_spec(5) [OF r(1), of 16 mem rc g] r(2)
      by (auto simp: addrvec_grow_def Let_def split: if_splits)
    then show ?thesis by (cases "rc = 0") auto
  qed (use assms(2) in simp)
  show "av_room n g" using c gs(1) assms(1) by (simp add: av_room_def)
  show full: "av_count g \<noteq> av_capacity g" if "rc = 0" using gs(5) [OF that] by auto
  show "addrvec_append mem' g a = addrvec_append True v a" if "rc = 0"
  proof -
    have "addrvec_grow_if_full True v = (0, g)"
      using g that by (auto simp: addrvec_grow_if_full_def addrvec_grow_default_def addrvec_grow_def split: if_splits)
    moreover have "addrvec_grow_if_full mem' g = (0, g)" using full [OF that] by (simp add: addrvec_grow_if_full_def)
    ultimately show ?thesis by (simp add: addrvec_append_def)
  qed
qed

lemma add_addrs_spec:
  assumes "av_room (n + length res) v"
  shows "\<exists>rc v'. add_addrs e res v = Ret (rc, v') \<and> rc \<in> {ZOK, ZSYSTEMERROR} \<and> av_room n v' \<and> av_next v' = av_next v \<and>
     (rc = ZOK \<longrightarrow> addresses v' = addresses v @ filter known_family res) \<and> ((\<forall>c. rs_mem e c) \<longrightarrow> rc = ZOK)"
  using assms
proof (induction res arbitrary: v)
  case (Cons a res)
  obtain rc g where g: "(if av_count v = av_capacity v
      then addrvec_grow_default (rs_mem e (av_capacity v)) v else (0, v)) = (rc, g)" by fastforce
  have room: "av_room (Suc (n + length res)) v" using Cons.prems by simp
  note gs = av_room_grow [OF room g]
  show ?case
  proof (cases "rc = 0")
    case False
    then show ?thesis using g gs(3,5) av_room_mono [OF gs(1)] by auto
  next
    case True
    show ?thesis
    proof (cases "known_family a")
      case True
      obtain v' where v': "addrvec_append True v a = Ret (0, v')" "av_room (n + length res) v'"
          "addresses v' = addresses v @ [a]" "av_next v' = av_next v"
        using av_room_append [OF room] by blast
      show ?thesis
        using Cons.IH [OF v'(2)] g gs(4) [OF \<open>rc = 0\<close>] v'(1,3,4) True \<open>rc = 0\<close>
        by (auto simp: addrvec_append_addrinfo_def)
    next
      case False
      then show ?thesis using Cons.IH [OF gs(1)] g gs(2,3) \<open>rc = 0\<close> by auto
    qed
  qed
qed (simp add: av_room_def)

lemma resolve_host_spec:
  assumes "av_room (n + length (host_query e i host)) v"
  shows "\<exists>early errno' v'. resolve_host e i host errno v = Ret (early, errno', v') \<and> av_room n v' \<and> av_next v' = av_next v \<and>
     early \<in> {None, Some ZBADARGUMENTS, Some ZSYSTEMERROR} \<and>
     (early = None \<longrightarrow> good_entry host \<and> addresses v' = addresses v @ filter known_family (host_query e i host)) \<and>
     ((\<forall>c. rs_mem e c) \<longrightarrow> early = (if good_entry host then None else Some ZBADARGUMENTS))"
proof (cases "good_entry host")
  case False
  have "av_room n v" using assms by (rule av_room_mono) simp
  moreover have "resolve_host e i host errno v = Ret (Some ZBADARGUMENTS, EINVAL, v)"
    using False by (auto simp: resolve_host_def good_entry_def split: option.splits prod.splits)
  ultimately show ?thesis using False by auto
next
  case True
  then obtain name p where p: "strrchr (CHR '':'') host = Some (name, p)" "p \<noteq> []" "snd (strtol p) = []"
      "port_number (fst (strtol p)) \<noteq> 0"
    by (auto simp: good_entry_def split: option.splits)
  show ?thesis
  proof (cases "look_up e i (dropWhile isspace name) p")
    case (Inl rc)
    then have "host_query e i host = []" using p by (simp add: host_query_def)
    then show ?thesis using Inl p True assms by (simp add: resolve_host_def case_prod_beta)
  next
    case (Inr res)
    then have q: "host_query e i host = res" using p by (simp add: host_query_def)
    obtain rc v' where a: "add_addrs e res v = Ret (rc, v')" "rc \<in> {ZOK, ZSYSTEMERROR}" "av_room n v'"
        "av_next v' = av_next v" "rc = ZOK \<longrightarrow> addresses v' = addresses v @ filter known_family res"
        "(\<forall>c. rs_mem e c) \<longrightarrow> rc = ZOK"
      using add_addrs_spec [of n res v e] assms unfolding q by blast
    then show ?thesis using Inr p True q by (auto simp: resolve_host_def case_prod_beta)
  qed
qed

lemma resolve_loop_spec:
  assumes "av_room (n + length (raw_answers e i (host_entries s))) v"
  shows "\<exists>early errno' v'. resolve_loop e i s errno v = Ret (early, errno', v') \<and> av_room n v' \<and> av_next v' = av_next v \<and>
     early \<in> {None, Some ZBADARGUMENTS, Some ZSYSTEMERROR} \<and>
     (early = None \<longrightarrow> (\<forall>f \<in> set (host_entries s). good_entry f) \<and>
        addresses v' = addresses v @ filter known_family (raw_answers e i (host_entries s))) \<and>
     ((\<forall>c. rs_mem e c) \<longrightarrow> early = (if \<forall>f \<in> set (host_entries s). good_entry f then None else Some ZBADARGUMENTS))"
  using assms
proof (induction s arbitrary: i errno v rule: measure_induct_rule [of length])
  case (less s)
  show ?case
  proof (cases "strtok_r (CHR '','') s")
    case None
    then show ?thesis
      using less.prems strtok_entries_None [OF None] by (simp add: resolve_loop.simps)
  next
    case (Some hr)
    obtain host rest where hr: "hr = (host, rest)" by fastforce
    note s = Some [unfolded hr]
    note en = strtok_entries [OF s]
    have room: "av_room (n + length (raw_answers e (Suc i) (host_entries rest)) + length (host_query e i host)) v"
      using less.prems by (simp add: en ac_simps)
    obtain early er v' where h: "resolve_host e i host errno v = Ret (early, er, v')"
        "av_room (n + length (raw_answers e (Suc i) (host_entries rest))) v'" "av_next v' = av_next v"
        "early \<in> {None, Some ZBADARGUMENTS, Some ZSYSTEMERROR}"
        "early = None \<longrightarrow> good_entry host \<and> addresses v' = addresses v @ filter known_family (host_query e i host)"
        "(\<forall>c. rs_mem e c) \<longrightarrow> early = (if good_entry host then None else Some ZBADARGUMENTS)"
      using resolve_host_spec [OF room] by blast
    show ?thesis
    proof (cases early)
      case None
      have l: "resolve_loop e i s errno v = resolve_loop e (Suc i) rest er v'"
        using s h(1) None by (subst resolve_loop.simps) simp
      have g: "good_entry host" "addresses v' = addresses v @ filter known_family (host_query e i host)"
        using h(5) None by simp_all
      show ?thesis
        using less.IH [OF strtok_shorter [OF s] h(2), of er] unfolding l en by (simp add: g h(3))
    next
      case (Some rc)
      then have l: "resolve_loop e i s errno v = Ret (Some rc, er, v')"
        using s h(1) by (subst resolve_loop.simps) simp
      have "(\<forall>c. rs_mem e c) \<longrightarrow> \<not> good_entry host \<and> rc = ZBADARGUMENTS" using h(6) Some by (auto split: if_splits)
      then show ?thesis
        using l h(3,4) Some av_room_mono [OF h(2), of n] en by auto
    qed
  qed
qed

lemma count_hosts_le:
  assumes "h \<noteq> []" "length h < 2 ^ 31 - 1"
  shows "0 < count_hosts (Some h)" "count_hosts (Some h) \<le> int (length h) + 1"
proof -
  have "length (filter (\<lambda>c. c = CHR '','') h) \<le> length h" by (rule length_filter_le)
  moreover have c: "count_hosts (Some h) = int (length (filter (\<lambda>c. c = CHR '','') h)) + 1"
  proof -
    let ?n = "length (filter (\<lambda>c. c = CHR '','') h)"
    have "?n < 2 ^ 31 - 1" using assms(2) length_filter_le [of "\<lambda>c. c = CHR '',''" h] by linarith
    then have n: "int ?n + 1 < 2 ^ 31" by simp
    have "word_of_nat ?n + 1 = (word_of_int (int ?n + 1) :: u32)" by simp
    moreover have "sint (word_of_int (int ?n + 1) :: u32) = int ?n + 1"
      using n by (intro sint_i32_of_int) auto
    ultimately show ?thesis using assms(1) by (simp add: count_hosts_def strchr_count_filter)
  qed
  ultimately show "0 < count_hosts (Some h)" "count_hosts (Some h) \<le> int (length h) + 1" by simp_all
qed

lemma room_to_start:
  assumes "h \<noteq> []" "length h + 1 + 16 * n < 2 ^ 31" "addrvec_alloc_capacity mem (word_of_int (count_hosts (Some h))) = (rc, v)"
  shows "av_room n v" "addresses v = []" "av_next v = 0" "mem \<Longrightarrow> rc = 0"
proof -
  let ?k = "count_hosts (Some h)"
  have k: "0 < ?k" "?k \<le> int (length h) + 1" using count_hosts_le [OF assms(1)] assms(2) by simp_all
  have "unat (word_of_int ?k :: u32) = nat ?k" using k assms(2) by (simp add: unat_eq_nat_uint uint_word_of_int)
  then have u: "unat (word_of_int ?k :: u32) \<le> length h + 1" using k by linarith
  have g: "addrvec_grow mem addrvec_init (word_of_int ?k) = (rc, v)" using assms(3) by (simp add: addrvec_alloc_capacity_def)
  have i: "av_ok addrvec_init" "unat (av_capacity addrvec_init) = 0" "addresses addrvec_init = []" "av_next addrvec_init = 0"
    by (simp_all add: av_ok_def addrvec_init_def addresses_def)
  have b: "unat (av_capacity addrvec_init) + unat (word_of_int ?k :: u32) < 2 ^ 32" using u assms(2) i(2) by simp
  note gs = addrvec_grow_spec [OF i(1) b g]
  show "addresses v = []" "av_next v = 0" using gs i by simp_all
  show "mem \<Longrightarrow> rc = 0" using g by (auto simp: addrvec_grow_def Let_def split: if_splits)
  have "v = addrvec_init \<or> unat (av_capacity v) = unat (word_of_int ?k :: u32)"
    using g by (auto simp: addrvec_grow_def addrvec_init_def Let_def split: if_splits)
  then have "unat (av_capacity v) \<le> length h + 1" using i(2) u by auto
  then show "av_room n v" using gs(1) assms(2) by (simp add: av_room_def)
qed

lemma freed [simp]: "addrvec_free (Some v) = Some addrvec_init"
  by (simp add: addrvec_free_def addrvec_init_def)

lemma shuffled:
  assumes "av_room 0 v" "av_count v \<noteq> 0" "length (addresses v) < 2 ^ 31"
  shows "av_ok (addrvec_shuffle random v)" "mset (addresses (addrvec_shuffle random v)) = mset (addresses v)"
    "av_next (addrvec_shuffle random v) = av_next v"
proof -
  let ?c = "av_count v"
  have ok: "av_ok v" using assms(1) by (simp add: av_room_def)
  have c: "0 < unat ?c" "unat ?c < 2 ^ 31" "unat ?c \<le> length (av_data v)"
    using assms(2,3) addresses_length [OF ok] count_fits [OF ok] by (auto simp: unat_gt_0)
  have "?c - 1 = word_of_nat (unat ?c - 1)" using c(1) by (simp add: of_nat_diff)
  then have "sint (?c - 1) = int (unat ?c - 1)" using c(2) by (simp only:) (intro sint_i32_of_nat, simp)
  then have s: "nat (sint (?c - 1)) = unat ?c - 1" by simp
  have i: "unat ?c - 1 < unat ?c" using c by simp
  have "length (shuffle_loop random (unat ?c - 1) (av_data v)) = length (av_data v)"
    using shuffle_loop_mset [of "unat ?c - 1" "av_data v" random] c by linarith
  then show "av_ok (addrvec_shuffle random v)" using ok unfolding addrvec_shuffle_def s by (simp add: av_ok_def)
  show "mset (addresses (addrvec_shuffle random v)) = mset (addresses v)"
    using shuffle_addresses [OF i c(3), of random] unfolding addrvec_shuffle_def s by (simp add: addresses_def)
  show "av_next (addrvec_shuffle random v) = av_next v" by (simp add: addrvec_shuffle_def)
qed

lemma resolve_hosts_outcome:
  assumes "h \<noteq> []" "length h + 1 + 16 * length (raw_answers e 0 (host_entries h)) < 2 ^ 31"
  shows "\<exists>rc errno' v. resolve_hosts e (Some zh) (Some h) errno (Some avec) = Ret (rc, errno', Some v) \<and>
     (if rc = ZOK
      then av_ok v \<and> av_next v = 0 \<and> addresses v \<noteq> [] \<and> mset (addresses v) = mset (answers e h)
      else rc \<in> {ZBADARGUMENTS, ZSYSTEMERROR} \<and> v = addrvec_init) \<and>
     (rs_dup_ok e \<and> (\<forall>c. rs_mem e c) \<longrightarrow>
        rc = (if \<not> list_all good_entry (host_entries h) then ZBADARGUMENTS
              else if answers e h = [] then ZSYSTEMERROR else ZOK))"
proof -
  let ?n = "length (raw_answers e 0 (host_entries h))"
  have nz: "count_hosts (Some h) \<noteq> 0" using count_hosts_le(1) [OF assms(1)] assms(2) by simp
  obtain rc0 v0 where a: "addrvec_alloc_capacity (rs_mem e 0) (word_of_int (count_hosts (Some h))) = (rc0, v0)"
    by fastforce
  note st = room_to_start [OF assms(1,2) a]
  have room0: "av_room (0 + ?n) v0" using st(1) by simp
  obtain early er v where l: "resolve_loop e 0 h errno v0 = Ret (early, er, v)" "av_room 0 v" "av_next v = 0"
      "early \<in> {None, Some ZBADARGUMENTS, Some ZSYSTEMERROR}"
      "early = None \<longrightarrow> list_all good_entry (host_entries h) \<and> addresses v = answers e h"
      "(\<forall>c. rs_mem e c) \<longrightarrow> early = (if list_all good_entry (host_entries h) then None else Some ZBADARGUMENTS)"
    using resolve_loop_spec [OF room0, of errno] st(2,3) unfolding answers_def list_all_iff by auto
  note codes = ZOK_def ZBADARGUMENTS_def ZSYSTEMERROR_def
  show ?thesis
  proof (cases "rs_dup_ok e \<and> rc0 = 0 \<and> early = None")
    case False
    consider (dup) "\<not> rs_dup_ok e" | (mem) "rs_dup_ok e" "rc0 \<noteq> 0" | (early) rc where "rs_dup_ok e" "rc0 = 0" "early = Some rc"
      using False by (cases early) auto
    then show ?thesis
    proof cases
      case dup
      then show ?thesis by (simp add: resolve_hosts_def Let_def codes)
    next
      case mem
      then have "\<not> (\<forall>c. rs_mem e c)" using st(4) by auto
      then show ?thesis using mem nz a by (simp add: resolve_hosts_def Let_def codes)
    next
      case early
      have "rc \<in> {ZBADARGUMENTS, ZSYSTEMERROR}" using l(4) early(3) by simp
      moreover have "(\<forall>c. rs_mem e c) \<longrightarrow> \<not> list_all good_entry (host_entries h) \<and> rc = ZBADARGUMENTS"
        using l(6) early(3) by (simp split: if_splits)
      moreover have "resolve_hosts e (Some zh) (Some h) errno (Some avec) = Ret (rc, er, Some addrvec_init)"
        using early nz a l(1) by (simp add: resolve_hosts_def Let_def)
      ultimately show ?thesis by (auto simp: codes)
    qed
  next
    case True
    have an: "addresses v = answers e h" "list_all good_entry (host_entries h)" using l(5) True by simp_all
    have ok: "av_ok v" using l(2) by (simp add: av_room_def)
    have e0: "av_count v = 0 \<longleftrightarrow> answers e h = []"
      using addresses_length [OF ok] an(1) by (metis length_0_conv unat_eq_zero)
    have "length (answers e h) \<le> ?n" unfolding answers_def by (rule length_filter_le)
    then have len: "length (addresses v) < 2 ^ 31" using assms(2) unfolding an(1) by linarith
    show ?thesis
    proof (cases "av_count v = 0")
      case z: True
      then show ?thesis
        using nz a l(1) True e0 an by (auto simp: resolve_hosts_def Let_def codes)
    next
      case nz2: False
      note sh = shuffled [OF l(2) nz2 len]
      have ne: "answers e h \<noteq> []" using nz2 e0 by simp
      have "addresses (addrvec_shuffle (rs_random e) v) \<noteq> []" using sh(2) [of "rs_random e"] an ne by (metis mset_zero_iff)
      then show ?thesis
        using nz a l(1,3) True an ok sh(1,3) [of "rs_random e"] sh(2) [of "rs_random e"] ne nz2
        by (auto simp: resolve_hosts_def Let_def codes)
    qed
  qed
qed


definition example_resolver :: resolver where
  "example_resolver = \<lparr> rs_dup_ok = True, rs_mem = (\<lambda>_. True),
     rs_getaddrinfo = (\<lambda>n host port flags.
       if host = ''a'' then (if flags then Inl EAI_BADFLAGS else Inr [AF_OTHER 1, AF_INET [10, 0, 0, 1] 2181])
       else if host = ''b'' then Inr [AF_INET [10, 0, 0, 2] 2181] else Inl EAI_NONAME),
     rs_gnu = False, rs_random = (\<lambda>_. 0), disable_conn_permute = False \<rparr>"




lemma eq_loop_iff: "eq_loop v xs \<longleftrightarrow> (\<forall>x \<in> set xs. addrvec_contains (Some v) (Some x))"
  by (induction xs) auto

lemma same_address_refl: "known_family a \<Longrightarrow> same_address a a"
  by (cases a) auto

lemma same_addresses_eq:
  assumes "av_ok v1" "av_ok v2" "mset (addresses v1) = mset (addresses v2)" "\<forall>a \<in> set (addresses v1). known_family a"
  shows "addrvec_eq v1 v2"
proof -
  have "length (addresses v1) = length (addresses v2)" using assms(3) by (rule mset_eq_length)
  then have "av_count v1 = av_count v2" using addresses_length assms(1,2) by (simp add: word_unat_eq_iff)
  moreover have "set (addresses v1) = set (addresses v2)" using assms(3) by (rule mset_eq_setD)
  then have "\<forall>x \<in> set (addresses v1). addrvec_contains (Some v2) (Some x)"
    using assms(4) same_address_refl unfolding addrvec_contains_iff by auto
  ultimately show ?thesis by (simp add: addrvec_eq_def eq_loop_iff addresses_def)
qed

text \<open>What \<^verbatim>\<open>update_addrs\<close> gets when it resolves its list.\<close>

definition resolve_with :: "resolver \<Rightarrow> string \<Rightarrow> int \<times> addrvec" where
  "resolve_with e hosts =
     (case resolve_hosts e (Some ()) (Some hosts) 0 (Some addrvec_init) of
        Ret (rc, _, Some v) \<Rightarrow> (rc, v) | _ \<Rightarrow> (ZSYSTEMERROR, addrvec_init))"

lemma resolve_with_spec:
  assumes "h \<noteq> []" "length h + 1 + 16 * length (raw_answers e 0 (host_entries h)) < 2 ^ 31"
  shows "fst (resolve_with e h) = ZOK \<Longrightarrow> av_ok (snd (resolve_with e h)) \<and>
        mset (addresses (snd (resolve_with e h))) = mset (answers e h) \<and> answers e h \<noteq> []"
    and "rs_dup_ok e \<Longrightarrow> \<forall>c. rs_mem e c \<Longrightarrow> list_all good_entry (host_entries h) \<Longrightarrow> answers e h \<noteq> [] \<Longrightarrow>
        fst (resolve_with e h) = ZOK"
proof -
  obtain rc er v where r: "resolve_hosts e (Some ()) (Some h) 0 (Some addrvec_init) = Ret (rc, er, Some v)"
      "if rc = ZOK then av_ok v \<and> av_next v = 0 \<and> addresses v \<noteq> [] \<and> mset (addresses v) = mset (answers e h)
       else rc \<in> {ZBADARGUMENTS, ZSYSTEMERROR} \<and> v = addrvec_init"
      "rs_dup_ok e \<and> (\<forall>c. rs_mem e c) \<longrightarrow>
        rc = (if \<not> list_all good_entry (host_entries h) then ZBADARGUMENTS
              else if answers e h = [] then ZSYSTEMERROR else ZOK)"
    using resolve_hosts_outcome [OF assms, of "()" 0 addrvec_init] by blast
  have w: "resolve_with e h = (rc, v)" using r(1) by (simp add: resolve_with_def)
  show "fst (resolve_with e h) = ZOK \<Longrightarrow> av_ok (snd (resolve_with e h)) \<and>
        mset (addresses (snd (resolve_with e h))) = mset (answers e h) \<and> answers e h \<noteq> []"
    using r(2) unfolding w by auto
  show "rs_dup_ok e \<Longrightarrow> \<forall>c. rs_mem e c \<Longrightarrow> list_all good_entry (host_entries h) \<Longrightarrow> answers e h \<noteq> [] \<Longrightarrow>
        fst (resolve_with e h) = ZOK"
    using r(3) unfolding w by simp
qed

text \<open>
  Property C24: resolving the list of servers again does not disturb the client: when the resolver gives
  the same addresses, in whatever order and however they are shuffled, \<^verbatim>\<open>update_addrs\<close> leaves the handle
  as it is, its connection, its cursor and its reconfig mode included.
\<close>

theorem resolving_again_changes_nothing:
  assumes "resolve_with e1 h = (ZOK, v1)" "hostname zh = Some h" "addrs zh = v1\<lparr> av_next := k \<rparr>"
    and "mset (answers e2 h) = mset (answers e1 h)" "h \<noteq> []" "list_all good_entry (host_entries h)"
    and "rs_dup_ok e2" "\<forall>c. rs_mem e2 c"
    and "length h + 1 + 16 * length (raw_answers e1 0 (host_entries h)) < 2 ^ 31"
    and "length h + 1 + 16 * length (raw_answers e2 0 (host_entries h)) < 2 ^ 31"
  shows "update_addrs True mem (resolve_with e2) drand (Some zh) = Ret (ZOK, Some zh)"
proof -
  have v1: "av_ok v1" "mset (addresses v1) = mset (answers e1 h)" "answers e1 h \<noteq> []"
    using resolve_with_spec(1) [OF assms(5,9)] assms(1) by simp_all
  have ne: "answers e2 h \<noteq> []" using v1(3) assms(4) by (metis mset_zero_iff)
  obtain v2 where e2: "resolve_with e2 h = (ZOK, v2)"
    using resolve_with_spec(2) [OF assms(5,10,7,8,6) ne] by (metis prod.collapse)
  have v2: "av_ok v2" "mset (addresses v2) = mset (answers e2 h)"
    using resolve_with_spec(1) [OF assms(5,10)] e2 by simp_all
  have ad: "addresses (addrs zh) = addresses v1" "av_ok (addrs zh)"
    using v1(1) by (simp_all add: assms(3) addresses_def av_ok_def)
  have "set (addresses v1) = set (answers e1 h)" using v1(2) by (rule mset_eq_setD)
  then have "\<forall>a \<in> set (addresses (addrs zh)). known_family a" by (auto simp: ad answers_def)
  moreover have "mset (addresses (addrs zh)) = mset (addresses v2)" using v1(2) v2(2) assms(4) ad by simp
  ultimately have "addrvec_eq (addrs zh) v2" by (intro same_addresses_eq ad v2)
  then show ?thesis using assms(2) e2 by (simp add: update_addrs_def)
qed

theorem resolving_again_changes_nothing_witness:
  "\<forall>ht. \<exists>v1 v2. av_data v1 \<noteq> av_data v2 \<and> resolve_with example_resolver ''a:2181,b:2181'' = (ZOK, v2) \<and>
     update_addrs True True (resolve_with example_resolver) 0
      (Some ((example_servers ht)\<lparr> hostname := Some ''a:2181,b:2181'', addrs := v1\<lparr> av_next := 1 \<rparr> \<rparr>)) =
     Ret (ZOK, Some ((example_servers ht)\<lparr> hostname := Some ''a:2181,b:2181'', addrs := v1\<lparr> av_next := 1 \<rparr> \<rparr>))"
proof
  fix ht
  let ?h = "''a:2181,b:2181''"
  let ?e = "example_resolver\<lparr> disable_conn_permute := True \<rparr>"
  let ?a = "AF_INET [10, 0, 0, 1] 2181" and ?b = "AF_INET [10, 0, 0, 2] 2181"
  let ?v = "\<lambda>xs. \<lparr> av_next = 0, av_count = 2, av_capacity = 2, av_data = xs \<rparr>"
  have en: "host_entries ?h = [''a:2181'', ''b:2181'']" by code_simp
  have r: "raw_answers example_resolver 0 (host_entries ?h) = [AF_OTHER 1, ?a, ?b]"
    "raw_answers ?e 0 (host_entries ?h) = [AF_OTHER 1, ?a, ?b]"
    unfolding en by code_simp+
  have g: "list_all good_entry (host_entries ?h)" unfolding en by code_simp
  have x: "resolve_with ?e ?h = (ZOK, ?v [?a, ?b])" by code_simp
  have y: "resolve_with example_resolver ?h = (ZOK, ?v [?b, ?a])" by code_simp
  let ?s = "(example_servers ht)\<lparr> hostname := Some ?h, addrs := (?v [?a, ?b])\<lparr> av_next := 1 \<rparr> \<rparr>"
  have s: "hostname ?s = Some ?h" "addrs ?s = (?v [?a, ?b])\<lparr> av_next := 1 \<rparr>" "?h \<noteq> []" by simp_all
  have m: "rs_dup_ok example_resolver" "\<forall>c. rs_mem example_resolver c" by (simp_all add: example_resolver_def)
  have an: "mset (answers example_resolver ?h) = mset (answers ?e ?h)" unfolding answers_def r ..
  have b: "length ?h + 1 + 16 * length (raw_answers ?e 0 (host_entries ?h)) < 2 ^ 31"
    "length ?h + 1 + 16 * length (raw_answers example_resolver 0 (host_entries ?h)) < 2 ^ 31"
    unfolding r by simp_all
  have "update_addrs True True (resolve_with example_resolver) 0 (Some ?s) = Ret (ZOK, Some ?s)"
    by (rule resolving_again_changes_nothing [OF x s(1,2) an s(3) g m b])
  moreover have "av_data (?v [?a, ?b]) \<noteq> av_data (?v [?b, ?a])" by simp
  ultimately show "\<exists>v1 v2. av_data v1 \<noteq> av_data v2 \<and> resolve_with example_resolver ?h = (ZOK, v2) \<and>
     update_addrs True True (resolve_with example_resolver) 0
      (Some ((example_servers ht)\<lparr> hostname := Some ?h, addrs := v1\<lparr> av_next := 1 \<rparr> \<rparr>)) =
     Ret (ZOK, Some ((example_servers ht)\<lparr> hostname := Some ?h, addrs := v1\<lparr> av_next := 1 \<rparr> \<rparr>))"
    using y by blast
qed

text \<open>
  An empty list of servers is accepted: \<^verbatim>\<open>resolve_hosts\<close> reports success with an empty
  vector, and \<^verbatim>\<open>zoo_set_servers\<close> then forgets every server, closes the connection and computes the
  probability 0/0.
\<close>

theorem empty_host_list_accepted:
  assumes "rs_dup_ok e" "av_count (addrs zh) \<noteq> 0"
  shows "\<exists>zh'. zoo_set_servers True mem (resolve_with e) drand zh (Some []) = Ret (ZOK, Some zh') \<and>
       addresses (addrs zh') = [] \<and> reconfig zh' \<and> sock zh' = -1 \<and> pOld zh' = None \<and>
       zoo_cycle_next_server drand' zh' = Ret (zh'\<lparr> reconfig := False, addr_cur := zero_addr \<rparr>)"
proof -
  have w: "resolve_with e [] = (ZOK, addrvec_init)"
    using assms(1) by (simp add: resolve_with_def resolve_hosts_def count_hosts_def Let_def)
  have c: "\<not> addrvec_eq (addrs zh) addrvec_init" "\<not> addrvec_contains (Some addrvec_init) (Some a)" for a
    using assms(2) by (simp_all add: addrvec_eq_def addrvec_init_def addrvec_contains_def)
  have n: "addrvec_hasnext addrvec_init = False" "addrvec_atend addrvec_init = False"
    by (simp_all add: addrvec_hasnext_def addrvec_atend_def addrvec_init_def)
  have i: "av_count addrvec_init = 0" "av_data addrvec_init = []" by (simp_all add: addrvec_init_def)
  show "\<exists>zh'. zoo_set_servers True mem (resolve_with e) drand zh (Some []) = Ret (ZOK, Some zh') \<and>
       addresses (addrs zh') = [] \<and> reconfig zh' \<and> sock zh' = -1 \<and> pOld zh' = None \<and>
       zoo_cycle_next_server drand' zh' = Ret (zh'\<lparr> reconfig := False, addr_cur := zero_addr \<rparr>)"
    using c w
    by (simp add: zoo_set_servers_def update_addrs_def Let_def choose_probabilities_def fraction_def close_zsock_def
        addresses_def i n zoo_cycle_next_server_def get_next_server_in_reconfig_def addrvec_next_def)
qed

theorem empty_host_list_accepted_witness:
  "\<forall>ht. \<exists>zh'. zoo_set_servers True True (resolve_with example_resolver) 0 (example_servers ht) (Some []) = Ret (ZOK, Some zh') \<and>
     addresses (addrs zh') = []"
proof
  fix ht
  have "rs_dup_ok example_resolver" "av_count (addrs (example_servers ht)) \<noteq> 0"
    by (simp_all add: example_resolver_def example_servers_def two_servers_def)
  from empty_host_list_accepted [OF this, of True 0 0]
  show "\<exists>zh'. zoo_set_servers True True (resolve_with example_resolver) 0 (example_servers ht) (Some []) = Ret (ZOK, Some zh') \<and>
     addresses (addrs zh') = []" by blast
qed

section \<open>The address in print\<close>

text \<open>
  \<^verbatim>\<open>%d\<close> of a number that is not negative; \<^verbatim>\<open>inet_ntop\<close> of the C library is modelled for IPv4, for IPv6
  its text is a parameter. The source formats every other family as if it were IPv4, with an empty
  address text, because \<^verbatim>\<open>inet_ntop\<close> fails and leaves the buffer of zeros; the port is then what lies at
  the place of the port, here the parameter \<^verbatim>\<open>other\<close>.
\<close>

fun decimal :: "nat \<Rightarrow> string" where
  "decimal n = (if n < 10 then [char_of (48 + n)] else decimal (n div 10) @ [char_of (48 + n mod 10)])"

declare decimal.simps [simp del]

fun dotted :: "byte list \<Rightarrow> string" where
  "dotted [] = []"
| "dotted [b] = decimal (unat b)"
| "dotted (b # bs) = decimal (unat b) @ ''.'' @ dotted bs"

definition format_endpoint_info :: "(byte list \<Rightarrow> string) \<Rightarrow> (nat \<Rightarrow> nat) \<Rightarrow> sockaddr option \<Rightarrow> string" where
  "format_endpoint_info ntop6 other ep =
     (case ep of None \<Rightarrow> ''null''
      | Some (AF_INET6 a port) \<Rightarrow> ''['' @ ntop6 a @ '']:'' @ decimal port
      | Some (AF_INET a port) \<Rightarrow> dotted a @ '':'' @ decimal port
      | Some (AF_OTHER f) \<Rightarrow> '':'' @ decimal (other f))"

definition zoo_get_current_server ::
  "(byte list \<Rightarrow> string) \<Rightarrow> (nat \<Rightarrow> nat) \<Rightarrow> 'a server_state_scheme \<Rightarrow> string" where
  "zoo_get_current_server ntop6 other zh = format_endpoint_info ntop6 other (Some (addr_cur zh))"

lemma digit_char: "d < 10 \<Longrightarrow> digit_value (char_of (48 + d)) = d" "d < 10 \<Longrightarrow> (of_char (char_of (48 + d) :: char) :: nat) = 48 + d"
  by (simp_all add: digit_value_def)

lemma decimal_digits:
  "list_all (\<lambda>c. is_digit 10 c \<and> 48 \<le> (of_char c :: nat) \<and> (of_char c :: nat) < 58) (decimal n)"
  "decimal n \<noteq> []"
proof (induction n rule: decimal.induct)
  case (1 n)
  {
    case 1
    show ?case
    proof (cases "n < 10")
      case True
      then show ?thesis by (subst decimal.simps) (simp add: is_digit_def digit_char)
    next
      case False
      have m: "n mod 10 < 10" by simp
      show ?thesis using False "1.IH"(1) [OF False]
        by (subst decimal.simps) (simp add: is_digit_def digit_char [OF m])
    qed
  next
    case 2
    show ?case by (subst decimal.simps) simp
  }
qed

lemma decimal_value: "fold (\<lambda>c a. a * 10 + int (digit_value c)) (decimal n) 0 = int n"
proof (induction n rule: decimal.induct)
  case (1 n)
  show ?case
  proof (cases "n < 10")
    case True
    then show ?thesis by (subst decimal.simps) (simp add: digit_char)
  next
    case False
    have m: "n mod 10 < 10" by simp
    have "int n = int (n div 10) * 10 + int (n mod 10)"
      by (metis div_mult_mod_eq of_nat_add of_nat_mult of_nat_numeral)
    then show ?thesis using False 1 [OF False] by (subst decimal.simps) (simp add: digit_char [OF m])
  qed
qed

lemma decimal_first: "0 < n \<Longrightarrow> hd (decimal n) \<noteq> CHR ''0''"
proof (induction n rule: decimal.induct)
  case (1 n)
  show ?case
  proof (cases "n < 10")
    case True
    have "char_of (48 + n) \<noteq> CHR ''0''"
    proof
      assume "char_of (48 + n) = CHR ''0''"
      then have "(of_char (char_of (48 + n) :: char) :: nat) = of_char (CHR ''0'')" by simp
      then show False using True 1(2) by (simp add: digit_char)
    qed
    then show ?thesis using True by (subst decimal.simps) simp
  next
    case False
    then show ?thesis using 1(1) [OF False] decimal_digits(2) [of "n div 10"] by (subst decimal.simps) simp
  qed
qed

lemma digit_not_special:
  assumes "48 \<le> (of_char c :: nat)" "(of_char c :: nat) < 58"
  shows "\<not> isspace c" "c \<noteq> CHR ''-''" "c \<noteq> CHR ''+''" "c \<noteq> CHR '':''" "c \<noteq> CHR '','' " "c \<noteq> CHR ''x''" "c \<noteq> CHR ''X''"
  using assms by (auto simp: isspace_def)

text \<open>\<^verbatim>\<open>strtol\<close> reads back what \<^verbatim>\<open>%d\<close> printed.\<close>

lemma strtol_decimal:
  assumes "0 < n" "int n \<le> LONG_MAX"
  shows "strtol (decimal n) = (int n, [])"
proof -
  let ?s = "decimal n"
  have d: "\<forall>c \<in> set ?s. is_digit 10 c \<and> 48 \<le> (of_char c :: nat) \<and> (of_char c :: nat) < 58" "?s \<noteq> []"
    using decimal_digits [of n] by (simp_all add: list_all_iff)
  have h: "\<not> isspace (hd ?s)" "hd ?s \<noteq> CHR ''-''" "hd ?s \<noteq> CHR ''+''"
    using d digit_not_special [of "hd ?s"] by simp_all
  have "dropWhile isspace ?s = ?s" using h(1) d(2) by (cases ?s) auto
  moreover have "?s ! 0 \<noteq> CHR ''0''" "hd ?s \<noteq> CHR ''0''" using decimal_first [OF assms(1)] d(2) by (simp_all add: hd_conv_nth)
  moreover have tw: "takeWhile (is_digit 10) ?s = ?s" using d(1) by (simp add: takeWhile_eq_all_conv)
  moreover have "\<forall>c \<in> set ?s. is_digit 10 c" using d(1) by simp
  ultimately show ?thesis
    using h d(2) decimal_value [of n] assms(2) by (simp add: strtol_def Let_def tw)
qed

lemma strrchr_split: "CHR '':'' \<notin> set p \<Longrightarrow> strrchr (CHR '':'') (a @ CHR '':'' # p) = Some (a, p)"
proof -
  assume p: "CHR '':'' \<notin> set p"
  have "takeWhile (\<lambda>x. x \<noteq> CHR '':'') (rev p @ CHR '':'' # rev a) = rev p"
    "dropWhile (\<lambda>x. x \<noteq> CHR '':'') (rev p @ CHR '':'' # rev a) = CHR '':'' # rev a"
    using p by (auto simp: takeWhile_append dropWhile_append)
  then show ?thesis by (simp add: strrchr_def)
qed

text \<open>
  The text of \<^verbatim>\<open>zoo_get_current_server\<close> can be given back as an entry of a list of
  servers: \<^verbatim>\<open>resolve_hosts\<close> takes it apart into the text of the address and the same port.
\<close>

theorem current_server_parses:
  assumes "addr_cur zh = AF_INET a port \<or> addr_cur zh = AF_INET6 a port" "0 < port" "port < 2 ^ 16"
  shows "\<exists>name p. strrchr (CHR '':'') (zoo_get_current_server ntop6 other zh) = Some (name, p) \<and>
     strtol p = (int port, []) \<and> good_entry (zoo_get_current_server ntop6 other zh) \<and>
     name = (if addr_cur zh = AF_INET a port then dotted a else ''['' @ ntop6 a @ '']'')"
proof -
  let ?n = "if addr_cur zh = AF_INET a port then dotted a else ''['' @ ntop6 a @ '']''"
  let ?s = "zoo_get_current_server ntop6 other zh"
  have c: "CHR '':'' \<notin> set (decimal port)"
    using decimal_digits(1) [of port] digit_not_special(4) by (auto simp: list_all_iff)
  have s: "?s = ?n @ CHR '':'' # decimal port"
    using assms(1) by (auto simp: zoo_get_current_server_def format_endpoint_info_def)
  have p: "strrchr (CHR '':'') ?s = Some (?n, decimal port)" unfolding s by (rule strrchr_split [OF c])
  have n: "strtol (decimal port) = (int port, [])"
    using assms(2,3) by (intro strtol_decimal) (simp_all add: LONG_MAX_def)
  have "port_number (int port) = int port"
    using assms(3) unfolding port_number_def by (intro sint_i32_of_int) auto
  then have "good_entry ?s" using p n assms(2) decimal_digits(2) [of port] by (simp add: good_entry_def)
  then show ?thesis using p n by blast
qed

theorem current_server_parses_witness:
  "\<forall>ht. \<exists>name p. strrchr (CHR '':'') (zoo_get_current_server (\<lambda>_. '''') (\<lambda>_. 0)
       ((example_servers ht)\<lparr> addr_cur := AF_INET [10, 0, 0, 1] 2181 \<rparr>)) = Some (name, p) \<and>
     strtol p = (2181, []) \<and> name = ''10.0.0.1''"
proof
  fix ht
  let ?zh = "(example_servers ht)\<lparr> addr_cur := AF_INET [10, 0, 0, 1] 2181 \<rparr>"
  have a: "addr_cur ?zh = AF_INET [10, 0, 0, 1] 2181 \<or> addr_cur ?zh = AF_INET6 [10, 0, 0, 1] 2181" by simp
  obtain name p where r: "strrchr (CHR '':'') (zoo_get_current_server (\<lambda>_. '''') (\<lambda>_. 0) ?zh) = Some (name, p)"
      "strtol p = (int 2181, [])" "name = (if addr_cur ?zh = AF_INET [10, 0, 0, 1] 2181 then dotted [10, 0, 0, 1] else ''['' @ '''' @ '']'')"
    using current_server_parses [OF a, of "\<lambda>_. ''''" "\<lambda>_. 0"] by auto
  have "dotted [10, 0, 0, 1] = ''10.0.0.1''" by code_simp
  then have "name = ''10.0.0.1''" using r(3) by (simp del: dotted.simps)
  then show "\<exists>name p. strrchr (CHR '':'') (zoo_get_current_server (\<lambda>_. '''') (\<lambda>_. 0) ?zh) = Some (name, p) \<and>
     strtol p = (2181, []) \<and> name = ''10.0.0.1''"
    using r(1,2) by auto
qed

section \<open>The seed\<close>

text \<open>
  \<^verbatim>\<open>setup_random\<close> fills the four bytes of \<^verbatim>\<open>int seed\<close> from \<^verbatim>\<open>/dev/urandom\<close>. \<^verbatim>\<open>&seed + seed_len\<close> counts in
  units of \<^verbatim>\<open>int\<close>, so a read that follows a short one is told to write behind the variable. The list holds
  the results of the calls of \<^verbatim>\<open>read\<close>; the value says whether the seed is complete after them.
\<close>

datatype read_result = Read_bytes nat | Read_interrupted | Read_failed

fun seed_loop :: "nat \<Rightarrow> read_result list \<Rightarrow> bool exec" where
  "seed_loop seed_len [] = Ret (\<not> seed_len < 4)"
| "seed_loop seed_len (r # rs) =
     (if \<not> seed_len < 4 then Ret True
      else case r of
        Read_failed \<Rightarrow> UB
      | Read_interrupted \<Rightarrow> seed_loop seed_len rs
      | Read_bytes n \<Rightarrow> if n = 0 \<or> 0 < seed_len then UB else seed_loop (seed_len + min n (4 - seed_len)) rs)"

text \<open>
  A seed that arrives in one piece is taken whatever the interruptions; one that
  arrives in two is written past the end of the variable.
\<close>

theorem short_seed_undefined:
  assumes "0 < n" "n < 4" "0 < m"
  shows "seed_loop 0 (replicate k Read_interrupted @ Read_bytes n # replicate j Read_interrupted @ Read_bytes m # rs) = UB \<and>
     seed_loop 0 (replicate k Read_interrupted @ Read_bytes 4 # rs) = Ret True"
proof -
  have i: "l < 4 \<Longrightarrow> seed_loop l (replicate k Read_interrupted @ rs) = seed_loop l rs" for l k rs
    by (induction k) auto
  have "seed_loop 4 rs = Ret True" for rs by (cases rs) auto
  then show ?thesis using assms by (simp add: i)
qed

theorem short_seed_undefined_witness:
  "seed_loop 0 (Read_interrupted # Read_bytes 3 # Read_bytes 1 # []) = UB"
  using short_seed_undefined [of 3 1 1 0 "[]"] by simp

end
