(* ===== verification/Cm_Facade.thy ===== *)
theory Cm_Facade
  imports Config_Monitor
begin

text \<open>
  The rest of the interface of \<^verbatim>\<open>cm::config_monitor\<close> (\<^verbatim>\<open>src/src/config_monitor.hpp\<close>) over \<^verbatim>\<open>zk::cppzk\<close>: the
  methods that create, delete, read and write paths, each in its synchronous and in its asynchronous
  form, and the removal of watches, which combines the requests of \<^verbatim>\<open>cppzk\<close> with the records of watches.

  The lemmas show when the synchronous removal of watches returns, and what is recorded afterwards.
\<close>

section \<open>Creating, deleting, reading and writing\<close>

datatype create_mode =
    Persistent | Ephemeral | Persistent_sequential | Ephemeral_sequential | Persistent_with_ttl
  | Persistent_sequential_with_ttl

text \<open>The cast of the enumeration to the one of \<^verbatim>\<open>cppzk\<close> (\<^verbatim>\<open>get_create_mode\<close>) keeps its number.\<close>

fun get_create_mode :: "create_mode \<Rightarrow> int" where
  "get_create_mode Persistent = 0"
| "get_create_mode Ephemeral = 1"
| "get_create_mode Persistent_sequential = 2"
| "get_create_mode Ephemeral_sequential = 3"
| "get_create_mode Persistent_with_ttl = 5"
| "get_create_mode Persistent_sequential_with_ttl = 6"

definition cm_create_path ::
  "'s zk_calls \<Rightarrow> string \<Rightarrow> string option \<Rightarrow> create_mode \<Rightarrow> int \<Rightarrow> 's \<Rightarrow> (cpp_exn + int \<times> string) \<times> 's" where
  "cm_create_path C path value mode ttl s = create_path C path value (get_create_mode mode) ttl zk_open_acl_unsafe s"

text \<open>
  The asynchronous forms take a function of the user, which may be empty; \<^verbatim>\<open>calls_user\<close> lists the calls it
  gets. An argument \<^verbatim>\<open>None\<close> is a completion that never comes.
\<close>

definition calls_user :: "bool \<Rightarrow> 'a option \<Rightarrow> 'a list" where
  "calls_user cb answer = (case answer of None \<Rightarrow> [] | Some a \<Rightarrow> if cb then [a] else [])"

definition cm_async_create_path ::
  "'s zk_calls \<Rightarrow> string \<Rightarrow> bool \<Rightarrow> string option \<Rightarrow> create_mode \<Rightarrow> int \<Rightarrow> 's \<Rightarrow> (cpp_exn + (int \<times> string) list) \<times> 's" where
  "cm_async_create_path C path cb value mode ttl s =
     (case run_async_create C path value (get_create_mode mode) ttl zk_open_acl_unsafe s of
        (Inl e, s') \<Rightarrow> (Inl e, s')
      | (Inr answer, s') \<Rightarrow> (Inr (calls_user cb answer), s'))"

definition cm_del_path :: "'s zk_calls \<Rightarrow> string \<Rightarrow> 's \<Rightarrow> (int \<times> 's) option" where
  "cm_del_path C path s = delete_path C path s"

definition cm_async_del_path :: "'s zk_calls \<Rightarrow> string \<Rightarrow> bool \<Rightarrow> 's \<Rightarrow> (int list \<times> 's) option" where
  "cm_async_del_path C path cb s =
     map_option (\<lambda>(answer, s'). (calls_user cb answer, s')) (async_delete_path C path s)"

definition cm_set_path_value :: "'s zk_calls \<Rightarrow> string \<Rightarrow> string \<Rightarrow> 's \<Rightarrow> int \<times> 's" where
  "cm_set_path_value C path value s = set_path_value C path value s"

definition cm_async_set_path_value :: "'s zk_calls \<Rightarrow> string \<Rightarrow> string \<Rightarrow> bool \<Rightarrow> 's \<Rightarrow> int list \<times> 's" where
  "cm_async_set_path_value C path value cb s =
     (case async_set_path_value C path value s of (answer, s') \<Rightarrow> (calls_user cb answer, s'))"

definition cm_get_sub_path :: "'s zk_calls \<Rightarrow> string \<Rightarrow> 's \<Rightarrow> int \<times> string list \<times> 's" where
  "cm_get_sub_path C path s = get_sub_path C path s"

definition cm_get_path_value :: "'s zk_calls \<Rightarrow> string \<Rightarrow> 's \<Rightarrow> (cpp_exn + int \<times> string option) \<times> 's" where
  "cm_get_path_value C path s = get_path_value C path s"

text \<open>
  \<^verbatim>\<open>async_get_path_value\<close> without a watch: one request, whose completion hands on the code and the data;
  the event and the path that \<^verbatim>\<open>cppzk\<close> adds are dropped.
\<close>

definition async_get_path_value :: "'s zk_calls \<Rightarrow> string \<Rightarrow> 's \<Rightarrow> (int \<times> int \<times> string \<times> string option) option \<times> 's" where
  "async_get_path_value C path s =
     (if c_submit C s \<noteq> ZOK then (None, s)
      else case c_get C path s of (rc, val, _, s') \<Rightarrow>
        (Some (wget_completion rc (if rc = ZOK then val else None) \<lparr> wud_eve = zk_dummy_event, wud_path = path \<rparr>), s'))"

definition cm_async_get_path_value :: "'s zk_calls \<Rightarrow> string \<Rightarrow> bool \<Rightarrow> 's \<Rightarrow> (int \<times> string option) list \<times> 's" where
  "cm_async_get_path_value C path cb s =
     (case async_get_path_value C path s of
        (answer, s') \<Rightarrow> (calls_user cb (map_option (\<lambda>(ec, _, _, val). (ec, val)) answer), s'))"

section \<open>Removing watches\<close>

datatype watch_type = Watch_path | Watch_sub_path

definition watch_type_number :: "watch_type \<Rightarrow> int" where
  "watch_type_number type = (case type of Watch_path \<Rightarrow> 0 | Watch_sub_path \<Rightarrow> 1)"

definition cm_async_remove_watches ::
  "'s zk_calls \<Rightarrow> string \<Rightarrow> watch_type \<Rightarrow> bool \<Rightarrow> 's \<times> 'cb monitor_state \<Rightarrow> int list \<times> 's \<times> 'cb monitor_state" where
  "cm_async_remove_watches C path type cb = (\<lambda>(s, st).
     case async_remove_watches C path (watch_type_number type) s of
       (None, s') \<Rightarrow> ([], s', st)
     | (Some ec, s') \<Rightarrow> (calls_user cb (Some ec), s', remove_watches_completion (type = Watch_sub_path) path st))"

text \<open>The synchronous form waits for the promise that the callback keeps: \<^verbatim>\<open>None\<close> when it waits forever.\<close>

definition cm_remove_watches ::
  "'s zk_calls \<Rightarrow> string \<Rightarrow> watch_type \<Rightarrow> 's \<times> 'cb monitor_state \<Rightarrow> int option \<times> 's \<times> 'cb monitor_state" where
  "cm_remove_watches C path type z =
     (case cm_async_remove_watches C path type True z of
        ([], z') \<Rightarrow> (None, z')
      | (ec # _, z') \<Rightarrow> (Some ec, z'))"

section \<open>Properties\<close>

lemma run_remove_answers:
  assumes "\<And>s. c_submit C s = ZOK" "subs \<noteq> []"
  shows "\<exists>rc s'. run_remove C r subs s = (Some rc, s')"
  using assms(2)
proof (induction subs arbitrary: r s)
  case (Cons x xs)
  obtain rc s' where c: "c_remove_all_watches C (fst r) (snd r) s = (rc, s')" by fastforce
  show ?case
  proof (cases "xs = []")
    case True
    then show ?thesis using c assms(1) by (subst run_remove.simps) (simp add: remove_completion_def)
  next
    case False
    then obtain r' where "remove_completion rc (x # xs) = Inl (r', xs)"
      by (cases "length xs = 1") (simp_all add: remove_completion_def Let_def)
    then show ?thesis using Cons.IH [OF False, of r' s'] c assms(1) by (subst run_remove.simps) simp
  qed
qed simp

lemma async_remove_answers:
  assumes "\<And>s. c_submit C s = ZOK"
  shows "\<exists>rc s'. async_remove_watches C path w s = (Some rc, s')"
  using run_remove_answers [OF assms]
  by (auto simp: async_remove_watches_def assms Let_def split: prod.splits)

text \<open>The paths whose watches are set again after the session has expired.\<close>

definition recorded :: "watch_type \<Rightarrow> 'cb monitor_state \<Rightarrow> string set" where
  "recorded type st = fst ` set (case type of Watch_path \<Rightarrow> watch_record st | Watch_sub_path \<Rightarrow> watch_sub_record st)"

text \<open>
  Property C36: while the client accepts requests the synchronous removal of watches returns, and from then on
  the path is not recorded any more, whatever the code says, while every other record stays; when the
  client does not accept the request, as after the end of the session, it never returns.
\<close>

theorem remove_watches_returns_or_hangs:
  "((\<forall>s. c_submit C s = ZOK) \<longrightarrow> (\<exists>ec s' st'. cm_remove_watches C path type (s, st) = (Some ec, s', st') \<and>
      recorded type st' = recorded type st - {path} \<and> (\<forall>t. t \<noteq> type \<longrightarrow> recorded t st' = recorded t st))) \<and>
   (c_submit C s \<noteq> ZOK \<longrightarrow> cm_remove_watches C path type (s, st) = (None, s, st))"
proof (intro conjI impI)
  assume "\<forall>s. c_submit C s = ZOK"
  then obtain rc s' where a: "async_remove_watches C path (watch_type_number type) s = (Some rc, s')"
    using async_remove_answers by meson
  let ?st = "remove_watches_completion (type = Watch_sub_path) path st"
  have "cm_remove_watches C path type (s, st) = (Some rc, s', ?st)"
    using a by (simp add: cm_remove_watches_def cm_async_remove_watches_def calls_user_def)
  moreover have "recorded type ?st = recorded type st - {path}"
    by (cases type) (auto simp: recorded_def remove_watches_completion_def)
  moreover have "recorded t ?st = recorded t st" if "t \<noteq> type" for t
    using that by (cases t; cases type) (simp_all add: recorded_def remove_watches_completion_def)
  ultimately show "\<exists>ec s' st'. cm_remove_watches C path type (s, st) = (Some ec, s', st') \<and>
      recorded type st' = recorded type st - {path} \<and> (\<forall>t. t \<noteq> type \<longrightarrow> recorded t st' = recorded t st)"
    by blast
next
  assume "c_submit C s \<noteq> ZOK"
  then show "cm_remove_watches C path type (s, st) = (None, s, st)"
    by (simp add: cm_remove_watches_def cm_async_remove_watches_def async_remove_watches_def)
qed

theorem remove_watches_returns_or_hangs_witness:
  "(\<exists>ec s' st'. cm_remove_watches tree_calls ''/a'' Watch_path (example_tree, example_monitor) = (Some ec, s', st') \<and>
     ''/a'' \<notin> recorded Watch_path st') \<and>
   cm_remove_watches (tree_calls\<lparr> c_submit := \<lambda>_. ZINVALIDSTATE \<rparr>) ''/a'' Watch_path (example_tree, example_monitor) =
     (None, example_tree, example_monitor)"
proof
  have "\<forall>s. c_submit tree_calls s = ZOK" by (simp add: tree_calls_def)
  then obtain ec s' st' where "cm_remove_watches tree_calls ''/a'' Watch_path (example_tree, example_monitor) = (Some ec, s', st')"
      "recorded Watch_path st' = recorded Watch_path example_monitor - {''/a''}"
    using remove_watches_returns_or_hangs [THEN conjunct1, THEN mp, of tree_calls "''/a''" Watch_path example_tree example_monitor] by metis
  then show "\<exists>ec s' st'. cm_remove_watches tree_calls ''/a'' Watch_path (example_tree, example_monitor) = (Some ec, s', st') \<and>
     ''/a'' \<notin> recorded Watch_path st'" by (intro exI conjI) auto
  show "cm_remove_watches (tree_calls\<lparr> c_submit := \<lambda>_. ZINVALIDSTATE \<rparr>) ''/a'' Watch_path (example_tree, example_monitor) =
     (None, example_tree, example_monitor)"
    using remove_watches_returns_or_hangs [of "tree_calls\<lparr> c_submit := \<lambda>_. ZINVALIDSTATE \<rparr>" "''/a''" Watch_path example_tree example_monitor]
    by simp
qed

end
