(* ===== verification/Spec2Isabelle.thy ===== *)
theory Spec2Isabelle
  imports Hashtable Zk_Path Watch_Table Record_IO Jute Addrvec Reconfig Zk_Queue Zk_Const Config_Monitor Cppzk Local_File Zk_Frame Zk_Runs Zk_Multi Zk_Io Zk_Life Zk_Resolve Cm_Facade
begin

text \<open>
  Verification of config_monitor and its ZooKeeper C client.

  \<^bold>\<open>The program.\<close> \<^verbatim>\<open>src/src\<close> is a C++ library that watches configuration values. \<^verbatim>\<open>config_monitor.hpp\<close>
  (\<^verbatim>\<open>cm::config_monitor\<close>) is its interface: create, delete, read and write paths, be told of every change of
  a path or of its children. It stands on one of two providers: \<^verbatim>\<open>cppzk/cppzk.hpp\<close> (\<^verbatim>\<open>zk::cppzk\<close>), a client
  of a ZooKeeper server, and \<^verbatim>\<open>local_file/local_file.hpp\<close> (\<^verbatim>\<open>loc::loc_file\<close>), which polls files. \<^verbatim>\<open>cppzk\<close>
  uses the ZooKeeper C client in \<^verbatim>\<open>3party/zookeeper-client-c\<close>, which is part of the sources. Its calls
  queue packets and completions on a handle (\<^verbatim>\<open>zookeeper.c\<close>); the I/O thread of \<^verbatim>\<open>mt_adaptor.c\<close> connects,
  sends, receives and matches replies with requests; the completion thread calls user code. Watches are
  kept in hash tables (\<^verbatim>\<open>zk_hashtable.c\<close>, \<^verbatim>\<open>hashtable/\<close>), records are coded by \<^verbatim>\<open>zookeeper.jute.c\<close> on the
  archives of \<^verbatim>\<open>recordio.c\<close>, and the servers are an \<^verbatim>\<open>addrvec\<close>.

  \<^bold>\<open>Conventions.\<close> Integers of C are words of their width, or \<^verbatim>\<open>int\<close> where the code cannot leave the range or
  the model tests it (\<^verbatim>\<open>in_int\<close>). \<^verbatim>\<open>'a exec\<close> (theory Zk_Prelude) is the outcome of a piece of C: \<^verbatim>\<open>Ret\<close> a
  result, or \<^verbatim>\<open>UB\<close> for undefined behaviour: a read or write outside a block, a NULL pointer, a signed
  overflow, a failed \<^verbatim>\<open>assert\<close>. Every error code, early return and allocation failure of the source is a
  branch. A block of memory is the list of its bytes. Function pointers and \<^verbatim>\<open>void*\<close> are addresses, of which
  the code asks only whether they are NULL and whether two are equal; the calls of user functions are
  values, collected in order (\<^verbatim>\<open>user_call\<close>). Results of system calls (\<^verbatim>\<open>send\<close>, \<^verbatim>\<open>recv\<close>, \<^verbatim>\<open>connect\<close>, \<^verbatim>\<open>poll\<close>,
  \<^verbatim>\<open>getaddrinfo\<close>, the clock, random numbers, memory) are arguments, so that every theorem holds whatever they
  are, within its hypotheses. The server is not part of the sources: \<^verbatim>\<open>cppzk\<close> takes it as a record of functions,
  with contracts that state what \<^verbatim>\<open>zookeeper.h\<close> documents.

  \<^bold>\<open>The library and its interface.\<close>
  \<^item> Local_File: \<^verbatim>\<open>loc_file\<close>. \<^verbatim>\<open>poll_round\<close> is one turn of its thread: the queued tasks, then the monitors for
    existence, change and children, on the six maps of the object and a model of the file system. Lemmas:
    a round calls no empty function and keeps the maps well formed unless a monitor is removed in it;
    the existence monitor reports exactly what changed; a monitor removed in the round that finds a change ends
    the process later.
  \<^item> Cppzk: \<^verbatim>\<open>zk::cppzk\<close>. \<^verbatim>\<open>create_path\<close>, \<^verbatim>\<open>delete_path\<close>, \<^verbatim>\<open>get_path_value\<close>, \<^verbatim>\<open>remove_watches\<close> and their
    asynchronous chains of completions. Lemmas: all prefixes and the path are created, a deletion removes
    exactly the subtree, both forms agree, and the two operations that do not do what they mean to.
  \<^item> Config_Monitor: the watches of \<^verbatim>\<open>cm::config_monitor\<close>. The callbacks of \<^verbatim>\<open>watch_path\<close> run against a server that
    may change the node at any time, requests and answers being on their way, as a labelled step relation;
    the invariant \<^verbatim>\<open>watch_inv\<close>, with the phases of the conversation, gives: a watch is always armed or being renewed, the last
    value told is the current one when everything is quiet, except after a lost request. Session expiry
    sets all recorded watches again; a new child is monitored once.
  \<^item> Cm_Facade: the other methods of the interface and the synchronous removal of watches, which returns
    while the client accepts requests and waits forever when it does not.

  \<^bold>\<open>Data of the C client.\<close>
  \<^item> Zk_Prelude, Zk_Const: machine types, \<^verbatim>\<open>exec\<close>, strings, and the numbers of \<^verbatim>\<open>zookeeper.h\<close> and \<^verbatim>\<open>proto.h\<close>.
  \<^item> Hashtable: \<^verbatim>\<open>hashtable.c\<close> and its iterator, with every allocation failure. It refines a finite map;
    the locale \<^verbatim>\<open>keyed_store\<close> is what the watch tables rely on, interpreted there on the model's operations.
  \<^item> Watch_Table: \<^verbatim>\<open>zk_hashtable.c\<close>, the three tables of watchers. An event takes exactly the watchers of its
    path out of the tables that its type selects, each once; removal and clean-up are exact.
  \<^item> Record_IO, Jute, Jute_Total: \<^verbatim>\<open>recordio.c\<close> and the records of \<^verbatim>\<open>zookeeper.jute.c\<close>. The locale \<^verbatim>\<open>codec\<close> says
    that what is written is read back, \<^verbatim>\<open>safe_reader\<close> that no bytes make reading undefined, \<^verbatim>\<open>total_codec\<close> that
    writing succeeds; every primitive and record is an interpretation.
  \<^item> Addrvec, Reconfig, Zk_Resolve: the list of servers, the choice of the next one, \<^verbatim>\<open>resolve_hosts\<close>. Reconfig
    mode tries every server once; resolving yields exactly the addresses of the entries, and resolving again
    changes nothing.
  \<^item> Zk_Path: chroot, path validation. \<^verbatim>\<open>isValidPath\<close> decides a condition on the components of a path.
  \<^item> Zk_Queue: the linked queues of \<^verbatim>\<open>zookeeper.c\<close> on a store of nodes. The locale \<^verbatim>\<open>list_queue\<close>, interpreted for
    both kinds of queue, is the reason why the later theories treat them as lists.

  \<^bold>\<open>Operations of the C client.\<close>
  \<^item> Zk_Frame: \<^verbatim>\<open>send_buffer\<close>, \<^verbatim>\<open>recv_buffer\<close>, the formats of the handshake: a packet arrives whole however it is cut.
  \<^item> Zk_Session: \<^verbatim>\<open>struct _zhandle\<close> as the record \<^verbatim>\<open>session\<close>, and \<^verbatim>\<open>handle_error\<close> with all it calls: a lost
    connection completes every outstanding request once, with the reason.
  \<^item> Zk_Connection: \<^verbatim>\<open>zookeeper_init\<close>, \<^verbatim>\<open>zookeeper_interest\<close>, \<^verbatim>\<open>check_events\<close>, \<^verbatim>\<open>flush_send_queue\<close>, pings, the
    handshake: what leaves is a prefix of what was queued, and a granted handshake establishes the session.
  \<^item> Zk_Process: \<^verbatim>\<open>zookeeper_process\<close>, \<^verbatim>\<open>process_completions\<close> and what they call. Zk_Delivery has no code of its own: replies
    complete requests in order and the packets that lead to undefined behaviour.
  \<^item> Zk_Api, Zk_Sync_Api: the asynchronous and the synchronous requests, and \<^verbatim>\<open>zookeeper_close\<close>. A synchronous request is cut at its wait.
    Zk_Client and Zk_Multi show what requests queue, and follow a multi request to the results of the user.
  \<^item> Zk_Runs: all runs of the client as the inductive relation \<^verbatim>\<open>client_step\<close> (requests, packets sent, replies,
    events, lost connections, completions, closing) with the invariant \<^verbatim>\<open>client_inv\<close>: the packets still to be sent
    belong to the youngest requests, and a caller sleeps exactly as long as its request is outstanding.
  \<^item> Zk_Io: the loops \<^verbatim>\<open>do_io\<close> and \<^verbatim>\<open>do_completion\<close>; a get request goes over the wire and back to its user.
  \<^item> Zk_Life: the reference counter, the start, the joins and the close of a handle as steps of three threads
    that interleave: no use after free and no deadlock, unless a user closes the handle from a thread of
    their own.

  \<^bold>\<open>Components that interact.\<close> Session (packets, requests) extends the record of servers, which extends that of
  the watch tables, as in \<^verbatim>\<open>struct _zhandle\<close>; a theory that handles a part is polymorphic in the rest.
  Undefined behaviour of a callee is that of its caller (\<^verbatim>\<open>bind_exec\<close>). The properties that span components
  are in Zk_Runs, Zk_Multi, Zk_Io (the C client), Config_Monitor and Cm_Facade (the library).

  \<^bold>\<open>Bounds and fuel.\<close> A loop over the results of system calls is a recursion over the list of these results; the
  theorems quantify over the list, and over the number of rounds (\<^verbatim>\<open>length pos = n\<close> in Zk_Io), so that no
  fuel runs out. Other loops are structural or have a measure; \<^verbatim>\<open>sub_loop\<close> of Cppzk, which ends
  only on a finite tree, is a partial function whose termination on such trees is proved. Messages are
  below 2^29 bytes when they are written (beyond, doubling the block of an archive can overflow) and below 2^30
  when they are read; a watch table has room for one more watcher (\<^verbatim>\<open>watch_space\<close>: the list of primes of the
  hash table ends at 1610612741); an address vector stays below 2^32 slots. \<^verbatim>\<open>env_ok\<close> says that memory lasts; the
  definitions have the other branches as well.

  \<^bold>\<open>Not modelled.\<close> \<^verbatim>\<open>cli.c\<close> and \<^verbatim>\<open>load_gen.c\<close> (programs on top of the client), \<^verbatim>\<open>zk_log.c\<close> and all log output, \<^verbatim>\<open>winport.c\<close>
  and the Windows branches, the branches for OpenSSL (not compiled in without its headers), \<^verbatim>\<open>st_adaptor.c\<close> (the
  build without threads), the creation of mutexes, pipes and sockets, and the locks: each critical section is one
  step of the model. The tests with the vendored GoogleTest are left out. User code that runs in a
  callback and calls the client is an operation that follows the callback, except for the close of a handle in Zk_Life.
  \<^verbatim>\<open>get_client_ip\<close> and the environment report only print. The etcd provider is declared but not part of the sources.
\<close>

end
